(* ===== verification/Prelude.thy ===== *)
theory Prelude
  imports Complex_Main "HOL-Library.Word"
begin

text \<open>
  Shared vocabulary of the development: the error type that stands for every way the C++ code can
  stop (a LOG(FATAL), a thrown exception, undefined behaviour), the result type of fallible
  operations with its bind, bytes and big-endian fields, and the list facts the components share.
\<close>

unbundle bit_operations_syntax

section \<open>Errors and results\<close>

text \<open>
  LOG(FATAL) aborts the process: \<open>Fatal\<close> with the beginning of its message. \<open>OutOfRange\<close> is
  std::out_of_range (thrown by at()), \<open>InvalidArgument\<close> is std::invalid_argument, \<open>BadOptional\<close> is
  std::bad_optional_access, \<open>HTTPParse\<close> and \<open>NoConnection\<close> are the exceptions of connection.h. \<open>Undefined\<close>
  marks a place where C++ gives the program no meaning (a division by zero, a read outside an
  array, a null dereference).
\<close>

datatype error =
    Fatal string
  | OutOfRange
  | InvalidArgument string
  | HTTPParse string
  | NoConnection string
  | BadOptional
  | Undefined string

type_synonym 'a result = "error + 'a"

named_theorems result_simps \<open>evaluation of bind on results\<close>
named_theorems inv_intros \<open>invariant preservation facts\<close>

definition bindR :: "'e + 'a \<Rightarrow> ('a \<Rightarrow> 'e + 'b) \<Rightarrow> 'e + 'b" where
  "bindR r f = (case r of Inl e \<Rightarrow> Inl e | Inr a \<Rightarrow> f a)"

lemma bindR_Inl [simp, result_simps]: "bindR (Inl e) f = Inl e"
  by (simp add: bindR_def)

lemma bindR_Inr [simp, result_simps]: "bindR (Inr a) f = f a"
  by (simp add: bindR_def)

lemma bindR_eq_Inr [simp]: "bindR r f = Inr b \<longleftrightarrow> (\<exists>a. r = Inr a \<and> f a = Inr b)"
  by (cases r) auto

lemma bindR_eq_Inl: "bindR r f = Inl e \<longleftrightarrow> r = Inl e \<or> (\<exists>a. r = Inr a \<and> f a = Inl e)"
  by (cases r) auto

lemma bindR_assoc: "bindR (bindR r f) g = bindR r (\<lambda>x. bindR (f x) g)"
  by (cases r) simp_all

definition ensure :: "bool \<Rightarrow> error \<Rightarrow> unit result" where
  "ensure b e = (if b then Inr () else Inl e)"

lemma ensure_True [simp, result_simps]: "ensure True e = Inr ()"
  by (simp add: ensure_def)

lemma ensure_False [simp, result_simps]: "ensure False e = Inl e"
  by (simp add: ensure_def)

lemma ensure_eq_Inr [simp]: "ensure b e = Inr u \<longleftrightarrow> b"
  by (simp add: ensure_def)

text \<open>A checked read \<open>v.at(i)\<close> of a std::vector or std::array.\<close>

definition vec_at :: "'a list \<Rightarrow> nat \<Rightarrow> 'a result" where
  "vec_at xs i = (if i < length xs then Inr (xs ! i) else Inl OutOfRange)"

lemma vec_at_in [simp]: "i < length xs \<Longrightarrow> vec_at xs i = Inr (xs ! i)"
  by (simp add: vec_at_def)

lemma vec_at_eq_Inr: "vec_at xs i = Inr x \<longleftrightarrow> i < length xs \<and> x = xs ! i"
  by (auto simp: vec_at_def)

text \<open>The conversion of a signed integer to size_t.\<close>

definition size_t_of :: "int \<Rightarrow> nat" where
  "size_t_of i = nat (i mod 2 ^ 64)"

lemma size_t_of_nat [simp]: "0 \<le> i \<Longrightarrow> i < 2 ^ 64 \<Longrightarrow> size_t_of i = nat i"
  by (simp add: size_t_of_def)

text \<open>\<open>m.at(k)\<close> of a std::map or std::unordered_map.\<close>

definition map_at :: "('k \<rightharpoonup> 'v) \<Rightarrow> 'k \<Rightarrow> 'v result" where
  "map_at m k = (case m k of None \<Rightarrow> Inl OutOfRange | Some v \<Rightarrow> Inr v)"

lemma map_at_Some [simp]: "m k = Some v \<Longrightarrow> map_at m k = Inr v"
  by (simp add: map_at_def)

lemma map_at_None [simp]: "m k = None \<Longrightarrow> map_at m k = Inl OutOfRange"
  by (simp add: map_at_def)

lemma map_at_eq_Inr [simp]: "map_at m k = Inr v \<longleftrightarrow> m k = Some v"
  by (simp add: map_at_def split: option.splits)

text \<open>std::optional: \<open>value_or(d)\<close> and the throwing \<open>value()\<close>.\<close>

definition value_or :: "'a option \<Rightarrow> 'a \<Rightarrow> 'a" where
  "value_or x d = (case x of Some v \<Rightarrow> v | None \<Rightarrow> d)"

lemma value_or_simps [simp]: "value_or (Some v) d = v" "value_or None d = d"
  by (simp_all add: value_or_def)

definition opt_value :: "'a option \<Rightarrow> 'a result" where
  "opt_value x = (case x of Some v \<Rightarrow> Inr v | None \<Rightarrow> Inl BadOptional)"

lemma opt_value_simps [simp]: "opt_value (Some v) = Inr v" "opt_value None = Inl BadOptional"
  by (simp_all add: opt_value_def)

text \<open>A for loop whose body can stop.\<close>

fun foldR :: "('a \<Rightarrow> 's \<Rightarrow> 'e + 's) \<Rightarrow> 'a list \<Rightarrow> 's \<Rightarrow> 'e + 's" where
  "foldR f [] s = Inr s"
| "foldR f (x # xs) s = bindR (f x s) (foldR f xs)"

lemma foldR_append: "foldR f (xs @ ys) s = bindR (foldR f xs s) (foldR f ys)"
  by (induction xs arbitrary: s) (simp_all add: bindR_def split: sum.splits)

lemma foldR_inv:
  assumes "P s" "\<And>x s s'. x \<in> set xs \<Longrightarrow> P s \<Longrightarrow> f x s = Inr s' \<Longrightarrow> P s'" "foldR f xs s = Inr s'"
  shows "P s'"
  using assms by (induction xs arbitrary: s) auto

lemma foldR_total:
  assumes "P s" "\<And>x s. x \<in> set xs \<Longrightarrow> P s \<Longrightarrow> \<exists>s'. f x s = Inr s' \<and> P s'"
  shows "\<exists>s'. foldR f xs s = Inr s' \<and> P s'"
  using assms by (induction xs arbitrary: s) (auto, fastforce)

text \<open>The conversion of a floating point value to an integer drops the fraction.\<close>

definition trunc :: "real \<Rightarrow> int" where
  "trunc x = (if 0 \<le> x then \<lfloor>x\<rfloor> else \<lceil>x\<rceil>)"

section \<open>Integers of 32 bits\<close>

text \<open>The conversion to int32_t wraps; the arithmetic of int has no meaning outside the range.\<close>

definition to_int32 :: "int \<Rightarrow> int" where
  "to_int32 x = sint (of_int x :: 32 word)"

definition as_int32 :: "int \<Rightarrow> int result" where
  "as_int32 x = (if - (2 ^ 31) \<le> x \<and> x < 2 ^ 31 then Inr x else Inl (Undefined ''signed overflow''))"

lemma sint_of_int_id: "- (2 ^ (LENGTH('a) - 1)) \<le> x \<Longrightarrow> x < 2 ^ (LENGTH('a) - 1) \<Longrightarrow> sint (of_int x :: 'a::len word) = x"
  by (simp add: sint_sbintrunc' signed_take_bit_int_eq_self)

lemma as_int32_in: "- (2 ^ 31) \<le> x \<Longrightarrow> x < 2 ^ 31 \<Longrightarrow> as_int32 x = Inr x"
  by (simp add: as_int32_def)

lemma as_int32_eq_Inr: "as_int32 x = Inr y \<longleftrightarrow> y = x \<and> - (2 ^ 31) \<le> x \<and> x < 2 ^ 31"
  by (auto simp: as_int32_def)

lemma to_int32_in: "- (2 ^ 31) \<le> x \<Longrightarrow> x < 2 ^ 31 \<Longrightarrow> to_int32 x = x"
  by (simp add: to_int32_def sint_of_int_id)

lemma to_int32_range: "- (2 ^ 31) \<le> to_int32 x \<and> to_int32 x < 2 ^ 31"
  using sint_range_size [of "of_int x :: 32 word"] by (simp add: to_int32_def word_size)

section \<open>Floating point values\<close>

text \<open>
  A float is a real number, an infinity or no number at all. Rounding is not modelled, and zero has no sign:
  a division by zero takes the sign of the numerator. \<open>Infinite True\<close> is the negative infinity.
\<close>

datatype floating = Finite real | Infinite bool | NaN

fun flt_less :: "floating \<Rightarrow> floating \<Rightarrow> bool" where
  "flt_less (Finite x) (Finite y) = (x < y)"
| "flt_less (Finite x) (Infinite n) = (\<not> n)"
| "flt_less (Infinite n) (Finite y) = n"
| "flt_less (Infinite n) (Infinite m) = (n \<and> \<not> m)"
| "flt_less NaN y = False"
| "flt_less x NaN = False"

fun flt_neg :: "floating \<Rightarrow> floating" where
  "flt_neg (Finite x) = Finite (- x)"
| "flt_neg (Infinite n) = Infinite (\<not> n)"
| "flt_neg NaN = NaN"

fun flt_mult :: "floating \<Rightarrow> floating \<Rightarrow> floating" where
  "flt_mult (Finite x) (Finite y) = Finite (x * y)"
| "flt_mult (Finite x) (Infinite n) = (if x = 0 then NaN else Infinite (n \<noteq> (x < 0)))"
| "flt_mult (Infinite n) (Finite y) = (if y = 0 then NaN else Infinite (n \<noteq> (y < 0)))"
| "flt_mult (Infinite n) (Infinite m) = Infinite (n \<noteq> m)"
| "flt_mult NaN y = NaN"
| "flt_mult x NaN = NaN"

fun flt_div :: "floating \<Rightarrow> floating \<Rightarrow> floating" where
  "flt_div (Finite x) (Finite y) =
     (if y \<noteq> 0 then Finite (x / y) else if x = 0 then NaN else Infinite (x < 0))"
| "flt_div (Finite x) (Infinite n) = Finite 0"
| "flt_div (Infinite n) (Finite y) = Infinite (n \<noteq> (y < 0))"
| "flt_div (Infinite n) (Infinite m) = NaN"
| "flt_div NaN y = NaN"
| "flt_div x NaN = NaN"

fun flt_ceil :: "floating \<Rightarrow> floating" where
  "flt_ceil (Finite x) = Finite (of_int \<lceil>x\<rceil>)"
| "flt_ceil x = x"

text \<open>\<open>std::max(a, b)\<close>\<close>

definition flt_max :: "floating \<Rightarrow> floating \<Rightarrow> floating" where
  "flt_max a b = (if flt_less a b then b else a)"

text \<open>The casts to integers have no meaning outside the range of the target.\<close>

definition float_to_int32 :: "floating \<Rightarrow> int result" where
  "float_to_int32 x =
     (case x of
        Finite r \<Rightarrow>
          (if - (2 ^ 31) \<le> trunc r \<and> trunc r < 2 ^ 31 then Inr (trunc r) else Inl (Undefined ''float outside int32_t''))
      | _ \<Rightarrow> Inl (Undefined ''float outside int32_t''))"

definition to_size_t :: "floating \<Rightarrow> nat result" where
  "to_size_t x =
     (case x of
        Finite r \<Rightarrow> (if -1 < r \<and> r < 2 ^ 64 then Inr (nat (trunc r)) else Inl (Undefined ''float outside size_t''))
      | _ \<Rightarrow> Inl (Undefined ''float outside size_t''))"

lemma to_size_t_int: "0 \<le> n \<Longrightarrow> n < 2 ^ 64 \<Longrightarrow> to_size_t (Finite (of_int n)) = Inr (nat n)"
  by (simp add: to_size_t_def trunc_def)

section \<open>Bytes\<close>

type_synonym byte = "8 word"

definition byte_of :: "char \<Rightarrow> byte" where
  "byte_of c = of_nat (of_char c)"

definition char_of_byte :: "byte \<Rightarrow> char" where
  "char_of_byte b = char_of (unat b)"

definition bytes :: "string \<Rightarrow> byte list" where
  "bytes s = map byte_of s"

definition chars :: "byte list \<Rightarrow> string" where
  "chars bs = map char_of_byte bs"

lemma of_char_less_256: "(of_char c :: nat) < 256"
  by (cases c) (simp add: of_char_def)

lemma char_of_byte_of [simp]: "char_of_byte (byte_of c) = c"
  using of_char_less_256 [of c] by (simp add: char_of_byte_def byte_of_def unat_of_nat)

lemma byte_of_char_of_byte [simp]: "byte_of (char_of_byte b) = b"
proof -
  have "unat b < 256" using unsigned_less [of b] by simp
  then have "(of_char (char_of (unat b) :: char) :: nat) = unat b"
    by (simp add: of_char_of)
  then show ?thesis by (simp add: char_of_byte_def byte_of_def)
qed

lemma chars_bytes [simp]: "chars (bytes s) = s"
  by (simp add: chars_def bytes_def comp_def)

lemma bytes_chars [simp]: "bytes (chars bs) = bs"
  by (simp add: chars_def bytes_def comp_def)

lemma length_bytes [simp]: "length (bytes s) = length s"
  by (simp add: bytes_def)

lemma length_chars [simp]: "length (chars s) = length s"
  by (simp add: chars_def)

lemma bytes_inject [simp]: "bytes s = bytes t \<longleftrightarrow> s = t"
  by (metis chars_bytes)

section \<open>Lists\<close>

text \<open>std::copy_n to the start of an existing array, and to an offset in it.\<close>

definition write_at :: "'a list \<Rightarrow> nat \<Rightarrow> 'a list \<Rightarrow> 'a list" where
  "write_at dst off src = take off dst @ src @ drop (off + length src) dst"

lemma length_write_at [simp]:
  "off + length src \<le> length dst \<Longrightarrow> length (write_at dst off src) = length dst"
  by (simp add: write_at_def)

lemma take_write_at [simp]:
  "off + length src \<le> length dst \<Longrightarrow> take (off + length src) (write_at dst off src) = take off dst @ src"
  by (simp add: write_at_def)

lemma take_write_at_0 [simp]:
  "length src \<le> length dst \<Longrightarrow> take (length src) (write_at dst 0 src) = src"
  by (simp add: write_at_def)

lemma nth_write_at_0:
  "length src \<le> length dst \<Longrightarrow> i < length dst \<Longrightarrow>
   write_at dst 0 src ! i = (if i < length src then src ! i else dst ! i)"
  by (simp add: write_at_def nth_append)

lemma sum_update:
  fixes f :: "'a \<Rightarrow> 'b::ab_group_add"
  assumes "finite A" and "k \<in> A"
  shows "(\<Sum>x\<in>A. (f(k := v)) x) = (\<Sum>x\<in>A. f x) - f k + v"
proof -
  have "(\<Sum>x\<in>A. (f(k := v)) x) = (f(k := v)) k + (\<Sum>x\<in>A - {k}. (f(k := v)) x)"
    using assms by (rule sum.remove)
  also have "(\<Sum>x\<in>A - {k}. (f(k := v)) x) = (\<Sum>x\<in>A - {k}. f x)"
    by (rule sum.cong) auto
  also have "\<dots> = (\<Sum>x\<in>A. f x) - f k"
    using sum.remove [OF assms, of f] by simp
  finally show ?thesis by simp
qed

lemma sum_update_nat:
  fixes f :: "'a \<Rightarrow> nat"
  assumes "finite A" and "k \<in> A"
  shows "(\<Sum>x\<in>A. (f(k := v)) x) + f k = (\<Sum>x\<in>A. f x) + v"
proof -
  have "(\<Sum>x\<in>A. (f(k := v)) x) = (f(k := v)) k + (\<Sum>x\<in>A - {k}. (f(k := v)) x)"
    using assms by (rule sum.remove)
  also have "(\<Sum>x\<in>A - {k}. (f(k := v)) x) = (\<Sum>x\<in>A - {k}. f x)"
    by (rule sum.cong) auto
  finally show ?thesis
    using sum.remove [OF assms, of f] by simp
qed

end
