(* ===== verification/Fast_Map.thy ===== *)
theory Fast_Map
  imports Prelude
begin

text \<open>
  The keyed cells of include/fast_map.hpp: the FNV-1a hash with its finalizer, the class template
  LocalMap (an open table without chaining, built once by a search for a seed that separates the
  keys) and its circular iterator. Lookups return the slot index, as the code returns a pointer
  into the slot array. size_t values are \<open>nat\<close> except for \<open>mask_\<close>, whose value size_t(-1) is a
  sentinel, and the hash, which wraps in 64 bits.
\<close>

section \<open>The hash\<close>

definition fnv_round :: "64 word \<Rightarrow> char \<Rightarrow> 64 word" where
  "fnv_round h c = (h XOR of_nat (of_char c)) * 1099511628211"

definition fnv1a64 :: "string \<Rightarrow> 64 word \<Rightarrow> 64 word" where
  "fnv1a64 s seed =
     (let h = foldl fnv_round (1469598103934665603 XOR seed) s;
          h = h XOR drop_bit 33 h;
          h = h * 0xff51afd7ed558ccd;
          h = h XOR drop_bit 33 h;
          h = h * 0xc4ceb9fe1a85ec53
      in h XOR drop_bit 33 h)"

section \<open>Slots and the map\<close>

record 'v local_slot =
  slot_key :: string
  slot_len :: "32 word"
  slot_fp :: "64 word"
  slot_value :: 'v

definition occupied :: "'v local_slot \<Rightarrow> bool" where
  "occupied s \<longleftrightarrow> slot_len s \<noteq> 0"

definition empty_slot :: "'v \<Rightarrow> 'v local_slot" where
  "empty_slot d = \<lparr>slot_key = '''', slot_len = 0, slot_fp = 0, slot_value = d\<rparr>"

record 'v local_map =
  lm_slots :: "'v local_slot list"
  lm_seed :: "64 word"
  lm_size :: nat
  lm_mask :: "64 word"

text \<open>The members before any constructor ran; and the map that the empty key list builds.\<close>

definition lm_raw :: "'v local_map" where
  "lm_raw = \<lparr>lm_slots = [], lm_seed = 0, lm_size = 0, lm_mask = 0\<rparr>"

definition lm_no_keys :: "'v local_map" where
  "lm_no_keys = \<lparr>lm_slots = [], lm_seed = 0, lm_size = 0, lm_mask = -1\<rparr>"

section \<open>Building\<close>

definition is_pow2 :: "nat \<Rightarrow> bool" where
  "is_pow2 cap \<longleftrightarrow> (of_nat cap :: 64 word) AND (of_nat cap - 1) = 0"

definition slot_index :: "nat \<Rightarrow> 64 word \<Rightarrow> nat" where
  "slot_index cap h =
     (if is_pow2 cap then unat (h AND (of_nat cap - 1)) else unat h mod cap)"

text \<open>The loop of try_build over the keys: \<open>None\<close> is the return of false at a collision.\<close>

fun fill_slots :: "nat \<Rightarrow> 64 word \<Rightarrow> string list \<Rightarrow> 'v local_slot list \<Rightarrow> 'v local_slot list option" where
  "fill_slots cap seed [] tmp = Some tmp"
| "fill_slots cap seed (k # ks) tmp =
     (let h = fnv1a64 k seed; idx = slot_index cap h
      in if occupied (tmp ! idx) then None
         else fill_slots cap seed ks
                (tmp[idx := (tmp ! idx)\<lparr>slot_key := k, slot_len := of_nat (length k), slot_fp := h\<rparr>]))"

definition try_build :: "'v \<Rightarrow> string list \<Rightarrow> nat \<Rightarrow> nat \<Rightarrow> 64 word \<Rightarrow> 'v local_map \<Rightarrow> 'v local_map option" where
  "try_build d ks K cap seed m =
     (case fill_slots cap seed ks (replicate cap (empty_slot d)) of
        None \<Rightarrow> None
      | Some tmp \<Rightarrow>
          Some (m\<lparr>lm_slots := tmp,
                  lm_mask := (if is_pow2 cap then of_nat cap - 1 else -1),
                  lm_size := K\<rparr>))"

text \<open>
  The loop over \<open>trial\<close>: \<open>n\<close> trials are left. On success the seed that worked is stored.
\<close>

fun seed_search :: "'v \<Rightarrow> string list \<Rightarrow> nat \<Rightarrow> nat \<Rightarrow> nat \<Rightarrow> nat \<Rightarrow> 'v local_map \<Rightarrow> 'v local_map option" where
  "seed_search d ks K cap trial 0 m = None"
| "seed_search d ks K cap trial (Suc n) m =
     (case try_build d ks K cap (of_nat trial) m of
        Some m' \<Rightarrow> Some (m'\<lparr>lm_seed := of_nat trial\<rparr>)
      | None \<Rightarrow> seed_search d ks K cap (Suc trial) n m)"

text \<open>\<open>while (cap < 2 * K) cap <<= 1;\<close>\<close>

function grow_cap :: "nat \<Rightarrow> nat \<Rightarrow> nat" where
  "grow_cap cap K = (if 0 < cap \<and> cap < 2 * K then grow_cap (2 * cap) K else cap)"
  by pat_completeness auto
termination
  by (relation "measure (\<lambda>(cap, K). 2 * K - cap)") auto

declare grow_cap.simps [simp del]

definition lm_construct :: "'v \<Rightarrow> string list \<Rightarrow> 'v local_map result" where
  "lm_construct d ks =
     (if ks = [] then Inr lm_no_keys
      else if \<not> distinct ks then Inl (InvalidArgument ''duplicate key'')
      else
        let K = length ks in
        (case seed_search d ks K K 0 100000 lm_raw of
           Some m \<Rightarrow> Inr m
         | None \<Rightarrow>
             (case seed_search d ks K (grow_cap 1 K) 0 100000 lm_raw of
                Some m \<Rightarrow> Inr m
              | None \<Rightarrow> Inr lm_raw)))"

section \<open>Access\<close>

definition probe :: "'v local_map \<Rightarrow> string \<Rightarrow> nat result" where
  "probe m k =
     (let h = fnv1a64 k (lm_seed m) in
      if lm_mask m \<noteq> -1 then Inr (unat (h AND lm_mask m))
      else if lm_size m = 0 then Inl (Undefined ''h % size_ with size_ = 0'')
      else Inr (unat h mod lm_size m))"

definition slot_equals :: "'v local_slot \<Rightarrow> string \<Rightarrow> bool" where
  "slot_equals s k \<longleftrightarrow>
     unat (slot_len s) = length k \<and> occupied s \<and>
     take (unat (slot_len s)) k = take (unat (slot_len s)) (slot_key s)"

definition find_ptr :: "'v local_map \<Rightarrow> string \<Rightarrow> nat option result" where
  "find_ptr m k =
     bindR (probe m k) (\<lambda>idx.
       if idx < length (lm_slots m)
       then Inr (if slot_equals (lm_slots m ! idx) k then Some idx else None)
       else Inl (Undefined ''slots_[idx] out of bounds''))"

definition lm_get :: "'v local_map \<Rightarrow> string \<Rightarrow> 'v result" where
  "lm_get m k =
     bindR (find_ptr m k) (\<lambda>p. case p of
         Some idx \<Rightarrow> Inr (slot_value (lm_slots m ! idx))
       | None \<Rightarrow> Inl (Fatal ''LocalMap key not found''))"

definition store_at :: "'v local_map \<Rightarrow> nat \<Rightarrow> 'v \<Rightarrow> 'v local_map" where
  "store_at m idx v = m\<lparr>lm_slots := (lm_slots m)[idx := (lm_slots m ! idx)\<lparr>slot_value := v\<rparr>]\<rparr>"

definition lm_set :: "'v local_map \<Rightarrow> string \<Rightarrow> 'v \<Rightarrow> 'v local_map result" where
  "lm_set m k v =
     bindR (find_ptr m k) (\<lambda>p. case p of
         Some idx \<Rightarrow> Inr (store_at m idx v)
       | None \<Rightarrow> Inl (Fatal ''LocalMap key not found for set operation''))"

definition lm_add :: "'v::plus local_map \<Rightarrow> string \<Rightarrow> 'v \<Rightarrow> 'v local_map result" where
  "lm_add m k delta =
     bindR (find_ptr m k) (\<lambda>p. case p of
         Some idx \<Rightarrow> Inr (store_at m idx (slot_value (lm_slots m ! idx) + delta))
       | None \<Rightarrow> Inl (Fatal ''LocalMap key not found for add operation''))"

text \<open>An assignment through the reference that \<open>get\<close> returns, such as \<open>get(k)++\<close>.\<close>

definition lm_update :: "'v local_map \<Rightarrow> string \<Rightarrow> ('v \<Rightarrow> 'v) \<Rightarrow> 'v local_map result" where
  "lm_update m k f = bindR (lm_get m k) (\<lambda>v. lm_set m k (f v))"

definition npos :: nat where
  "npos = 2 ^ 64 - 1"

definition index_of :: "'v local_map \<Rightarrow> string \<Rightarrow> nat result" where
  "index_of m k = bindR (find_ptr m k) (\<lambda>p. Inr (case p of Some idx \<Rightarrow> idx | None \<Rightarrow> npos))"

definition get_key :: "'v local_map \<Rightarrow> string \<Rightarrow> string result" where
  "get_key m k =
     bindR (find_ptr m k) (\<lambda>p. case p of
         Some idx \<Rightarrow> Inr (slot_key (lm_slots m ! idx))
       | None \<Rightarrow> Inl (Fatal ''LocalMap key not found for get_key operation''))"

definition get_all_indices :: "'v local_map \<Rightarrow> nat list" where
  "get_all_indices m = filter (\<lambda>i. occupied (lm_slots m ! i)) [0..<length (lm_slots m)]"

definition get_all_keys :: "'v local_map \<Rightarrow> string list" where
  "get_all_keys m = map slot_key (filter occupied (lm_slots m))"

definition for_each_occupied_index :: "(nat \<Rightarrow> 's \<Rightarrow> 's) \<Rightarrow> 'v local_map \<Rightarrow> 's \<Rightarrow> 's" where
  "for_each_occupied_index func m st = fold func (get_all_indices m) st"

section \<open>The circular iterator\<close>

text \<open>
  An iterator is its index. \<open>skip_loop\<close> is the while loop of skip_empty; it returns to \<open>start\<close>
  after at most as many steps as there are slots, so that many are given to it.
\<close>

fun skip_loop :: "'v local_slot list \<Rightarrow> nat \<Rightarrow> nat \<Rightarrow> nat \<Rightarrow> nat" where
  "skip_loop slots start idx 0 = idx"
| "skip_loop slots start idx (Suc n) =
     (if idx < length slots \<and> \<not> occupied (slots ! idx)
      then (let i = Suc idx; i = (if i \<ge> length slots then 0 else i)
            in if i = start then i else skip_loop slots start i n)
      else idx)"

definition skip_empty :: "'v local_map \<Rightarrow> nat \<Rightarrow> nat" where
  "skip_empty m idx =
     (if lm_slots m = [] then idx
      else let idx = (if idx \<ge> length (lm_slots m) then 0 else idx)
           in skip_loop (lm_slots m) idx idx (length (lm_slots m)))"

definition it_begin :: "'v local_map \<Rightarrow> nat" where
  "it_begin m = skip_empty m 0"

definition it_next :: "'v local_map \<Rightarrow> nat \<Rightarrow> nat" where
  "it_next m idx = (if lm_slots m = [] then idx else skip_empty m (Suc idx))"

section \<open>The table invariant and its abstraction\<close>

text \<open>
  Every occupied slot sits at the index its key hashes to, so a key is found by one probe. The
  abstraction \<open>lm_map\<close> reads the table as a partial function from keys to values.
\<close>

definition slot_ok :: "nat \<Rightarrow> 64 word \<Rightarrow> nat \<Rightarrow> 'v local_slot \<Rightarrow> bool" where
  "slot_ok cap seed i s \<longleftrightarrow>
     (occupied s \<longrightarrow> slot_key s \<noteq> [] \<and> unat (slot_len s) = length (slot_key s) \<and>
        slot_index cap (fnv1a64 (slot_key s) seed) = i)"

definition slots_ok :: "nat \<Rightarrow> 64 word \<Rightarrow> 'v local_slot list \<Rightarrow> bool" where
  "slots_ok cap seed slots \<longleftrightarrow> length slots = cap \<and> (\<forall>i<cap. slot_ok cap seed i (slots ! i))"

definition lm_inv :: "'v local_map \<Rightarrow> bool" where
  "lm_inv m \<longleftrightarrow>
     (let cap = length (lm_slots m) in
      0 < cap \<and> cap < 2 ^ 64 \<and>
      lm_mask m = (if is_pow2 cap then of_nat cap - 1 else -1) \<and>
      (is_pow2 cap \<or> lm_size m = cap) \<and>
      slots_ok cap (lm_seed m) (lm_slots m))"

definition slot_keys :: "'v local_slot list \<Rightarrow> string set" where
  "slot_keys slots = slot_key ` {s \<in> set slots. occupied s}"

definition lm_map :: "'v local_map \<Rightarrow> string \<rightharpoonup> 'v" where
  "lm_map m k = (case find_ptr m k of
       Inr (Some idx) \<Rightarrow> Some (slot_value (lm_slots m ! idx)) | _ \<Rightarrow> None)"

lemma slot_index_less: "0 < cap \<Longrightarrow> cap < 2 ^ 64 \<Longrightarrow> slot_index cap h < cap"
proof -
  assume "0 < cap" "cap < 2 ^ 64"
  have "unat (h AND (of_nat cap - 1)) \<le> unat (of_nat cap - 1 :: 64 word)"
    by (rule word_and_le1 [THEN word_le_nat_alt [THEN iffD1]])
  also have "(of_nat cap - 1 :: 64 word) = of_nat (cap - 1)"
    using \<open>0 < cap\<close> by (simp add: of_nat_diff)
  also have "unat (of_nat (cap - 1) :: 64 word) = cap - 1"
    using \<open>cap < 2 ^ 64\<close> by (simp add: unat_of_nat)
  finally show ?thesis
    using \<open>0 < cap\<close> by (auto simp: slot_index_def)
qed

lemma lm_inv_probe:
  assumes "lm_inv m"
  shows "probe m k = Inr (slot_index (length (lm_slots m)) (fnv1a64 k (lm_seed m)))"
proof -
  let ?cap = "length (lm_slots m)"
  from assms have cap: "0 < ?cap" "?cap < 2 ^ 64"
    and mask: "lm_mask m = (if is_pow2 ?cap then of_nat ?cap - 1 else -1)"
    and size: "is_pow2 ?cap \<or> lm_size m = ?cap"
    by (auto simp: lm_inv_def Let_def)
  have "(of_nat ?cap :: 64 word) \<noteq> 0"
    using cap by (auto simp: of_nat_eq_0_iff word_eq_iff_unsigned unat_of_nat dest: arg_cong [where f = unat])
  then have "(of_nat ?cap - 1 :: 64 word) \<noteq> -1" by simp
  with mask size cap show ?thesis
    by (auto simp: probe_def Let_def slot_index_def)
qed

lemma lm_inv_index:
  "lm_inv m \<Longrightarrow> slot_index (length (lm_slots m)) h < length (lm_slots m)"
  by (rule slot_index_less) (auto simp: lm_inv_def Let_def)

lemma slot_equals_iff:
  assumes "slot_ok cap seed i s"
  shows "slot_equals s k \<longleftrightarrow> occupied s \<and> slot_key s = k"
  using assms by (auto simp: slot_equals_def slot_ok_def)

lemma lm_inv_find_ptr:
  assumes "lm_inv m"
  shows "find_ptr m k =
    (let i = slot_index (length (lm_slots m)) (fnv1a64 k (lm_seed m)); s = lm_slots m ! i
     in Inr (if occupied s \<and> slot_key s = k then Some i else None))"
proof -
  let ?i = "slot_index (length (lm_slots m)) (fnv1a64 k (lm_seed m))"
  have i: "?i < length (lm_slots m)" using assms by (rule lm_inv_index)
  then have "slot_ok (length (lm_slots m)) (lm_seed m) ?i (lm_slots m ! ?i)"
    using assms by (auto simp: lm_inv_def Let_def slots_ok_def)
  then show ?thesis
    using i by (auto simp: find_ptr_def lm_inv_probe [OF assms] slot_equals_iff Let_def)
qed

lemma lm_inv_find_ptr_cases:
  assumes "lm_inv m"
  obtains (found) i where "find_ptr m k = Inr (Some i)" "i < length (lm_slots m)"
      "occupied (lm_slots m ! i)" "slot_key (lm_slots m ! i) = k"
      "lm_map m k = Some (slot_value (lm_slots m ! i))"
      "i = slot_index (length (lm_slots m)) (fnv1a64 k (lm_seed m))"
    | (absent) "find_ptr m k = Inr None" "lm_map m k = None"
  using lm_inv_find_ptr [OF assms, of k] lm_inv_index [OF assms, of "fnv1a64 k (lm_seed m)"]
  by (auto simp: Let_def lm_map_def split: if_splits)

abbreviation home :: "'v local_map \<Rightarrow> string \<Rightarrow> nat" where
  "home m k \<equiv> slot_index (length (lm_slots m)) (fnv1a64 k (lm_seed m))"

lemma lm_map_home:
  assumes "lm_inv m"
  shows "lm_map m k =
    (if occupied (lm_slots m ! home m k) \<and> slot_key (lm_slots m ! home m k) = k
     then Some (slot_value (lm_slots m ! home m k)) else None)"
  by (simp add: lm_map_def lm_inv_find_ptr [OF assms] Let_def)

lemma lm_get_map:
  assumes "lm_inv m"
  shows "lm_get m k = (case lm_map m k of Some v \<Rightarrow> Inr v | None \<Rightarrow> Inl (Fatal ''LocalMap key not found''))"
  using assms by (cases rule: lm_inv_find_ptr_cases [where k = k]) (auto simp: lm_get_def)

lemma dom_lm_map:
  assumes "lm_inv m"
  shows "dom (lm_map m) = slot_keys (lm_slots m)"
proof (rule set_eqI)
  fix k
  let ?cap = "length (lm_slots m)"
  have ok: "\<And>i. i < ?cap \<Longrightarrow> slot_ok ?cap (lm_seed m) i (lm_slots m ! i)"
    using assms by (auto simp: lm_inv_def Let_def slots_ok_def)
  show "k \<in> dom (lm_map m) \<longleftrightarrow> k \<in> slot_keys (lm_slots m)"
  proof
    assume "k \<in> dom (lm_map m)"
    then obtain v where v: "lm_map m k = Some v" by auto
    show "k \<in> slot_keys (lm_slots m)"
      using assms
    proof (cases rule: lm_inv_find_ptr_cases [where k = k])
      case (found i)
      then have "lm_slots m ! i \<in> {s \<in> set (lm_slots m). occupied s}" by simp
      with found(4) show ?thesis unfolding slot_keys_def by blast
    qed (use v in simp)
  next
    assume "k \<in> slot_keys (lm_slots m)"
    then obtain i where i: "i < ?cap" "occupied (lm_slots m ! i)" "slot_key (lm_slots m ! i) = k"
      by (auto simp: slot_keys_def in_set_conv_nth)
    with ok [of i] have "slot_index ?cap (fnv1a64 k (lm_seed m)) = i"
      by (auto simp: slot_ok_def)
    with i show "k \<in> dom (lm_map m)"
      by (auto simp: lm_map_def lm_inv_find_ptr [OF assms] Let_def)
  qed
qed

lemma store_at_inv:
  assumes "lm_inv m" "i < length (lm_slots m)"
  shows "lm_inv (store_at m i v)"
  using assms
  by (auto simp: lm_inv_def Let_def store_at_def slots_ok_def slot_ok_def occupied_def nth_list_update)

lemma store_at_map:
  assumes inv: "lm_inv m" and k: "find_ptr m k = Inr (Some i)"
  shows "lm_map (store_at m i v) = (lm_map m)(k \<mapsto> v)"
proof (rule ext)
  fix k'
  define p where "p = home m k"
  define q where "q = home m k'"
  from k have hit: "occupied (lm_slots m ! p)" "slot_key (lm_slots m ! p) = k" and i: "i = p"
    by (simp_all add: lm_inv_find_ptr [OF inv] Let_def p_def split: if_splits)
  have lt: "p < length (lm_slots m)" using inv unfolding p_def by (rule lm_inv_index)
  with inv have inv': "lm_inv (store_at m i v)" unfolding i by (rule store_at_inv)
  have "home (store_at m i v) k' = q" by (simp add: store_at_def q_def)
  note new = lm_map_home [OF inv', of k', unfolded this]
  note old = lm_map_home [OF inv, of k', folded q_def]
  have same: "k' = k \<Longrightarrow> q = p" by (simp add: p_def q_def)
  have slot: "lm_slots (store_at m i v) ! q =
      (if q = p then (lm_slots m ! p)\<lparr>slot_value := v\<rparr> else lm_slots m ! q)"
    using lt by (simp add: store_at_def i)
  show "lm_map (store_at m i v) k' = ((lm_map m)(k \<mapsto> v)) k'"
    unfolding new slot
    using hit same old by (auto simp: occupied_def)
qed

lemma lm_map_slot:
  assumes inv: "lm_inv m" and i: "i < length (lm_slots m)" "occupied (lm_slots m ! i)"
  shows "find_ptr m (slot_key (lm_slots m ! i)) = Inr (Some i)"
    and "lm_map m (slot_key (lm_slots m ! i)) = Some (slot_value (lm_slots m ! i))"
proof -
  have "slot_ok (length (lm_slots m)) (lm_seed m) i (lm_slots m ! i)"
    using inv i(1) by (auto simp: lm_inv_def Let_def slots_ok_def)
  then have "home m (slot_key (lm_slots m ! i)) = i" using i(2) by (simp add: slot_ok_def)
  then show "find_ptr m (slot_key (lm_slots m ! i)) = Inr (Some i)"
    and "lm_map m (slot_key (lm_slots m ! i)) = Some (slot_value (lm_slots m ! i))"
    using i(2) by (simp_all add: lm_inv_find_ptr [OF inv] lm_map_home [OF inv] Let_def)
qed

lemma slot_key_inj:
  assumes "lm_inv m" "i < length (lm_slots m)" "occupied (lm_slots m ! i)"
    and "j < length (lm_slots m)" "occupied (lm_slots m ! j)"
    and "slot_key (lm_slots m ! i) = slot_key (lm_slots m ! j)"
  shows "i = j"
proof -
  have "find_ptr m (slot_key (lm_slots m ! j)) = Inr (Some i)"
    using lm_map_slot(1) [OF assms(1-3)] unfolding assms(6) .
  then show ?thesis
    unfolding lm_map_slot(1) [OF assms(1,4,5)] by simp
qed

lemma store_at_keys:
  "i < length (lm_slots m) \<Longrightarrow> slot_key (lm_slots (store_at m i v) ! j) = slot_key (lm_slots m ! j)"
  "i < length (lm_slots m) \<Longrightarrow> occupied (lm_slots (store_at m i v) ! j) = occupied (lm_slots m ! j)"
  "length (lm_slots (store_at m i v)) = length (lm_slots m)"
  by (auto simp: store_at_def occupied_def nth_list_update)

lemma lm_set_map:
  assumes "lm_inv m" "lm_map m k = Some u"
  obtains m' where "lm_set m k v = Inr m'" "lm_inv m'" "lm_map m' = (lm_map m)(k \<mapsto> v)"
  using assms(1)
proof (cases rule: lm_inv_find_ptr_cases [where k = k])
  case (found i)
  show thesis
    by (rule that [of "store_at m i v"])
      (use found assms(1) in \<open>auto simp: lm_set_def store_at_inv store_at_map\<close>)
qed (use assms(2) in simp)

lemma lm_set_miss:
  assumes "lm_inv m" "lm_map m k = None"
  shows "lm_set m k v = Inl (Fatal ''LocalMap key not found for set operation'')"
  using assms by (cases rule: lm_inv_find_ptr_cases [where k = k]) (auto simp: lm_set_def)

section \<open>The constructor\<close>

lemma slot_keys_iff:
  "k \<in> slot_keys xs \<longleftrightarrow> (\<exists>i<length xs. occupied (xs ! i) \<and> slot_key (xs ! i) = k)"
proof
  assume "k \<in> slot_keys xs"
  then obtain s where "s \<in> set xs" "occupied s" "slot_key s = k"
    by (auto simp: slot_keys_def)
  then show "\<exists>i<length xs. occupied (xs ! i) \<and> slot_key (xs ! i) = k"
    by (metis in_set_conv_nth)
next
  assume "\<exists>i<length xs. occupied (xs ! i) \<and> slot_key (xs ! i) = k"
  then show "k \<in> slot_keys xs"
    unfolding slot_keys_def by (metis (mono_tags, lifting) imageI mem_Collect_eq nth_mem)
qed

lemma slots_ok_empty: "slots_ok cap seed (replicate cap (empty_slot d))"
  by (simp add: slots_ok_def slot_ok_def empty_slot_def occupied_def)

lemma slot_keys_empty: "slot_keys (replicate cap (empty_slot d)) = {}"
  by (auto simp: slot_keys_def empty_slot_def occupied_def)

definition good_key :: "string \<Rightarrow> bool" where
  "good_key k \<longleftrightarrow> k \<noteq> [] \<and> length k < 2 ^ 32"

lemma good_key_len: "good_key k \<Longrightarrow> unat (of_nat (length k) :: 32 word) = length k"
  by (simp add: good_key_def unat_of_nat)

lemma slot_keys_put:
  assumes "i < length xs" "\<not> occupied (xs ! i)" "occupied s"
  shows "slot_keys (xs[i := s]) = insert (slot_key s) (slot_keys xs)"
proof (rule set_eqI)
  fix k
  have "k \<in> slot_keys (xs[i := s]) \<longleftrightarrow> (\<exists>j<length xs. occupied (xs[i := s] ! j) \<and> slot_key (xs[i := s] ! j) = k)"
    by (simp only: slot_keys_iff length_list_update)
  also have "\<dots> \<longleftrightarrow> slot_key s = k \<or> (\<exists>j<length xs. occupied (xs ! j) \<and> slot_key (xs ! j) = k)"
    using assms by (metis nth_list_update)
  also have "\<dots> \<longleftrightarrow> k \<in> insert (slot_key s) (slot_keys xs)"
    by (simp add: slot_keys_iff) blast
  finally show "k \<in> slot_keys (xs[i := s]) \<longleftrightarrow> k \<in> insert (slot_key s) (slot_keys xs)" .
qed

lemma slots_ok_put:
  assumes "slots_ok cap seed xs" "slot_ok cap seed i s"
  shows "slots_ok cap seed (xs[i := s])"
  using assms
  by (cases "i < length xs") (auto simp: slots_ok_def nth_list_update list_update_beyond)

lemma fill_slots_ok:
  assumes "fill_slots cap seed ks tmp = Some tmp'" "slots_ok cap seed tmp" "0 < cap" "cap < 2 ^ 64"
    "\<forall>k \<in> set ks. good_key k"
  shows "slots_ok cap seed tmp' \<and> slot_keys tmp' = slot_keys tmp \<union> set ks \<and>
         map slot_value tmp' = map slot_value tmp"
  using assms
proof (induction ks arbitrary: tmp)
  case Nil
  then show ?case by simp
next
  case (Cons k ks)
  define idx where "idx = slot_index cap (fnv1a64 k seed)"
  define s where "s = (tmp ! idx)\<lparr>slot_key := k, slot_len := of_nat (length k), slot_fp := fnv1a64 k seed\<rparr>"
  have idx: "idx < length tmp"
    using Cons.prems slot_index_less [of cap "fnv1a64 k seed"] by (simp add: idx_def slots_ok_def)
  have free: "\<not> occupied (tmp ! idx)" and rest: "fill_slots cap seed ks (tmp[idx := s]) = Some tmp'"
    using Cons.prems(1) by (auto simp: Let_def idx_def s_def split: if_splits)
  have key: "slot_key s = k" and len: "unat (slot_len s) = length k" and val: "slot_value s = slot_value (tmp ! idx)"
    using Cons.prems(5) good_key_len [of k] by (simp_all add: s_def)
  have occ: "occupied s"
    using len Cons.prems(5) by (auto simp: occupied_def good_key_def)
  have "slot_ok cap seed idx s"
    using Cons.prems(5) key len by (auto simp: slot_ok_def idx_def good_key_def)
  with Cons.prems(2) have "slots_ok cap seed (tmp[idx := s])" by (rule slots_ok_put)
  note IH = Cons.IH [OF rest this Cons.prems(3,4)]
  moreover have "map slot_value (tmp[idx := s]) = map slot_value tmp"
    using idx by (simp add: map_update val list_update_same_conv)
  moreover have "slot_keys (tmp[idx := s]) = insert k (slot_keys tmp)"
    using slot_keys_put [OF idx free occ] key by simp
  ultimately show ?case using Cons.prems(5) by simp
qed

lemma try_build_ok:
  assumes "try_build d ks K cap seed m0 = Some m" "K = length ks" "0 < cap" "cap < 2 ^ 64"
    "is_pow2 cap \<or> cap = K" "\<forall>k \<in> set ks. good_key k"
  shows "lm_inv (m\<lparr>lm_seed := seed\<rparr>) \<and>
         lm_map (m\<lparr>lm_seed := seed\<rparr>) = (\<lambda>k. if k \<in> set ks then Some d else None)"
proof -
  from assms(1) obtain tmp where tmp: "fill_slots cap seed ks (replicate cap (empty_slot d)) = Some tmp"
    and m: "m = m0\<lparr>lm_slots := tmp, lm_mask := (if is_pow2 cap then of_nat cap - 1 else -1), lm_size := K\<rparr>"
    by (auto simp: try_build_def split: option.splits)
  let ?m = "m\<lparr>lm_seed := seed\<rparr>"
  from fill_slots_ok [OF tmp slots_ok_empty assms(3,4,6)]
  have ok: "slots_ok cap seed tmp" and keys: "slot_keys tmp = set ks"
    and vals: "map slot_value tmp = replicate cap d"
    by (simp_all add: slot_keys_empty) (simp add: empty_slot_def map_replicate_const)
  have inv: "lm_inv ?m"
    using ok assms by (auto simp: lm_inv_def Let_def m slots_ok_def)
  have all: "slot_value s = d" if "s \<in> set tmp" for s
    using that vals by (metis image_eqI in_set_replicate set_map)
  have dom: "dom (lm_map ?m) = set ks"
    using dom_lm_map [OF inv] keys by (simp add: m)
  have "lm_map ?m k = Some d" if k: "k \<in> set ks" for k
  proof -
    from k dom obtain v where v: "lm_map ?m k = Some v" by auto
    then have "v = slot_value (lm_slots ?m ! home ?m k)"
      using lm_map_home [OF inv, of k] by (metis option.distinct(1) option.inject)
    moreover have "lm_slots ?m ! home ?m k \<in> set (lm_slots ?m)"
      using lm_inv_index [OF inv] by (rule nth_mem)
    moreover have "lm_slots ?m = tmp" by (simp add: m)
    ultimately show ?thesis using v all by metis
  qed
  moreover have "lm_map ?m k = None" if "k \<notin> set ks" for k
    using that dom by blast
  ultimately show ?thesis using inv by auto
qed

lemma seed_search_ok:
  assumes "seed_search d ks K cap trial n m0 = Some m" "K = length ks" "0 < cap" "cap < 2 ^ 64"
    "is_pow2 cap \<or> cap = K" "\<forall>k \<in> set ks. good_key k"
  shows "lm_inv m \<and> lm_map m = (\<lambda>k. if k \<in> set ks then Some d else None)"
  using assms(1)
proof (induction n arbitrary: trial)
  case 0
  then show ?case by simp
next
  case (Suc n)
  show ?case
  proof (cases "try_build d ks K cap (of_nat trial) m0")
    case None
    with Suc show ?thesis by simp
  next
    case (Some m')
    with Suc.prems have "m = m'\<lparr>lm_seed := of_nat trial\<rparr>" by simp
    with try_build_ok [OF Some assms(2-6)] show ?thesis by simp
  qed
qed

lemma is_pow2_power: "is_pow2 (2 ^ n)"
proof -
  have "(2 ^ n :: 64 word) AND mask n = take_bit n (2 ^ n)"
    by (simp add: take_bit_eq_mask)
  also have "\<dots> = 0" by (rule bit_word_eqI) (simp add: bit_simps)
  finally show ?thesis
    by (simp add: is_pow2_def mask_eq_exp_minus_1)
qed

lemma grow_cap_bounds:
  "0 < cap \<Longrightarrow> 2 * K \<le> grow_cap cap K \<and> grow_cap cap K \<le> max cap (4 * K)"
proof (induction cap K rule: grow_cap.induct)
  case (1 cap K)
  then show ?case
    by (cases "cap < 2 * K") (auto simp: grow_cap.simps [of cap K])
qed

lemma grow_cap_power: "\<exists>n'. grow_cap (2 ^ n) K = 2 ^ n'"
proof (induction "2 ^ n :: nat" K arbitrary: n rule: grow_cap.induct)
  case (1 K n)
  show ?case
  proof (cases "2 ^ n < 2 * K")
    case True
    with 1 [of "Suc n"] show ?thesis by (simp add: grow_cap.simps [of "2 ^ n"])
  next
    case False
    then show ?thesis by (auto simp: grow_cap.simps [of "2 ^ n"])
  qed
qed

lemma lm_construct_ok:
  assumes "lm_construct d ks = Inr m" "lm_slots m \<noteq> []"
    and "\<forall>k \<in> set ks. good_key k" "length ks < 2 ^ 32"
  shows "lm_inv m \<and> lm_map m = (\<lambda>k. if k \<in> set ks then Some d else None)"
proof -
  let ?K = "length ks"
  have ne: "ks \<noteq> []"
    using assms(1,2) by (auto simp: lm_construct_def lm_no_keys_def)
  then have K: "0 < ?K" "?K < 2 ^ 64" using assms(4) by auto
  obtain n where n: "grow_cap 1 ?K = 2 ^ n"
    using grow_cap_power [of 0 ?K] by auto
  have big: "0 < grow_cap 1 ?K" "grow_cap 1 ?K < 2 ^ 64"
    using grow_cap_bounds [of 1 ?K] K assms(4) by (simp_all, linarith+)
  have pow: "is_pow2 (grow_cap 1 ?K)" using is_pow2_power [of n] n by simp
  consider "seed_search d ks ?K ?K 0 100000 lm_raw = Some m"
    | "seed_search d ks ?K (grow_cap 1 ?K) 0 100000 lm_raw = Some m"
    using assms(1,2) ne by (auto simp: lm_construct_def lm_raw_def Let_def split: option.splits if_splits)
  then show ?thesis
  proof cases
    case 1
    from seed_search_ok [OF 1 refl K] assms(3) show ?thesis by blast
  next
    case 2
    from seed_search_ok [OF 2 refl big] pow assms(3) show ?thesis by blast
  qed
qed

section \<open>The interface of keyed cells\<close>

text \<open>
  What the clients (the credit queue, the statistics, the local state) rely on: a read returns the
  stored value or stops, and a write changes exactly one key.
\<close>

locale keyed_cells =
  fixes get :: "'m \<Rightarrow> string \<Rightarrow> 'v result"
    and put :: "'m \<Rightarrow> string \<Rightarrow> 'v \<Rightarrow> 'm result"
    and abs :: "'m \<Rightarrow> string \<rightharpoonup> 'v"
    and inv :: "'m \<Rightarrow> bool"
  assumes get_hit: "inv m \<Longrightarrow> abs m k = Some v \<Longrightarrow> get m k = Inr v"
    and get_miss: "inv m \<Longrightarrow> abs m k = None \<Longrightarrow> \<exists>e. get m k = Inl e"
    and put_hit: "inv m \<Longrightarrow> abs m k = Some u \<Longrightarrow>
          \<exists>m'. put m k v = Inr m' \<and> inv m' \<and> abs m' = (abs m)(k \<mapsto> v)"
    and put_miss: "inv m \<Longrightarrow> abs m k = None \<Longrightarrow> \<exists>e. put m k v = Inl e"
begin

lemma get_eq_Inr: "inv m \<Longrightarrow> get m k = Inr v \<longleftrightarrow> abs m k = Some v"
  using get_hit [of m k] get_miss [of m k] by (cases "abs m k") auto

lemma put_eq_Inr:
  assumes "inv m" "put m k v = Inr m'"
  shows "inv m' \<and> abs m' = (abs m)(k \<mapsto> v) \<and> k \<in> dom (abs m)"
  using assms put_hit [of m k _ v] put_miss [of m k v] by (cases "abs m k") auto

definition modify :: "'m \<Rightarrow> string \<Rightarrow> ('v \<Rightarrow> 'v) \<Rightarrow> 'm result" where
  "modify m k f = bindR (get m k) (\<lambda>v. put m k (f v))"

lemma modify_hit:
  assumes "inv m" "abs m k = Some u"
  shows "\<exists>m'. modify m k f = Inr m' \<and> inv m' \<and> abs m' = (abs m)(k \<mapsto> f u)"
  using assms by (simp add: modify_def get_hit put_hit)

lemma modify_eq_Inr:
  assumes "inv m" "modify m k f = Inr m'"
  shows "\<exists>u. abs m k = Some u \<and> inv m' \<and> abs m' = (abs m)(k \<mapsto> f u)"
  using assms by (auto simp: modify_def get_eq_Inr dest: put_eq_Inr)

lemma modify_get_same:
  assumes "inv m" "modify m k f = Inr m'"
  shows "bindR (get m k) (\<lambda>u. Inr (f u)) = get m' k"
proof -
  from modify_eq_Inr [OF assms] obtain u where "abs m k = Some u" "inv m'" "abs m' = (abs m)(k \<mapsto> f u)"
    by blast
  with assms(1) show ?thesis by (simp add: get_hit)
qed

lemma modify_get_other:
  assumes "inv m" "modify m k f = Inr m'" "k' \<noteq> k" "abs m k' = Some v"
  shows "get m' k' = Inr v"
  using modify_eq_Inr [OF assms(1,2)] assms(3,4) by (auto simp: get_hit)

end

interpretation lm: keyed_cells lm_get lm_set lm_map lm_inv
  rewrites "keyed_cells.modify lm_get lm_set = lm_update"
proof -
  show *: "keyed_cells lm_get lm_set lm_map lm_inv"
  proof
    fix m :: "'v local_map" and k v u
    assume inv: "lm_inv m"
    show "lm_map m k = Some v \<Longrightarrow> lm_get m k = Inr v"
      and "lm_map m k = None \<Longrightarrow> \<exists>e. lm_get m k = Inl e"
      by (simp_all add: lm_get_map [OF inv])
    show "lm_map m k = Some u \<Longrightarrow> \<exists>m'. lm_set m k v = Inr m' \<and> lm_inv m' \<and> lm_map m' = (lm_map m)(k \<mapsto> v)"
      using lm_set_map [OF inv] by metis
    show "lm_map m k = None \<Longrightarrow> \<exists>e. lm_set m k v = Inl e"
      using lm_set_miss [OF inv] by metis
  qed
  show "keyed_cells.modify lm_get lm_set = (lm_update :: 'v local_map \<Rightarrow> _)"
    by (simp add: fun_eq_iff keyed_cells.modify_def [OF *] lm_update_def)
qed

section \<open>Iteration visits the occupied slots in a cycle\<close>

lemma skip_loop_dist:
  assumes "start < length slots" "d < length slots" "t \<le> d" "d - t < fuel"
    and "occupied (slots ! ((start + d) mod length slots))"
    and "\<forall>e<d. \<not> occupied (slots ! ((start + e) mod length slots))"
  shows "skip_loop slots start ((start + t) mod length slots) fuel = (start + d) mod length slots"
  using assms(3,4)
proof (induction fuel arbitrary: t)
  case 0
  then show ?case by simp
next
  case (Suc fuel)
  let ?n = "length slots"
  show ?case
  proof (cases "t = d")
    case True
    with assms(5) show ?thesis by simp
  next
    case False
    with Suc.prems have t: "t < d" by simp
    have step: "(if Suc ((start + t) mod ?n) \<ge> ?n then 0 else Suc ((start + t) mod ?n)) =
        (start + Suc t) mod ?n"
    proof -
      have "(start + t) mod ?n < ?n" using assms(1) by (intro mod_less_divisor) auto
      then show ?thesis by (cases "Suc ((start + t) mod ?n) = ?n") (simp_all add: mod_Suc)
    qed
    have "(start + Suc t) mod ?n \<noteq> start"
    proof
      assume "(start + Suc t) mod ?n = start"
      then have "(start + Suc t) mod ?n = (start + 0) mod ?n" using assms(1) by simp
      then have "?n dvd Suc t" by (metis add_diff_cancel_left' le_add1 mod_eq_dvd_iff_nat add_0_right)
      then show False using t assms(2) by (auto dest: dvd_imp_le)
    qed
    moreover have "(start + t) mod ?n < ?n" using assms(1) by (intro mod_less_divisor) auto
    moreover have "\<not> occupied (slots ! ((start + t) mod ?n))"
      using assms(6) t by auto
    ultimately show ?thesis
      using Suc.IH [of "Suc t"] Suc.prems t step by (simp add: Let_def)
  qed
qed

lemma skip_empty_dist:
  assumes "i \<le> length (lm_slots m)" "d < length (lm_slots m)"
    and "occupied (lm_slots m ! ((i + d) mod length (lm_slots m)))"
    and "\<forall>e<d. \<not> occupied (lm_slots m ! ((i + e) mod length (lm_slots m)))"
  shows "skip_empty m i = (i + d) mod length (lm_slots m)"
proof (cases "i = length (lm_slots m)")
  case True
  then show ?thesis
    using assms skip_loop_dist [of 0 "lm_slots m" d 0 "length (lm_slots m)"]
    by (auto simp: skip_empty_def)
next
  case False
  then show ?thesis
    using assms skip_loop_dist [of i "lm_slots m" d 0 "length (lm_slots m)"]
    by (auto simp: skip_empty_def)
qed

lemma filter_upt_strict: "i < j \<Longrightarrow> j < length (filter P [0..<n]) \<Longrightarrow> filter P [0..<n] ! i < filter P [0..<n] ! j"
  by (rule sorted_wrt_nth_less [where P = "(<)"]) (auto intro: sorted_wrt_filter)

lemma filter_upt_nth:
  "j < length (filter P [0..<n]) \<Longrightarrow> P (filter P [0..<n] ! j) \<and> filter P [0..<n] ! j < n"
  using nth_mem [of j "filter P [0..<n]"] by auto

lemma filter_upt_find:
  assumes "e < n" "P e"
  obtains l where "l < length (filter P [0..<n])" "filter P [0..<n] ! l = e"
proof -
  from assms have "e \<in> set (filter P [0..<n])" by auto
  then show thesis using that unfolding in_set_conv_nth by blast
qed

lemma filter_upt_gap:
  assumes "e < n" "P e" "Suc j < length (filter P [0..<n])"
  shows "\<not> (filter P [0..<n] ! j < e \<and> e < filter P [0..<n] ! Suc j)"
proof
  assume gap: "filter P [0..<n] ! j < e \<and> e < filter P [0..<n] ! Suc j"
  obtain l where l: "l < length (filter P [0..<n])" "filter P [0..<n] ! l = e"
    using assms(1,2) by (rule filter_upt_find)
  have "l \<noteq> j" "l \<noteq> Suc j" using gap l by auto
  then consider "l < j" | "Suc j < l" by linarith
  then show False
    using gap l assms(3) filter_upt_strict [of l j P n] filter_upt_strict [of "Suc j" l P n] by cases auto
qed

lemma filter_upt_first:
  assumes "e < n" "P e"
  shows "filter P [0..<n] ! 0 \<le> e"
proof -
  obtain l where "l < length (filter P [0..<n])" "filter P [0..<n] ! l = e"
    using assms(1,2) by (rule filter_upt_find)
  then show ?thesis using filter_upt_strict [of 0 l P n] by (cases "l = 0") auto
qed

lemma filter_upt_last:
  assumes "e < n" "P e"
  shows "e \<le> filter P [0..<n] ! (length (filter P [0..<n]) - 1)"
proof -
  let ?xs = "filter P [0..<n]"
  obtain l where l: "l < length ?xs" "?xs ! l = e"
    using assms(1,2) by (rule filter_upt_find)
  then consider "l = length ?xs - 1" | "l < length ?xs - 1" "length ?xs - 1 < length ?xs"
    by linarith
  then show ?thesis
    using l filter_upt_strict [of l "length ?xs - 1" P n] by cases (auto intro: less_imp_le)
qed

lemma it_begin_first:
  assumes "get_all_indices m \<noteq> []"
  shows "it_begin m = get_all_indices m ! 0"
proof -
  let ?P = "\<lambda>i. occupied (lm_slots m ! i)" and ?n = "length (lm_slots m)"
  let ?f = "get_all_indices m ! 0"
  have f: "?P ?f" "?f < ?n"
    using assms filter_upt_nth [of 0 ?P ?n] by (auto simp: get_all_indices_def)
  have "\<not> ?P e" if "e < ?f" for e
    using filter_upt_first [of e ?n ?P] that f by (auto simp: get_all_indices_def)
  then have "\<forall>e<?f. \<not> ?P e" by blast
  then show ?thesis
    using skip_empty_dist [of 0 m ?f] f by (simp add: it_begin_def)
qed

lemma it_next_cycle:
  assumes "j < length (get_all_indices m)"
  shows "it_next m (get_all_indices m ! j) = get_all_indices m ! (Suc j mod length (get_all_indices m))"
proof -
  let ?P = "\<lambda>i. occupied (lm_slots m ! i)" and ?n = "length (lm_slots m)"
  let ?o = "get_all_indices m"
  let ?i = "?o ! j"
  have i: "?P ?i" "?i < ?n" using assms filter_upt_nth [of j ?P ?n] by (auto simp: get_all_indices_def)
  then have ne: "lm_slots m \<noteq> []" by auto
  show ?thesis
  proof (cases "Suc j < length ?o")
    case True
    let ?k = "?o ! Suc j"
    have k: "?P ?k" "?k < ?n" "?i < ?k"
      using True filter_upt_nth [of "Suc j" ?P ?n] filter_upt_strict [of j "Suc j" ?P ?n]
      by (auto simp: get_all_indices_def)
    have gap: "\<not> ?P e" if "?i < e" "e < ?k" for e
      using filter_upt_gap [of e ?n ?P j] that True k(2) by (auto simp: get_all_indices_def)
    have "skip_empty m (Suc ?i) = (Suc ?i + (?k - Suc ?i)) mod ?n"
    proof (rule skip_empty_dist)
      show "\<forall>e<?k - Suc ?i. \<not> ?P ((Suc ?i + e) mod ?n)"
        using k gap by auto
    qed (use i k in auto)
    then show ?thesis using True k ne by (simp add: it_next_def)
  next
    case False
    then have last: "j = length ?o - 1" using assms by simp
    let ?k = "?o ! 0"
    have "0 < length ?o" using assms by linarith
    then have k: "?P ?k" "?k < ?n" using filter_upt_nth [of 0 ?P ?n] by (auto simp: get_all_indices_def)
    have hi: "\<not> ?P e" if "?i < e" "e < ?n" for e
      using filter_upt_last [of e ?n ?P] that last by (auto simp: get_all_indices_def)
    have lo: "\<not> ?P e" if "e < ?k" for e
      using filter_upt_first [of e ?n ?P] that k by (force simp: get_all_indices_def)
    have ki: "?k \<le> ?i" using filter_upt_first [of ?i ?n ?P] i by (auto simp: get_all_indices_def)
    let ?d = "?n - Suc ?i + ?k"
    have sum: "Suc ?i + ?d = ?n + ?k" using i by simp
    have "skip_empty m (Suc ?i) = (Suc ?i + ?d) mod ?n"
    proof (rule skip_empty_dist)
      show "\<forall>e<?d. \<not> ?P ((Suc ?i + e) mod ?n)"
      proof (intro allI impI)
        fix e assume e: "e < ?d"
        show "\<not> ?P ((Suc ?i + e) mod ?n)"
        proof (cases "Suc ?i + e < ?n")
          case True
          then show ?thesis using hi [of "Suc ?i + e"] by simp
        next
          case False
          then have "(Suc ?i + e) mod ?n = Suc ?i + e - ?n"
            using e i k ki by (simp add: mod_if)
          with False e i show ?thesis using lo [of "Suc ?i + e - ?n"] by simp
        qed
      qed
      show "occupied (lm_slots m ! ((Suc ?i + ?d) mod ?n))" using k unfolding sum by simp
    qed (use i k ki in auto)
    moreover have "Suc j = length ?o" using last assms by linarith
    then have "Suc j mod length ?o = 0" by simp
    ultimately show ?thesis using ne k unfolding sum by (simp add: it_next_def)
  qed
qed

lemma it_next_mem:
  assumes "i \<in> set (get_all_indices m)"
  shows "it_next m i \<in> set (get_all_indices m)"
proof -
  from assms obtain j where j: "j < length (get_all_indices m)" "i = get_all_indices m ! j"
    by (auto simp: in_set_conv_nth)
  then have "Suc j mod length (get_all_indices m) < length (get_all_indices m)"
    by (intro mod_less_divisor) linarith
  with it_next_cycle [OF j(1)] j(2) show ?thesis by simp
qed

lemma get_all_indices_store [simp]:
  "i < length (lm_slots m) \<Longrightarrow> get_all_indices (store_at m i v) = get_all_indices m"
  by (simp add: get_all_indices_def store_at_keys)

lemma lm_update_indices:
  assumes "lm_update m k f = Inr m'"
  shows "get_all_indices m' = get_all_indices m"
proof -
  from assms obtain i v where m': "m' = store_at m i v"
    by (auto simp: lm_update_def lm_set_def split: option.splits)
  show ?thesis
  proof (cases "i < length (lm_slots m)")
    case True
    then show ?thesis by (simp add: m')
  next
    case False
    then show ?thesis by (simp add: m' store_at_def get_all_indices_def list_update_beyond)
  qed
qed

lemma set_get_all_indices:
  "set (get_all_indices m) = {i. i < length (lm_slots m) \<and> occupied (lm_slots m ! i)}"
  by (auto simp: get_all_indices_def)

lemma distinct_get_all_indices: "distinct (get_all_indices m)"
  by (simp add: get_all_indices_def)

section \<open>A map with one key\<close>

text \<open>The smallest map, for concrete runs.\<close>

definition one_cell :: "'v \<Rightarrow> 'v local_map" where
  "one_cell v = \<lparr>lm_slots = [\<lparr>slot_key = ''a'', slot_len = 1, slot_fp = fnv1a64 ''a'' 0, slot_value = v\<rparr>],
                 lm_seed = 0, lm_size = 1, lm_mask = 0\<rparr>"

lemma one_cell_inv: "lm_inv (one_cell v)"
  by (simp add: lm_inv_def one_cell_def slots_ok_def slot_ok_def is_pow2_def slot_index_def)

lemma one_cell_indices [simp]: "get_all_indices (one_cell v) = [0]"
  by (simp add: get_all_indices_def one_cell_def occupied_def)

lemma one_cell_map: "lm_map (one_cell v) = [''a'' \<mapsto> v]"
proof -
  have "lm_map (one_cell v) ''a'' = Some v"
    using lm_map_slot [OF one_cell_inv, of 0 v] by (simp add: one_cell_def occupied_def)
  moreover have "dom (lm_map (one_cell v)) = {''a''}"
    unfolding dom_lm_map [OF one_cell_inv] by (auto simp: slot_keys_def one_cell_def occupied_def)
  moreover from this have "k \<noteq> ''a'' \<Longrightarrow> lm_map (one_cell v) k = None" for k by (metis domIff singletonD)
  ultimately show ?thesis by (intro ext) simp
qed

lemma one_cell_get [simp]: "lm_get (one_cell v) ''a'' = Inr v"
  by (simp add: lm_get_map [OF one_cell_inv] one_cell_map)

lemma one_cell_probe [simp]: "find_ptr (one_cell v) ''a'' = Inr (Some 0)"
  by (simp add: find_ptr_def probe_def one_cell_def slot_equals_def occupied_def Let_def)

lemma one_cell_store [simp]: "store_at (one_cell v) 0 w = one_cell w"
  by (simp add: store_at_def one_cell_def)

lemma one_cell_set [simp]: "lm_set (one_cell v) ''a'' w = Inr (one_cell w)"
  by (simp add: lm_set_def)

lemma one_cell_add [simp]: "lm_add (one_cell v) ''a'' w = Inr (one_cell (v + w))"
  by (simp add: lm_add_def) (simp add: one_cell_def store_at_def)

lemma one_cell_update [simp]: "lm_update (one_cell v) ''a'' f = Inr (one_cell (f v))"
  by (simp add: lm_update_def)

end
