(* ===== verification/Config.thy ===== *)
theory Config
  imports Prelude
begin

text \<open>
  The configuration of include/config.h. The two unordered maps are association lists with distinct
  keys: the order of the list stands for the (unspecified) iteration order of the map. A float
  that the file may set is a \<open>floating\<close>: yaml-cpp reads .nan and .inf too. Measured values are real numbers;
  rounding is not modelled.
\<close>

record upstream =
  up_host :: string
  up_port :: int

record routing_entry =
  re_upstream :: upstream
  re_slo :: "int option"
  re_priority :: "int option"

record mapping_info =
  mi_downstreams :: "string list"
  mi_listen_port :: "16 word option"
  mi_pfanout :: "bool option"
  mi_dfanout :: "bool option"

record config =
  ring_size :: nat
  buffer_count :: nat
  buffer_size :: nat
  num_threads :: int
  egress_listener_port :: "16 word"
  ingress_listener_port :: "16 word"
  ingress_upstream_host :: string
  ingress_upstream_port :: "16 word"
  cfg_name :: string
  routing :: "(string \<times> routing_entry) list"
  mapping :: "(string \<times> mapping_info) list"
  is_ingress :: bool
  is_frontend :: bool
  is_plain_frontend :: bool
  ingress_pool_connections :: "int option"
  frontend_pool_connections :: "int option"
  cpu_count :: "int option"
  over_commitment :: "floating option"
  extra_limit :: int
  aimd_err_d :: floating
  aimd_err_i :: floating
  aimd_adj_d :: floating
  aimd_adj_i :: floating
  safe_multiply :: floating

text \<open>The default member initializers of \<open>struct Config\<close>; the other members are zero.\<close>

definition default_config :: config where
  "default_config =
     \<lparr>ring_size = 0, buffer_count = 0, buffer_size = 0, num_threads = 0,
      egress_listener_port = 0, ingress_listener_port = 0, ingress_upstream_host = '''',
      ingress_upstream_port = 0, cfg_name = '''', routing = [], mapping = [],
      is_ingress = False, is_frontend = False, is_plain_frontend = False,
      ingress_pool_connections = None, frontend_pool_connections = None,
      cpu_count = None, over_commitment = None, extra_limit = 0,
      aimd_err_d = Finite (- 5 / 100), aimd_err_i = Finite (- 3 / 10), aimd_adj_d = Finite (3 / 2),
      aimd_adj_i = Finite 1, safe_multiply = Finite 2\<rparr>"

definition get_downstream_services :: "config \<Rightarrow> string list" where
  "get_downstream_services cfg = map fst (routing cfg)"

definition get_hosted_services :: "config \<Rightarrow> string list" where
  "get_hosted_services cfg = map fst (mapping cfg)"

end
