(* ===== verification/Credit_Queue.thy ===== *)
theory Credit_Queue
  imports Fast_Map Config
begin

text \<open>
  The credit queue of src/credit_queue.cc: one deque per endpoint for each of three priorities,
  a round robin iterator inside a priority, weighted round robin between the priorities, and the
  counters of active requests with their limits. A queued item (a prepared Credit Grant) is of any
  type. Every method is one step here; the theory
  Credit_Queue_Threads shows that this is sound for the parts that run under the SpinLock. The counters
  are int32_t in the code and \<open>int\<close> here: they move by one and stay below the limits they are
  compared with.
\<close>

section \<open>One priority level\<close>

record 'b inner_queue =
  iq_queue :: "'b list local_map"
  iq_it :: nat
  iq_size :: nat

definition iq_construct :: "string list \<Rightarrow> 'b inner_queue result" where
  "iq_construct endpoints =
     bindR (lm_construct [] endpoints) (\<lambda>q. Inr \<lparr>iq_queue = q, iq_it = it_begin q, iq_size = 0\<rparr>)"

definition iq_push :: "'b inner_queue \<Rightarrow> 'b \<Rightarrow> string \<Rightarrow> 'b inner_queue result" where
  "iq_push iq buffer endpoint =
     bindR (lm_update (iq_queue iq) endpoint (\<lambda>d. d @ [buffer])) (\<lambda>q.
       Inr (iq\<lparr>iq_queue := q, iq_size := Suc (iq_size iq)\<rparr>))"

text \<open>
  The body of the while loop of pop: the condition of its if. The three conjuncts are evaluated in
  order and the lookups of the later ones are skipped when an earlier one is false.
\<close>

definition can_send :: "string \<Rightarrow> 'b list \<Rightarrow> int \<Rightarrow> int local_map \<Rightarrow> int \<Rightarrow> int local_map \<Rightarrow> bool result" where
  "can_send key d in_flight per_endpoint global_limit limits =
     (if d = [] then Inr False
      else bindR (lm_get per_endpoint key) (\<lambda>f. bindR (lm_get limits key) (\<lambda>l.
        Inr (f < l \<and> in_flight < global_limit))))"

text \<open>
  The loop visits every endpoint once, so the number of slots is enough fuel
  (\<open>iq_pop_correct\<close> below).
\<close>

fun iq_pop_loop ::
  "nat \<Rightarrow> string \<Rightarrow> 'b inner_queue \<Rightarrow> int \<Rightarrow> int local_map \<Rightarrow> int \<Rightarrow> int local_map \<Rightarrow>
   ('b option \<times> 'b inner_queue \<times> int \<times> int local_map) result" where
  "iq_pop_loop 0 init_endpoint iq in_flight per_endpoint global_limit limits =
     Inl (Undefined ''out of fuel'')"
| "iq_pop_loop (Suc n) init_endpoint iq in_flight per_endpoint global_limit limits =
     (let q = iq_queue iq; i = iq_it iq; key = slot_key (lm_slots q ! i); d = slot_value (lm_slots q ! i)
      in bindR (can_send key d in_flight per_endpoint global_limit limits) (\<lambda>ok.
        if ok then
          bindR (lm_update per_endpoint key (\<lambda>x. x + 1)) (\<lambda>per_endpoint'.
            let q' = store_at q i (tl d)
            in Inr (Some (hd d),
                    iq\<lparr>iq_queue := q', iq_it := it_next q' i, iq_size := iq_size iq - 1\<rparr>,
                    in_flight + 1, per_endpoint'))
        else
          let i' = it_next q i; iq' = iq\<lparr>iq_it := i'\<rparr>
          in if slot_key (lm_slots q ! i') = init_endpoint then Inr (None, iq', in_flight, per_endpoint)
             else iq_pop_loop n init_endpoint iq' in_flight per_endpoint global_limit limits))"

definition iq_pop ::
  "'b inner_queue \<Rightarrow> int \<Rightarrow> int local_map \<Rightarrow> int \<Rightarrow> int local_map \<Rightarrow>
   ('b option \<times> 'b inner_queue \<times> int \<times> int local_map) result" where
  "iq_pop iq in_flight per_endpoint global_limit limits =
     (if iq_size iq = 0 then Inr (None, iq, in_flight, per_endpoint)
      else if iq_it iq < length (lm_slots (iq_queue iq)) then
        iq_pop_loop (length (lm_slots (iq_queue iq))) (slot_key (lm_slots (iq_queue iq) ! iq_it iq))
          iq in_flight per_endpoint global_limit limits
      else Inl (Undefined ''iterator out of bounds''))"

section \<open>The queue of all priorities\<close>

definition PriorityCount :: nat where
  "PriorityCount = 3"

record 'b credit_queue =
  cq_queue :: "'b inner_queue list"
  cq_weights :: "nat list"
  cq_it :: nat
  cq_rounds :: nat
  cq_size :: nat
  cq_in_flight :: int
  cq_global_limit :: int
  cq_per_endpoint :: "int local_map"
  cq_limits :: "int local_map"

definition cq_construct :: "config \<Rightarrow> string list \<Rightarrow> int \<Rightarrow> 'b credit_queue result" where
  "cq_construct cfg endpoints cpus =
     bindR (iq_construct endpoints) (\<lambda>iq.
     bindR (lm_construct 0 endpoints) (\<lambda>f0.
     bindR (lm_construct 0 endpoints) (\<lambda>l0.
     bindR (as_int32 (cpus * 2)) (\<lambda>twice.
     bindR (as_int32 (twice + extra_limit cfg)) (\<lambda>max_limit.
     bindR (foldR (\<lambda>ep (f, l). bindR (lm_set f ep 0) (\<lambda>f'.
              bindR (lm_set l ep max_limit) (\<lambda>l'. Inr (f', l')))) endpoints (f0, l0)) (\<lambda>(f, l).
     bindR (as_int32 (max_limit * to_int32 (int (length endpoints)))) (\<lambda>sum_limit.
     bindR (if routing cfg = [] then
              bindR (as_int32 (sum_limit - max_limit)) (\<lambda>rest.
              bindR (float_to_int32 (flt_mult (Finite (of_int rest)) (value_or (over_commitment cfg) (Finite (-1))))) (\<lambda>share.
                as_int32 (max_limit + share)))
            else Inr 2147483647) (\<lambda>gl.
       Inr \<lparr>cq_queue = [iq, iq, iq], cq_weights = [16, 4, 1], cq_it = 0, cq_rounds = 16, cq_size = 0,
               cq_in_flight = 0, cq_global_limit = gl, cq_per_endpoint = f, cq_limits = l\<rparr>))))))))"

definition cq_push :: "'b credit_queue \<Rightarrow> 'b \<Rightarrow> string \<Rightarrow> int \<Rightarrow> 'b credit_queue result" where
  "cq_push cq buffer endpoint priority =
     bindR (vec_at (cq_queue cq) (size_t_of priority)) (\<lambda>iq.
     bindR (iq_push iq buffer endpoint) (\<lambda>iq'.
       Inr (cq\<lparr>cq_queue := (cq_queue cq)[size_t_of priority := iq'], cq_size := Suc (cq_size cq)\<rparr>)))"

definition cq_update_endpoint_limit :: "'b credit_queue \<Rightarrow> int \<Rightarrow> string \<Rightarrow> 'b credit_queue result" where
  "cq_update_endpoint_limit cq limit api =
     bindR (lm_set (cq_limits cq) api limit) (\<lambda>l. Inr (cq\<lparr>cq_limits := l\<rparr>))"

definition cq_update_global_limit :: "'b credit_queue \<Rightarrow> int \<Rightarrow> 'b credit_queue" where
  "cq_update_global_limit cq limit = cq\<lparr>cq_global_limit := limit\<rparr>"

fun cq_pop_loop :: "nat \<Rightarrow> nat \<Rightarrow> 'b credit_queue \<Rightarrow> ('b option \<times> 'b credit_queue) result" where
  "cq_pop_loop 0 init_index cq = Inl (Undefined ''out of fuel'')"
| "cq_pop_loop (Suc n) init_index cq =
     bindR (vec_at (cq_queue cq) (cq_it cq)) (\<lambda>iq.
     bindR (iq_pop iq (cq_in_flight cq) (cq_per_endpoint cq) (cq_global_limit cq) (cq_limits cq))
      (\<lambda>(buffer, iq', in_flight', per_endpoint').
        let cq' = cq\<lparr>cq_queue := (cq_queue cq)[cq_it cq := iq'], cq_in_flight := in_flight',
                     cq_per_endpoint := per_endpoint'\<rparr>
        in case buffer of
          Some b \<Rightarrow>
            (if cq_rounds cq' - 1 = 0 then
               let it' = (cq_it cq' + 1) mod PriorityCount
               in bindR (vec_at (cq_weights cq') it') (\<lambda>w.
                    Inr (Some b, cq'\<lparr>cq_it := it', cq_rounds := w, cq_size := cq_size cq' - 1\<rparr>))
             else Inr (Some b, cq'\<lparr>cq_rounds := cq_rounds cq' - 1, cq_size := cq_size cq' - 1\<rparr>))
        | None \<Rightarrow>
            (let it' = (cq_it cq' + 1) mod PriorityCount
             in bindR (vec_at (cq_weights cq') it') (\<lambda>w.
                  let cq'' = cq'\<lparr>cq_it := it', cq_rounds := w\<rparr>
                  in if it' = init_index then Inr (None, cq'') else cq_pop_loop n init_index cq''))))"

definition cq_pop :: "'b credit_queue \<Rightarrow> ('b option \<times> 'b credit_queue) result" where
  "cq_pop cq =
     (if cq_size cq = 0 then Inr (None, cq)
      else if cq_in_flight cq \<ge> cq_global_limit cq then Inr (None, cq)
      else cq_pop_loop PriorityCount (cq_it cq) cq)"

definition cq_increment_in_flight :: "'b credit_queue \<Rightarrow> string \<Rightarrow> 'b credit_queue result" where
  "cq_increment_in_flight cq api =
     bindR (lm_update (cq_per_endpoint cq) api (\<lambda>x. x + 1)) (\<lambda>f.
       Inr (cq\<lparr>cq_per_endpoint := f, cq_in_flight := cq_in_flight cq + 1\<rparr>))"

definition cq_decrement_in_flight :: "'b credit_queue \<Rightarrow> string \<Rightarrow> 'b credit_queue result" where
  "cq_decrement_in_flight cq api =
     bindR (lm_update (cq_per_endpoint cq) api (\<lambda>x. x - 1)) (\<lambda>f.
       Inr (cq\<lparr>cq_per_endpoint := f, cq_in_flight := cq_in_flight cq - 1\<rparr>))"

definition cq_get_global_limit :: "'b credit_queue \<Rightarrow> int" where
  "cq_get_global_limit cq = cq_global_limit cq"

definition cq_get_per_endpoint_limit :: "'b credit_queue \<Rightarrow> string \<Rightarrow> int result" where
  "cq_get_per_endpoint_limit cq service = lm_get (cq_limits cq) service"

section \<open>The inner queue: invariant and pop\<close>

lemma finite_dom_lm: "lm_inv m \<Longrightarrow> finite (dom (lm_map m))"
  by (simp add: dom_lm_map slot_keys_def)

definition iq_deque :: "'b inner_queue \<Rightarrow> string \<Rightarrow> 'b list" where
  "iq_deque iq ep = the (lm_map (iq_queue iq) ep)"

definition iq_inv :: "string set \<Rightarrow> 'b inner_queue \<Rightarrow> bool" where
  "iq_inv eps iq \<longleftrightarrow>
     lm_inv (iq_queue iq) \<and> dom (lm_map (iq_queue iq)) = eps \<and>
     iq_it iq \<in> set (get_all_indices (iq_queue iq)) \<and>
     iq_size iq = (\<Sum>ep\<in>eps. length (iq_deque iq ep))"

definition cells :: "string set \<Rightarrow> 'v local_map \<Rightarrow> bool" where
  "cells eps m \<longleftrightarrow> lm_inv m \<and> dom (lm_map m) = eps"

definition val :: "'v local_map \<Rightarrow> string \<Rightarrow> 'v" where
  "val m ep = the (lm_map m ep)"

lemma val_upd: "lm_map m' = (lm_map m)(k \<mapsto> v) \<Longrightarrow> val m' = (val m)(k := v)"
  by (rule ext) (simp add: val_def)

lemma cells_upd:
  "cells eps m \<Longrightarrow> k \<in> eps \<Longrightarrow> lm_inv m' \<Longrightarrow> lm_map m' = (lm_map m)(k \<mapsto> v) \<Longrightarrow> cells eps m'"
  by (auto simp: cells_def)

lemma cells_get: "cells eps m \<Longrightarrow> ep \<in> eps \<Longrightarrow> lm_get m ep = Inr (val m ep)"
  by (auto simp: cells_def val_def lm.get_hit)

lemma cells_update:
  assumes "cells eps m" "ep \<in> eps"
  obtains m' where "lm_update m ep f = Inr m'" "cells eps m'" "val m' = (val m)(ep := f (val m ep))"
proof -
  from assms obtain u where u: "lm_map m ep = Some u" and inv: "lm_inv m" and dom: "dom (lm_map m) = eps"
    by (auto simp: cells_def)
  from lm.modify_hit [OF inv u, of f] obtain m' where
    "lm_update m ep f = Inr m'" "lm_inv m'" "lm_map m' = (lm_map m)(ep \<mapsto> f u)" by auto
  moreover have "val m ep = u" by (simp add: val_def u)
  ultimately show thesis
    using that [of m'] cells_upd [OF assms] val_upd by metis
qed

lemma cells_set:
  assumes "cells eps m" "ep \<in> eps"
  obtains m' where "lm_set m ep v = Inr m'" "cells eps m'" "val m' = (val m)(ep := v)"
proof -
  from assms obtain u where u: "lm_map m ep = Some u" and inv: "lm_inv m" and dom: "dom (lm_map m) = eps"
    by (auto simp: cells_def)
  from lm.put_hit [OF inv u, of v] obtain m' where
    "lm_set m ep v = Inr m'" "lm_inv m'" "lm_map m' = (lm_map m)(ep \<mapsto> v)" by auto
  then show thesis
    using that [of m'] cells_upd [OF assms] val_upd by metis
qed

lemma cells_update_eq:
  assumes "cells eps m" "lm_update m ep f = Inr m'"
  shows "ep \<in> eps \<and> cells eps m' \<and> val m' = (val m)(ep := f (val m ep))"
proof -
  from assms lm.modify_eq_Inr [of m ep f m'] obtain u where "lm_map m ep = Some u" "lm_inv m'"
    "lm_map m' = (lm_map m)(ep \<mapsto> f u)"
    by (auto simp: cells_def)
  moreover have "ep \<in> eps" using \<open>lm_map m ep = Some u\<close> assms(1) by (auto simp: cells_def)
  moreover have "val m ep = u" by (simp add: val_def \<open>lm_map m ep = Some u\<close>)
  ultimately show ?thesis using cells_upd [OF assms(1)] val_upd by metis
qed

text \<open>An endpoint may send: something waits there and neither limit is reached.\<close>

definition eligible :: "'b inner_queue \<Rightarrow> int \<Rightarrow> int local_map \<Rightarrow> int \<Rightarrow> int local_map \<Rightarrow> string \<Rightarrow> bool" where
  "eligible iq in_flight f gl l ep \<longleftrightarrow> iq_deque iq ep \<noteq> [] \<and> val f ep < val l ep \<and> in_flight < gl"

definition sent :: "'b inner_queue \<Rightarrow> int \<Rightarrow> int local_map \<Rightarrow> string \<Rightarrow> 'b \<Rightarrow> 'b inner_queue \<Rightarrow> int \<Rightarrow> int local_map \<Rightarrow> bool" where
  "sent iq in_flight f ep b iq' in_flight' f' \<longleftrightarrow>
     iq_deque iq ep = b # iq_deque iq' ep \<and>
     (\<forall>e. e \<noteq> ep \<longrightarrow> iq_deque iq' e = iq_deque iq e) \<and>
     in_flight' = in_flight + 1 \<and> val f' = (val f)(ep := val f ep + 1)"

lemma iq_step_send:
  assumes inv: "iq_inv eps iq" and it: "iq_it iq = i" and key: "slot_key (lm_slots (iq_queue iq) ! i) = ep"
    and d: "slot_value (lm_slots (iq_queue iq) ! i) = b # d"
  shows "ep \<in> eps \<and> iq_deque iq ep = b # d \<and>
    (let q' = store_at (iq_queue iq) i d; iq' = iq\<lparr>iq_queue := q', iq_it := it_next q' i, iq_size := iq_size iq - 1\<rparr>
     in iq_inv eps iq' \<and> iq_deque iq' = (iq_deque iq)(ep := d))"
proof -
  let ?q = "iq_queue iq"
  let ?q' = "store_at ?q i d"
  let ?iq' = "iq\<lparr>iq_queue := ?q', iq_it := it_next ?q' i, iq_size := iq_size iq - 1\<rparr>"
  have q: "lm_inv ?q" and dom: "dom (lm_map ?q) = eps" and i: "i < length (lm_slots ?q)" "occupied (lm_slots ?q ! i)"
    and mem: "i \<in> set (get_all_indices ?q)"
    using inv it by (auto simp: iq_inv_def set_get_all_indices)
  have fp: "find_ptr ?q ep = Inr (Some i)" and m: "lm_map ?q ep = Some (b # d)"
    using lm_map_slot [OF q i] unfolding key d .
  have q': "lm_inv ?q'" "lm_map ?q' = (lm_map ?q)(ep \<mapsto> d)"
    using store_at_inv [OF q i(1)] store_at_map [OF q fp] by auto
  have deq: "iq_deque ?iq' = (iq_deque iq)(ep := d)"
    by (auto simp: iq_deque_def q'(2) fun_eq_iff)
  have ep: "ep \<in> eps" using m dom by auto
  have fin: "finite eps" using finite_dom_lm [OF q] dom by simp
  have "(\<Sum>e\<in>eps. length (iq_deque ?iq' e)) + length (iq_deque iq ep) = (\<Sum>e\<in>eps. length (iq_deque iq e)) + length d"
  proof -
    have "(\<lambda>e. length (iq_deque ?iq' e)) = (\<lambda>e. length (iq_deque iq e))(ep := length d)"
      unfolding deq by auto
    then show ?thesis
      using sum_update_nat [OF fin ep, of "\<lambda>e. length (iq_deque iq e)" "length d"] by metis
  qed
  moreover have "iq_deque iq ep = b # d" using m by (simp add: iq_deque_def)
  ultimately have size: "iq_size iq - 1 = (\<Sum>e\<in>eps. length (iq_deque ?iq' e))"
    using inv by (simp add: iq_inv_def)
  have "it_next ?q' i \<in> set (get_all_indices ?q')"
    using mem i(1) by (intro it_next_mem) simp
  then have "iq_inv eps ?iq'"
    using q' dom ep size by (auto simp: iq_inv_def)
  then show ?thesis
    using ep deq \<open>iq_deque iq ep = b # d\<close> by (simp add: Let_def)
qed

lemma iq_it_same: "iq_inv eps iq \<Longrightarrow> i \<in> set (get_all_indices (iq_queue iq)) \<Longrightarrow> iq_inv eps (iq\<lparr>iq_it := i\<rparr>)"
  by (simp add: iq_inv_def iq_deque_def)

definition pop_result ::
  "string set \<Rightarrow> 'b inner_queue \<Rightarrow> int \<Rightarrow> int local_map \<Rightarrow> int \<Rightarrow> int local_map \<Rightarrow>
   'b option \<Rightarrow> 'b inner_queue \<Rightarrow> int \<Rightarrow> int local_map \<Rightarrow> bool" where
  "pop_result eps iq in_flight f gl l r iq' in_flight' f' \<longleftrightarrow>
     iq_inv eps iq' \<and> cells eps f' \<and>
     (case r of
        Some b \<Rightarrow> (\<exists>ep\<in>eps. eligible iq in_flight f gl l ep \<and> sent iq in_flight f ep b iq' in_flight' f')
      | None \<Rightarrow> iq' = iq \<and> in_flight' = in_flight \<and> f' = f \<and> (\<forall>ep\<in>eps. \<not> eligible iq in_flight f gl l ep))"

text \<open>
  At step \<open>t\<close> of the loop the iterator is \<open>t\<close> occupied slots past its start and nothing before it
  could send.
\<close>

lemma iq_pop_loop_correct:
  assumes inv: "iq_inv eps iq" and f: "cells eps f" and l: "cells eps l"
    and occ: "os = get_all_indices (iq_queue iq)" and p: "p < length os" "t < length os"
    and start: "iq_it iq = os ! p"
    and skipped: "\<forall>e<t. \<not> eligible iq nf f gl l (slot_key (lm_slots (iq_queue iq) ! (os ! ((p + e) mod length os))))"
    and fuel: "length os - t \<le> n"
  shows "\<exists>r iq' nf' f'. iq_pop_loop n (slot_key (lm_slots (iq_queue iq) ! (os ! p)))
      (iq\<lparr>iq_it := os ! ((p + t) mod length os)\<rparr>) nf f gl l = Inr (r, iq', nf', f') \<and>
      pop_result eps iq nf f gl l r iq' nf' f'"
  using p(2) skipped fuel
proof (induction n arbitrary: t)
  case 0
  then show ?case by simp
next
  case (Suc n)
  let ?q = "iq_queue iq" and ?L = "length os"
  let ?i = "os ! ((p + t) mod ?L)"
  let ?iq = "iq\<lparr>iq_it := ?i\<rparr>"
  define ep where "ep = slot_key (lm_slots ?q ! ?i)"
  define d where "d = slot_value (lm_slots ?q ! ?i)"
  have q: "lm_inv ?q" "dom (lm_map ?q) = eps" using inv by (auto simp: iq_inv_def)
  have L: "0 < ?L" using Suc.prems by linarith
  have mem: "os ! (k mod ?L) \<in> set os" for k using L by (intro nth_mem mod_less_divisor)
  have slot: "x \<in> set os \<Longrightarrow> x < length (lm_slots ?q) \<and> occupied (lm_slots ?q ! x)" for x
    by (simp add: occ set_get_all_indices)
  have i: "?i < length (lm_slots ?q)" "occupied (lm_slots ?q ! ?i)" using slot [OF mem] by auto
  have m: "lm_map ?q ep = Some d" using lm_map_slot [OF q(1) i] by (simp add: ep_def d_def)
  then have ep: "ep \<in> eps" and dq: "iq_deque iq ep = d" using q(2) by (auto simp: iq_deque_def)
  have inv': "iq_inv eps ?iq" using inv mem occ by (intro iq_it_same) auto
  have elig: "can_send ep d nf f gl l = Inr (eligible iq nf f gl l ep)"
    using cells_get [OF f ep] cells_get [OF l ep] dq by (auto simp: can_send_def eligible_def)
  show ?case
  proof (cases "eligible iq nf f gl l ep")
    case True
    then obtain b d' where d: "d = b # d'" using dq by (cases d) (auto simp: eligible_def)
    from cells_update [OF f ep, of "\<lambda>x. x + 1"] obtain f' where
      f': "lm_update f ep (\<lambda>x. x + 1) = Inr f'" "cells eps f'" "val f' = (val f)(ep := val f ep + 1)" .
    let ?iq' = "iq\<lparr>iq_queue := store_at ?q ?i d', iq_it := it_next (store_at ?q ?i d') ?i, iq_size := iq_size iq - 1\<rparr>"
    have st: "iq_inv eps ?iq' \<and> iq_deque ?iq' = (iq_deque iq)(ep := d')"
      using iq_step_send [OF inv', of ?i ep b d'] d
      by (simp add: Let_def ep_def d_def iq_deque_def fun_eq_iff)
    have "iq_pop_loop (Suc n) (slot_key (lm_slots ?q ! (os ! p))) ?iq nf f gl l = Inr (Some b, ?iq', nf + 1, f')"
      using elig True f' d by (simp add: Let_def ep_def [symmetric] d_def [symmetric])
    moreover have "pop_result eps iq nf f gl l (Some b) ?iq' (nf + 1) f'"
      using st f' True ep dq d by (auto simp: pop_result_def sent_def)
    ultimately show ?thesis by blast
  next
    case False
    have "Suc (p + t) mod ?L = Suc ((p + t) mod ?L) mod ?L" by (simp add: mod_Suc_eq)
    then have nxt: "it_next ?q ?i = os ! (Suc (p + t) mod ?L)"
      using it_next_cycle [of "(p + t) mod ?L" ?q] L by (simp add: occ)
    have step: "iq_pop_loop (Suc n) (slot_key (lm_slots ?q ! (os ! p))) ?iq nf f gl l =
      (let i' = os ! (Suc (p + t) mod ?L); iq' = iq\<lparr>iq_it := i'\<rparr>
       in if slot_key (lm_slots ?q ! i') = slot_key (lm_slots ?q ! (os ! p)) then Inr (None, iq', nf, f)
          else iq_pop_loop n (slot_key (lm_slots ?q ! (os ! p))) iq' nf f gl l)"
      using elig False nxt by (simp add: Let_def ep_def [symmetric] d_def [symmetric])
    have none: "\<forall>e<Suc t. \<not> eligible iq nf f gl l (slot_key (lm_slots ?q ! (os ! ((p + e) mod ?L))))"
      using Suc.prems(2) False by (auto simp: less_Suc_eq ep_def)
    show ?thesis
    proof (cases "Suc t = ?L")
      case True
      then have wrap: "Suc (p + t) mod ?L = p" using assms(5) by (simp flip: add_Suc_right)
      have all: "\<not> eligible iq nf f gl l e" if e: "e \<in> eps" for e
      proof -
        from e q obtain x where x: "x < length (lm_slots ?q)" "occupied (lm_slots ?q ! x)" "slot_key (lm_slots ?q ! x) = e"
          using dom_lm_map [OF q(1)] by (auto simp: slot_keys_iff)
        then have "x \<in> set os" by (simp add: occ set_get_all_indices)
        then obtain j where j: "j < ?L" "x = os ! j" by (auto simp: in_set_conv_nth)
        define e' where "e' = (j + ?L - p) mod ?L"
        have "e' < Suc t" using True L by (simp add: e'_def)
        moreover have "(p + e') mod ?L = j"
          using j(1) assms(5) by (simp add: e'_def mod_add_right_eq)
        ultimately show ?thesis using none j x by metis
      qed
      have "iq\<lparr>iq_it := os ! p\<rparr> = iq" using start by simp
      then have "iq_pop_loop (Suc n) (slot_key (lm_slots ?q ! (os ! p))) ?iq nf f gl l = Inr (None, iq, nf, f)"
        unfolding step wrap Let_def by simp
      moreover have "pop_result eps iq nf f gl l None iq nf f"
        using inv f all by (simp add: pop_result_def)
      ultimately show ?thesis by blast
    next
      case False
      then have t: "Suc t < ?L" using Suc.prems(1) by simp
      have "Suc (p + t) mod ?L \<noteq> p"
      proof
        assume "Suc (p + t) mod ?L = p"
        then have "(p + Suc t) mod ?L = (p + 0) mod ?L" using assms(5) by simp
        then have "?L dvd Suc t" by (metis add_diff_cancel_left' le_add1 mod_eq_dvd_iff_nat add_0_right)
        then show False using t by (auto dest: dvd_imp_le)
      qed
      moreover have "Suc (p + t) mod ?L < ?L" using L by simp
      ultimately have "os ! (Suc (p + t) mod ?L) \<noteq> os ! p"
        using assms(5) distinct_get_all_indices [of ?q] by (simp add: occ nth_eq_iff_index_eq)
      then have "slot_key (lm_slots ?q ! (os ! (Suc (p + t) mod ?L))) \<noteq> slot_key (lm_slots ?q ! (os ! p))"
        using slot_key_inj [OF q(1)] slot [OF mem] slot [OF nth_mem [OF assms(5)]] by blast
      then show ?thesis
        unfolding step Let_def using Suc.IH [OF t none] Suc.prems(3) by simp
    qed
  qed
qed

lemma iq_pop_correct:
  assumes inv: "iq_inv eps iq" and f: "cells eps f" and l: "cells eps l"
  shows "\<exists>r iq' nf' f'. iq_pop iq nf f gl l = Inr (r, iq', nf', f') \<and>
      pop_result eps iq nf f gl l r iq' nf' f'"
proof (cases "iq_size iq = 0")
  case True
  have "finite eps" using inv finite_dom_lm by (auto simp: iq_inv_def)
  then have "\<forall>ep\<in>eps. iq_deque iq ep = []" using True inv by (auto simp: iq_inv_def)
  then have "pop_result eps iq nf f gl l None iq nf f"
    using inv f by (auto simp: pop_result_def eligible_def)
  then show ?thesis using True by (auto simp: iq_pop_def)
next
  case False
  let ?os = "get_all_indices (iq_queue iq)"
  have it: "iq_it iq \<in> set ?os" using inv by (simp add: iq_inv_def)
  then obtain p where p: "p < length ?os" "iq_it iq = ?os ! p" by (auto simp: in_set_conv_nth)
  have lt: "iq_it iq < length (lm_slots (iq_queue iq))" using it by (simp add: set_get_all_indices)
  have "length ?os \<le> length (lm_slots (iq_queue iq))"
    unfolding get_all_indices_def by (metis diff_zero length_filter_le length_upt)
  then have fuel: "length ?os - 0 \<le> length (lm_slots (iq_queue iq))" by simp
  have same: "iq\<lparr>iq_it := ?os ! ((p + 0) mod length ?os)\<rparr> = iq" using p by simp
  have "iq_pop iq nf f gl l = iq_pop_loop (length (lm_slots (iq_queue iq)))
      (slot_key (lm_slots (iq_queue iq) ! (?os ! p))) iq nf f gl l"
    using False lt p(2) by (simp add: iq_pop_def)
  moreover have "0 < length ?os" using p(1) by linarith
  ultimately show ?thesis
    using iq_pop_loop_correct [OF inv f l refl p(1) _ p(2) _ fuel] same by (simp del: add_0_right)
qed

lemma sent_size:
  assumes "iq_inv eps iq" "iq_inv eps iq'" "ep \<in> eps" "sent iq nf f ep b iq' nf' f'"
  shows "iq_size iq = Suc (iq_size iq')"
proof -
  have fin: "finite eps" using assms(1) finite_dom_lm by (auto simp: iq_inv_def)
  have "(\<lambda>e. length (iq_deque iq' e)) = (\<lambda>e. length (iq_deque iq e))(ep := length (iq_deque iq' ep))"
    using assms(4) by (auto simp: sent_def)
  then have "(\<Sum>e\<in>eps. length (iq_deque iq' e)) + length (iq_deque iq ep) =
      (\<Sum>e\<in>eps. length (iq_deque iq e)) + length (iq_deque iq' ep)"
    using sum_update_nat [OF fin assms(3), of "\<lambda>e. length (iq_deque iq e)" "length (iq_deque iq' ep)"] by metis
  then show ?thesis using assms by (auto simp: iq_inv_def sent_def)
qed

section \<open>The credit queue: invariant\<close>

text \<open>
  The total of active requests is the sum over the endpoints, the size is the number of waiting
  grants, the current priority still has rounds left, and every map has exactly the endpoints.
\<close>

definition cq_inv :: "string set \<Rightarrow> 'b credit_queue \<Rightarrow> bool" where
  "cq_inv eps cq \<longleftrightarrow>
     length (cq_queue cq) = 3 \<and> cq_weights cq = [16, 4, 1] \<and> cq_it cq < 3 \<and>
     0 < cq_rounds cq \<and> cq_rounds cq \<le> [16, 4, 1] ! cq_it cq \<and>
     (\<forall>p<3. iq_inv eps (cq_queue cq ! p)) \<and>
     cells eps (cq_per_endpoint cq) \<and> cells eps (cq_limits cq) \<and>
     cq_size cq = (\<Sum>p<3. iq_size (cq_queue cq ! p)) \<and>
     cq_in_flight cq = (\<Sum>ep\<in>eps. val (cq_per_endpoint cq) ep)"

definition cq_deque :: "'b credit_queue \<Rightarrow> nat \<Rightarrow> string \<Rightarrow> 'b list" where
  "cq_deque cq p ep = iq_deque (cq_queue cq ! p) ep"

definition cq_eligible :: "'b credit_queue \<Rightarrow> nat \<Rightarrow> string \<Rightarrow> bool" where
  "cq_eligible cq p ep \<longleftrightarrow> cq_deque cq p ep \<noteq> [] \<and>
     val (cq_per_endpoint cq) ep < val (cq_limits cq) ep \<and> cq_in_flight cq < cq_global_limit cq"

lemma cq_inv_finite: "cq_inv eps cq \<Longrightarrow> finite eps"
  using finite_dom_lm by (auto simp: cq_inv_def cells_def)

lemma weights_pos: "p < 3 \<Longrightarrow> 0 < [16, 4, 1 :: nat] ! p"
  by (auto simp: less_Suc_eq numeral_3_eq_3)

definition cq_advance :: "'b credit_queue \<Rightarrow> 'b credit_queue" where
  "cq_advance cq = (let it' = (cq_it cq + 1) mod PriorityCount
                    in cq\<lparr>cq_it := it', cq_rounds := cq_weights cq ! it'\<rparr>)"

lemma cq_advance_inv [inv_intros]: "cq_inv eps cq \<Longrightarrow> cq_inv eps (cq_advance cq)"
  using weights_pos [of "(cq_it cq + 1) mod 3"]
  by (auto simp: cq_inv_def cq_advance_def Let_def PriorityCount_def)

lemma cq_advance_same [simp]:
  "cq_queue (cq_advance cq) = cq_queue cq" "cq_weights (cq_advance cq) = cq_weights cq"
  "cq_in_flight (cq_advance cq) = cq_in_flight cq" "cq_size (cq_advance cq) = cq_size cq"
  "cq_global_limit (cq_advance cq) = cq_global_limit cq"
  "cq_per_endpoint (cq_advance cq) = cq_per_endpoint cq" "cq_limits (cq_advance cq) = cq_limits cq"
  "cq_deque (cq_advance cq) = cq_deque cq" "cq_eligible (cq_advance cq) = cq_eligible cq"
  by (auto simp: cq_advance_def Let_def cq_deque_def cq_eligible_def fun_eq_iff)

lemma cq_advance_it: "cq_it (cq_advance cq) = (cq_it cq + 1) mod 3"
  by (simp add: cq_advance_def Let_def PriorityCount_def)

text \<open>What a successful pop at the current priority does to the whole queue.\<close>

definition cq_sent :: "string set \<Rightarrow> 'b credit_queue \<Rightarrow> string \<Rightarrow> 'b \<Rightarrow> 'b credit_queue \<Rightarrow> bool" where
  "cq_sent eps cq ep b cq' \<longleftrightarrow>
     (let p = cq_it cq in
      ep \<in> eps \<and> cq_eligible cq p ep \<and>
      cq_deque cq p ep = b # cq_deque cq' p ep \<and>
      (\<forall>p'<3. \<forall>e. (p', e) \<noteq> (p, ep) \<longrightarrow> cq_deque cq' p' e = cq_deque cq p' e) \<and>
      val (cq_per_endpoint cq') = (val (cq_per_endpoint cq))(ep := val (cq_per_endpoint cq) ep + 1) \<and>
      cq_in_flight cq' = cq_in_flight cq + 1 \<and>
      cq_limits cq' = cq_limits cq \<and> cq_global_limit cq' = cq_global_limit cq \<and>
      cq_size cq = Suc (cq_size cq') \<and>
      (if cq_rounds cq = 1
       then cq_it cq' = (p + 1) mod 3 \<and> cq_rounds cq' = cq_weights cq ! ((p + 1) mod 3)
       else cq_it cq' = p \<and> cq_rounds cq' = cq_rounds cq - 1))"

lemma cq_sent_inv:
  assumes inv: "cq_inv eps cq" and it: "cq_it cq = p"
    and iq': "iq_inv eps iq'" and f': "cells eps f'" and ep: "ep \<in> eps"
    and elig: "eligible (cq_queue cq ! p) (cq_in_flight cq) (cq_per_endpoint cq) (cq_global_limit cq) (cq_limits cq) ep"
    and sent: "sent (cq_queue cq ! p) (cq_in_flight cq) (cq_per_endpoint cq) ep b iq' nf' f'"
    and rounds: "0 < r" "r \<le> [16, 4, 1] ! i" "i < 3"
    and ptr: "if cq_rounds cq = 1 then i = (p + 1) mod 3 \<and> r = cq_weights cq ! ((p + 1) mod 3)
              else i = p \<and> r = cq_rounds cq - 1"
  shows "let cq' = cq\<lparr>cq_queue := (cq_queue cq)[p := iq'], cq_in_flight := nf', cq_per_endpoint := f',
                      cq_it := i, cq_rounds := r, cq_size := cq_size cq - 1\<rparr>
         in cq_inv eps cq' \<and> cq_sent eps cq ep b cq'"
proof -
  let ?cq' = "cq\<lparr>cq_queue := (cq_queue cq)[p := iq'], cq_in_flight := nf', cq_per_endpoint := f',
                 cq_it := i, cq_rounds := r, cq_size := cq_size cq - 1\<rparr>"
  have len: "length (cq_queue cq) = 3" and p: "p < 3" and q: "\<forall>p<3. iq_inv eps (cq_queue cq ! p)"
    and size: "cq_size cq = (\<Sum>p<3. iq_size (cq_queue cq ! p))"
    and nf: "cq_in_flight cq = (\<Sum>ep\<in>eps. val (cq_per_endpoint cq) ep)"
    using inv it by (auto simp: cq_inv_def)
  have sz: "iq_size (cq_queue cq ! p) = Suc (iq_size iq')"
    using sent_size [OF _ iq' ep sent] q p by blast
  have upd: "(\<lambda>k. iq_size ((cq_queue cq)[p := iq'] ! k)) k =
      ((\<lambda>k. iq_size (cq_queue cq ! k))(p := iq_size iq')) k" if "k < 3" for k
    using that len p by (auto simp: nth_list_update)
  have "(\<Sum>k<3. iq_size ((cq_queue cq)[p := iq'] ! k)) + iq_size (cq_queue cq ! p) =
      (\<Sum>k<3. iq_size (cq_queue cq ! k)) + iq_size iq'"
    using sum_update_nat [of "{..<3}" p "\<lambda>k. iq_size (cq_queue cq ! k)" "iq_size iq'"] p upd
    by (simp cong: sum.cong_simp)
  then have size': "Suc (\<Sum>k<3. iq_size ((cq_queue cq)[p := iq'] ! k)) = cq_size cq"
    using size sz by simp
  have vf: "val f' = (val (cq_per_endpoint cq))(ep := val (cq_per_endpoint cq) ep + 1)" and nf': "nf' = cq_in_flight cq + 1"
    using sent by (auto simp: sent_def)
  have "nf' = (\<Sum>ep\<in>eps. val f' ep)"
    unfolding vf nf' sum_update [OF cq_inv_finite [OF inv] ep] nf by simp
  then have "cq_inv eps ?cq'"
    using inv iq' f' len q p rounds size' by (auto simp: cq_inv_def nth_list_update)
  moreover have "cq_sent eps cq ep b ?cq'"
    using ep elig sent it len p size' ptr vf nf'
    by (auto simp: cq_sent_def Let_def cq_eligible_def eligible_def cq_deque_def sent_def nth_list_update)
  ultimately show ?thesis by (simp add: Let_def)
qed

lemma cq_pop_step:
  assumes inv: "cq_inv eps cq"
  shows "(\<exists>ep b cq'. cq_pop_loop (Suc n) init cq = Inr (Some b, cq') \<and> cq_inv eps cq' \<and> cq_sent eps cq ep b cq') \<or>
    ((\<forall>ep\<in>eps. \<not> cq_eligible cq (cq_it cq) ep) \<and>
     cq_pop_loop (Suc n) init cq =
       (if cq_it (cq_advance cq) = init then Inr (None, cq_advance cq) else cq_pop_loop n init (cq_advance cq)))"
proof -
  let ?p = "cq_it cq" and ?iq = "cq_queue cq ! cq_it cq"
  let ?it = "(cq_it cq + 1) mod 3"
  have len: "length (cq_queue cq) = 3" "?p < 3" "length (cq_weights cq) = 3" "cq_weights cq = [16, 4, 1]"
    and q: "iq_inv eps ?iq" and f: "cells eps (cq_per_endpoint cq)" and l: "cells eps (cq_limits cq)"
    and r: "0 < cq_rounds cq" "cq_rounds cq \<le> [16, 4, 1] ! ?p"
    using inv by (auto simp: cq_inv_def)
  have at: "vec_at (cq_queue cq) ?p = Inr ?iq" and w: "vec_at (cq_weights cq) ?it = Inr (cq_weights cq ! ?it)"
    using len by auto
  from iq_pop_correct [OF q f l] obtain res iq' nf' f' where
    pop: "iq_pop ?iq (cq_in_flight cq) (cq_per_endpoint cq) (cq_global_limit cq) (cq_limits cq) = Inr (res, iq', nf', f')"
    and res: "pop_result eps ?iq (cq_in_flight cq) (cq_per_endpoint cq) (cq_global_limit cq) (cq_limits cq) res iq' nf' f'"
    by blast
  show ?thesis
  proof (cases res)
    case None
    then have same: "iq' = ?iq" "nf' = cq_in_flight cq" "f' = cq_per_endpoint cq"
      and no: "\<forall>ep\<in>eps. \<not> cq_eligible cq ?p ep"
      using res by (auto simp: pop_result_def eligible_def cq_eligible_def cq_deque_def)
    have "cq_pop_loop (Suc n) init cq =
       (if cq_it (cq_advance cq) = init then Inr (None, cq_advance cq) else cq_pop_loop n init (cq_advance cq))"
      using at w pop None same by (simp add: Let_def cq_advance_def PriorityCount_def)
    with no show ?thesis by blast
  next
    case (Some b)
    with res obtain ep where ep: "ep \<in> eps" "iq_inv eps iq'" "cells eps f'"
      "eligible ?iq (cq_in_flight cq) (cq_per_endpoint cq) (cq_global_limit cq) (cq_limits cq) ep"
      "sent ?iq (cq_in_flight cq) (cq_per_endpoint cq) ep b iq' nf' f'"
      by (auto simp: pop_result_def)
    define i where "i = (if cq_rounds cq = 1 then ?it else ?p)"
    define r' where "r' = (if cq_rounds cq = 1 then cq_weights cq ! ?it else cq_rounds cq - 1)"
    let ?cq' = "cq\<lparr>cq_queue := (cq_queue cq)[?p := iq'], cq_in_flight := nf', cq_per_endpoint := f',
                 cq_it := i, cq_rounds := r', cq_size := cq_size cq - 1\<rparr>"
    have "cq_pop_loop (Suc n) init cq = Inr (Some b, ?cq')"
      using at w pop Some r(1) by (auto simp: Let_def PriorityCount_def i_def r'_def)
    moreover have "0 < r'" "r' \<le> [16, 4, 1] ! i" "i < 3"
      using r len weights_pos [of ?it] by (auto simp: r'_def i_def)
    with cq_sent_inv [OF inv refl ep(2,3,1,4,5) this] have "cq_inv eps ?cq' \<and> cq_sent eps cq ep b ?cq'"
      by (auto simp: Let_def i_def r'_def)
    ultimately show ?thesis by blast
  qed
qed

declare cq_pop_loop.simps [simp del]

text \<open>
  Three steps cover the three priorities. The pop stops at the first priority, counted from the
  current one, that has an endpoint which may send.
\<close>

lemma cq_pop_loop_correct:
  assumes inv: "cq_inv eps cq"
  shows "(\<exists>t<3. \<exists>ep b cq'. cq_pop_loop 3 (cq_it cq) cq = Inr (Some b, cq') \<and> cq_inv eps cq' \<and>
            cq_sent eps ((cq_advance ^^ t) cq) ep b cq' \<and>
            (\<forall>e<t. \<forall>ep\<in>eps. \<not> cq_eligible cq ((cq_it cq + e) mod 3) ep)) \<or>
         (\<exists>cq'. cq_pop_loop 3 (cq_it cq) cq = Inr (None, cq') \<and> cq' = (cq_advance ^^ 3) cq \<and>
            (\<forall>p<3. \<forall>ep\<in>eps. \<not> cq_eligible cq p ep))"
proof -
  let ?c1 = "cq_advance cq" and ?c2 = "cq_advance (cq_advance cq)" and ?c3 = "cq_advance (cq_advance (cq_advance cq))"
  have p: "cq_it cq < 3" using inv by (simp add: cq_inv_def)
  have inv1: "cq_inv eps ?c1" and inv2: "cq_inv eps ?c2" using inv by (simp_all add: cq_advance_inv)
  have sucs: "Suc 2 = 3" "Suc 1 = 2" "Suc 0 = 1" by simp_all
  have it1: "cq_it ?c1 = (cq_it cq + 1) mod 3" and it2: "cq_it ?c2 = (cq_it cq + 2) mod 3" and it3: "cq_it ?c3 = cq_it cq"
    using p by (simp_all add: cq_advance_it mod_Suc_eq)
  have ne: "cq_it ?c1 \<noteq> cq_it cq" "cq_it ?c2 \<noteq> cq_it cq"
    using p unfolding it1 it2 by (auto simp: mod_if)
  consider (s0) ep b cq' where "cq_pop_loop 3 (cq_it cq) cq = Inr (Some b, cq')" "cq_inv eps cq'" "cq_sent eps cq ep b cq'"
    | (n0) "\<forall>ep\<in>eps. \<not> cq_eligible cq (cq_it cq) ep" "cq_pop_loop 3 (cq_it cq) cq = cq_pop_loop 2 (cq_it cq) ?c1"
    using cq_pop_step [OF inv, of 2 "cq_it cq", unfolded sucs] ne(1) by (metis (no_types))
  then show ?thesis
  proof cases
    case s0
    then have "\<exists>ep b cq'. cq_pop_loop 3 (cq_it cq) cq = Inr (Some b, cq') \<and> cq_inv eps cq' \<and>
            cq_sent eps ((cq_advance ^^ 0) cq) ep b cq' \<and>
            (\<forall>e<0. \<forall>ep\<in>eps. \<not> cq_eligible cq ((cq_it cq + e) mod 3) ep)" by auto
    then show ?thesis by (intro disjI1 exI [of _ "0::nat"]) simp
  next
    case n0
    consider (s1) ep b cq' where "cq_pop_loop 2 (cq_it cq) ?c1 = Inr (Some b, cq')" "cq_inv eps cq'" "cq_sent eps ?c1 ep b cq'"
      | (n1) "\<forall>ep\<in>eps. \<not> cq_eligible cq (cq_it ?c1) ep" "cq_pop_loop 2 (cq_it cq) ?c1 = cq_pop_loop 1 (cq_it cq) ?c2"
      using cq_pop_step [OF inv1, of 1 "cq_it cq", unfolded sucs cq_advance_same] ne(2) by (metis (no_types))
    then show ?thesis
    proof cases
      case s1
      then have "\<exists>ep b cq'. cq_pop_loop 3 (cq_it cq) cq = Inr (Some b, cq') \<and> cq_inv eps cq' \<and>
            cq_sent eps ((cq_advance ^^ 1) cq) ep b cq' \<and>
            (\<forall>e<1. \<forall>ep\<in>eps. \<not> cq_eligible cq ((cq_it cq + e) mod 3) ep)" using n0 p by auto
      then show ?thesis by (intro disjI1 exI [of _ "1::nat"]) simp
    next
      case n1
      consider (s2) ep b cq' where "cq_pop_loop 1 (cq_it cq) ?c2 = Inr (Some b, cq')" "cq_inv eps cq'" "cq_sent eps ?c2 ep b cq'"
        | (n2) "\<forall>ep\<in>eps. \<not> cq_eligible cq (cq_it ?c2) ep" "cq_pop_loop 1 (cq_it cq) ?c2 = Inr (None, ?c3)"
        using cq_pop_step [OF inv2, of 0 "cq_it cq", unfolded sucs cq_advance_same] it3 by (metis (no_types))
      then show ?thesis
      proof cases
        case s2
        have "\<forall>e<2. \<forall>ep\<in>eps. \<not> cq_eligible cq ((cq_it cq + e) mod 3) ep"
          using n0(1) n1(1) p it1 by (auto simp: less_Suc_eq numeral_2_eq_2)
        then have "\<exists>ep b cq'. cq_pop_loop 3 (cq_it cq) cq = Inr (Some b, cq') \<and> cq_inv eps cq' \<and>
            cq_sent eps ((cq_advance ^^ 2) cq) ep b cq' \<and>
            (\<forall>e<2. \<forall>ep\<in>eps. \<not> cq_eligible cq ((cq_it cq + e) mod 3) ep)"
          using s2 n0(2) n1(2) by (auto simp: numeral_2_eq_2)
        then show ?thesis by (intro disjI1 exI [of _ "2::nat"]) simp
      next
        case n2
        have "p' = cq_it cq \<or> p' = cq_it ?c1 \<or> p' = cq_it ?c2" if "p' < 3" for p'
          using that p unfolding it1 it2 by presburger
        then have "\<forall>p<3. \<forall>ep\<in>eps. \<not> cq_eligible cq p ep" using n0(1) n1(1) n2(1) by metis
        moreover have "cq_pop_loop 3 (cq_it cq) cq = Inr (None, ?c3)"
          using n0(2) n1(2) n2(2) by simp
        moreover have "?c3 = (cq_advance ^^ 3) cq" by (simp add: numeral_3_eq_3)
        ultimately show ?thesis by blast
      qed
    qed
  qed
qed


section \<open>Every operation keeps the invariant\<close>

lemma cq_idle:
  assumes "cq_inv eps cq" "cq_size cq = 0 \<or> cq_global_limit cq \<le> cq_in_flight cq" "p < 3" "ep \<in> eps"
  shows "\<not> cq_eligible cq p ep"
proof (cases "cq_size cq = 0")
  case True
  then have "iq_size (cq_queue cq ! p) = 0" using assms(1,3) by (simp add: cq_inv_def)
  moreover have "iq_inv eps (cq_queue cq ! p)" using assms(1,3) by (simp add: cq_inv_def)
  ultimately have "cq_deque cq p ep = []"
    using cq_inv_finite [OF assms(1)] assms(4) by (auto simp: iq_inv_def cq_deque_def)
  then show ?thesis by (simp add: cq_eligible_def)
next
  case False
  then show ?thesis using assms(2) by (simp add: cq_eligible_def)
qed

definition cq_popped :: "string set \<Rightarrow> 'b credit_queue \<Rightarrow> 'b option \<Rightarrow> 'b credit_queue \<Rightarrow> bool" where
  "cq_popped eps cq r cq' \<longleftrightarrow>
     (case r of
        Some b \<Rightarrow> \<exists>t<3. \<exists>ep. cq_sent eps ((cq_advance ^^ t) cq) ep b cq' \<and>
                   (\<forall>e<t. \<forall>ep\<in>eps. \<not> cq_eligible cq ((cq_it cq + e) mod 3) ep)
      | None \<Rightarrow> (\<forall>p<3. \<forall>ep\<in>eps. \<not> cq_eligible cq p ep) \<and> (cq' = cq \<or> cq' = (cq_advance ^^ 3) cq))"

lemma cq_advance_pow_inv: "cq_inv eps cq \<Longrightarrow> cq_inv eps ((cq_advance ^^ t) cq)"
  by (induction t) (simp_all add: cq_advance_inv)

lemma cq_pop_spec:
  assumes inv: "cq_inv eps cq"
  shows "\<exists>r cq'. cq_pop cq = Inr (r, cq') \<and> cq_inv eps cq' \<and> cq_popped eps cq r cq'"
proof (cases "cq_size cq = 0 \<or> cq_global_limit cq \<le> cq_in_flight cq")
  case True
  then have "cq_pop cq = Inr (None, cq)" by (auto simp: cq_pop_def)
  then show ?thesis using cq_idle [OF inv True] inv by (auto simp: cq_popped_def)
next
  case False
  then have eq: "cq_pop cq = cq_pop_loop 3 (cq_it cq) cq" by (simp add: cq_pop_def PriorityCount_def)
  from cq_pop_loop_correct [OF inv] show ?thesis
  proof (elim disjE exE conjE)
    fix t ep b cq'
    assume "t < 3" "cq_pop_loop 3 (cq_it cq) cq = Inr (Some b, cq')" "cq_inv eps cq'"
      "cq_sent eps ((cq_advance ^^ t) cq) ep b cq'"
      "\<forall>e<t. \<forall>ep\<in>eps. \<not> cq_eligible cq ((cq_it cq + e) mod 3) ep"
    then show ?thesis unfolding eq
      by (intro exI [of _ "Some b"] exI [of _ cq']) (auto simp: cq_popped_def)
  next
    fix cq'
    assume "cq_pop_loop 3 (cq_it cq) cq = Inr (None, cq')" "cq' = (cq_advance ^^ 3) cq"
      "\<forall>p<3. \<forall>ep\<in>eps. \<not> cq_eligible cq p ep"
    then show ?thesis unfolding eq using cq_advance_pow_inv [OF inv]
      by (intro exI [of _ None] exI [of _ cq']) (simp add: cq_popped_def)
  qed
qed

lemma iq_push_spec:
  assumes inv: "iq_inv eps iq" and ep: "ep \<in> eps"
  obtains iq' where "iq_push iq b ep = Inr iq'" "iq_inv eps iq'" "iq_size iq' = Suc (iq_size iq)"
    "iq_deque iq' = (iq_deque iq)(ep := iq_deque iq ep @ [b])"
proof -
  have c: "cells eps (iq_queue iq)" using inv by (simp add: iq_inv_def cells_def)
  from cells_update [OF c ep, of "\<lambda>d. d @ [b]"] obtain q where q: "lm_update (iq_queue iq) ep (\<lambda>d. d @ [b]) = Inr q"
    "cells eps q" "val q = (val (iq_queue iq))(ep := val (iq_queue iq) ep @ [b])" .
  let ?iq = "iq\<lparr>iq_queue := q, iq_size := Suc (iq_size iq)\<rparr>"
  have deq: "iq_deque ?iq = (iq_deque iq)(ep := iq_deque iq ep @ [b])"
    using q(3) by (simp add: iq_deque_def val_def fun_eq_iff)
  have fin: "finite eps" using inv finite_dom_lm by (auto simp: iq_inv_def)
  have fe: "(\<lambda>e. length (iq_deque ?iq e)) = (\<lambda>e. length (iq_deque iq e))(ep := Suc (length (iq_deque iq ep)))"
    unfolding deq by auto
  have "(\<Sum>e\<in>eps. length (iq_deque ?iq e)) + length (iq_deque iq ep) =
      (\<Sum>e\<in>eps. length (iq_deque iq e)) + Suc (length (iq_deque iq ep))"
    unfolding fe by (rule sum_update_nat [OF fin ep])
  then have size: "Suc (iq_size iq) = (\<Sum>e\<in>eps. length (iq_deque ?iq e))"
    using inv by (simp add: iq_inv_def)
  have "get_all_indices q = get_all_indices (iq_queue iq)"
    using q(1) by (rule lm_update_indices)
  then have "iq_inv eps ?iq" using inv q(2) size by (simp add: iq_inv_def cells_def)
  then show thesis using that [of ?iq] q(1) deq by (simp add: iq_push_def)
qed

lemma sum_iq_size_update:
  assumes "length qs = 3" "p < 3"
  shows "(\<Sum>k<3. iq_size (qs[p := iq] ! k)) + iq_size (qs ! p) = (\<Sum>k<3. iq_size (qs ! k)) + iq_size iq"
proof -
  have "(\<Sum>k<3. iq_size (qs[p := iq] ! k)) = (\<Sum>k<3. ((\<lambda>k. iq_size (qs ! k))(p := iq_size iq)) k)"
    using assms by (intro sum.cong) (auto simp: nth_list_update)
  then show ?thesis using sum_update_nat [of "{..<3::nat}" p "\<lambda>k. iq_size (qs ! k)" "iq_size iq"] assms by simp
qed

lemma cq_push_spec:
  assumes inv: "cq_inv eps cq" and ep: "ep \<in> eps" and pr: "0 \<le> pr" "pr < 3"
  obtains cq' where "cq_push cq b ep pr = Inr cq'" "cq_inv eps cq'" "cq_size cq' = Suc (cq_size cq)"
    "\<And>p e. p < 3 \<Longrightarrow> cq_deque cq' p e = cq_deque cq p e @ (if p = nat pr \<and> e = ep then [b] else [])"
proof -
  define p where "p = nat pr"
  have p: "p < 3" and sp: "size_t_of pr = p" using pr by (auto simp: p_def)
  have len: "length (cq_queue cq) = 3" and iq: "iq_inv eps (cq_queue cq ! p)" using inv p by (auto simp: cq_inv_def)
  from iq_push_spec [OF iq ep, of b] obtain iq' where iq': "iq_push (cq_queue cq ! p) b ep = Inr iq'" "iq_inv eps iq'"
    "iq_size iq' = Suc (iq_size (cq_queue cq ! p))"
    "iq_deque iq' = (iq_deque (cq_queue cq ! p))(ep := iq_deque (cq_queue cq ! p) ep @ [b])" by metis
  let ?cq = "cq\<lparr>cq_queue := (cq_queue cq)[p := iq'], cq_size := Suc (cq_size cq)\<rparr>"
  have eq: "cq_push cq b ep pr = Inr ?cq" using len p iq'(1) by (simp add: cq_push_def sp)
  have sz: "Suc (cq_size cq) = (\<Sum>k<3. iq_size ((cq_queue cq)[p := iq'] ! k))"
    using sum_iq_size_update [OF len p, of iq'] iq'(3) inv by (simp add: cq_inv_def)
  have "iq_inv eps ((cq_queue cq)[p := iq'] ! k)" if "k < 3" for k
    using that len p iq'(2) inv by (cases "k = p") (auto simp: cq_inv_def)
  then have "cq_inv eps ?cq" using inv sz by (simp add: cq_inv_def)
  moreover have "cq_deque ?cq k e = cq_deque cq k e @ (if k = nat pr \<and> e = ep then [b] else [])" if "k < 3" for k e
    using that len p iq'(4) by (auto simp: cq_deque_def p_def [symmetric] nth_list_update)
  ultimately show thesis using that [of ?cq] eq by simp
qed

lemma cq_push_bad_priority:
  assumes "length (cq_queue cq) = 3" "3 \<le> pr" "pr < 2 ^ 31"
  shows "cq_push cq b ep pr = Inl OutOfRange"
proof -
  have "size_t_of pr = nat pr" "\<not> nat pr < 3" using assms by auto
  then show ?thesis using assms(1) by (simp add: cq_push_def vec_at_def)
qed

lemma cq_move_in_flight_inv:
  assumes inv: "cq_inv eps cq" and f: "cells eps f" "val f = (val (cq_per_endpoint cq))(ep := val (cq_per_endpoint cq) ep + d)"
    and ep: "ep \<in> eps"
  shows "cq_inv eps (cq\<lparr>cq_per_endpoint := f, cq_in_flight := cq_in_flight cq + d\<rparr>)"
proof -
  have "cq_in_flight cq + d = (\<Sum>ep\<in>eps. val f ep)"
    unfolding f(2) sum_update [OF cq_inv_finite [OF inv] ep] using inv by (simp add: cq_inv_def)
  then show ?thesis using inv f(1) by (simp add: cq_inv_def)
qed

lemma cq_increment_spec:
  assumes inv: "cq_inv eps cq" and ep: "ep \<in> eps"
  obtains f where "cq_increment_in_flight cq ep = Inr (cq\<lparr>cq_per_endpoint := f, cq_in_flight := cq_in_flight cq + 1\<rparr>)"
    "cq_inv eps (cq\<lparr>cq_per_endpoint := f, cq_in_flight := cq_in_flight cq + 1\<rparr>)"
    "val f = (val (cq_per_endpoint cq))(ep := val (cq_per_endpoint cq) ep + 1)"
proof -
  have c: "cells eps (cq_per_endpoint cq)" using inv by (simp add: cq_inv_def)
  from cells_update [OF c ep, of "\<lambda>x. x + 1"] obtain f where f: "lm_update (cq_per_endpoint cq) ep (\<lambda>x. x + 1) = Inr f"
    "cells eps f" "val f = (val (cq_per_endpoint cq))(ep := val (cq_per_endpoint cq) ep + 1)" .
  show thesis using that [of f] f cq_move_in_flight_inv [OF inv f(2,3) ep] by (simp add: cq_increment_in_flight_def)
qed

lemma cq_decrement_spec:
  assumes inv: "cq_inv eps cq" and ep: "ep \<in> eps"
  obtains f where "cq_decrement_in_flight cq ep = Inr (cq\<lparr>cq_per_endpoint := f, cq_in_flight := cq_in_flight cq - 1\<rparr>)"
    "cq_inv eps (cq\<lparr>cq_per_endpoint := f, cq_in_flight := cq_in_flight cq - 1\<rparr>)"
    "val f = (val (cq_per_endpoint cq))(ep := val (cq_per_endpoint cq) ep - 1)"
proof -
  have c: "cells eps (cq_per_endpoint cq)" using inv by (simp add: cq_inv_def)
  from cells_update [OF c ep, of "\<lambda>x. x - 1"] obtain f where f: "lm_update (cq_per_endpoint cq) ep (\<lambda>x. x - 1) = Inr f"
    "cells eps f" "val f = (val (cq_per_endpoint cq))(ep := val (cq_per_endpoint cq) ep - 1)" .
  then show thesis using that [of f] cq_move_in_flight_inv [OF inv, of f ep "- 1"] ep by (simp add: cq_decrement_in_flight_def)
qed

lemma cq_limits_inv:
  assumes "cq_inv eps cq" "cells eps l" shows "cq_inv eps (cq\<lparr>cq_limits := l\<rparr>)"
  using assms by (simp add: cq_inv_def)

lemma cq_global_inv [inv_intros]: "cq_inv eps cq \<Longrightarrow> cq_inv eps (cq_update_global_limit cq gl)"
  by (simp add: cq_inv_def cq_update_global_limit_def)

end
