(* ===== verification/Credit_Queue_Correct.thy ===== *)
theory Credit_Queue_Correct
  imports Credit_Queue
begin

text \<open>
  What the credit queue promises: every sequence of operations on a freshly built queue succeeds and
  keeps the invariant, a pop hands out the oldest grant of an endpoint that both limits allow and
  gives up only when there is none, and the three priorities share a backlog 16 to 4 to 1.
\<close>

section \<open>Construction\<close>

lemma cq_construct_inv:
  assumes c: "cq_construct cfg eps cpus = Inr cq"
    and found: "lm_slots (cq_per_endpoint cq) \<noteq> []" "lm_slots (iq_queue (cq_queue cq ! 0)) \<noteq> []"
    and good: "\<forall>k\<in>set eps. good_key k" "length eps < 2 ^ 32"
  shows "cq_inv (set eps) cq \<and> (\<forall>p<3. \<forall>ep\<in>set eps. cq_deque cq p ep = []) \<and>
    (\<forall>ep\<in>set eps. val (cq_per_endpoint cq) ep = 0 \<and> val (cq_limits cq) ep = cpus * 2 + extra_limit cfg)"
proof -
  let ?lim = "cpus * 2 + extra_limit cfg"
  let ?step = "\<lambda>ep (f, l). bindR (lm_set f ep (0::int)) (\<lambda>f'. bindR (lm_set l ep ?lim) (\<lambda>l'. Inr (f', l')))"
  from c obtain iq f0 f l where iq: "iq_construct eps = Inr iq" and f0: "lm_construct (0::int) eps = Inr f0"
    and fold: "foldR ?step eps (f0, f0) = Inr (f, l)"
    and cq: "cq_queue cq = [iq, iq, iq]" "cq_weights cq = [16, 4, 1]" "cq_it cq = 0" "cq_rounds cq = 16"
      "cq_size cq = 0" "cq_in_flight cq = 0" "cq_per_endpoint cq = f" "cq_limits cq = l"
    by (auto simp: cq_construct_def as_int32_eq_Inr)
  have upd: "lm_slots m' \<noteq> [] \<Longrightarrow> lm_slots m \<noteq> []" if "lm_set m k v = Inr m'" for m m' :: "int local_map" and k v
    using that by (auto simp: lm_set_def store_at_def split: option.splits)
  have bwd: "lm_slots (fst fl') \<noteq> [] \<Longrightarrow> lm_slots (fst fl) \<noteq> []" if "foldR ?step ks fl = Inr fl'" for ks fl fl'
    using that by (induction ks arbitrary: fl) (auto dest: upd split: prod.splits)
  have ne0: "lm_slots f0 \<noteq> []" using bwd [OF fold] found(1) cq(7) by simp
  have f0_ok: "cells (set eps) f0" "\<forall>ep\<in>set eps. val f0 ep = 0"
    using lm_construct_ok [OF f0 ne0 good] by (auto simp: cells_def val_def dom_def)
  have step_ok: "cells (set eps) f' \<and> cells (set eps) l' \<and>
      (\<forall>ep\<in>set eps. val f' ep = 0) \<and> (\<forall>ep\<in>set eps. val l' ep = (if ep \<in> set ks then ?lim else val l0 ep))"
    if "foldR ?step ks (f, l0) = Inr (f', l')" "cells (set eps) f" "cells (set eps) l0"
      "\<forall>ep\<in>set eps. val f ep = 0" "set ks \<subseteq> set eps" for ks f l0 f' l'
    using that
  proof (induction ks arbitrary: f l0)
    case (Cons k ks)
    then have k: "k \<in> set eps" by simp
    from cells_set [OF Cons.prems(2) k, of 0] obtain f1 where f1: "lm_set f k 0 = Inr f1" "cells (set eps) f1" "val f1 = (val f)(k := 0)" .
    from cells_set [OF Cons.prems(3) k, of ?lim] obtain l1 where l1: "lm_set l0 k ?lim = Inr l1" "cells (set eps) l1" "val l1 = (val l0)(k := ?lim)" .
    have "foldR ?step ks (f1, l1) = Inr (f', l')" using Cons.prems(1) f1 l1 by simp
    from Cons.IH [OF this f1(2) l1(2)] show ?case using Cons.prems f1 l1 by auto
  qed simp
  have fl: "cells (set eps) f" "cells (set eps) l" "\<forall>ep\<in>set eps. val f ep = 0" "\<forall>ep\<in>set eps. val l ep = ?lim"
    using step_ok [OF fold f0_ok(1) f0_ok(1) f0_ok(2)] by auto
  from iq obtain q where q: "lm_construct [] eps = Inr q" and iq': "iq = \<lparr>iq_queue = q, iq_it = it_begin q, iq_size = 0\<rparr>"
    by (auto simp: iq_construct_def)
  have q_ne: "lm_slots q \<noteq> []" using found(2) cq(1) iq' by simp
  have q_ok: "lm_inv q" "lm_map q = (\<lambda>k. if k \<in> set eps then Some [] else None)"
    using lm_construct_ok [OF q q_ne good] by auto
  have eps_ne: "eps \<noteq> []" using q q_ne by (auto simp: lm_construct_def lm_no_keys_def)
  have "dom (lm_map q) \<noteq> {}" using eps_ne by (cases eps) (auto simp: q_ok(2) dom_def)
  then have "get_all_indices q \<noteq> []"
    using dom_lm_map [OF q_ok(1)] set_get_all_indices [of q] slot_keys_iff [of _ "lm_slots q"] by (metis (lifting) all_not_in_conv empty_iff list.set(1) mem_Collect_eq)
  then have "it_begin q \<in> set (get_all_indices q)" by (simp add: it_begin_first)
  then have inv: "iq_inv (set eps) iq" and deq: "\<forall>ep\<in>set eps. iq_deque iq ep = []"
    using q_ok by (auto simp: iq_inv_def iq' iq_deque_def dom_def)
  have nth3: "[iq, iq, iq] ! p = iq" if "p < 3" for p
    using that by (auto simp: less_Suc_eq numeral_3_eq_3)
  have "cq_inv (set eps) cq"
    using inv fl by (simp add: cq_inv_def cq nth3) (simp add: iq')
  then show ?thesis using fl deq by (simp add: cq cq_deque_def nth3)
qed

section \<open>Sequences of operations\<close>

datatype 'b cq_op =
    Push 'b string int
  | Pop
  | Increment string
  | Decrement string
  | Set_Endpoint_Limit int string
  | Set_Global_Limit int

fun cq_exec :: "'b cq_op \<Rightarrow> 'b credit_queue \<Rightarrow> 'b credit_queue result" where
  "cq_exec (Push b ep pr) cq = cq_push cq b ep pr"
| "cq_exec Pop cq = bindR (cq_pop cq) (\<lambda>(_, cq'). Inr cq')"
| "cq_exec (Increment ep) cq = cq_increment_in_flight cq ep"
| "cq_exec (Decrement ep) cq = cq_decrement_in_flight cq ep"
| "cq_exec (Set_Endpoint_Limit l ep) cq = cq_update_endpoint_limit cq l ep"
| "cq_exec (Set_Global_Limit l) cq = Inr (cq_update_global_limit cq l)"

definition cq_run :: "'b cq_op list \<Rightarrow> 'b credit_queue \<Rightarrow> 'b credit_queue result" where
  "cq_run ops cq = foldR cq_exec ops cq"

fun cq_op_ok :: "string list \<Rightarrow> 'b cq_op \<Rightarrow> bool" where
  "cq_op_ok eps (Push b ep pr) \<longleftrightarrow> ep \<in> set eps \<and> 0 \<le> pr \<and> pr < 3"
| "cq_op_ok eps Pop \<longleftrightarrow> True"
| "cq_op_ok eps (Increment ep) \<longleftrightarrow> ep \<in> set eps"
| "cq_op_ok eps (Decrement ep) \<longleftrightarrow> ep \<in> set eps"
| "cq_op_ok eps (Set_Endpoint_Limit l ep) \<longleftrightarrow> ep \<in> set eps"
| "cq_op_ok eps (Set_Global_Limit l) \<longleftrightarrow> True"

lemma cq_exec_ok:
  assumes "cq_op_ok eps op" "cq_inv (set eps) cq"
  shows "\<exists>cq'. cq_exec op cq = Inr cq' \<and> cq_inv (set eps) cq'"
proof (cases op)
  case (Push b ep pr)
  with assms show ?thesis by (auto elim: cq_push_spec [of "set eps" cq ep pr b])
next
  case Pop
  then show ?thesis using cq_pop_spec [OF assms(2)] by auto
next
  case (Increment ep)
  with assms show ?thesis by (auto elim: cq_increment_spec [of "set eps" cq ep])
next
  case (Decrement ep)
  with assms show ?thesis by (auto elim: cq_decrement_spec [of "set eps" cq ep])
next
  case (Set_Endpoint_Limit l ep)
  with assms have "cells (set eps) (cq_limits cq)" "ep \<in> set eps" by (auto simp: cq_inv_def)
  from cells_set [OF this, of l] obtain l' where "lm_set (cq_limits cq) ep l = Inr l'" "cells (set eps) l'" by metis
  with Set_Endpoint_Limit assms show ?thesis by (simp add: cq_update_endpoint_limit_def cq_limits_inv)
next
  case (Set_Global_Limit l)
  with assms show ?thesis by (simp add: cq_global_inv)
qed

section \<open>A backlog in every priority\<close>

text \<open>
  \<open>cq_ready n\<close>: in every priority some endpoint has \<open>n\<close> grants waiting and \<open>n\<close> more requests fit
  under its limit and under the global one.
\<close>

definition cq_ready :: "string set \<Rightarrow> nat \<Rightarrow> 'b credit_queue \<Rightarrow> bool" where
  "cq_ready eps n cq \<longleftrightarrow>
     (\<forall>p<3. \<exists>ep\<in>eps. n \<le> length (cq_deque cq p ep) \<and>
        val (cq_per_endpoint cq) ep + int n \<le> val (cq_limits cq) ep) \<and>
     cq_in_flight cq + int n \<le> cq_global_limit cq"

definition backlog :: "'b credit_queue \<Rightarrow> nat list" where
  "backlog cq = map iq_size (cq_queue cq)"

fun cq_pops :: "nat \<Rightarrow> 'b credit_queue \<Rightarrow> ('b list \<times> 'b credit_queue) result" where
  "cq_pops 0 cq = Inr ([], cq)"
| "cq_pops (Suc n) cq =
     bindR (cq_pop cq) (\<lambda>(r, cq1). bindR (cq_pops n cq1) (\<lambda>(bs, cq2).
       Inr ((case r of Some b \<Rightarrow> b # bs | None \<Rightarrow> bs), cq2)))"

lemma cq_pops_add:
  assumes "cq_pops m cq = Inr (bs, cq1)" "cq_pops n cq1 = Inr (cs, cq2)"
  shows "cq_pops (m + n) cq = Inr (bs @ cs, cq2)"
  using assms
proof (induction m arbitrary: cq bs)
  case (Suc m)
  from Suc.prems(1) obtain r cq' bs' where 1: "cq_pop cq = Inr (r, cq')" "cq_pops m cq' = Inr (bs', cq1)"
    "bs = (case r of Some b \<Rightarrow> b # bs' | None \<Rightarrow> bs')"
    by auto
  from Suc.IH [OF 1(2) Suc.prems(2)] 1 show ?case by (simp split: option.splits)
qed simp

lemma backlog_nth: "cq_inv eps cq \<Longrightarrow> p < 3 \<Longrightarrow> backlog cq ! p = (\<Sum>ep\<in>eps. length (cq_deque cq p ep))"
  by (simp add: backlog_def cq_inv_def iq_inv_def cq_deque_def)

lemma cq_sent_backlog:
  assumes inv: "cq_inv eps cq" and inv': "cq_inv eps cq'" and sent: "cq_sent eps cq ep b cq'"
  shows "0 < backlog cq ! cq_it cq \<and> backlog cq' = (backlog cq)[cq_it cq := backlog cq ! cq_it cq - 1]"
proof -
  let ?p = "cq_it cq"
  have p: "?p < 3" and len: "length (backlog cq) = 3" "length (backlog cq') = 3"
    using inv inv' by (simp_all add: cq_inv_def backlog_def)
  have ep: "ep \<in> eps" and head: "cq_deque cq ?p ep = b # cq_deque cq' ?p ep"
    and other: "\<forall>p'<3. \<forall>e. (p', e) \<noteq> (?p, ep) \<longrightarrow> cq_deque cq' p' e = cq_deque cq p' e"
    using sent by (auto simp: cq_sent_def Let_def)
  have "(\<Sum>e\<in>eps. length (cq_deque cq' ?p e)) + length (cq_deque cq ?p ep) =
      (\<Sum>e\<in>eps. length (cq_deque cq ?p e)) + length (cq_deque cq' ?p ep)"
  proof -
    have "(\<lambda>e. length (cq_deque cq' ?p e)) = (\<lambda>e. length (cq_deque cq ?p e))(ep := length (cq_deque cq' ?p ep))"
      using other p by auto
    then show ?thesis
      using sum_update_nat [OF cq_inv_finite [OF inv] ep, of "\<lambda>e. length (cq_deque cq ?p e)" "length (cq_deque cq' ?p ep)"]
      by metis
  qed
  then have 1: "backlog cq ! ?p = Suc (backlog cq' ! ?p)"
    using head backlog_nth [OF inv p] backlog_nth [OF inv' p] by simp
  have "backlog cq' ! k = backlog cq ! k" if "k < 3" "k \<noteq> ?p" for k
    using that other backlog_nth [OF inv that(1)] backlog_nth [OF inv' that(1)] by simp
  then have "backlog cq' = (backlog cq)[?p := backlog cq ! ?p - 1]"
    using len 1 p by (intro nth_equalityI) (auto simp: nth_list_update)
  with 1 show ?thesis by simp
qed

lemma cq_ready_step:
  assumes inv: "cq_inv eps cq" and ready: "cq_ready eps (Suc n) cq"
  shows "\<exists>b cq' ep. cq_pop cq = Inr (Some b, cq') \<and> cq_inv eps cq' \<and> cq_sent eps cq ep b cq' \<and> cq_ready eps n cq'"
proof -
  let ?p = "cq_it cq"
  have p: "?p < 3" using inv by (simp add: cq_inv_def)
  then obtain e where e: "e \<in> eps" "cq_eligible cq ?p e"
    using ready by (fastforce simp: cq_ready_def cq_eligible_def)
  from cq_pop_spec [OF inv] obtain r cq' where r: "cq_pop cq = Inr (r, cq')" "cq_inv eps cq'" "cq_popped eps cq r cq'"
    by blast
  from r(3) e p obtain b where b: "r = Some b" by (cases r) (auto simp: cq_popped_def)
  with r(3) obtain t ep where t: "cq_sent eps ((cq_advance ^^ t) cq) ep b cq'"
    "\<forall>x<t. \<forall>ep\<in>eps. \<not> cq_eligible cq ((?p + x) mod 3) ep"
    by (auto simp: cq_popped_def)
  have "t = 0"
  proof (rule ccontr)
    assume "t \<noteq> 0"
    with t(2) have "\<forall>ep\<in>eps. \<not> cq_eligible cq (?p mod 3) ep" by fastforce
    with e p show False by simp
  qed
  with t(1) have sent: "cq_sent eps cq ep b cq'" by simp
  have "cq_ready eps n cq'"
    unfolding cq_ready_def
  proof (intro conjI allI impI)
    fix k :: nat
    assume k: "k < 3"
    with ready obtain x where x: "x \<in> eps" "Suc n \<le> length (cq_deque cq k x)"
      "val (cq_per_endpoint cq) x + int (Suc n) \<le> val (cq_limits cq) x"
      by (auto simp: cq_ready_def)
    have "length (cq_deque cq k x) \<le> Suc (length (cq_deque cq' k x))"
      using sent k by (cases "(k, x) = (?p, ep)") (auto simp: cq_sent_def Let_def)
    moreover have "val (cq_per_endpoint cq') x \<le> val (cq_per_endpoint cq) x + 1" "cq_limits cq' = cq_limits cq"
      using sent by (auto simp: cq_sent_def Let_def)
    ultimately show "\<exists>ep\<in>eps. n \<le> length (cq_deque cq' k ep) \<and>
        val (cq_per_endpoint cq') ep + int n \<le> val (cq_limits cq') ep"
      using x by (intro bexI [of _ x]) auto
  next
    show "cq_in_flight cq' + int n \<le> cq_global_limit cq'"
      using sent ready by (auto simp: cq_sent_def Let_def cq_ready_def)
  qed
  with r b sent show ?thesis by blast
qed

text \<open>The rounds that the current priority has left all go to it; then the next one starts.\<close>

lemma cq_ready_rounds:
  assumes "cq_inv eps cq" "cq_ready eps (cq_rounds cq + n) cq"
  shows "\<exists>bs cq'. cq_pops (cq_rounds cq) cq = Inr (bs, cq') \<and> length bs = cq_rounds cq \<and> cq_inv eps cq' \<and>
     cq_ready eps n cq' \<and> cq_it cq' = (cq_it cq + 1) mod 3 \<and>
     cq_rounds cq' = [16, 4, 1] ! ((cq_it cq + 1) mod 3) \<and>
     cq_rounds cq \<le> backlog cq ! cq_it cq \<and>
     backlog cq' = (backlog cq)[cq_it cq := backlog cq ! cq_it cq - cq_rounds cq]"
  using assms
proof (induction "cq_rounds cq" arbitrary: cq)
  case 0
  then show ?case by (simp add: cq_inv_def)
next
  case (Suc r)
  from cq_ready_step [OF Suc.prems(1), of "r + n"] Suc.prems(2) Suc.hyps(2) obtain b cq1 ep where
    1: "cq_pop cq = Inr (Some b, cq1)" "cq_inv eps cq1" "cq_sent eps cq ep b cq1" "cq_ready eps (r + n) cq1"
    by (metis add_Suc)
  note bl = cq_sent_backlog [OF Suc.prems(1) 1(2,3)]
  have w: "cq_weights cq = [16, 4, 1]" and it: "cq_it cq < 3" and blen: "length (backlog cq) = 3"
    using Suc.prems(1) by (auto simp: cq_inv_def backlog_def)
  show ?case
  proof (cases "r = 0")
    case True
    then have "cq_rounds cq = 1" using Suc.hyps(2) by simp
    then have "cq_it cq1 = (cq_it cq + 1) mod 3" "cq_rounds cq1 = cq_weights cq ! ((cq_it cq + 1) mod 3)"
      using 1(3) unfolding cq_sent_def Let_def by presburger+
    moreover have "cq_pops (Suc 0) cq = Inr ([b], cq1)" using 1(1) by simp
    ultimately show ?thesis
      using 1 bl True w unfolding Suc.hyps(2) [symmetric] by auto
  next
    case False
    then have s: "cq_it cq1 = cq_it cq" "r = cq_rounds cq1"
      using 1(3) Suc.hyps(2) by (auto simp: cq_sent_def Let_def)
    from Suc.hyps(1) [OF s(2) 1(2)] 1(4) s obtain bs cq2 where
      2: "cq_pops r cq1 = Inr (bs, cq2)" "length bs = r" "cq_inv eps cq2" "cq_ready eps n cq2"
      "cq_it cq2 = (cq_it cq + 1) mod 3" "cq_rounds cq2 = [16, 4, 1] ! ((cq_it cq + 1) mod 3)"
      "r \<le> backlog cq1 ! cq_it cq"
      "backlog cq2 = (backlog cq1)[cq_it cq := backlog cq1 ! cq_it cq - r]"
      by metis
    have "cq_pops (Suc r) cq = Inr (b # bs, cq2)" using 1(1) 2(1) by simp
    moreover have "Suc r \<le> backlog cq ! cq_it cq"
      "backlog cq2 = (backlog cq)[cq_it cq := backlog cq ! cq_it cq - Suc r]"
      using 2(7,8) bl it blen by auto
    ultimately show ?thesis using 2 unfolding Suc.hyps(2) [symmetric] by auto
  qed
qed


section \<open>Limits\<close>

definition within_limits :: "string set \<Rightarrow> 'b credit_queue \<Rightarrow> bool" where
  "within_limits eps cq \<longleftrightarrow>
     (\<forall>ep\<in>eps. val (cq_per_endpoint cq) ep \<le> val (cq_limits cq) ep) \<and> cq_in_flight cq \<le> cq_global_limit cq"

lemma within_limits_advance [simp]: "within_limits eps ((cq_advance ^^ t) cq) = within_limits eps cq"
  by (induction t) (simp_all add: within_limits_def)

lemma within_limits_sent:
  assumes "within_limits eps cq" "cq_sent eps cq ep b cq'"
  shows "within_limits eps cq'"
  using assms by (auto simp: within_limits_def cq_sent_def Let_def cq_eligible_def)

lemma within_limits_popped:
  assumes "within_limits eps cq" "cq_popped eps cq r cq'"
  shows "within_limits eps cq'"
  using assms within_limits_sent [of eps "(cq_advance ^^ t) cq" for t] within_limits_advance [of eps 3 cq]
  by (cases r) (auto simp: cq_popped_def simp del: within_limits_advance,
      metis within_limits_advance within_limits_sent)

fun keeps_limits :: "'b cq_op \<Rightarrow> bool" where
  "keeps_limits (Push b ep pr) \<longleftrightarrow> True"
| "keeps_limits Pop \<longleftrightarrow> True"
| "keeps_limits (Decrement ep) \<longleftrightarrow> True"
| "keeps_limits _ \<longleftrightarrow> False"

lemma cq_push_same:
  assumes "cq_push cq b ep pr = Inr cq'"
  shows "cq_per_endpoint cq' = cq_per_endpoint cq \<and> cq_limits cq' = cq_limits cq \<and>
    cq_in_flight cq' = cq_in_flight cq \<and> cq_global_limit cq' = cq_global_limit cq"
  using assms by (auto simp: cq_push_def)

lemma cq_exec_limits:
  assumes "cq_op_ok eps op" "keeps_limits op" "cq_inv (set eps) cq" "within_limits (set eps) cq"
    "cq_exec op cq = Inr cq'"
  shows "within_limits (set eps) cq'"
proof (cases op)
  case (Push b ep pr)
  with assms(4,5) show ?thesis by (auto simp: within_limits_def dest!: cq_push_same)
next
  case Pop
  with assms(4,5) cq_pop_spec [OF assms(3)] show ?thesis by (auto intro: within_limits_popped)
next
  case (Decrement ep)
  with assms have "ep \<in> set eps" by simp
  from cq_decrement_spec [OF assms(3) this] obtain f where
    "cq_decrement_in_flight cq ep = Inr (cq\<lparr>cq_per_endpoint := f, cq_in_flight := cq_in_flight cq - 1\<rparr>)"
    "val f = (val (cq_per_endpoint cq))(ep := val (cq_per_endpoint cq) ep - 1)" by metis
  with Decrement assms(4,5) show ?thesis by (force simp: within_limits_def)
qed (use assms in simp_all)

section \<open>A small queue\<close>

text \<open>One endpoint \<open>a\<close> with the same 21 grants in every priority.\<close>

definition small_queue :: "nat credit_queue" where
  "small_queue =
     (let iq = \<lparr>iq_queue = one_cell (replicate 21 7), iq_it = 0, iq_size = 21\<rparr>
      in \<lparr>cq_queue = [iq, iq, iq], cq_weights = [16, 4, 1], cq_it = 0, cq_rounds = 16, cq_size = 63,
          cq_in_flight = 0, cq_global_limit = 50, cq_per_endpoint = one_cell 0, cq_limits = one_cell 40\<rparr>)"

lemma one_cell_cells: "cells {''a''} (one_cell v)" and one_cell_val: "val (one_cell v) ''a'' = v"
  by (simp_all add: cells_def val_def one_cell_map one_cell_inv)

lemma upto3: "p < (3::nat) \<longleftrightarrow> p = 0 \<or> p = 1 \<or> p = 2"
  by auto

lemma small_queue_inv: "cq_inv {''a''} small_queue"
proof -
  have "iq_inv {''a''} \<lparr>iq_queue = one_cell (replicate 21 7), iq_it = 0, iq_size = 21\<rparr>"
    by (simp add: iq_inv_def one_cell_inv one_cell_map iq_deque_def)
  then show ?thesis
    by (simp add: cq_inv_def small_queue_def Let_def one_cell_cells one_cell_val upto3 numeral_3_eq_3 all_conj_distrib)
      (auto simp: less_Suc_eq)
qed

lemma small_queue_ready: "cq_ready {''a''} 21 small_queue"
  by (auto simp: cq_ready_def small_queue_def Let_def cq_deque_def iq_deque_def one_cell_map one_cell_val upto3)

section \<open>Properties\<close>

text \<open>
  C12: every sequence of operations on known endpoints and valid priorities succeeds on a queue that
  satisfies the invariant, and keeps the invariant: the total of active requests is the sum over the
  endpoints, the size counts the waiting grants, and the iterators stay inside.
\<close>

theorem cq_run_ok:
  assumes "cq_inv (set eps) cq" "\<forall>op\<in>set ops. cq_op_ok eps op"
  shows "\<exists>cq'. cq_run ops cq = Inr cq' \<and> cq_inv (set eps) cq'"
  unfolding cq_run_def
  by (rule foldR_total [where P = "cq_inv (set eps)"]) (use assms in \<open>auto intro: cq_exec_ok\<close>)

theorem cq_run_ok_witness:
  "\<exists>cq'. cq_run [Push 3 ''a'' 2, Pop, Increment ''a'', Set_Endpoint_Limit 2 ''a'', Decrement ''a''] small_queue = Inr cq' \<and>
     cq_inv {''a''} cq'"
  using cq_run_ok [of "[''a'']" small_queue
      "[Push 3 ''a'' 2, Pop, Increment ''a'', Set_Endpoint_Limit 2 ''a'', Decrement ''a'']"]
    small_queue_inv by simp

text \<open>
  C11: pop is work conserving and respects both limits. It returns a grant exactly when some
  priority has an endpoint that waits and is under its limit and under the global limit; the grant is
  the oldest of that endpoint, in the first such priority counted from the current one; the counters
  of that endpoint and of the whole queue grow by one and nothing else is taken out.
\<close>

theorem cq_pop_correct:
  assumes "cq_inv eps cq"
  shows "\<exists>r cq'. cq_pop cq = Inr (r, cq') \<and> cq_inv eps cq' \<and>
    (r = None \<longleftrightarrow> (\<forall>p<3. \<forall>ep\<in>eps. \<not> cq_eligible cq p ep)) \<and>
    (case r of
       None \<Rightarrow> cq_size cq' = cq_size cq \<and> cq_in_flight cq' = cq_in_flight cq \<and> cq_queue cq' = cq_queue cq
     | Some b \<Rightarrow> \<exists>t<3. \<exists>ep\<in>eps. let p = (cq_it cq + t) mod 3 in
         cq_eligible cq p ep \<and> (\<forall>e<t. \<forall>ep'\<in>eps. \<not> cq_eligible cq ((cq_it cq + e) mod 3) ep') \<and>
         cq_deque cq p ep = b # cq_deque cq' p ep \<and>
         (\<forall>p'<3. \<forall>e. (p', e) \<noteq> (p, ep) \<longrightarrow> cq_deque cq' p' e = cq_deque cq p' e) \<and>
         val (cq_per_endpoint cq') = (val (cq_per_endpoint cq))(ep := val (cq_per_endpoint cq) ep + 1) \<and>
         val (cq_per_endpoint cq') ep \<le> val (cq_limits cq') ep \<and>
         cq_in_flight cq' = cq_in_flight cq + 1 \<and> cq_in_flight cq' \<le> cq_global_limit cq')"
proof -
  have it: "cq_it cq < 3" using assms by (simp add: cq_inv_def)
  have pow [simp]: "cq_deque ((cq_advance ^^ t) cq) = cq_deque cq" "cq_eligible ((cq_advance ^^ t) cq) = cq_eligible cq"
    "cq_per_endpoint ((cq_advance ^^ t) cq) = cq_per_endpoint cq" "cq_in_flight ((cq_advance ^^ t) cq) = cq_in_flight cq"
    "cq_size ((cq_advance ^^ t) cq) = cq_size cq" "cq_queue ((cq_advance ^^ t) cq) = cq_queue cq"
    "cq_limits ((cq_advance ^^ t) cq) = cq_limits cq" "cq_global_limit ((cq_advance ^^ t) cq) = cq_global_limit cq" for t
    by (induction t) simp_all
  have itp: "cq_it ((cq_advance ^^ t) cq) = (cq_it cq + t) mod 3" for t
    using it by (induction t) (simp_all add: cq_advance_it mod_Suc_eq)
  from cq_pop_spec [OF assms] obtain r cq' where r: "cq_pop cq = Inr (r, cq')" "cq_inv eps cq'" "cq_popped eps cq r cq'"
    by blast
  show ?thesis
  proof (cases r)
    case None
    with r show ?thesis by (intro exI [of _ r] exI [of _ cq']) (auto simp: cq_popped_def)
  next
    case (Some b)
    with r(3) obtain t ep where t: "t < 3" "cq_sent eps ((cq_advance ^^ t) cq) ep b cq'"
      "\<forall>e<t. \<forall>ep\<in>eps. \<not> cq_eligible cq ((cq_it cq + e) mod 3) ep"
      by (auto simp: cq_popped_def)
    then have ep: "ep \<in> eps" "cq_eligible cq ((cq_it cq + t) mod 3) ep"
      by (simp_all add: cq_sent_def Let_def itp)
    moreover have "(cq_it cq + t) mod 3 < 3" by simp
    ultimately have some: "\<not> (\<forall>p<3. \<forall>ep\<in>eps. \<not> cq_eligible cq p ep)" by blast
    let ?p = "(cq_it cq + t) mod 3"
    have s: "cq_deque cq ?p ep = b # cq_deque cq' ?p ep"
      "\<forall>p'<3. \<forall>e. (p', e) \<noteq> (?p, ep) \<longrightarrow> cq_deque cq' p' e = cq_deque cq p' e"
      "val (cq_per_endpoint cq') = (val (cq_per_endpoint cq))(ep := val (cq_per_endpoint cq) ep + 1)"
      "cq_limits cq' = cq_limits cq" "cq_global_limit cq' = cq_global_limit cq" "cq_in_flight cq' = cq_in_flight cq + 1"
      using t(2) unfolding cq_sent_def Let_def itp pow by blast+
    have "val (cq_per_endpoint cq') ep \<le> val (cq_limits cq') ep" "cq_in_flight cq' \<le> cq_global_limit cq'"
      using ep(2) s(3-6) by (simp_all add: cq_eligible_def)
    note limits = this
    show ?thesis unfolding Let_def
    proof (intro exI [of _ "Some b"] exI [of _ cq'] conjI)
      show "cq_pop cq = Inr (Some b, cq')" using r(1) Some by simp
      show "Some b = None \<longleftrightarrow> (\<forall>p<3. \<forall>ep\<in>eps. \<not> cq_eligible cq p ep)" using some by simp
    qed (rule r(2), unfold option.case, intro exI [of _ t] bexI [OF _ ep(1)] conjI ep(2) t(1,3) s limits)
  qed
qed

theorem cq_pop_correct_witness: "\<exists>b cq'. cq_pop small_queue = Inr (Some b, cq') \<and> cq_inv {''a''} cq'"
proof -
  have "cq_eligible small_queue 0 ''a''"
    by (simp add: cq_eligible_def small_queue_def Let_def cq_deque_def iq_deque_def one_cell_map one_cell_val)
  then have "\<not> (\<forall>p<3. \<forall>ep\<in>{''a''}. \<not> cq_eligible small_queue p ep)" by (auto intro!: exI [of _ "0::nat"])
  with cq_pop_correct [OF small_queue_inv] show ?thesis by (metis option.exhaust)
qed

text \<open>
  C13: while every priority has a backlog that the limits allow, 21 pops from a fresh round take
  sixteen grants of the first priority, four of the second and one of the third, and the round starts
  again.
\<close>

theorem cq_weighted_rounds:
  assumes "cq_inv eps cq" "cq_it cq = 0" "cq_rounds cq = 16" "cq_ready eps 21 cq"
  shows "\<exists>bs cq'. cq_pops 21 cq = Inr (bs, cq') \<and> length bs = 21 \<and>
    cq_inv eps cq' \<and> cq_it cq' = 0 \<and> cq_rounds cq' = 16 \<and>
    backlog cq ! 0 = backlog cq' ! 0 + 16 \<and> backlog cq ! 1 = backlog cq' ! 1 + 4 \<and>
    backlog cq ! 2 = backlog cq' ! 2 + 1"
proof -
  have len: "length (backlog cq) = 3" using assms(1) by (simp add: cq_inv_def backlog_def)
  from cq_ready_rounds [OF assms(1), of 5] assms obtain b1 c1 where
    1: "cq_pops 16 cq = Inr (b1, c1)" "length b1 = 16" "cq_inv eps c1" "cq_ready eps 5 c1" "cq_it c1 = 1"
      "cq_rounds c1 = 4" "16 \<le> backlog cq ! 0" "backlog c1 = (backlog cq)[0 := backlog cq ! 0 - 16]" by auto
  from cq_ready_rounds [OF 1(3), of 1] 1 obtain b2 c2 where
    2: "cq_pops 4 c1 = Inr (b2, c2)" "length b2 = 4" "cq_inv eps c2" "cq_ready eps 1 c2" "cq_it c2 = 2"
      "cq_rounds c2 = 1" "4 \<le> backlog c1 ! 1" "backlog c2 = (backlog c1)[1 := backlog c1 ! 1 - 4]" by auto
  from cq_ready_rounds [OF 2(3), of 0] 2 obtain b3 c3 where
    3: "cq_pops 1 c2 = Inr (b3, c3)" "length b3 = 1" "cq_inv eps c3" "cq_it c3 = 0"
      "cq_rounds c3 = 16" "1 \<le> backlog c2 ! 2" "backlog c3 = (backlog c2)[2 := backlog c2 ! 2 - 1]" by auto
  have "cq_pops (16 + 4 + 1) cq = Inr ((b1 @ b2) @ b3, c3)"
    by (rule cq_pops_add [OF cq_pops_add [OF 1(1) 2(1)] 3(1)])
  then show ?thesis using 1 2 3 len by (intro exI [of _ "(b1 @ b2) @ b3"] exI [of _ c3]) simp
qed

theorem cq_weighted_rounds_witness:
  "\<exists>bs cq'. cq_pops 21 small_queue = Inr (bs, cq') \<and> length bs = 21"
  using cq_weighted_rounds [OF small_queue_inv _ _ small_queue_ready] by (auto simp: small_queue_def Let_def)

text \<open>
  C14: push appends the grant to the deque of its endpoint and priority and changes no other deque;
  a priority outside 0..2 (the value 3 passes the check of the ingress constructor) makes the bounds
  check of the array throw.
\<close>

theorem cq_push_correct:
  assumes "cq_inv eps cq" "ep \<in> eps" "0 \<le> pr" "pr < 2 ^ 31"
  shows "if pr < 3
    then \<exists>cq'. cq_push cq b ep pr = Inr cq' \<and> cq_inv eps cq' \<and> cq_size cq' = Suc (cq_size cq) \<and>
      cq_deque cq' (nat pr) ep = cq_deque cq (nat pr) ep @ [b] \<and>
      (\<forall>p<3. \<forall>e. (p, e) \<noteq> (nat pr, ep) \<longrightarrow> cq_deque cq' p e = cq_deque cq p e)
    else cq_push cq b ep pr = Inl OutOfRange"
proof (cases "pr < 3")
  case True
  from cq_push_spec [OF assms(1-3) this, of b] obtain cq' where
    cq': "cq_push cq b ep pr = Inr cq'" "cq_inv eps cq'" "cq_size cq' = Suc (cq_size cq)"
    "\<And>p e. p < 3 \<Longrightarrow> cq_deque cq' p e = cq_deque cq p e @ (if p = nat pr \<and> e = ep then [b] else [])" by blast
  moreover have "nat pr < 3" using True by simp
  ultimately show ?thesis using True by auto
next
  case False
  then show ?thesis using cq_push_bad_priority [of cq pr] assms by (simp add: cq_inv_def)
qed

theorem cq_push_correct_witness:
  "cq_push small_queue 5 ''a'' 3 = Inl OutOfRange \<and> (\<exists>cq'. cq_push small_queue 5 ''a'' 1 = Inr cq' \<and> cq_inv {''a''} cq')"
  using cq_push_correct [OF small_queue_inv, of "''a''" 3 5] cq_push_correct [OF small_queue_inv, of "''a''" 1 5]
  by auto

text \<open>
  C15: pushes, pops and decrements never take an endpoint over its limit of active requests, nor
  their total over the global limit.
\<close>

theorem cq_limits_respected:
  assumes "cq_inv (set eps) cq" "within_limits (set eps) cq"
    and "\<forall>op\<in>set ops. cq_op_ok eps op \<and> keeps_limits op" "cq_run ops cq = Inr cq'"
  shows "(\<forall>ep\<in>set eps. val (cq_per_endpoint cq') ep \<le> val (cq_limits cq') ep) \<and>
    cq_in_flight cq' = (\<Sum>ep\<in>set eps. val (cq_per_endpoint cq') ep) \<and>
    cq_in_flight cq' \<le> cq_global_limit cq'"
proof -
  have "cq_inv (set eps) cq' \<and> within_limits (set eps) cq'"
  proof (rule foldR_inv [where P = "\<lambda>c. cq_inv (set eps) c \<and> within_limits (set eps) c"])
    show "foldR cq_exec ops cq = Inr cq'" using assms(4) by (simp add: cq_run_def)
  next
    fix op c c'
    assume "op \<in> set ops" "cq_inv (set eps) c \<and> within_limits (set eps) c" "cq_exec op c = Inr c'"
    then show "cq_inv (set eps) c' \<and> within_limits (set eps) c'"
      using assms(3) cq_exec_ok [of eps op c] cq_exec_limits [of eps op c c'] by auto
  qed (use assms in simp)
  then show ?thesis by (simp add: within_limits_def cq_inv_def)
qed

theorem cq_limits_respected_witness:
  "\<exists>cq'. cq_run [Pop, Pop, Decrement ''a''] small_queue = Inr cq' \<and> cq_in_flight cq' \<le> cq_global_limit cq'"
proof -
  have w: "within_limits (set [''a'']) small_queue"
    by (simp add: within_limits_def small_queue_def Let_def one_cell_val)
  have i: "cq_inv (set [''a'']) small_queue" using small_queue_inv by simp
  have "\<exists>cq'. cq_run [Pop, Pop, Decrement ''a''] small_queue = Inr cq'"
    unfolding cq_run_def
    by (rule exE [OF foldR_total [where P = "cq_inv (set [''a''])" and f = cq_exec and xs = "[Pop, Pop, Decrement ''a'']", OF i]])
      (use cq_exec_ok [of "[''a'']" Pop] cq_exec_ok [of "[''a'']" "Decrement ''a''"] in
        \<open>auto simp del: cq_exec.simps\<close>)
  then show ?thesis using cq_limits_respected [OF i w, of "[Pop, Pop, Decrement ''a'']"] by fastforce
qed

end
