(* ===== verification/Credit_Queue_Threads.thy ===== *)
theory Credit_Queue_Threads
  imports Credit_Queue_Correct
begin

text \<open>
  The credit queue as the threads of a process share it: SpinLock (include/spinlock.hpp) and the methods of
  CreditQueue (src/credit_queue.cc) as the atomic steps they are made of. A thread that holds the lock first
  reads the members and later writes them back, so a second thread in between would lose an update. The atomic
  member \<open>_size\<close> is not protected by the lock: pop reads it before it takes the lock, and push adds to it after
  it has released the lock. Here it is \<open>sq_size\<close>, and the field \<open>cq_size\<close> of the members counts what is in the
  deques.
\<close>

section \<open>The spin lock\<close>

record spin_lock =
  locked :: bool

definition spin_lock_init :: spin_lock where
  "spin_lock_init = \<lparr>locked = False\<rparr>"

text \<open>One evaluation of the loop condition of lock(): the old value and the lock afterwards.\<close>

definition test_and_set :: "spin_lock \<Rightarrow> bool \<times> spin_lock" where
  "test_and_set l = (locked l, l\<lparr>locked := True\<rparr>)"

definition unlock :: "spin_lock \<Rightarrow> spin_lock" where
  "unlock l = l\<lparr>locked := False\<rparr>"

section \<open>The steps of a thread\<close>

record 'b shared_queue =
  sq_lock :: spin_lock
  sq_size :: "64 word"
  sq_members :: "'b credit_queue"

text \<open>What a method does between lock() and unlock(), the change of \<open>_size\<close> in pop left out.\<close>

fun locked_body :: "'b cq_op \<Rightarrow> 'b credit_queue \<Rightarrow> ('b option \<times> 'b credit_queue) result" where
  "locked_body Pop q =
     (if cq_in_flight q \<ge> cq_global_limit q then Inr (None, q) else cq_pop_loop PriorityCount (cq_it q) q)"
| "locked_body (Push b ep pr) q = bindR (cq_push q b ep pr) (\<lambda>q'. Inr (None, q'))"
| "locked_body (Increment ep) q = bindR (cq_increment_in_flight q ep) (\<lambda>q'. Inr (None, q'))"
| "locked_body (Decrement ep) q = bindR (cq_decrement_in_flight q ep) (\<lambda>q'. Inr (None, q'))"
| "locked_body (Set_Endpoint_Limit l ep) q = bindR (cq_update_endpoint_limit q l ep) (\<lambda>q'. Inr (None, q'))"
| "locked_body (Set_Global_Limit l) q = Inr (None, cq_update_global_limit q l)"

text \<open>
  Where a thread is: outside, in the loop of lock(), with the lock and nothing read, with the members read, in
  pop before \<open>_size.fetch_sub(1)\<close>, before unlock(), in push before \<open>_size.fetch_add(1)\<close>, at the return, or
  stopped by an exception, which leaves the lock taken.
\<close>

datatype 'b pc =
    Outside
  | At_Lock "'b cq_op"
  | Inside "'b cq_op"
  | Loaded "'b cq_op" "'b credit_queue"
  | At_Sub 'b
  | At_Unlock "'b cq_op" "'b option"
  | At_Add
  | At_Return "'b option"
  | Threw error

fun is_push :: "'b cq_op \<Rightarrow> bool" where
  "is_push (Push b ep pr) = True"
| "is_push op = False"

text \<open>The list in the middle names the critical section that the step completes, with its result.\<close>

inductive thread_step ::
    "'b shared_queue \<Rightarrow> 'b pc \<Rightarrow> ('b cq_op \<times> 'b option) list \<Rightarrow> 'b shared_queue \<Rightarrow> 'b pc \<Rightarrow> bool" where
  pop_empty: "sq_size s = 0 \<Longrightarrow> thread_step s Outside [] s (At_Return None)"
| pop_try: "sq_size s \<noteq> 0 \<Longrightarrow> thread_step s Outside [] s (At_Lock Pop)"
| call: "op \<noteq> Pop \<Longrightarrow> thread_step s Outside [] s (At_Lock op)"
| spin: "test_and_set (sq_lock s) = (True, l) \<Longrightarrow> thread_step s (At_Lock op) [] (s\<lparr>sq_lock := l\<rparr>) (At_Lock op)"
| acquire: "test_and_set (sq_lock s) = (False, l) \<Longrightarrow> thread_step s (At_Lock op) [] (s\<lparr>sq_lock := l\<rparr>) (Inside op)"
| load: "thread_step s (Inside op) [] s (Loaded op (sq_members s))"
| store: "locked_body op q = Inr (None, q') \<Longrightarrow>
    thread_step s (Loaded op q) [(op, None)] (s\<lparr>sq_members := q'\<rparr>) (At_Unlock op None)"
| take_out: "locked_body op q = Inr (Some b, q') \<Longrightarrow>
    thread_step s (Loaded op q) [(op, Some b)] (s\<lparr>sq_members := q'\<rparr>) (At_Sub b)"
| throw: "locked_body op q = Inl err \<Longrightarrow> thread_step s (Loaded op q) [] s (Threw err)"
| sub: "thread_step s (At_Sub b) [] (s\<lparr>sq_size := sq_size s - 1\<rparr>) (At_Unlock Pop (Some b))"
| release: "thread_step s (At_Unlock op r) [] (s\<lparr>sq_lock := unlock (sq_lock s)\<rparr>)
    (if is_push op then At_Add else At_Return r)"
| add: "thread_step s At_Add [] (s\<lparr>sq_size := sq_size s + 1\<rparr>) (At_Return None)"
| finish: "thread_step s (At_Return r) [] s Outside"

inductive_cases thread_stepE: "thread_step s p es s' p'"

text \<open>Any interleaving of \<open>n\<close> threads, with the critical sections in the order in which they took effect.\<close>

inductive interleaving ::
    "nat \<Rightarrow> 'b shared_queue \<Rightarrow> ('b cq_op \<times> 'b option) list \<Rightarrow> (nat \<Rightarrow> 'b pc) \<Rightarrow> 'b shared_queue \<Rightarrow> bool"
  for n s0 where
  begins: "interleaving n s0 [] (\<lambda>_. Outside) s0"
| steps: "interleaving n s0 ops ps s \<Longrightarrow> t < n \<Longrightarrow> thread_step s (ps t) es s' p \<Longrightarrow>
    interleaving n s0 (ops @ es) (ps(t := p)) s'"

section \<open>Mutual exclusion and the sequential order\<close>

fun holds_lock :: "'b pc \<Rightarrow> bool" where
  "holds_lock (Inside op) = True"
| "holds_lock (Loaded op q) = True"
| "holds_lock (At_Sub b) = True"
| "holds_lock (At_Unlock op r) = True"
| "holds_lock (Threw err) = True"
| "holds_lock _ = False"

text \<open>The same critical sections one after the other, each with the same result.\<close>

definition replay :: "('b cq_op \<times> 'b option) list \<Rightarrow> 'b credit_queue \<Rightarrow> 'b credit_queue result" where
  "replay = foldR (\<lambda>(op, r) q. bindR (locked_body op q) (\<lambda>(r', q').
     if r' = r then Inr q' else Inl (Undefined ''another result'')))"

definition exclusive :: "(nat \<Rightarrow> 'b pc) \<Rightarrow> 'b shared_queue \<Rightarrow> bool" where
  "exclusive ps s \<longleftrightarrow>
     (\<forall>t u. holds_lock (ps t) \<and> holds_lock (ps u) \<longrightarrow> t = u) \<and>
     (locked (sq_lock s) \<longleftrightarrow> (\<exists>t. holds_lock (ps t))) \<and>
     (\<forall>t op q. ps t = Loaded op q \<longrightarrow> q = sq_members s)"

lemma exclusiveD:
  assumes "exclusive ps s"
  shows "holds_lock (ps t) \<Longrightarrow> holds_lock (ps u) \<Longrightarrow> t = u"
    and "locked (sq_lock s) \<longleftrightarrow> (\<exists>t. holds_lock (ps t))"
    and "ps t = Loaded op q \<Longrightarrow> q = sq_members s"
  using assms unfolding exclusive_def by blast+

lemma exclusive_others:
  assumes "exclusive ps s" "holds_lock (ps t)" "u \<noteq> t"
  shows "\<not> holds_lock (ps u)"
  using exclusiveD(1) [OF assms(1)] assms(2,3) by blast

text \<open>A thread that keeps its standing towards the lock, and one that takes or releases it.\<close>

lemma exclusive_same:
  assumes "exclusive ps s" "holds_lock p = holds_lock (ps t)" "sq_lock s' = sq_lock s"
    and "holds_lock (ps t) \<or> sq_members s' = sq_members s" "\<And>op q. p = Loaded op q \<Longrightarrow> q = sq_members s'"
  shows "exclusive (ps(t := p)) s'"
proof -
  have "holds_lock ((ps(t := p)) u) = holds_lock (ps u)" for u using assms(2) by simp
  moreover have "q = sq_members s'" if "(ps(t := p)) u = Loaded op q" for u op q
  proof (cases "u = t")
    case False
    then have l: "ps u = Loaded op q" using that by simp
    then have "\<not> holds_lock (ps t)" using exclusive_others [OF assms(1) _ False] by fastforce
    then show ?thesis using assms(4) exclusiveD(3) [OF assms(1) l] by simp
  qed (use assms(5) that in simp)
  ultimately show ?thesis
    using assms(1,3) unfolding exclusive_def by (metis (no_types, lifting))
qed

lemma exclusive_acquire:
  assumes "exclusive ps s" "\<not> locked (sq_lock s)" "holds_lock p" "\<And>op q. p \<noteq> Loaded op q"
    and "locked (sq_lock s')" "sq_members s' = sq_members s"
  shows "exclusive (ps(t := p)) s'"
  using assms unfolding exclusive_def by (auto split: if_splits)

lemma exclusive_release:
  assumes "exclusive ps s" "holds_lock (ps t)" "\<not> holds_lock p" "\<not> locked (sq_lock s')" "sq_members s' = sq_members s"
  shows "exclusive (ps(t := p)) s'"
proof -
  have "\<not> holds_lock ((ps(t := p)) u)" for u
    using exclusive_others [OF assms(1,2)] assms(3) by simp
  moreover have "(ps(t := p)) u \<noteq> Loaded op q" for u op q
    using \<open>\<not> holds_lock ((ps(t := p)) u)\<close> by (cases "(ps(t := p)) u") auto
  ultimately show ?thesis using assms(4) unfolding exclusive_def by blast
qed

lemma thread_step_exclusive:
  assumes ex: "exclusive ps s" and st: "thread_step s (ps t) es s' p"
  shows "exclusive (ps(t := p)) s'"
  using st
proof (cases rule: thread_step.cases)
  case (spin l op)
  then have "l = sq_lock s" "locked (sq_lock s)" by (auto simp: test_and_set_def)
  then show ?thesis using spin by (intro exclusive_same [OF ex]) auto
next
  case (acquire l op)
  then show ?thesis by (intro exclusive_acquire [OF ex]) (auto simp: test_and_set_def)
next
  case (release op r)
  then show ?thesis by (intro exclusive_release [OF ex]) (auto simp: unlock_def)
qed (auto intro!: exclusive_same [OF ex])

lemma thread_step_replay:
  assumes "exclusive ps s" "thread_step s (ps t) es s' p"
  shows "replay es (sq_members s) = Inr (sq_members s')"
  using assms(2) exclusiveD(3) [OF assms(1), of t] by (cases rule: thread_step.cases) (auto simp: replay_def)

lemma replay_append: "replay (xs @ ys) q = bindR (replay xs q) (replay ys)"
  by (simp add: replay_def foldR_append)

lemma interleaving_replay:
  assumes "interleaving n s0 ops ps s" "\<not> locked (sq_lock s0)"
  shows "exclusive ps s \<and> replay ops (sq_members s0) = Inr (sq_members s)"
  using assms
proof (induction rule: interleaving.induct)
  case begins
  then show ?case by (simp add: exclusive_def replay_def)
next
  case (steps ops ps s t es s' p)
  then show ?case
    using thread_step_exclusive [of ps s t es s' p] thread_step_replay [of ps s t es s' p] by (simp add: replay_append del: fun_upd_apply)
qed


section \<open>The size\<close>

text \<open>
  What a thread still owes to \<open>_size\<close>: a push that has stored its grant has not added it yet, a pop that has
  taken one out has not subtracted it yet.
\<close>

fun owed :: "'b pc \<Rightarrow> 64 word" where
  "owed (At_Sub b) = - 1"
| "owed (At_Unlock op r) = (if is_push op then 1 else 0)"
| "owed At_Add = 1"
| "owed _ = 0"

fun owed_by :: "'b cq_op \<times> 'b option \<Rightarrow> 64 word" where
  "owed_by (op, Some b) = - 1"
| "owed_by (op, None) = (if is_push op then 1 else 0)"

lemma cq_advance_pow_same [simp]: "cq_size ((cq_advance ^^ t) cq) = cq_size cq"
  by (induction t) simp_all

lemma pop_body_keeps:
  assumes inv: "cq_inv eps q" and b: "locked_body Pop q = Inr (r, q')"
  shows "cq_inv eps q' \<and> (of_nat (cq_size q') :: 64 word) = of_nat (cq_size q) + owed_by (Pop, r)"
proof (cases "cq_in_flight q \<ge> cq_global_limit q")
  case True
  then show ?thesis using b inv by simp
next
  case False
  then have "cq_pop_loop 3 (cq_it q) q = Inr (r, q')" using b by (simp add: PriorityCount_def)
  then consider t ep b' where "r = Some b'" "cq_inv eps q'" "cq_sent eps ((cq_advance ^^ t) q) ep b' q'"
    | "r = None" "q' = (cq_advance ^^ 3) q"
    using cq_pop_loop_correct [OF inv] by fastforce
  then show ?thesis
  proof cases
    case (1 t ep b')
    then have "cq_size q = Suc (cq_size q')" by (simp add: cq_sent_def Let_def)
    then show ?thesis using 1 by simp
  next
    case 2
    then show ?thesis using cq_advance_pow_inv [OF inv, of 3] by simp
  qed
qed

lemma counter_known:
  assumes "cq_inv eps q" "lm_update (cq_per_endpoint q) ep f = Inr f'"
  shows "ep \<in> eps"
  using cells_update_eq [OF _ assms(2)] assms(1) by (auto simp: cq_inv_def)

lemma push_known:
  assumes inv: "cq_inv eps q" and push: "cq_push q b ep pr = Inr q'"
  shows "ep \<in> eps" "cq_push q b ep (int (size_t_of pr)) = Inr q'" "size_t_of pr < 3"
proof -
  show p: "size_t_of pr < 3" using push inv by (auto simp: cq_push_def vec_at_def cq_inv_def split: if_splits)
  then have "iq_inv eps (cq_queue q ! size_t_of pr)" using inv by (simp add: cq_inv_def)
  then have "cells eps (iq_queue (cq_queue q ! size_t_of pr))" by (simp add: iq_inv_def cells_def)
  moreover obtain f where "lm_update (iq_queue (cq_queue q ! size_t_of pr)) ep (\<lambda>d. d @ [b]) = Inr f"
    using push p inv by (auto simp: cq_push_def iq_push_def cq_inv_def)
  ultimately show "ep \<in> eps" using cells_update_eq by blast
  show "cq_push q b ep (int (size_t_of pr)) = Inr q'" using push p by (simp add: cq_push_def)
qed

lemma locked_body_keeps:
  assumes inv: "cq_inv eps q" and b: "locked_body op q = Inr (r, q')"
  shows "cq_inv eps q' \<and> (of_nat (cq_size q') :: 64 word) = of_nat (cq_size q) + owed_by (op, r)"
proof (cases op)
  case (Push b ep pr)
  with b have push: "cq_push q b ep pr = Inr q'" and r: "r = None" by auto
  note k = push_known [OF inv push]
  from cq_push_spec [OF inv k(1), of "int (size_t_of pr)" b] k(2,3) have "cq_inv eps q'" "cq_size q' = Suc (cq_size q)"
    by (metis Inr_inject of_nat_0_le_iff of_nat_less_iff of_nat_numeral)+
  then show ?thesis using r Push by simp
next
  case Pop
  then show ?thesis using pop_body_keeps [OF inv] b by simp
next
  case (Increment ep)
  with b have i: "cq_increment_in_flight q ep = Inr q'" and r: "r = None" by auto
  then have "ep \<in> eps" using counter_known [OF inv] by (auto simp: cq_increment_in_flight_def)
  from cq_increment_spec [OF inv this] i show ?thesis using r Increment by fastforce
next
  case (Decrement ep)
  with b have i: "cq_decrement_in_flight q ep = Inr q'" and r: "r = None" by auto
  then have "ep \<in> eps" using counter_known [OF inv] by (auto simp: cq_decrement_in_flight_def)
  from cq_decrement_spec [OF inv this] i show ?thesis using r Decrement by fastforce
next
  case (Set_Endpoint_Limit l ep)
  with b obtain m where m: "lm_set (cq_limits q) ep l = Inr m" "q' = q\<lparr>cq_limits := m\<rparr>" "r = None"
    by (auto simp: cq_update_endpoint_limit_def)
  have "cells eps (cq_limits q)" using inv by (simp add: cq_inv_def)
  then have "cells eps m" using lm.put_eq_Inr [OF _ m(1)] by (auto simp: cells_def)
  then show ?thesis using cq_limits_inv [OF inv] m Set_Endpoint_Limit by simp
next
  case (Set_Global_Limit l)
  then show ?thesis using b cq_global_inv [OF inv] by (auto simp: cq_update_global_limit_def)
qed

lemma thread_step_size:
  assumes ex: "exclusive ps s" and inv: "cq_inv eps (sq_members s)" and st: "thread_step s (ps t) es s' p"
  shows "cq_inv eps (sq_members s') \<and>
    of_nat (cq_size (sq_members s')) - sq_size s' - owed p = of_nat (cq_size (sq_members s)) - sq_size s - owed (ps t)"
  using st
proof (cases rule: thread_step.cases)
  case (store op q q')
  then have "q = sq_members s" using exclusiveD(3) [OF ex] by metis
  then show ?thesis using store locked_body_keeps [OF inv, of op None q'] by simp
next
  case (take_out op q b q')
  then have "q = sq_members s" using exclusiveD(3) [OF ex] by metis
  then show ?thesis using take_out locked_body_keeps [OF inv, of op "Some b" q'] by simp
qed (use inv in auto)

lemma interleaving_size:
  assumes "interleaving n s0 ops ps s" "\<not> locked (sq_lock s0)" "cq_inv eps (sq_members s0)"
    and "sq_size s0 = of_nat (cq_size (sq_members s0))"
  shows "cq_inv eps (sq_members s) \<and> sq_size s + (\<Sum>k<n. owed (ps k)) = of_nat (cq_size (sq_members s))"
  using assms
proof (induction rule: interleaving.induct)
  case begins
  then show ?case by simp
next
  case (steps ops ps s t es s' p)
  then have "exclusive ps s" using interleaving_replay by blast
  from thread_step_size [OF this _ steps.hyps(3), of eps] steps
  have inv: "cq_inv eps (sq_members s')"
    and e: "of_nat (cq_size (sq_members s')) - sq_size s' - owed p = of_nat (cq_size (sq_members s)) - sq_size s - owed (ps t)"
    and i: "of_nat (cq_size (sq_members s)) = sq_size s + (\<Sum>k<n. owed (ps k))"
    by simp_all
  have "(\<Sum>k<n. owed ((ps(t := p)) k)) = (\<Sum>k<n. owed (ps k)) - owed (ps t) + owed p"
    using sum_update [of "{..<n}" t "\<lambda>k. owed (ps k)" "owed p"] steps.hyps(2) by (simp add: fun_upd_def if_distrib)
  then have "sq_size s' + (\<Sum>k<n. owed ((ps(t := p)) k)) = sq_size s' + ((of_nat (cq_size (sq_members s)) - sq_size s - owed (ps t)) + owed p)"
    unfolding i by simp
  also have "\<dots> = of_nat (cq_size (sq_members s'))" unfolding e [symmetric] by simp
  finally show ?case using inv by simp
qed

text \<open>Without an unfinished push the sum is 0, or -1 for the one pop that is before its subtraction.\<close>

lemma owed_cases:
  "owed p = 0 \<or> owed p = 1 \<or> owed p = - 1 \<and> holds_lock p"
  by (cases p) auto

lemma no_push_owed:
  assumes ex: "exclusive ps s" and no: "\<forall>t<n. owed (ps t) \<noteq> 1"
  shows "(\<Sum>k<n. owed (ps k)) = 0 \<or> (\<Sum>k<n. owed (ps k)) = - 1"
proof (cases "\<exists>t<n. holds_lock (ps t)")
  case True
  then obtain t where t: "t < n" "holds_lock (ps t)" by blast
  have "owed (ps k) = 0" if "k \<in> {..<n} - {t}" for k
    using that no owed_cases [of "ps k"] exclusive_others [OF ex t(2)] by auto
  then have "(\<Sum>k\<in>{..<n} - {t}. owed (ps k)) = 0" by simp
  then have "(\<Sum>k<n. owed (ps k)) = owed (ps t)"
    using sum.remove [of "{..<n}" t "\<lambda>k. owed (ps k)"] t(1) by simp
  then show ?thesis using owed_cases [of "ps t"] no t(1) by auto
next
  case False
  then have "owed (ps k) = 0" if "k < n" for k using that no owed_cases [of "ps k"] by blast
  then show ?thesis by simp
qed

lemma max_size_t: "unat (- 1 :: 64 word) = 2 ^ 64 - 1"
  by (simp add: unsigned_minus_1_eq_mask mask_eq_exp_minus_1)

lemma empty_size_push:
  assumes "exclusive ps s" "sq_size s + (\<Sum>k<n. owed (ps k)) = of_nat (cq_size (sq_members s))"
    and "sq_size s = 0" "0 < cq_size (sq_members s)" "cq_size (sq_members s) < 2 ^ 64 - 1"
  shows "\<exists>t<n. owed (ps t) = 1"
proof (rule ccontr)
  let ?k = "cq_size (sq_members s)"
  assume "\<not> (\<exists>t<n. owed (ps t) = 1)"
  then have "(of_nat ?k :: 64 word) = 0 \<or> (of_nat ?k :: 64 word) = - 1"
    using no_push_owed [OF assms(1), of n] assms(2,3) by auto
  then have "unat (of_nat ?k :: 64 word) = 0 \<or> unat (of_nat ?k :: 64 word) = 2 ^ 64 - 1"
    by (auto simp: max_size_t)
  then show False using assms(4,5) by (simp add: unat_of_nat)
qed

section \<open>Three threads on a small queue\<close>

text \<open>The steps of one thread through its critical section while the others stand still.\<close>

lemma interleaving_step:
  "interleaving n s0 ops ps s \<Longrightarrow> t < n \<Longrightarrow> ps t = p0 \<Longrightarrow> thread_step s p0 es s' p \<Longrightarrow>
   interleaving n s0 (ops @ es) (ps(t := p)) s'"
  using interleaving.steps by fast

lemma locked_section:
  assumes i: "interleaving n s0 ops ps s" and t: "t < n" "ps t = At_Lock op" and free: "sq_lock s = spin_lock_init"
    and b: "locked_body op (sq_members s) = Inr (r, q')"
  shows "interleaving n s0 (ops @ [(op, r)])
      (ps(t := (case r of None \<Rightarrow> At_Unlock op None | Some b \<Rightarrow> At_Sub b)))
      (s\<lparr>sq_lock := \<lparr>locked = True\<rparr>, sq_members := q'\<rparr>)"
proof -
  let ?s1 = "s\<lparr>sq_lock := \<lparr>locked = True\<rparr>\<rparr>"
  have "interleaving n s0 (ops @ []) (ps(t := Inside op)) ?s1"
    by (rule interleaving_step [OF i t thread_step.acquire]) (simp add: test_and_set_def free spin_lock_init_def)
  from interleaving_step [OF this t(1) fun_upd_same thread_step.load]
  have l: "interleaving n s0 ops (ps(t := Loaded op (sq_members s))) ?s1" by (simp del: fun_upd_apply)
  show ?thesis
  proof (cases r)
    case None
    then show ?thesis using interleaving_step [OF l t(1) fun_upd_same thread_step.store] b by (simp del: fun_upd_apply)
  next
    case (Some x)
    then show ?thesis using interleaving_step [OF l t(1) fun_upd_same thread_step.take_out] b by (simp del: fun_upd_apply)
  qed
qed

lemma pushed_section:
  assumes i: "interleaving n s0 ops ps s" and t: "t < n" "ps t = At_Lock (Push b ep pr)" and free: "sq_lock s = spin_lock_init"
    and b: "locked_body (Push b ep pr) (sq_members s) = Inr (None, q')"
  shows "interleaving n s0 (ops @ [(Push b ep pr, None)]) (ps(t := At_Add)) (s\<lparr>sq_members := q', sq_lock := spin_lock_init\<rparr>)"
  using interleaving_step [OF locked_section [OF assms] t(1) fun_upd_same, unfolded option.case, OF thread_step.release]
  by (simp add: unlock_def spin_lock_init_def del: fun_upd_apply)

lemma popped_section:
  assumes i: "interleaving n s0 ops ps s" and t: "t < n" "ps t = At_Lock Pop" and free: "sq_lock s = spin_lock_init"
    and b: "locked_body Pop (sq_members s) = Inr (Some x, q')"
  shows "interleaving n s0 (ops @ [(Pop, Some x)]) (ps(t := At_Return (Some x)))
    (s\<lparr>sq_members := q', sq_size := sq_size s - 1, sq_lock := spin_lock_init\<rparr>)"
proof -
  from interleaving_step [OF locked_section [OF assms] t(1) fun_upd_same, unfolded option.case, OF thread_step.sub]
  have "interleaving n s0 (ops @ [(Pop, Some x)]) (ps(t := At_Unlock Pop (Some x)))
    (s\<lparr>sq_lock := \<lparr>locked = True\<rparr>, sq_members := q', sq_size := sq_size s - 1\<rparr>)" by (simp del: fun_upd_apply)
  from interleaving_step [OF this t(1) fun_upd_same thread_step.release]
  show ?thesis by (simp add: unlock_def spin_lock_init_def del: fun_upd_apply)
qed

text \<open>The deque \<open>d\<close> in the first priority of the only endpoint, \<open>r\<close> rounds left, \<open>f\<close> active requests.\<close>

definition lane :: "nat list \<Rightarrow> nat \<Rightarrow> int \<Rightarrow> nat credit_queue" where
  "lane d r f =
     (let iq = (\<lambda>d. \<lparr>iq_queue = one_cell d, iq_it = 0, iq_size = length d\<rparr>)
      in \<lparr>cq_queue = [iq d, iq [], iq []], cq_weights = [16, 4, 1], cq_it = 0, cq_rounds = r, cq_size = length d,
          cq_in_flight = f, cq_global_limit = 50, cq_per_endpoint = one_cell f, cq_limits = one_cell 40\<rparr>)"

lemma lane_push: "locked_body (Push b ''a'' 0) (lane d r f) = Inr (None, lane (d @ [b]) r f)"
  by (simp add: lane_def Let_def cq_push_def iq_push_def)

lemma lane_next: "it_next (one_cell v) 0 = 0"
  by (simp add: it_next_def skip_empty_def one_cell_def occupied_def Let_def)

lemma lane_pop:
  assumes "f < 40" "1 < r"
  shows "locked_body Pop (lane (b # d) r f) = Inr (Some b, lane d (r - 1) (f + 1))"
proof -
  have slot: "lm_slots (one_cell v) = [\<lparr>slot_key = ''a'', slot_len = 1, slot_fp = fnv1a64 ''a'' 0, slot_value = v\<rparr>]"
    for v :: "'v" by (simp add: one_cell_def)
  let ?iq = "\<lambda>d. \<lparr>iq_queue = one_cell d, iq_it = 0, iq_size = length d\<rparr>"
  have "iq_pop (?iq (b # d)) f (one_cell f) 50 (one_cell 40) = Inr (Some b, ?iq d, f + 1, one_cell (f + 1))"
    using assms(1) by (simp add: iq_pop_def slot can_send_def Let_def lane_next)
  then show ?thesis
    using assms by (simp add: lane_def Let_def PriorityCount_def numeral_3_eq_3 cq_pop_loop.simps(2))
qed

lemma lane_inv: "0 < r \<Longrightarrow> r \<le> 16 \<Longrightarrow> cq_inv {''a''} (lane d r f)"
proof -
  assume "0 < r" "r \<le> 16"
  moreover have iq: "iq_inv {''a''} \<lparr>iq_queue = one_cell (d :: nat list), iq_it = 0, iq_size = length d\<rparr>" for d
    by (simp add: iq_inv_def one_cell_inv one_cell_map iq_deque_def)
  moreover note iq [of "[]", simplified]
  ultimately show ?thesis
    by (simp add: cq_inv_def lane_def Let_def one_cell_cells one_cell_val upto3 numeral_3_eq_3 all_conj_distrib)
      (auto simp: less_Suc_eq)
qed

text \<open>
  One grant waits. Two threads see the size 1 and go for it; a third pushes a second grant. Both pops succeed
  before the push has added to the size, which is then -1, the largest value of size_t.
\<close>

definition one_waiting :: "nat shared_queue" where
  "one_waiting = \<lparr>sq_lock = spin_lock_init, sq_size = 1, sq_members = lane [7] 16 0\<rparr>"

lemma size_overdrawn:
  "interleaving 3 one_waiting [(Push 5 ''a'' 0, None), (Pop, Some 7), (Pop, Some 5)]
     ((\<lambda>_. Outside)(1 := At_Return (Some 7), 2 := At_Return (Some 5), 0 := At_Add))
     \<lparr>sq_lock = spin_lock_init, sq_size = - 1, sq_members = lane [] 14 2\<rparr>"
proof -
  let ?o = "\<lambda>_. Outside"
  have "interleaving 3 one_waiting [] (?o(1 := At_Lock Pop)) one_waiting"
    using interleaving_step [OF interleaving.begins [of 3 one_waiting], of 1, OF _ refl thread_step.pop_try] by (simp add: one_waiting_def)
  from interleaving_step [OF this, of 2, OF _ _ thread_step.pop_try]
  have "interleaving 3 one_waiting [] (?o(1 := At_Lock Pop, 2 := At_Lock Pop)) one_waiting"
    by (simp add: one_waiting_def)
  from interleaving_step [OF this, of 0, OF _ _ thread_step.call [of "Push 5 ''a'' 0"]]
  have i: "interleaving 3 one_waiting [] (?o(1 := At_Lock Pop, 2 := At_Lock Pop, 0 := At_Lock (Push 5 ''a'' 0))) one_waiting"
    by simp
  have "interleaving 3 one_waiting [(Push 5 ''a'' 0, None)] (?o(1 := At_Lock Pop, 2 := At_Lock Pop, 0 := At_Add))
      \<lparr>sq_lock = spin_lock_init, sq_size = 1, sq_members = lane [7, 5] 16 0\<rparr>"
    using pushed_section [OF i, of 0 5 "''a''" 0] lane_push [of 5 "[7]" 16 0] by (simp add: one_waiting_def)
  from popped_section [OF this, of 1] lane_pop [of 0 16 7 "[5]"]
  have "interleaving 3 one_waiting [(Push 5 ''a'' 0, None), (Pop, Some 7)]
      (?o(1 := At_Return (Some 7), 2 := At_Lock Pop, 0 := At_Add))
      \<lparr>sq_lock = spin_lock_init, sq_size = 0, sq_members = lane [5] 15 1\<rparr>"
    by (simp add: fun_upd_twist)
  from popped_section [OF this, of 2] lane_pop [of 1 15 5 "[]"]
  show ?thesis by (simp add: fun_upd_twist)
qed

section \<open>Properties\<close>

text \<open>
  C9: under the SpinLock any interleaving of any number of threads has the effect of its critical sections one
  after the other, with the same results; at most one thread is in a critical section, and the flag of the lock
  is set exactly while one is.
\<close>

theorem locked_queue_linearizable:
  assumes "interleaving n s0 ops ps s" "\<not> locked (sq_lock s0)"
  shows "replay ops (sq_members s0) = Inr (sq_members s) \<and>
    (\<forall>t u. holds_lock (ps t) \<and> holds_lock (ps u) \<longrightarrow> t = u) \<and>
    (locked (sq_lock s) \<longleftrightarrow> (\<exists>t. holds_lock (ps t)))"
  using interleaving_replay [OF assms] unfolding exclusive_def by blast

theorem locked_queue_linearizable_witness:
  "replay [(Push 5 ''a'' 0, None), (Pop, Some 7), (Pop, Some 5)] (lane [7] 16 0) = Inr (lane [] 14 2)"
  using locked_queue_linearizable [OF size_overdrawn] by (simp add: one_waiting_def spin_lock_init_def)

text \<open>
  C10: the size that pop reads without the lock is the number of waiting grants up to the pushes and pops under
  way, and exact when no thread is in a method. When pop finds it 0 although a grant waits, then some push has
  not returned yet, and its thread looks again after it (State::check_credit_transmission): no grant is left
  behind. In between the size can be off in both directions, and wrap.
\<close>

theorem queue_size_settles:
  assumes "interleaving n s0 ops ps s" "\<not> locked (sq_lock s0)" "cq_inv eps (sq_members s0)"
    and "sq_size s0 = of_nat (cq_size (sq_members s0))"
  shows "cq_inv eps (sq_members s) \<and> sq_size s + (\<Sum>k<n. owed (ps k)) = of_nat (cq_size (sq_members s)) \<and>
    ((\<forall>t<n. ps t = Outside) \<longrightarrow> sq_size s = of_nat (cq_size (sq_members s))) \<and>
    (sq_size s = 0 \<and> 0 < cq_size (sq_members s) \<and> cq_size (sq_members s) < 2 ^ 64 - 1 \<longrightarrow>
       (\<exists>t<n. ps t = At_Add \<or> (\<exists>b ep pr r. ps t = At_Unlock (Push b ep pr) r)))"
proof -
  have ex: "exclusive ps s" using interleaving_replay [OF assms(1,2)] by simp
  note sz = interleaving_size [OF assms]
  have "ps t = At_Add \<or> (\<exists>b ep pr r. ps t = At_Unlock (Push b ep pr) r)" if "owed (ps t) = 1" for t
    using that by (cases "ps t") (auto split: if_splits elim!: is_push.elims)
  then have "\<exists>t<n. ps t = At_Add \<or> (\<exists>b ep pr r. ps t = At_Unlock (Push b ep pr) r)"
    if "sq_size s = 0 \<and> 0 < cq_size (sq_members s) \<and> cq_size (sq_members s) < 2 ^ 64 - 1"
    using empty_size_push [OF ex conjunct2 [OF sz]] that by metis
  then show ?thesis using sz by auto
qed

theorem queue_size_settles_witness:
  "\<exists>ps s. interleaving 3 one_waiting [(Push 5 ''a'' 0, None), (Pop, Some 7), (Pop, Some 5)] ps s \<and>
     unat (sq_size s) = 2 ^ 64 - 1 \<and> cq_size (sq_members s) = 0 \<and> cq_inv {''a''} (sq_members s)"
proof -
  have "cq_inv {''a''} (sq_members one_waiting)" "sq_size one_waiting = of_nat (cq_size (sq_members one_waiting))"
    "\<not> locked (sq_lock one_waiting)"
    by (simp_all add: one_waiting_def lane_inv spin_lock_init_def) (simp add: lane_def)
  from queue_size_settles [OF size_overdrawn this(3,1,2)] have "cq_inv {''a''} (lane [] 14 2)" by simp
  then show ?thesis
    by - (rule exI, rule exI, rule conjI [OF size_overdrawn], simp add: max_size_t, simp add: lane_def)
qed

end
