(* ===== verification/Fast_Map_Correct.thy ===== *)
theory Fast_Map_Correct
  imports Fast_Map
begin

text \<open>
  What a LocalMap promises to its clients: built from distinct non-empty keys it behaves like a map
  with exactly those keys under any sequence of writes, its iterator visits every key once per turn,
  and lookups outside the keys stop the process.
\<close>

definition lm_writes :: "(string \<times> 'v) list \<Rightarrow> 'v local_map \<Rightarrow> 'v local_map result" where
  "lm_writes ws m = foldR (\<lambda>(k, v) m. lm_set m k v) ws m"

lemma lm_writes_map:
  assumes "lm_inv m" "fst ` set ws \<subseteq> dom (lm_map m)"
  shows "\<exists>m'. lm_writes ws m = Inr m' \<and> lm_inv m' \<and> lm_map m' = lm_map m ++ map_of (rev ws)"
  using assms
proof (induction ws arbitrary: m)
  case Nil
  then show ?case by (simp add: lm_writes_def)
next
  case (Cons w ws)
  obtain k v where w: "w = (k, v)" by (cases w)
  with Cons.prems obtain u where u: "lm_map m k = Some u" by auto
  from lm.put_hit [OF Cons.prems(1) u, of v] obtain m1 where
    m1: "lm_set m k v = Inr m1" "lm_inv m1" "lm_map m1 = (lm_map m)(k \<mapsto> v)" by auto
  have "fst ` set ws \<subseteq> dom (lm_map m1)" using Cons.prems(2) m1(3) by auto
  from Cons.IH [OF m1(2) this] obtain m' where m': "lm_writes ws m1 = Inr m'" "lm_inv m'"
    "lm_map m' = lm_map m1 ++ map_of (rev ws)" by blast
  have "lm_map m' = lm_map m ++ map_of (rev (w # ws))"
    unfolding m'(3) m1(3) w by (simp add: map_add_def fun_eq_iff split: option.splits)
  then show ?case using m1(1) m'(1,2) by (simp add: lm_writes_def w)
qed

text \<open>The keys that \<open>n\<close> dereferences of an iterator see, advancing it after each.\<close>

fun it_keys :: "'v local_map \<Rightarrow> nat \<Rightarrow> nat \<Rightarrow> string list" where
  "it_keys m 0 i = []"
| "it_keys m (Suc n) i = slot_key (lm_slots m ! i) # it_keys m n (it_next m i)"

lemma it_keys_suffix:
  assumes "os = get_all_indices m" "j + n \<le> length os" "0 < n"
  shows "it_keys m n (os ! j) = map (\<lambda>i. slot_key (lm_slots m ! i)) (take n (drop j os))"
  using assms(2,3)
proof (induction n arbitrary: j)
  case (Suc n)
  have j: "j < length os" using Suc.prems by simp
  have hd: "drop j os = os ! j # drop (Suc j) os" using j by (simp add: Cons_nth_drop_Suc)
  show ?case
  proof (cases "n = 0")
    case True
    then show ?thesis by (simp add: hd)
  next
    case False
    then have "it_next m (os ! j) = os ! Suc j"
      using Suc.prems(1) it_next_cycle [of j m] j by (simp add: assms(1))
    moreover have "Suc j + n \<le> length os" using Suc.prems(1) by simp
    ultimately show ?thesis using Suc.IH [of "Suc j"] False by (simp add: hd)
  qed
qed simp

lemma it_next_power:
  assumes "os = get_all_indices m" "j < length os"
  shows "(it_next m ^^ n) (os ! j) = os ! ((j + n) mod length os)"
proof (induction n)
  case (Suc n)
  have "0 < length os" using assms(2) by linarith
  then have "(j + n) mod length os < length os" by simp
  from it_next_cycle [OF this [unfolded assms(1)]] show ?case
    using Suc.IH by (simp add: assms(1) mod_Suc_eq)
qed (use assms in simp)

text \<open>Two keys that the first seed separates.\<close>

lemma seed_search_first:
  "try_build d ks K cap (of_nat trial) m = Some m' \<Longrightarrow> 0 < n \<Longrightarrow>
   seed_search d ks K cap trial n m = Some (m'\<lparr>lm_seed := of_nat trial\<rparr>)"
  by (cases n) simp_all

lemma two_keys:
  obtains m where "lm_construct d [''user'', ''cart''] = Inr m" "lm_slots m \<noteq> []"
proof -
  have "slot_index 2 (fnv1a64 ''user'' 0) = 0" "slot_index 2 (fnv1a64 ''cart'' 0) = 1" by code_simp+
  then obtain m where m: "try_build d [''user'', ''cart''] 2 2 0 lm_raw = Some m" "lm_slots m \<noteq> []"
    by (simp add: try_build_def Let_def occupied_def empty_slot_def numeral_2_eq_2)
  then show thesis
    using that [of "m\<lparr>lm_seed := 0\<rparr>"] seed_search_first [of d "[''user'', ''cart'']" 2 2 0 lm_raw m 100000]
    by (simp add: lm_construct_def numeral_2_eq_2)
qed

text \<open>
  C16: a map built from good keys holds its default value under every key; after any writes to its keys
  a read returns the last value written (or the default), and a read or a write of any other key
  stops the process.
\<close>

theorem local_map_refines_map:
  assumes "lm_construct d ks = Inr m" "lm_slots m \<noteq> []" "\<forall>k\<in>set ks. good_key k" "length ks < 2 ^ 32"
    and "fst ` set ws \<subseteq> set ks"
  shows "\<exists>m'. lm_writes ws m = Inr m' \<and>
    (\<forall>k\<in>set ks. lm_get m' k = Inr (case map_of (rev ws) k of Some v \<Rightarrow> v | None \<Rightarrow> d)) \<and>
    (\<forall>k. k \<notin> set ks \<longrightarrow> (\<exists>e e'. lm_get m' k = Inl e \<and> lm_set m' k v = Inl e'))"
proof -
  have m: "lm_inv m" "lm_map m = (\<lambda>k. if k \<in> set ks then Some d else None)"
    using lm_construct_ok [OF assms(1-4)] by auto
  then have "dom (lm_map m) = set ks" by (auto simp: dom_def)
  with lm_writes_map [OF m(1), of ws] assms(5) obtain m' where
    m': "lm_writes ws m = Inr m'" "lm_inv m'" "lm_map m' = lm_map m ++ map_of (rev ws)" by auto
  have "lm_get m' k = Inr (case map_of (rev ws) k of Some v \<Rightarrow> v | None \<Rightarrow> d)" if "k \<in> set ks" for k
    using lm.get_hit [OF m'(2)] that by (simp add: m'(3) m(2) map_add_def split: option.splits)
  moreover have "\<exists>e e'. lm_get m' k = Inl e \<and> lm_set m' k v = Inl e'" if "k \<notin> set ks" for k
  proof -
    have "map_of (rev ws) k = None" using that assms(5) by (auto simp: map_of_eq_None_iff)
    then have "lm_map m' k = None" using that by (simp add: m'(3) m(2) map_add_def)
    then show ?thesis using lm.get_miss [OF m'(2)] lm.put_miss [OF m'(2)] by blast
  qed
  ultimately show ?thesis using m'(1) by blast
qed

theorem local_map_refines_map_witness:
  "case lm_construct (0::int) [''user'', ''cart''] of
     Inl e \<Rightarrow> False
   | Inr m \<Rightarrow> \<exists>m'. lm_writes [(''cart'', 4), (''cart'', 9)] m = Inr m' \<and> lm_get m' ''cart'' = Inr 9 \<and> lm_get m' ''user'' = Inr 0"
proof -
  obtain m where m: "lm_construct (0::int) [''user'', ''cart''] = Inr m" "lm_slots m \<noteq> []" by (rule two_keys)
  have hyps: "\<forall>k\<in>set [''user'', ''cart'']. good_key k" "length [''user'', ''cart''] < 2 ^ 32"
    "fst ` set [(''cart'', 4 :: int), (''cart'', 9)] \<subseteq> set [''user'', ''cart'']"
    by (simp_all add: good_key_def)
  from local_map_refines_map [OF m hyps, of 0] show ?thesis
  proof (elim exE conjE)
    fix m'
    assume w: "lm_writes [(''cart'', 4), (''cart'', 9)] m = Inr m'"
      and r: "\<forall>k\<in>set [''user'', ''cart'']. lm_get m' k =
        Inr (case map_of (rev [(''cart'', 4), (''cart'', 9)]) k of Some v \<Rightarrow> v | None \<Rightarrow> 0)"
    have "lm_get m' ''cart'' = Inr 9" using bspec [OF r, of "''cart''"] by simp
    moreover have "lm_get m' ''user'' = Inr 0" using bspec [OF r, of "''user''"] by simp
    ultimately show ?thesis using m(1) w by simp
  qed
qed

text \<open>
  C17: starting at begin() and advancing as often as there are keys, the circular iterator sees every
  key exactly once and is back where it started.
\<close>

theorem iterator_visits_all:
  assumes "lm_construct d ks = Inr m" "lm_slots m \<noteq> []" "\<forall>k\<in>set ks. good_key k" "length ks < 2 ^ 32"
  shows "let seen = it_keys m (length ks) (it_begin m)
    in distinct seen \<and> set seen = set ks \<and> (it_next m ^^ length ks) (it_begin m) = it_begin m"
proof -
  let ?os = "get_all_indices m" and ?key = "\<lambda>i. slot_key (lm_slots m ! i)"
  have m: "lm_inv m" "lm_map m = (\<lambda>k. if k \<in> set ks then Some d else None)"
    using lm_construct_ok [OF assms] by auto
  have ks2: "ks \<noteq> []"
  proof
    assume "ks = []"
    then show False using assms(1,2) by (simp add: lm_construct_def lm_no_keys_def) force
  qed
  have ks1: "distinct ks"
  proof (rule ccontr)
    assume "\<not> distinct ks"
    then have "lm_construct d ks = Inl (InvalidArgument ''duplicate key'')"
      using ks2 by (simp add: lm_construct_def)
    then show False using assms(1) by simp
  qed
  note ks = ks1 ks2
  have keys: "?key ` set ?os = set ks"
  proof -
    have "dom (lm_map m) = set ks" by (auto simp: m(2) dom_def)
    then have "slot_keys (lm_slots m) = set ks" using dom_lm_map [OF m(1)] by simp
    moreover have "slot_keys (lm_slots m) = ?key ` set ?os"
      unfolding set_get_all_indices by (auto simp: slot_keys_iff)
    ultimately show ?thesis by simp
  qed
  have inj: "inj_on ?key (set ?os)"
    unfolding inj_on_def set_get_all_indices using slot_key_inj [OF m(1)] by blast
  have len: "length ?os = length ks"
    using card_image [OF inj] distinct_card [OF ks(1)] distinct_card [OF distinct_get_all_indices [of m]]
    unfolding keys by simp
  then have ne: "?os \<noteq> []" "0 < length ks" using ks(2) by auto
  have "it_keys m (length ks) (it_begin m) = map ?key ?os"
    using it_keys_suffix [OF refl, of 0 "length ks" m] len ne by (simp add: it_begin_first)
  moreover have "(it_next m ^^ length ks) (it_begin m) = it_begin m"
    using it_next_power [OF refl, of 0 m "length ks"] len ne by (simp add: it_begin_first)
  ultimately show ?thesis
    using inj keys distinct_get_all_indices [of m] by (simp add: Let_def distinct_map)
qed

theorem iterator_visits_all_witness:
  "case lm_construct () [''user'', ''cart''] of
     Inl e \<Rightarrow> False | Inr m \<Rightarrow> set (it_keys m (length [''user'', ''cart'']) (it_begin m)) = {''user'', ''cart''}"
proof -
  obtain m where m: "lm_construct () [''user'', ''cart''] = Inr m" "lm_slots m \<noteq> []" by (rule two_keys)
  from iterator_visits_all [OF m] show ?thesis using m by (simp add: good_key_def Let_def)
qed

text \<open>
  A duplicate key is rejected by an exception; on a map without keys the comment of the
  constructor announces a fatal log of every operation, but the lookup divides by the size zero.
\<close>

theorem local_map_bad_keys:
  "(\<not> distinct ks \<longrightarrow> lm_construct d ks = Inl (InvalidArgument ''duplicate key'')) \<and>
   (\<exists>m. lm_construct d [] = Inr m \<and> (\<forall>k. lm_get m k = Inl (Undefined ''h % size_ with size_ = 0'')))"
proof
  show "\<not> distinct ks \<longrightarrow> lm_construct d ks = Inl (InvalidArgument ''duplicate key'')"
    by (cases "ks = []") (simp_all add: lm_construct_def)
  show "\<exists>m. lm_construct d [] = Inr m \<and> (\<forall>k. lm_get m k = Inl (Undefined ''h % size_ with size_ = 0''))"
    by (intro exI [of _ lm_no_keys]) (simp add: lm_construct_def lm_get_def find_ptr_def probe_def lm_no_keys_def)
qed

theorem local_map_bad_keys_witness: "lm_construct () [''a'', ''a''] = Inl (InvalidArgument ''duplicate key'')"
  using local_map_bad_keys [of "[''a'', ''a'']" "()"] by simp

end
