(* ===== verification/Atomic_Map.thy ===== *)
theory Atomic_Map
  imports Fast_Map
begin

text \<open>
  FastMap of include/fast_map.hpp, the map with atomic values that threads may share. Its constructor, try_build,
  probe and equals have the text of LocalMap's and are those functions here; only the values are atomic. A method
  first locates the slot, reading keys that never change, and then makes one atomic access to its value, so two
  threads can come between each other in the middle of a method. No component of the program has a FastMap.
\<close>

section \<open>The map\<close>

type_synonym 'v fast_map = "'v local_map"

definition fm_construct :: "'v \<Rightarrow> string list \<Rightarrow> 'v fast_map result" where
  "fm_construct v ks = lm_construct v ks"

definition fm_find_ptr :: "'v fast_map \<Rightarrow> string \<Rightarrow> nat option result" where
  "fm_find_ptr m k = bindR (probe m k) (\<lambda>idx.
     if idx < length (lm_slots m) then Inr (if slot_equals (lm_slots m ! idx) k then Some idx else None)
     else Inl (Undefined ''slots_[idx] out of bounds''))"

text \<open>An atomic access: what it loads, and the map afterwards.\<close>

datatype 'v access = Load | Store 'v | Fetch_Add 'v

fun access_at :: "'v::plus access \<Rightarrow> nat \<Rightarrow> 'v fast_map \<Rightarrow> 'v option \<times> 'v fast_map" where
  "access_at Load i m = (Some (slot_value (lm_slots m ! i)), m)"
| "access_at (Store v) i m = (None, store_at m i v)"
| "access_at (Fetch_Add v) i m = (None, store_at m i (slot_value (lm_slots m ! i) + v))"

text \<open>A method from its lookup to its access, undisturbed.\<close>

definition perform :: "string \<Rightarrow> 'v::plus access \<Rightarrow> 'v fast_map \<Rightarrow> ('v option \<times> 'v fast_map) result" where
  "perform k a m = bindR (fm_find_ptr m k) (\<lambda>p. case p of
     Some i \<Rightarrow> Inr (access_at a i m)
   | None \<Rightarrow> Inl (Fatal ''FastMap key not found''))"

definition fm_get :: "'v::plus fast_map \<Rightarrow> string \<Rightarrow> 'v result" where
  "fm_get m k = bindR (perform k Load m) (\<lambda>(v, _). opt_value v)"

definition fm_set :: "'v::plus fast_map \<Rightarrow> string \<Rightarrow> 'v \<Rightarrow> 'v fast_map result" where
  "fm_set m k v = bindR (perform k (Store v) m) (\<lambda>(_, m'). Inr m')"

definition fm_add :: "'v::plus fast_map \<Rightarrow> string \<Rightarrow> 'v \<Rightarrow> 'v fast_map result" where
  "fm_add m k delta = bindR (perform k (Fetch_Add delta) m) (\<lambda>(_, m'). Inr m')"

definition fm_index_of :: "'v fast_map \<Rightarrow> string \<Rightarrow> nat result" where
  "fm_index_of m k = bindR (fm_find_ptr m k) (\<lambda>p. Inr (case p of Some idx \<Rightarrow> idx | None \<Rightarrow> npos))"

definition fm_get_key :: "'v fast_map \<Rightarrow> string \<Rightarrow> string result" where
  "fm_get_key m k = bindR (fm_find_ptr m k) (\<lambda>p. case p of
     Some idx \<Rightarrow> Inr (slot_key (lm_slots m ! idx))
   | None \<Rightarrow> Inl (Fatal ''FastMap key not found for get_key operation''))"

definition fm_get_all_keys :: "'v fast_map \<Rightarrow> string list" where
  "fm_get_all_keys m = map slot_key (filter occupied (lm_slots m))"

definition fm_get_all_indices :: "'v fast_map \<Rightarrow> nat list" where
  "fm_get_all_indices m = filter (\<lambda>i. occupied (lm_slots m ! i)) [0..<length (lm_slots m)]"

definition for_each_key :: "(string \<Rightarrow> nat \<Rightarrow> 's \<Rightarrow> 's) \<Rightarrow> 'v fast_map \<Rightarrow> 's \<Rightarrow> 's" where
  "for_each_key func m st = fold (\<lambda>i. func (slot_key (lm_slots m ! i)) i) (fm_get_all_indices m) st"

definition fm_for_each_occupied_index :: "(nat \<Rightarrow> 's \<Rightarrow> 's) \<Rightarrow> 'v fast_map \<Rightarrow> 's \<Rightarrow> 's" where
  "fm_for_each_occupied_index func m st = fold func (fm_get_all_indices m) st"

text \<open>For a single thread it keeps the contract of a keyed map.\<close>

lemma fm_find_ptr_local: "fm_find_ptr = find_ptr"
  by (intro ext) (simp add: fm_find_ptr_def find_ptr_def)

interpretation fm: keyed_cells fm_get fm_set lm_map lm_inv
proof
  fix m :: "'v::plus fast_map" and k v u
  assume inv: "lm_inv m"
  show "lm_map m k = Some v \<Longrightarrow> fm_get m k = Inr v"
    using inv by (cases rule: lm_inv_find_ptr_cases [where k = k]) (auto simp: fm_get_def perform_def fm_find_ptr_local)
  show "lm_map m k = None \<Longrightarrow> \<exists>e. fm_get m k = Inl e"
    using inv by (cases rule: lm_inv_find_ptr_cases [where k = k]) (auto simp: fm_get_def perform_def fm_find_ptr_local)
  show "lm_map m k = Some u \<Longrightarrow> \<exists>m'. fm_set m k v = Inr m' \<and> lm_inv m' \<and> lm_map m' = (lm_map m)(k \<mapsto> v)"
    using inv by (cases rule: lm_inv_find_ptr_cases [where k = k])
      (auto simp: fm_set_def perform_def fm_find_ptr_local store_at_inv [OF inv] store_at_map [OF inv])
  show "lm_map m k = None \<Longrightarrow> \<exists>e. fm_set m k v = Inl e"
    using inv by (cases rule: lm_inv_find_ptr_cases [where k = k]) (auto simp: fm_set_def perform_def fm_find_ptr_local)
qed

section \<open>Threads\<close>

text \<open>What a thread has located, and the run of any number of threads with the accesses in the order they happen.\<close>

datatype 'v located = Idle | Located string nat "'v access"

inductive map_runs ::
    "'v::plus fast_map \<Rightarrow> 'v fast_map \<Rightarrow> (nat \<Rightarrow> 'v located) \<Rightarrow> (string \<times> 'v access \<times> 'v option) list \<Rightarrow> bool" for m0 where
  begins: "map_runs m0 m0 (\<lambda>_. Idle) []"
| locates: "map_runs m0 m ts tr \<Longrightarrow> ts t = Idle \<Longrightarrow> fm_find_ptr m k = Inr (Some i) \<Longrightarrow> map_runs m0 m (ts(t := Located k i a)) tr"
| accesses: "map_runs m0 m ts tr \<Longrightarrow> ts t = Located k i a \<Longrightarrow>
    map_runs m0 (snd (access_at a i m)) (ts(t := Idle)) (tr @ [(k, a, fst (access_at a i m))])"

text \<open>One thread that performs the methods one after the other and loads the same values.\<close>

definition performs :: "(string \<times> 'v::plus access \<times> 'v option) list \<Rightarrow> 'v fast_map \<Rightarrow> 'v fast_map result" where
  "performs tr m = foldR (\<lambda>(k, a, r) m. bindR (perform k a m) (\<lambda>(r', m'). if r' = r then Inr m' else Inl (Undefined ''other value''))) tr m"

section \<open>Every method is one step\<close>

lemma store_at_find:
  assumes "lm_inv m" "i < length (lm_slots m)"
  shows "find_ptr (store_at m i v) k = find_ptr m k"
  using assms store_at_inv [OF assms, of v]
  by (simp add: lm_inv_find_ptr Let_def store_at_keys) (simp add: store_at_def)

lemma access_at_ok:
  assumes "lm_inv m" "i < length (lm_slots m)"
  shows "lm_inv (snd (access_at a i m))" "find_ptr (snd (access_at a i m)) k = find_ptr m k"
  using assms by (cases a; simp add: store_at_inv store_at_find)+

lemma found_in_bounds: "lm_inv m \<Longrightarrow> find_ptr m k = Inr (Some i) \<Longrightarrow> i < length (lm_slots m)"
  by (auto simp: find_ptr_def lm_inv_probe split: if_splits)

lemma performs_snoc:
  "performs tr m0 = Inr m \<Longrightarrow> find_ptr m k = Inr (Some i) \<Longrightarrow>
   performs (tr @ [(k, a, fst (access_at a i m))]) m0 = Inr (snd (access_at a i m))"
  by (cases "access_at a i m") (simp add: performs_def foldR_append perform_def fm_find_ptr_local)

text \<open>
  However the lookups and accesses of the threads interleave, the map is the one that a single thread leaves that
  performs the whole methods in the order of their accesses, and every load returned what it loads there.
\<close>

theorem fast_map_linearizable:
  assumes "map_runs m0 m ts tr" "lm_inv m0"
  shows "performs tr m0 = Inr m \<and> lm_inv m \<and> (\<forall>t k i a. ts t = Located k i a \<longrightarrow> find_ptr m k = Inr (Some i))"
  using assms
proof (induction rule: map_runs.induct)
  case begins
  then show ?case by (simp add: performs_def)
next
  case (locates m ts tr t k i a)
  then show ?case by (auto simp: fm_find_ptr_local)
next
  case (accesses m ts tr t k i a)
  then have f: "find_ptr m k = Inr (Some i)" "lm_inv m" "performs tr m0 = Inr m" by auto
  show ?case using accesses f access_at_ok [OF f(2) found_in_bounds [OF f(2,1)]] performs_snoc [OF f(3,1)] by auto
qed

text \<open>Additions of any threads to any keys are never lost.\<close>

definition added :: "string \<Rightarrow> (string \<times> 'v::comm_monoid_add access \<times> 'v option) list \<Rightarrow> 'v" where
  "added k tr = (\<Sum>(k', a, _)\<leftarrow>tr. case a of Fetch_Add v \<Rightarrow> (if k' = k then v else 0) | _ \<Rightarrow> 0)"

lemma access_at_value:
  fixes a :: "'v::comm_monoid_add access"
  assumes "lm_inv m" "find_ptr m k' = Inr (Some i)" "\<And>v. a \<noteq> Store v" "lm_map m k = Some u"
  shows "lm_map (snd (access_at a i m)) k = Some (u + (case a of Fetch_Add v \<Rightarrow> (if k' = k then v else 0) | _ \<Rightarrow> 0))"
proof (cases a)
  case (Fetch_Add v)
  have "lm_map m k' = Some (slot_value (lm_slots m ! i))"
    using assms(1,2) lm_inv_find_ptr_cases [OF assms(1), of k'] by (metis Inr_inject option.distinct(1) option.inject)
  then show ?thesis using Fetch_Add assms(2,4) by (auto simp: store_at_map [OF assms(1,2)])
qed (use assms in auto)

theorem atomic_adds_not_lost:
  fixes m :: "'v::comm_monoid_add fast_map"
  assumes "map_runs m0 m ts tr" "lm_inv m0" "lm_map m0 k = Some u"
    and "\<forall>k v r. (k, Store v, r) \<notin> set tr"
  shows "lm_map m k = Some (u + added k tr)"
proof -
  have "map_runs m0 m ts tr \<Longrightarrow> lm_inv m0 \<Longrightarrow> \<forall>k v r. (k, Store v, r) \<notin> set tr \<Longrightarrow> lm_map m k = Some (u + added k tr)"
  proof (induction rule: map_runs.induct)
    case (accesses m ts tr t k' i a)
    have f: "find_ptr m k' = Inr (Some i)" "lm_inv m"
      using fast_map_linearizable [OF accesses.hyps(1) accesses.prems(1)] accesses.hyps(2) by auto
    have "lm_map m k = Some (u + added k tr)" using accesses by auto
    from access_at_value [OF f(2,1) _ this, of a] accesses.prems(2) show ?case by (auto simp: added_def add.assoc)
  qed (use assms(3) in \<open>auto simp: added_def\<close>)
  then show ?thesis using assms by blast
qed

end
