(* ===== verification/Buffer.thy ===== *)
theory Buffer
  imports Prelude
begin

text \<open>
  The class Buffer (include/buffer.h, src/buffer.cc): a fixed array of bytes, how much of it is
  filled, its ownership flags and the datagram descriptor that prepare_sendmsg fills. The pointers of
  the descriptor always point into the same object, so only the length and the address are kept.
\<close>

record sockaddr =
  sin_addr :: nat
  sin_port :: nat

definition no_addr :: sockaddr where
  "no_addr = \<lparr>sin_addr = 0, sin_port = 0\<rparr>"

record buffer =
  buf_data :: "byte list"
  buf_is_free :: bool
  buf_is_provided :: bool
  enter_queue_ts :: int
  buf_size :: nat
  buf_filled :: nat
  buf_index :: nat
  buf_msg :: "nat option"
  buf_addr :: sockaddr

definition new_buffer :: "nat \<Rightarrow> nat \<Rightarrow> buffer" where
  "new_buffer len idx =
     \<lparr>buf_data = replicate len 0, buf_is_free = True, buf_is_provided = False, enter_queue_ts = 0,
      buf_size = len - 1, buf_filled = 0, buf_index = idx, buf_msg = None, buf_addr = no_addr\<rparr>"

definition buffer_clear :: "buffer \<Rightarrow> buffer" where
  "buffer_clear b = b\<lparr>buf_msg := None, buf_addr := no_addr, buf_filled := 0, buf_is_free := True, enter_queue_ts := 0\<rparr>"

definition set_filled :: "buffer \<Rightarrow> nat \<Rightarrow> buffer result" where
  "set_filled b f = (if f > buf_size b then Inl (Fatal ''Buffer overflow'') else Inr (b\<lparr>buf_filled := f\<rparr>))"

definition prepare_sendmsg :: "buffer \<Rightarrow> sockaddr \<Rightarrow> buffer" where
  "prepare_sendmsg b a = b\<lparr>buf_msg := Some (buf_filled b), buf_addr := a\<rparr>"

text \<open>\<open>data.at(i) = c\<close>\<close>

definition put_at :: "nat \<Rightarrow> byte \<Rightarrow> byte list \<Rightarrow> byte list result" where
  "put_at i c d = (if i < length d then Inr (d[i := c]) else Inl OutOfRange)"

lemma put_at_in [simp]: "i < length d \<Longrightarrow> put_at i c d = Inr (d[i := c])"
  by (simp add: put_at_def)

fun put_all :: "(nat \<times> byte) list \<Rightarrow> byte list \<Rightarrow> byte list result" where
  "put_all [] d = Inr d"
| "put_all ((i, c) # ps) d = bindR (put_at i c d) (put_all ps)"

lemma put_all_length: "put_all ps d = Inr d' \<Longrightarrow> length d' = length d"
  by (induction ps d rule: put_all.induct) (auto simp: put_at_def split: if_splits)

text \<open>A buffer is well formed when its size is one less than its array and not exceeded.\<close>

definition buffer_ok :: "buffer \<Rightarrow> bool" where
  "buffer_ok b \<longleftrightarrow> 0 < length (buf_data b) \<and> buf_size b = length (buf_data b) - 1 \<and> buf_filled b \<le> buf_size b"

lemma list_update_numeral [simp]: "(x # xs)[numeral v := y] = x # xs[pred_numeral v := y]"
  by (simp add: numeral_eq_Suc)

lemma new_buffer_simps [simp]:
  "buf_index (new_buffer len idx) = idx" "buf_is_free (new_buffer len idx)" "buf_filled (new_buffer len idx) = 0"
  "buf_size (new_buffer len idx) = len - 1" "buf_data (new_buffer len idx) = replicate len 0"
  by (simp_all add: new_buffer_def)

lemma buffer_clear_simps [simp]:
  "buf_index (buffer_clear b) = buf_index b" "buf_is_free (buffer_clear b)" "buf_filled (buffer_clear b) = 0"
  "buf_size (buffer_clear b) = buf_size b" "buf_data (buffer_clear b) = buf_data b"
  "buf_is_provided (buffer_clear b) = buf_is_provided b"
  by (simp_all add: buffer_clear_def)

lemma new_buffer_ok: "0 < len \<Longrightarrow> buffer_ok (new_buffer len idx)"
  by (simp add: buffer_ok_def new_buffer_def)

lemma set_filled_ok: "buffer_ok b \<Longrightarrow> set_filled b f = Inr b' \<Longrightarrow> buffer_ok b' \<and> buf_filled b' = f"
  by (auto simp: buffer_ok_def set_filled_def split: if_splits)

lemma buffer_clear_ok: "buffer_ok b \<Longrightarrow> buffer_ok (buffer_clear b)"
  by (simp add: buffer_ok_def buffer_clear_def)

end
