(* ===== verification/Rlp.thy ===== *)
theory Rlp
  imports Buffer
begin

text \<open>
  The wire format of the Roshanfer protocol as src/state.cc reads and writes it: the 26-byte header
  (length, type, direction flag, requested and granted credits, the 64-bit request id, the priority, a
  64-bit timestamp and a 32-bit round-trip or queueing time, all big endian) followed by the service
  name. Bytes are 8-bit words; the reads through a plain \<open>char\<close> go through \<open>sint\<close> because char is
  signed on the platforms the code is built for.
\<close>

section \<open>Big-endian fields\<close>

text \<open>\<open>(char)(unsigned char)(x >> 8 * i)\<close> for the \<open>n\<close> low bytes of \<open>x\<close>, the highest first.\<close>

definition be_bytes :: "nat \<Rightarrow> int \<Rightarrow> byte list" where
  "be_bytes n x = map (\<lambda>i. of_int (x div 2 ^ (8 * i))) (rev [0..<n])"

text \<open>\<open>b0 << 8 * (n - 1) | ... | bn\<close>\<close>

definition be_word :: "byte list \<Rightarrow> 'a::len word" where
  "be_word bs = foldl (\<lambda>w b. push_bit 8 w OR ucast b) 0 bs"

definition read_int64 :: "byte list \<Rightarrow> nat \<Rightarrow> int" where
  "read_int64 d off = sint (be_word (take 8 (drop off d)) :: 64 word)"

definition read_int32 :: "byte list \<Rightarrow> nat \<Rightarrow> int" where
  "read_int32 d off = sint (be_word (take 4 (drop off d)) :: 32 word)"

text \<open>A value read from a plain char: sign extended.\<close>

definition char_at :: "byte list \<Rightarrow> nat \<Rightarrow> int" where
  "char_at d i = sint (d ! i)"

section \<open>Reading\<close>

definition rlp_header :: nat where
  "rlp_header = 26"

text \<open>
  The view of the service name. The declared length is converted from a plain char, so a byte of 128 or
  more becomes a huge size_t; the view would then leave the buffer.
\<close>

definition extract_service_from_rlp_req :: "byte list \<Rightarrow> string result" where
  "extract_service_from_rlp_req d =
     (if char_at d 1 \<noteq> 1 \<and> char_at d 1 \<noteq> 2 then Inl (Fatal ''Invalid message type'')
      else
        let len = size_t_of (char_at d 0) in
        if len < rlp_header then Inl (Fatal ''Invalid message length'')
        else if len \<le> length d then Inr (chars (take (len - rlp_header) (drop rlp_header d)))
        else Inl (Undefined ''string_view past the buffer''))"

datatype rlp_action = To_Server | To_Ingress_Credit | To_Client_Credit

definition dispatch_rlp :: "bool \<Rightarrow> buffer \<Rightarrow> rlp_action result" where
  "dispatch_rlp ingress_node buf =
     (let n = buf_filled buf; d = buf_data buf in
      if n < 3 then Inl (Fatal ''RLP UDP payload too short'')
      else
        let declared = unat (d ! 0) in
        if declared < rlp_header \<or> declared > n then Inl (Fatal ''Invalid RLP length byte'')
        else if d ! 1 = 2 then Inr To_Server
        else if d ! 1 = 1 \<and> d ! 2 = 0 then Inr To_Server
        else if d ! 1 = 1 \<and> d ! 2 = 1 then Inr (if ingress_node then To_Ingress_Credit else To_Client_Credit)
        else Inl (Fatal ''Unknown RLP UDP message''))"

text \<open>What protocol_server reads from a Credit Request: service, id, priority and round-trip time.\<close>

definition parse_credit_request :: "byte list \<Rightarrow> (string \<times> int \<times> int \<times> int) result" where
  "parse_credit_request d =
     (if char_at d 2 \<noteq> 0 then Inl (Fatal ''ProtocolServer only handles Credit Requests'')
      else if char_at d 3 \<noteq> 1 then Inl (Fatal ''Batching is not allowed'')
      else bindR (extract_service_from_rlp_req d) (\<lambda>service.
             let rtt = read_int32 d 22 in
             if rtt \<ge> 0 then Inr (service, read_int64 d 5, char_at d 13, rtt)
             else Inl (Fatal ''Invalid RTT'')))"

text \<open>What credit_post_process reads from a Credit Grant: id, timestamp, queueing time, credits.\<close>

definition parse_credit_grant :: "byte list \<Rightarrow> int \<times> int \<times> int \<times> int \<times> int" where
  "parse_credit_grant d = (read_int64 d 5, read_int64 d 14, read_int32 d 22, char_at d 3, char_at d 4)"

section \<open>Writing\<close>

text \<open>
  The stores of send_credit_request into a fresh UDP buffer, then the copy of the service name.
  Position 4 keeps what the buffer held.
\<close>

definition request_header :: "nat \<Rightarrow> int \<Rightarrow> int \<Rightarrow> int \<Rightarrow> int \<Rightarrow> int \<Rightarrow> (nat \<times> byte) list" where
  "request_header len num_credits rid priority now_us last_rtt =
     [(0, of_nat len), (1, 1), (2, 0), (3, of_int num_credits)] @
     zip [5..<13] (be_bytes 8 rid) @ [(13, of_int priority)] @
     zip [14..<22] (be_bytes 8 now_us) @ zip [22..<26] (be_bytes 4 last_rtt)"

definition write_credit_request ::
  "buffer \<Rightarrow> string \<Rightarrow> int \<Rightarrow> int \<Rightarrow> int \<Rightarrow> int \<Rightarrow> int \<Rightarrow> buffer result" where
  "write_credit_request buf service num_credits rid priority now_us last_rtt =
     (let len = rlp_header + length service in
      if length (buf_data buf) < len then Inl (Fatal ''Buffer size is too small'')
      else bindR (put_all (request_header len num_credits rid priority now_us last_rtt) (buf_data buf)) (\<lambda>d.
             set_filled (buf\<lparr>buf_data := write_at d rlp_header (bytes service)\<rparr>) len))"

definition write_credit_grant :: "int \<Rightarrow> buffer \<Rightarrow> buffer \<Rightarrow> buffer result" where
  "write_credit_grant granted_credits req grant =
     (if length (buf_data grant) - buf_filled grant < buf_filled req then Inl (Fatal ''Buffer overflow'')
      else bindR (put_all [(2, 1), (4, of_int granted_credits)]
                   (write_at (buf_data grant) 0 (take (buf_filled req) (buf_data req)))) (\<lambda>d.
             set_filled (grant\<lparr>buf_data := d\<rparr>) (buf_filled req)))"

definition write_failed_dn_response :: "buffer \<Rightarrow> buffer \<Rightarrow> buffer result" where
  "write_failed_dn_response req resp =
     bindR (write_credit_grant 1 req resp) (\<lambda>resp'. Inr (prepare_sendmsg resp' (buf_addr req)))"

text \<open>The stamp of check_credit_transmission on a grant that leaves the credit queue.\<close>

definition stamp_queuing_time :: "int \<Rightarrow> buffer \<Rightarrow> buffer result" where
  "stamp_queuing_time now_ts buf =
     bindR (put_all (zip [22..<26] (be_bytes 4 (to_int32 (now_ts - enter_queue_ts buf)))) (buf_data buf)) (\<lambda>d.
       Inr (buf\<lparr>buf_data := d\<rparr>))"

text \<open>prepare_credit_return, given the buffer that get_udp_buffer handed out.\<close>

definition write_credit_return :: "buffer \<Rightarrow> buffer \<Rightarrow> buffer result" where
  "write_credit_return credit_grant credit_ret =
     (if buf_size credit_ret - buf_filled credit_ret < buf_filled credit_grant then Inl (Fatal ''buffer overflow'')
      else bindR (set_filled (credit_ret\<lparr>buf_data := write_at (buf_data credit_ret) 0
                    (take (buf_filled credit_grant) (buf_data credit_grant))\<rparr>) (buf_filled credit_grant)) (\<lambda>b.
           bindR (put_at 1 2 (buf_data b)) (\<lambda>d.
             Inr (prepare_sendmsg (b\<lparr>buf_data := d\<rparr>) (buf_addr credit_grant)))))"

section \<open>Big-endian fields read back\<close>

lemma shift_or_add: "push_bit 8 w OR ucast (b :: byte) = push_bit 8 w + (ucast b :: 'a::len word)"
proof -
  have "push_bit 8 w + (ucast b :: 'a word) = push_bit 8 w OR ucast b"
    by (rule disjunctive_add) (auto simp: bit_simps dest: bit_imp_le_length)
  then show ?thesis by simp
qed

lemma be_word_val: "be_word bs = (of_int (foldl (\<lambda>a b. a * 256 + uint b) 0 bs) :: 'a::len word)"
proof -
  have "foldl (\<lambda>w b. push_bit 8 w OR ucast b) (of_int a) bs = (of_int (foldl (\<lambda>a b. a * 256 + uint b) a bs) :: 'a word)" for a
  proof (induction bs arbitrary: a)
    case (Cons b bs)
    have "push_bit 8 (of_int a) OR ucast b = (of_int (a * 256 + uint b) :: 'a word)"
      unfolding shift_or_add by (simp add: push_bit_eq_mult)
    then show ?case using Cons.IH [of "a * 256 + uint b"] by simp
  qed simp
  from this [of 0] show ?thesis by (simp add: be_word_def)
qed

lemma be_bytes_Suc: "be_bytes (Suc n) x = of_int (x div 2 ^ (8 * n)) # be_bytes n x"
  by (simp add: be_bytes_def)

lemma length_be_bytes [simp]: "length (be_bytes n x) = n"
  by (simp add: be_bytes_def)

lemma be_bytes_val: "foldl (\<lambda>a b. a * 256 + uint b) a (be_bytes n x) = a * 2 ^ (8 * n) + x mod 2 ^ (8 * n)"
proof (induction n arbitrary: a)
  case 0
  then show ?case by (simp add: be_bytes_def)
next
  case (Suc n)
  let ?m = "2 ^ (8 * n) :: int"
  have "uint (of_int (x div ?m) :: byte) = (x div ?m) mod 256" by (simp add: uint_word_of_int)
  moreover have "x mod (?m * 256) = ?m * (x div ?m mod 256) + x mod ?m"
    by (rule zmod_zmult2_eq) simp
  moreover have "2 ^ (8 * Suc n) = ?m * 256" by (simp add: power_add)
  ultimately show ?case unfolding be_bytes_Suc foldl_Cons Suc.IH by (simp add: algebra_simps)
qed

lemma be_word_be_bytes: "8 * n = LENGTH('a) \<Longrightarrow> be_word (be_bytes n x) = (of_int x :: 'a::len word)"
proof -
  assume n: "8 * n = LENGTH('a)"
  have "of_int (x mod 2 ^ LENGTH('a)) = (of_int x :: 'a word)"
    by (metis of_int_take_bit take_bit_eq_mod word_of_int_eq_iff take_bit_take_bit min.idem word_of_int_uint uint_word_of_int)
  then show ?thesis unfolding be_word_val be_bytes_val using n by simp
qed


section \<open>The messages in parts\<close>

lemma put_all_append: "put_all (ps @ qs) d = bindR (put_all ps d) (put_all qs)"
  by (induction ps d rule: put_all.induct) (auto simp: bindR_def split: sum.splits)

lemma put_all_zip:
  assumes "length xs = a" "length ys = length bs"
  shows "put_all (zip [a..<a + length bs] bs) (xs @ ys @ zs) = Inr (xs @ bs @ zs)"
  using assms
proof (induction bs arbitrary: xs a ys)
  case (Cons b bs)
  from Cons.prems obtain y ys' where ys: "ys = y # ys'" "length ys' = length bs" by (cases ys) auto
  have "[a..<a + length (b # bs)] = a # [Suc a..<Suc a + length bs]"
    by (simp add: upt_conv_Cons del: upt_Suc)
  then have "put_all (zip [a..<a + length (b # bs)] (b # bs)) (xs @ ys @ zs) =
      put_all (zip [Suc a..<Suc a + length bs] bs) ((xs @ [b]) @ ys' @ zs)"
    using Cons.prems(1) ys by (simp add: list_update_append del: upt_Suc)
  also have "\<dots> = Inr ((xs @ [b]) @ bs @ zs)"
    using Cons.prems(1) ys(2) by (intro Cons.IH) simp_all
  finally show ?case by simp
qed simp

text \<open>The header of a request as a list: every byte of the first 26 but the fifth is written.\<close>

definition request_bytes :: "byte \<Rightarrow> nat \<Rightarrow> int \<Rightarrow> int \<Rightarrow> int \<Rightarrow> int \<Rightarrow> int \<Rightarrow> byte list" where
  "request_bytes b4 len nc rid priority now_us last_rtt =
     [of_nat len, 1, 0, of_int nc, b4] @ be_bytes 8 rid @ [of_int priority] @ be_bytes 8 now_us @ be_bytes 4 last_rtt"

lemma length_request_bytes [simp]: "length (request_bytes b4 len nc rid pr now rtt) = 26"
  by (simp add: request_bytes_def)

lemma split_header:
  assumes "26 \<le> length d"
  obtains x0 x1 x2 x3 y x13 z w rest where
    "d = [x0, x1, x2, x3, d ! 4] @ y @ [x13] @ z @ w @ rest" "length y = 8" "length z = 8" "length w = 4" "rest = drop 26 d"
proof -
  have 5: "take 5 d = [d ! 0, d ! 1, d ! 2, d ! 3, d ! 4]"
    using assms by (intro nth_equalityI) (auto simp: less_Suc_eq numeral_eq_Suc)
  have "d = take 5 d @ take 8 (drop 5 d) @ [d ! 13] @ take 8 (drop 14 d) @ take 4 (drop 22 d) @ drop 26 d"
  proof -
    have "take 4 (drop 22 d) @ drop 26 d = drop 22 d" "take 8 (drop 14 d) @ drop 22 d = drop 14 d"
      "take 8 (drop 5 d) @ drop 13 d = drop 5 d"
      using append_take_drop_id [of 4 "drop 22 d"] append_take_drop_id [of 8 "drop 14 d"]
        append_take_drop_id [of 8 "drop 5 d"] by simp_all
    moreover have "d ! 13 # drop 14 d = drop 13 d" using assms by (simp add: Cons_nth_drop_Suc [symmetric])
    ultimately show ?thesis by (simp only: append_take_drop_id append.simps)
  qed
  then show thesis using that [of "d ! 0" "d ! 1" "d ! 2" "d ! 3" "take 8 (drop 5 d)" "d ! 13" "take 8 (drop 14 d)" "take 4 (drop 22 d)" "drop 26 d"]
      assms 5 by simp
qed

lemma put_request_header:
  assumes "26 \<le> length d"
  shows "put_all (request_header len nc rid pr now rtt) d = Inr (request_bytes (d ! 4) len nc rid pr now rtt @ drop 26 d)"
proof -
  from split_header [OF assms] obtain x0 x1 x2 x3 y x13 z w rest where
    d: "d = [x0, x1, x2, x3, d ! 4] @ y @ [x13] @ z @ w @ rest" and l: "length y = 8" "length z = 8" "length w = 4"
    and rest: "rest = drop 26 d" .
  define b4 where "b4 = d ! 4"
  have first: "put_all [(0, of_nat len), (1, 1), (2, 0), (3, of_int nc)] ([x0, x1, x2, x3, b4] @ t) =
      Inr ([of_nat len, 1, 0, of_int nc, b4] @ t)" for t
    by (simp add: numeral_eq_Suc)
  have pad: "put_all [(13, v)] (h @ u @ [x13] @ t) = Inr (h @ u @ [v] @ t)" if "length h = 5" "length u = 8" for h u t v
    using that by (simp add: list_update_append)
  let ?h = "[of_nat len, 1, 0, of_int nc, b4] :: byte list"
  have y: "put_all (zip [5..<13] (be_bytes 8 rid)) (?h @ y @ t) = Inr (?h @ be_bytes 8 rid @ t)" for t
    using put_all_zip [of ?h 5 y "be_bytes 8 rid" t] l by simp
  have z: "put_all (zip [14..<22] (be_bytes 8 now)) ((?h @ be_bytes 8 rid @ [of_int pr]) @ z @ t) =
      Inr ((?h @ be_bytes 8 rid @ [of_int pr]) @ be_bytes 8 now @ t)" for t
    using put_all_zip [of "?h @ be_bytes 8 rid @ [of_int pr]" 14 z "be_bytes 8 now" t] l by simp
  have w: "put_all (zip [22..<26] (be_bytes 4 rtt)) ((?h @ be_bytes 8 rid @ [of_int pr] @ be_bytes 8 now) @ w @ t) =
      Inr ((?h @ be_bytes 8 rid @ [of_int pr] @ be_bytes 8 now) @ be_bytes 4 rtt @ t)" for t
    using put_all_zip [of "?h @ be_bytes 8 rid @ [of_int pr] @ be_bytes 8 now" 22 w "be_bytes 4 rtt" t] l by simp
  have "put_all (request_header len nc rid pr now rtt) ([x0, x1, x2, x3, b4] @ y @ [x13] @ z @ w @ rest) =
      Inr (request_bytes b4 len nc rid pr now rtt @ rest)"
    unfolding request_header_def put_all_append first bindR_Inr y
    using pad [of ?h "be_bytes 8 rid" "of_int pr"] z w by (simp add: request_bytes_def)
  then show ?thesis using d rest by (simp add: b4_def)
qed

end
