(* ===== verification/Rlp_Correct.thy ===== *)
theory Rlp_Correct
  imports Rlp
begin

text \<open>
  Round trips of the wire format: what one sidecar writes into a Credit Request, a Credit Grant and a
  Credit Return, its peer classifies and reads back, for service names up to 101 bytes; beyond that
  the writer still accepts the name and the reader leaves the buffer.
\<close>

definition msg_bytes :: "byte \<Rightarrow> byte \<Rightarrow> byte \<Rightarrow> byte \<Rightarrow> byte \<Rightarrow> int \<Rightarrow> byte \<Rightarrow> int \<Rightarrow> int \<Rightarrow> byte list \<Rightarrow> byte list" where
  "msg_bytes b0 b1 b2 b3 b4 rid b13 now q t =
     [b0, b1, b2, b3, b4] @ be_bytes 8 rid @ [b13] @ be_bytes 8 now @ be_bytes 4 q @ t"

lemma length_msg_bytes [simp]: "length (msg_bytes b0 b1 b2 b3 b4 rid b13 now q t) = 26 + length t"
  by (simp add: msg_bytes_def)

lemma msg_bytes_nth [simp]:
  "msg_bytes b0 b1 b2 b3 b4 rid b13 now q t ! 0 = b0" "msg_bytes b0 b1 b2 b3 b4 rid b13 now q t ! Suc 0 = b1"
  "msg_bytes b0 b1 b2 b3 b4 rid b13 now q t ! 2 = b2" "msg_bytes b0 b1 b2 b3 b4 rid b13 now q t ! 3 = b3"
  "msg_bytes b0 b1 b2 b3 b4 rid b13 now q t ! 4 = b4" "msg_bytes b0 b1 b2 b3 b4 rid b13 now q t ! 13 = b13"
  by (simp_all add: msg_bytes_def nth_append)

lemma msg_bytes_ne [simp]: "msg_bytes b0 b1 b2 b3 b4 rid b13 now q t \<noteq> []"
  by (simp add: msg_bytes_def)

lemma msg_bytes_upd [simp]:
  "(msg_bytes b0 b1 b2 b3 b4 rid b13 now q t)[Suc 0 := x] = msg_bytes b0 x b2 b3 b4 rid b13 now q t"
  "(msg_bytes b0 b1 b2 b3 b4 rid b13 now q t)[2 := x] = msg_bytes b0 b1 x b3 b4 rid b13 now q t"
  "(msg_bytes b0 b1 b2 b3 b4 rid b13 now q t)[4 := x] = msg_bytes b0 b1 b2 b3 x rid b13 now q t"
  by (simp_all add: msg_bytes_def numeral_eq_Suc)

lemma msg_bytes_append: "msg_bytes b0 b1 b2 b3 b4 rid b13 now q (s @ t) = msg_bytes b0 b1 b2 b3 b4 rid b13 now q s @ t"
  by (simp add: msg_bytes_def)

lemma msg_bytes_fields:
  "take 8 (drop 5 (msg_bytes b0 b1 b2 b3 b4 rid b13 now q t)) = be_bytes 8 rid"
  "take 8 (drop 14 (msg_bytes b0 b1 b2 b3 b4 rid b13 now q t)) = be_bytes 8 now"
  "take 4 (drop 22 (msg_bytes b0 b1 b2 b3 b4 rid b13 now q t)) = be_bytes 4 q"
  "drop 26 (msg_bytes b0 b1 b2 b3 b4 rid b13 now q t) = t"
  by (simp_all add: msg_bytes_def)

definition int64 :: "int \<Rightarrow> bool" where
  "int64 x \<longleftrightarrow> - (2 ^ 63) \<le> x \<and> x < 2 ^ 63"

lemma int64_bounds: "int64 x \<Longrightarrow> - 9223372036854775808 \<le> x \<and> x < 9223372036854775808"
  by (simp add: int64_def)

definition int32 :: "int \<Rightarrow> bool" where
  "int32 x \<longleftrightarrow> - (2 ^ 31) \<le> x \<and> x < 2 ^ 31"

lemma read_int64_msg:
  "int64 rid \<Longrightarrow> read_int64 (msg_bytes b0 b1 b2 b3 b4 rid b13 now q t) 5 = rid"
  "int64 now \<Longrightarrow> read_int64 (msg_bytes b0 b1 b2 b3 b4 rid b13 now q t) 14 = now"
  using sint_of_int_id [where 'a = 64, of rid] sint_of_int_id [where 'a = 64, of now]
  by (simp_all add: read_int64_def msg_bytes_fields be_word_be_bytes int64_def)

lemma read_int32_msg:
  "int32 q \<Longrightarrow> read_int32 (msg_bytes b0 b1 b2 b3 b4 rid b13 now q t) 22 = q"
  using sint_of_int_id [where 'a = 32, of q]
  by (simp add: read_int32_def msg_bytes_fields be_word_be_bytes int32_def)

lemma sint_byte_of_int: "- 128 \<le> x \<Longrightarrow> x < 128 \<Longrightarrow> sint (of_int x :: byte) = x"
  using sint_of_int_id [where 'a = 8, of x] by simp

lemma sint_byte_of_nat: "n < 128 \<Longrightarrow> sint (of_nat n :: byte) = int n"
  using sint_byte_of_int [of "int n"] by simp

lemma unat_byte_of_nat: "n < 256 \<Longrightarrow> unat (of_nat n :: byte) = n"
  by (simp add: unat_of_nat)

lemma sint_byte_of_nat_big: "128 \<le> n \<Longrightarrow> n < 256 \<Longrightarrow> sint (of_nat n :: byte) = int n - 256"
proof -
  assume n: "128 \<le> n" "n < 256"
  have "(256 :: byte) = 0" by simp
  then have "(of_int (int n - 256) :: byte) = of_nat n" unfolding of_int_diff of_int_of_nat_eq of_int_numeral by simp
  moreover have "sint (of_int (int n - 256) :: byte) = int n - 256"
    by (rule sint_byte_of_int) (use n in auto)
  ultimately show ?thesis by metis
qed

lemma extract_msg:
  assumes "b1 = 1 \<or> b1 = 2" "b0 = of_nat (26 + length s)" "26 + length s < 128"
  shows "extract_service_from_rlp_req (msg_bytes b0 b1 b2 b3 b4 rid b13 now q (bytes s @ t)) = Inr s"
proof -
  have "sint b0 = int (26 + length s)" using sint_byte_of_nat [OF assms(3)] assms(2) by simp
  then have "size_t_of (char_at (msg_bytes b0 b1 b2 b3 b4 rid b13 now q (bytes s @ t)) 0) = 26 + length s"
    using assms(3) by (simp add: char_at_def)
  moreover have "sint b1 = 1 \<or> sint b1 = 2" using assms(1) by auto
  ultimately show ?thesis
    using assms(3) by (simp add: extract_service_from_rlp_req_def Let_def rlp_header_def msg_bytes_fields char_at_def)
qed

section \<open>Writing in terms of the message\<close>

lemma write_credit_request_msg:
  assumes buf: "buffer_ok buf" "length (buf_data buf) = 256" and len: "length s \<le> 229"
  shows "write_credit_request buf s nc rid pr now rtt =
    Inr (buf\<lparr>buf_data := msg_bytes (of_nat (26 + length s)) 1 0 (of_int nc) (buf_data buf ! 4) rid (of_int pr) now rtt
               (bytes s @ drop (26 + length s) (buf_data buf)), buf_filled := 26 + length s\<rparr>)"
proof -
  let ?d = "buf_data buf" and ?len = "26 + length s"
  have "write_at (request_bytes (?d ! 4) ?len nc rid pr now rtt @ drop 26 ?d) 26 (bytes s) =
      request_bytes (?d ! 4) ?len nc rid pr now rtt @ bytes s @ drop ?len ?d"
    using buf(2) len by (simp add: write_at_def add.commute)
  moreover have "put_all (request_header ?len nc rid pr now rtt) ?d =
      Inr (request_bytes (?d ! 4) ?len nc rid pr now rtt @ drop 26 ?d)"
    using buf(2) by (intro put_request_header) simp
  moreover have "buf_size buf = 255" using buf by (simp add: buffer_ok_def)
  ultimately show ?thesis
    using buf(2) len
    by (simp add: write_credit_request_def Let_def rlp_header_def set_filled_def request_bytes_def msg_bytes_def)
qed

definition is_msg :: "buffer \<Rightarrow> byte \<Rightarrow> byte \<Rightarrow> byte \<Rightarrow> byte \<Rightarrow> int \<Rightarrow> byte \<Rightarrow> int \<Rightarrow> int \<Rightarrow> string \<Rightarrow> bool" where
  "is_msg b b1 b2 b3 b4 rid b13 now q s \<longleftrightarrow>
     (\<exists>t. buf_data b = msg_bytes (of_nat (26 + length s)) b1 b2 b3 b4 rid b13 now q (bytes s @ t)) \<and>
     buf_filled b = 26 + length s \<and> length (buf_data b) = 256 \<and> length s \<le> 229"

lemma is_msg_dispatch:
  assumes "is_msg b b1 b2 b3 b4 rid b13 now q s"
  shows "dispatch_rlp ing b =
    (if b1 = 2 \<or> b1 = 1 \<and> b2 = 0 then Inr To_Server
     else if b1 = 1 \<and> b2 = 1 then Inr (if ing then To_Ingress_Credit else To_Client_Credit)
     else Inl (Fatal ''Unknown RLP UDP message''))"
  using assms unat_byte_of_nat [of "26 + length s"]
  by (auto simp: dispatch_rlp_def is_msg_def Let_def rlp_header_def)

lemma is_msg_take:
  assumes "is_msg b b1 b2 b3 b4 rid b13 now q s"
  shows "take (buf_filled b) (buf_data b) = msg_bytes (of_nat (26 + length s)) b1 b2 b3 b4 rid b13 now q (bytes s)"
  using assms by (auto simp: is_msg_def msg_bytes_append)

lemma write_credit_grant_msg:
  assumes "is_msg req b1 b2 b3 b4 rid b13 now q s" "buffer_ok g" "length (buf_data g) = 256" "buf_filled g = 0"
  shows "\<exists>g'. write_credit_grant c req g = Inr g' \<and> is_msg g' b1 1 b3 (of_int c) rid b13 now q s \<and>
    buffer_ok g' \<and> buf_addr g' = buf_addr g \<and> enter_queue_ts g' = enter_queue_ts g"
proof -
  have len: "buf_filled req = 26 + length s" "length s \<le> 229" using assms(1) by (simp_all add: is_msg_def)
  let ?d = "msg_bytes (of_nat (26 + length s)) b1 b2 b3 b4 rid b13 now q (bytes s @ drop (26 + length s) (buf_data g))"
  have "write_at (buf_data g) 0 (take (buf_filled req) (buf_data req)) = ?d"
    using is_msg_take [OF assms(1)] by (simp add: write_at_def msg_bytes_append)
  moreover have "put_all [(2, 1), (4, of_int c)] ?d =
      Inr (msg_bytes (of_nat (26 + length s)) b1 1 b3 (of_int c) rid b13 now q (bytes s @ drop (26 + length s) (buf_data g)))"
    by simp
  ultimately show ?thesis
    using assms(2-4) len by (auto simp: write_credit_grant_def set_filled_def buffer_ok_def is_msg_def)
qed

lemma stamp_msg:
  assumes "is_msg b b1 b2 b3 b4 rid b13 now q s"
  shows "\<exists>b'. stamp_queuing_time ts b = Inr b' \<and> is_msg b' b1 b2 b3 b4 rid b13 now (to_int32 (ts - enter_queue_ts b)) s \<and>
    buf_addr b' = buf_addr b"
proof -
  from assms obtain t where t: "buf_data b = msg_bytes (of_nat (26 + length s)) b1 b2 b3 b4 rid b13 now q (bytes s @ t)"
    by (auto simp: is_msg_def)
  let ?x = "be_bytes 4 (to_int32 (ts - enter_queue_ts b))"
  let ?h = "[of_nat (26 + length s), b1, b2, b3, b4] @ be_bytes 8 rid @ [b13] @ be_bytes 8 now"
  have "put_all (zip [22..<26] ?x) (?h @ be_bytes 4 q @ bytes s @ t) = Inr (?h @ ?x @ bytes s @ t)"
    using put_all_zip [of ?h 22 "be_bytes 4 q" ?x "bytes s @ t"] by simp
  then show ?thesis
    using t assms by (auto simp: stamp_queuing_time_def msg_bytes_def is_msg_def)
qed

lemma write_credit_return_msg:
  assumes "is_msg g b1 b2 b3 b4 rid b13 now q s" "buffer_ok r" "length (buf_data r) = 256" "buf_filled r = 0"
  shows "\<exists>r'. write_credit_return g r = Inr r' \<and> is_msg r' 2 b2 b3 b4 rid b13 now q s \<and> buf_addr r' = buf_addr g"
proof -
  have len: "buf_filled g = 26 + length s" "length s \<le> 229" using assms(1) by (simp_all add: is_msg_def)
  have size: "buf_size r = 255" using assms(2,3) by (simp add: buffer_ok_def)
  let ?d = "msg_bytes (of_nat (26 + length s)) b1 b2 b3 b4 rid b13 now q (bytes s @ drop (26 + length s) (buf_data r))"
  have "write_at (buf_data r) 0 (take (buf_filled g) (buf_data g)) = ?d"
    using is_msg_take [OF assms(1)] by (simp add: write_at_def msg_bytes_append)
  then show ?thesis
    using assms(3,4) len size
    by (auto simp: write_credit_return_def set_filled_def is_msg_def prepare_sendmsg_def)
qed

section \<open>Properties\<close>

text \<open>
  C25: a Credit Request for a service name of at most 101 bytes, written into any 256-byte UDP buffer,
  is routed to the server side of the peer, which reads back the same service, request id, priority
  and round-trip time.
\<close>

theorem credit_request_roundtrip:
  assumes "buffer_ok buf" "length (buf_data buf) = 256" "length s \<le> 101"
    and "int64 rid" "0 \<le> pr" "pr < 128" "0 \<le> rtt" "rtt < 2 ^ 31"
  shows "\<exists>b. write_credit_request buf s 1 rid pr now rtt = Inr b \<and>
    dispatch_rlp ing b = Inr To_Server \<and> parse_credit_request (buf_data b) = Inr (s, rid, pr, rtt)"
proof -
  let ?t = "drop (26 + length s) (buf_data buf)"
  let ?d = "msg_bytes (of_nat (26 + length s)) 1 0 1 (buf_data buf ! 4) rid (of_int pr) now rtt (bytes s @ ?t)"
  let ?b = "buf\<lparr>buf_data := ?d, buf_filled := 26 + length s\<rparr>"
  have w: "write_credit_request buf s 1 rid pr now rtt = Inr ?b"
    using write_credit_request_msg [OF assms(1,2), of s 1] assms(3) by simp
  have m: "is_msg ?b 1 0 1 (buf_data buf ! 4) rid (of_int pr) now rtt s"
    using assms(2,3) by (auto simp: is_msg_def)
  have "extract_service_from_rlp_req ?d = Inr s" using assms(3) by (intro extract_msg) auto
  moreover have "read_int64 ?d 5 = rid" by (rule read_int64_msg(1) [OF assms(4)])
  moreover have "read_int32 ?d 22 = rtt" using assms(7,8) by (intro read_int32_msg) (simp add: int32_def)
  moreover have "char_at ?d 2 = 0" "char_at ?d 3 = 1" "char_at ?d 13 = pr"
    using assms(5,6) sint_byte_of_int [of pr] by (simp_all add: char_at_def)
  ultimately have "parse_credit_request ?d = Inr (s, rid, pr, rtt)"
    using assms(7) by (simp add: parse_credit_request_def)
  then show ?thesis using w is_msg_dispatch [OF m, of ing] by simp
qed

theorem credit_request_roundtrip_witness:
  "\<exists>b. write_credit_request (new_buffer 256 3) ''cart'' 1 4294967298 2 1000 250 = Inr b \<and>
     dispatch_rlp False b = Inr To_Server \<and> parse_credit_request (buf_data b) = Inr (''cart'', 4294967298, 2, 250)"
  using credit_request_roundtrip [OF new_buffer_ok, of 256 3 "''cart''" 4294967298 2 250 1000 False]
  by (simp add: new_buffer_def int64_def)

text \<open>
  C26: the Credit Grant that answers a request (copied into a fresh buffer, then stamped with its
  queueing time) goes back to the sender of the request, is routed to the credit handler of that
  node, and carries the id, the timestamp and the service of the request, the queueing time, and one
  requested and one granted credit.
\<close>

theorem credit_grant_roundtrip:
  assumes "buffer_ok buf" "length (buf_data buf) = 256" "length s \<le> 101" "int64 rid" "int64 now" "int32 (ts - enter)"
    and "write_credit_request buf s 1 rid pr now rtt = Inr req"
    and "buffer_ok g" "length (buf_data g) = 256" "buf_filled g = 0"
  shows "\<exists>g1 g2. write_failed_dn_response req g = Inr g1 \<and>
    stamp_queuing_time ts (g1\<lparr>enter_queue_ts := enter\<rparr>) = Inr g2 \<and>
    buf_addr g2 = buf_addr req \<and>
    dispatch_rlp ing g2 = Inr (if ing then To_Ingress_Credit else To_Client_Credit) \<and>
    extract_service_from_rlp_req (buf_data g2) = Inr s \<and>
    parse_credit_grant (buf_data g2) = (rid, now, ts - enter, 1, 1)"
proof -
  have "is_msg req 1 0 1 (buf_data buf ! 4) rid (of_int pr) now rtt s"
    using write_credit_request_msg [OF assms(1,2), of s 1 rid pr now rtt] assms(2,3,7) by (auto simp: is_msg_def)
  from write_credit_grant_msg [OF this assms(8-10), of 1] obtain g' where
    g': "write_credit_grant 1 req g = Inr g'" "is_msg g' 1 1 1 1 rid (of_int pr) now rtt s" by auto
  let ?g1 = "prepare_sendmsg g' (buf_addr req)"
  have g1: "write_failed_dn_response req g = Inr ?g1" using g'(1) by (simp add: write_failed_dn_response_def)
  let ?ge = "?g1\<lparr>enter_queue_ts := enter\<rparr>"
  have "is_msg ?ge 1 1 1 1 rid (of_int pr) now rtt s" using g'(2) by (simp add: is_msg_def prepare_sendmsg_def)
  from stamp_msg [OF this, of ts] obtain g2 where
    g2: "stamp_queuing_time ts ?ge = Inr g2" "is_msg g2 1 1 1 1 rid (of_int pr) now (to_int32 (ts - enter)) s"
    "buf_addr g2 = buf_addr req" by (auto simp: prepare_sendmsg_def)
  have q: "to_int32 (ts - enter) = ts - enter"
    using assms(6) sint_of_int_id [where 'a = 32, of "ts - enter"] by (simp add: to_int32_def int32_def)
  from g2(2) obtain t where
    d: "buf_data g2 = msg_bytes (of_nat (26 + length s)) 1 1 1 1 rid (of_int pr) now (ts - enter) (bytes s @ t)"
    by (auto simp: is_msg_def q)
  have "parse_credit_grant (buf_data g2) = (rid, now, ts - enter, 1, 1)"
    unfolding parse_credit_grant_def d
    using read_int64_msg assms(4,5) read_int32_msg [OF assms(6)] by (simp add: char_at_def)
  moreover have "extract_service_from_rlp_req (buf_data g2) = Inr s"
    unfolding d using assms(3) by (intro extract_msg) auto
  ultimately show ?thesis
    using g1 g2(1,3) is_msg_dispatch [OF g2(2), of ing] by auto
qed

theorem credit_grant_roundtrip_witness:
  "\<exists>req g1 g2. write_credit_request (new_buffer 256 3) ''cart'' 1 77 2 1000 250 = Inr req \<and>
     write_failed_dn_response req (new_buffer 256 4) = Inr g1 \<and>
     stamp_queuing_time 1500 (g1\<lparr>enter_queue_ts := 1200\<rparr>) = Inr g2 \<and>
     parse_credit_grant (buf_data g2) = (77, 1000, 300, 1, 1)"
proof -
  obtain req where req: "write_credit_request (new_buffer 256 3) ''cart'' 1 77 2 1000 250 = Inr req"
    using write_credit_request_msg [OF new_buffer_ok, of 256 3 "''cart''" 1 77 2 1000 250] by (simp add: new_buffer_def)
  have "buffer_ok (new_buffer 256 i)" "length (buf_data (new_buffer 256 i)) = 256" "buf_filled (new_buffer 256 i) = 0" for i
    using new_buffer_ok [of 256 i] by (simp_all add: new_buffer_def)
  then have "\<exists>g1 g2. write_failed_dn_response req (new_buffer 256 4) = Inr g1 \<and>
      stamp_queuing_time 1500 (g1\<lparr>enter_queue_ts := 1200\<rparr>) = Inr g2 \<and>
      parse_credit_grant (buf_data g2) = (77, 1000, 1500 - 1200, 1, 1)"
    using credit_grant_roundtrip [where ts = 1500 and enter = 1200 and ing = False and g = "new_buffer 256 4", OF _ _ _ _ _ _ req]
    by (simp add: int64_def int32_def) blast
  then show ?thesis using req by auto
qed

text \<open>
  C27: a Credit Return made from a received grant keeps its service, is addressed to the sender of the
  grant, and is routed to the server side there, whatever the node.
\<close>

theorem credit_return_roundtrip:
  assumes "is_msg g 1 1 b3 b4 rid b13 now q s" "length s \<le> 101" "buffer_ok r" "length (buf_data r) = 256" "buf_filled r = 0"
  shows "\<exists>r'. write_credit_return g r = Inr r' \<and> buf_addr r' = buf_addr g \<and>
    dispatch_rlp ing r' = Inr To_Server \<and> extract_service_from_rlp_req (buf_data r') = Inr s"
proof -
  from write_credit_return_msg [OF assms(1,3-5)] obtain r' where
    r': "write_credit_return g r = Inr r'" "is_msg r' 2 1 b3 b4 rid b13 now q s" "buf_addr r' = buf_addr g" by blast
  from r'(2) obtain t where
    d: "buf_data r' = msg_bytes (of_nat (26 + length s)) 2 1 b3 b4 rid b13 now q (bytes s @ t)" by (auto simp: is_msg_def)
  have "extract_service_from_rlp_req (buf_data r') = Inr s"
    unfolding d using assms(2) by (intro extract_msg) auto
  then show ?thesis using r'(1,3) is_msg_dispatch [OF r'(2), of ing] by auto
qed

theorem credit_return_roundtrip_witness:
  "\<exists>r'. write_credit_return
      ((new_buffer 256 1)\<lparr>buf_data := msg_bytes 30 1 1 1 1 77 0 1000 300 (bytes ''cart'' @ replicate 226 0), buf_filled := 30\<rparr>)
      (new_buffer 256 2) = Inr r' \<and> extract_service_from_rlp_req (buf_data r') = Inr ''cart''"
proof -
  have "is_msg ((new_buffer 256 1)\<lparr>buf_data := msg_bytes 30 1 1 1 1 77 0 1000 300 (bytes ''cart'' @ replicate 226 0), buf_filled := 30\<rparr>)
      1 1 1 1 77 0 1000 300 ''cart''"
    by (auto simp: is_msg_def)
  from credit_return_roundtrip [OF this _ new_buffer_ok, of 256 2 False] show ?thesis
    by (auto simp: new_buffer_def)
qed

text \<open>
  C28: for a service name of 102 to 229 bytes send_credit_request builds a datagram that dispatch_rlp_recv
  accepts (it reads the length byte as unsigned), but extract_service_from_rlp_req reads the same byte as
  a signed char and takes a view far outside the buffer.
\<close>

theorem long_service_name_undefined:
  assumes "buffer_ok buf" "length (buf_data buf) = 256" "102 \<le> length s" "length s \<le> 229"
  shows "\<exists>b. write_credit_request buf s 1 rid pr now rtt = Inr b \<and> dispatch_rlp ing b = Inr To_Server \<and>
    extract_service_from_rlp_req (buf_data b) = Inl (Undefined ''string_view past the buffer'')"
proof -
  let ?t = "drop (26 + length s) (buf_data buf)"
  let ?d = "msg_bytes (of_nat (26 + length s)) 1 0 1 (buf_data buf ! 4) rid (of_int pr) now rtt (bytes s @ ?t)"
  let ?b = "buf\<lparr>buf_data := ?d, buf_filled := 26 + length s\<rparr>"
  have w: "write_credit_request buf s 1 rid pr now rtt = Inr ?b"
    using write_credit_request_msg [OF assms(1,2), of s 1] assms(4) by simp
  have m: "is_msg ?b 1 0 1 (buf_data buf ! 4) rid (of_int pr) now rtt s"
    using assms(2,4) by (auto simp: is_msg_def)
  have len: "length ?d = 256" using assms(2,4) by simp
  have c: "char_at ?d 0 = int (26 + length s) - 256"
    using sint_byte_of_nat_big [of "26 + length s"] assms(3,4) by (simp add: char_at_def)
  have "(int (26 + length s) - 256) mod 2 ^ 64 = 2 ^ 64 + (int (26 + length s) - 256)"
  proof -
    have "0 \<le> 2 ^ 64 + (int (26 + length s) - 256)" "2 ^ 64 + (int (26 + length s) - 256) < 2 ^ 64"
      using assms(4) by auto
    then have "(2 ^ 64 + (int (26 + length s) - 256)) mod 2 ^ 64 = 2 ^ 64 + (int (26 + length s) - 256)"
      by (rule mod_pos_pos_trivial)
    then show ?thesis unfolding mod_add_self1 .
  qed
  then have "size_t_of (char_at ?d 0) = 2 ^ 64 - 256 + (26 + length s)"
    unfolding c size_t_of_def by simp
  then have "extract_service_from_rlp_req ?d = Inl (Undefined ''string_view past the buffer'')"
    using len by (simp add: extract_service_from_rlp_req_def Let_def rlp_header_def char_at_def)
  then show ?thesis using w is_msg_dispatch [OF m, of ing] by simp
qed

theorem long_service_name_undefined_witness:
  "\<exists>b. write_credit_request (new_buffer 256 3) (replicate 120 CHR ''x'') 1 77 2 1000 250 = Inr b \<and>
     extract_service_from_rlp_req (buf_data b) = Inl (Undefined ''string_view past the buffer'')"
  using long_service_name_undefined [OF new_buffer_ok, of 256 3 "replicate 120 CHR ''x''" 77 2 1000 250 False]
  by (auto simp: new_buffer_def)

end
