(* ===== verification/Rpc_Message.thy ===== *)
theory Rpc_Message
  imports Rlp
begin

text \<open>
  The request objects of include/rpc_message.h and src/rpc_message.cc. One record holds the members of
  RPCMessage and of its two subclasses; \<open>m_http\<close> says which subclass an object is (HTTP2 is gRPCMessage,
  HTTP1 is HTTPMessage), and the virtual methods branch on it. Memory behind a \<open>const uint8_t *\<close> is the
  list of the bytes that may be read from there. Time points are integers (microseconds); the
  \<open>dfanout_service\<close> pointer refers to the service string of another message and is kept as the
  reference of that message.
\<close>

section \<open>Connection kinds\<close>

datatype conn_type = INGRESS | EGRESS
datatype conn_dir = UPSTREAM | DOWNSTREAM
datatype conn_status = UP | DOWN | TEARDOWN
datatype http_version = HTTP1 | HTTP2

section \<open>Numbers in text\<close>

definition is_space :: "byte \<Rightarrow> bool" where
  "is_space b \<longleftrightarrow> b = 32 \<or> 9 \<le> b \<and> b \<le> 13"

definition is_digit :: "byte \<Rightarrow> bool" where
  "is_digit b \<longleftrightarrow> 48 \<le> b \<and> b \<le> 57"

definition digits_val :: "byte list \<Rightarrow> int" where
  "digits_val ds = foldl (\<lambda>a d. a * 10 + (uint d - 48)) 0 ds"

text \<open>std::stoll: white space, a sign, digits; the rest is ignored.\<close>

definition stoll :: "byte list \<Rightarrow> int result" where
  "stoll s =
     (let s1 = dropWhile is_space s;
          neg = (s1 \<noteq> [] \<and> hd s1 = 45);
          s2 = (if s1 \<noteq> [] \<and> (hd s1 = 45 \<or> hd s1 = 43) then tl s1 else s1);
          ds = takeWhile is_digit s2;
          v = (if neg then - digits_val ds else digits_val ds)
      in if ds = [] then Inl (InvalidArgument ''stoll'')
         else if v < - (2 ^ 63) \<or> 2 ^ 63 \<le> v then Inl OutOfRange
         else Inr v)"

function dec :: "nat \<Rightarrow> byte list" where
  "dec n = (if n < 10 then [of_nat (48 + n)] else dec (n div 10) @ [of_nat (48 + n mod 10)])"
  by pat_completeness auto
termination
  by (relation "measure id") auto

declare dec.simps [simp del]

definition show_int :: "int \<Rightarrow> byte list" where
  "show_int i = (if i < 0 then 45 # dec (nat (- i)) else dec (nat i))"

text \<open>snprintf of a number into an array of \<open>n\<close> bytes that was filled with zeros before.\<close>

definition snprintf_int :: "nat \<Rightarrow> int \<Rightarrow> byte list" where
  "snprintf_int n i = (let s = take (n - 1) (show_int i) in s @ replicate (n - length s) 0)"

section \<open>Header fields and payloads\<close>

definition MAX_HEADER_FIELD_SIZE :: nat where
  "MAX_HEADER_FIELD_SIZE = 60"

definition MAX_PAYLOAD_SIZE :: nat where
  "MAX_PAYLOAD_SIZE = 20000"

definition MAX_HEADER_FIELD_NUMBER :: nat where
  "MAX_HEADER_FIELD_NUMBER = 13"

record header_field =
  hf_name :: "byte list"
  hf_name_len :: nat
  hf_value :: "byte list"
  hf_value_len :: nat

definition new_header_field :: header_field where
  "new_header_field =
     \<lparr>hf_name = replicate MAX_HEADER_FIELD_SIZE 0, hf_name_len = 0,
      hf_value = replicate MAX_HEADER_FIELD_SIZE 0, hf_value_len = 0\<rparr>"

definition hf_set :: "header_field \<Rightarrow> byte list \<Rightarrow> nat \<Rightarrow> byte list \<Rightarrow> nat \<Rightarrow> header_field result" where
  "hf_set hf nm nm_len val val_len =
     (if nm_len > length (hf_name hf) then Inl (Fatal ''HeaderField name is too long'')
      else if val_len > length (hf_value hf) then Inl (Fatal ''HeaderField value is too long'')
      else if nm_len > length nm \<or> val_len > length val then Inl (Undefined ''copy_n past the source'')
      else
        bindR (put_at nm_len 0 (write_at (hf_name hf) 0 (take nm_len nm))) (\<lambda>n.
        bindR (put_at val_len 0 (write_at (hf_value hf) 0 (take val_len val))) (\<lambda>v.
          Inr \<lparr>hf_name = n, hf_name_len = nm_len, hf_value = v, hf_value_len = val_len\<rparr>)))"

record data_read =
  dr_data :: "byte list"
  dr_offset :: nat
  dr_read_offset :: nat

definition new_data_read :: data_read where
  "new_data_read = \<lparr>dr_data = replicate MAX_PAYLOAD_SIZE 0, dr_offset = 0, dr_read_offset = 0\<rparr>"

section \<open>Messages\<close>

record rpc_message =
  m_http :: http_version
  ds_stream_id :: int
  ds_fd :: int
  us_stream_id :: int
  us_fd :: int
  local_id :: int
  global_id :: int
  m_priority :: int
  m_type :: conn_type
  req_rcv_time :: int
  req_for_time :: int
  res_rcv_time :: int
  pfanout_req :: "8 word"
  pfanout_res :: "8 word"
  credit_return_queue :: "buffer list"
  dfanout_service :: "nat option"
  m_service :: string
  m_method :: string
  m_error :: bool
  req_headers :: "header_field list"
  req_header_count :: nat
  res_headers :: "header_field list"
  res_header_count :: nat
  res_trailers :: "header_field list"
  res_trailer_count :: nat
  req_data :: data_read
  res_data :: data_read
  m_path :: string
  m_minor :: int
  m_status :: int
  m_msg :: string

text \<open>The constructors; \<open>pr\<close> is the value that the uninitialised priority happens to have.\<close>

definition new_message :: "http_version \<Rightarrow> int \<Rightarrow> rpc_message" where
  "new_message http pr =
     (let hs = replicate MAX_HEADER_FIELD_NUMBER new_header_field in
      \<lparr>m_http = http, ds_stream_id = 0, ds_fd = -1, us_stream_id = 0, us_fd = -1, local_id = -1, global_id = -1,
       m_priority = pr, m_type = INGRESS, req_rcv_time = 0, req_for_time = 0, res_rcv_time = 0,
       pfanout_req = 0, pfanout_res = 0, credit_return_queue = [], dfanout_service = None,
       m_service = [], m_method = [], m_error = False,
       req_headers = hs, req_header_count = 0, res_headers = hs, res_header_count = 0,
       res_trailers = (if http = HTTP2 then hs else []), res_trailer_count = 0,
       req_data = new_data_read, res_data = new_data_read,
       m_path = [], m_minor = 0, m_status = 0, m_msg = []\<rparr>)"

definition is_drop :: "rpc_message \<Rightarrow> bool" where
  "is_drop m = (case m_http m of HTTP2 \<Rightarrow> False | HTTP1 \<Rightarrow> m_error m \<and> m_status m = 503)"

section \<open>Local ids\<close>

definition get_new_local_id :: "int \<Rightarrow> int \<Rightarrow> int \<times> int" where
  "get_new_local_id counter parent =
     (let counter' = counter + 1;
          branch = (of_int counter' :: 32 word);
          packed = push_bit 32 (ucast (of_int parent :: 32 word)) OR (ucast branch :: 64 word)
      in (counter', sint packed))"

text \<open>The inverse at the egress side: \<open>(uint64_t)id >> 32\<close>.\<close>

definition ingress_side_id :: "int \<Rightarrow> int" where
  "ingress_side_id i = uint (drop_bit 32 (of_int i :: 64 word))"

section \<open>Header fields of a message\<close>

text \<open>memcmp(p, s, |s|) == 0 and strcmp(p, s) == 0 for a literal \<open>s\<close>.\<close>

definition mem_prefix :: "byte list \<Rightarrow> string \<Rightarrow> bool" where
  "mem_prefix p s \<longleftrightarrow> take (length s) p = bytes s"

definition c_equal :: "byte list \<Rightarrow> string \<Rightarrow> bool" where
  "c_equal p s \<longleftrightarrow> take (Suc (length s)) p = bytes s @ [0]"

definition read_rpc_id :: "bool \<Rightarrow> int \<Rightarrow> rpc_message \<Rightarrow> byte list \<Rightarrow> byte list \<Rightarrow> (int \<times> rpc_message) result" where
  "read_rpc_id ingress_node counter m nm v =
     (if mem_prefix nm ''rpc-id'' then
        bindR (stoll v) (\<lambda>g.
          let m' = m\<lparr>global_id := g\<rparr>; (counter', new_id) = get_new_local_id counter 0
          in if ingress_node \<or> m_type m = INGRESS then Inr (counter', m'\<lparr>local_id := new_id\<rparr>)
             else Inr (counter, m'))
      else Inr (counter, m))"

text \<open>The flag of the result says that the field is consumed (the early return).\<close>

definition read_rpc_local_id :: "int \<Rightarrow> rpc_message \<Rightarrow> byte list \<Rightarrow> byte list \<Rightarrow> (bool \<times> int \<times> rpc_message) result" where
  "read_rpc_local_id counter m nm v =
     (if mem_prefix nm ''rpc-local-id'' then
        bindR (stoll v) (\<lambda>i. case m_type m of
            INGRESS \<Rightarrow> if i = -1 then Inl (Fatal ''rpc-local-id is -1 on INGRESS side'') else Inr (False, counter, m)
          | EGRESS \<Rightarrow>
              if i \<le> 0 \<or> i > 4294967295 then Inl (Fatal ''local id is not in valid range'')
              else let (counter', new_id) = get_new_local_id counter i
                   in Inr (True, counter', m\<lparr>local_id := new_id\<rparr>))
      else Inr (False, counter, m))"

definition read_priority :: "rpc_message \<Rightarrow> byte list \<Rightarrow> byte list \<Rightarrow> rpc_message result" where
  "read_priority m nm v =
     (if mem_prefix nm ''priority'' then bindR (stoll v) (\<lambda>p. Inr (m\<lparr>m_priority := to_int32 p\<rparr>)) else Inr m)"

definition set_nth :: "header_field list \<Rightarrow> nat \<Rightarrow> byte list \<Rightarrow> nat \<Rightarrow> byte list \<Rightarrow> nat \<Rightarrow> header_field list result" where
  "set_nth hs i nm nm_len val val_len =
     (if i \<ge> MAX_HEADER_FIELD_NUMBER then Inl (Fatal ''Too many headers'')
      else bindR (vec_at hs i) (\<lambda>h. bindR (hf_set h nm nm_len val val_len) (\<lambda>h'. Inr (hs[i := h']))))"

definition store_field :: "rpc_message \<Rightarrow> byte list \<Rightarrow> nat \<Rightarrow> byte list \<Rightarrow> nat \<Rightarrow> bool \<Rightarrow> bool \<Rightarrow> rpc_message result" where
  "store_field m nm nm_len val val_len request tailer =
     (if tailer then
        if request then Inl (Fatal ''Tailer in request'')
        else bindR (set_nth (res_trailers m) (res_trailer_count m) nm nm_len val val_len) (\<lambda>hs.
               Inr (m\<lparr>res_trailers := hs, res_trailer_count := Suc (res_trailer_count m)\<rparr>))
      else if request then
        bindR (set_nth (req_headers m) (req_header_count m) nm nm_len val val_len) (\<lambda>hs.
          Inr (m\<lparr>req_headers := hs, req_header_count := Suc (req_header_count m)\<rparr>))
      else
        bindR (set_nth (res_headers m) (res_header_count m) nm nm_len val val_len) (\<lambda>hs.
          Inr (m\<lparr>res_headers := hs, res_header_count := Suc (res_header_count m)\<rparr>)))"

definition read_path :: "rpc_message \<Rightarrow> byte list \<Rightarrow> byte list \<Rightarrow> nat \<Rightarrow> rpc_message result" where
  "read_path m nm val val_len =
     (if c_equal nm '':path'' then
        if 0 < val_len \<and> val_len \<le> length val
        then Inr (m\<lparr>m_service := chars (take (val_len - 1) (drop 1 val)), m_method := []\<rparr>)
        else Inl (Undefined ''path outside its buffer'')
      else Inr m)"

text \<open>
  What both classes read from a request header. The flag says that the field is consumed.
\<close>

definition read_request_field ::
  "bool \<Rightarrow> int \<Rightarrow> rpc_message \<Rightarrow> byte list \<Rightarrow> byte list \<Rightarrow> (bool \<times> int \<times> rpc_message) result" where
  "read_request_field ingress_node counter m nm v =
     bindR (read_rpc_id ingress_node counter m nm v) (\<lambda>(c1, m1).
     bindR (read_rpc_local_id c1 m1 nm v) (\<lambda>(consumed, c2, m2).
       if consumed then Inr (True, c2, m2)
       else bindR (read_priority m2 nm v) (\<lambda>m3. Inr (False, c2, m3))))"

definition grpc_add_header_field ::
  "bool \<Rightarrow> int \<Rightarrow> rpc_message \<Rightarrow> byte list \<Rightarrow> nat \<Rightarrow> byte list \<Rightarrow> nat \<Rightarrow> bool \<Rightarrow> bool \<Rightarrow> (int \<times> rpc_message) result" where
  "grpc_add_header_field ingress_node counter m nm nm_len val val_len request tailer =
     bindR (read_path m nm val val_len) (\<lambda>m0.
     bindR (if request then read_request_field ingress_node counter m0 nm (take val_len val) else Inr (False, counter, m0)) (\<lambda>(consumed, c, m1).
       if consumed then Inr (c, m1)
       else bindR (store_field m1 nm nm_len val val_len request tailer) (\<lambda>m2. Inr (c, m2))))"

definition http_add_header_field ::
  "bool \<Rightarrow> int \<Rightarrow> rpc_message \<Rightarrow> byte list \<Rightarrow> nat \<Rightarrow> byte list \<Rightarrow> nat \<Rightarrow> bool \<Rightarrow> bool \<Rightarrow> (int \<times> rpc_message) result" where
  "http_add_header_field ingress_node counter m nm nm_len val val_len request tailer =
     (if tailer then Inl (Fatal ''Tailers are not supported in HTTPMessage'')
      else bindR (if request then read_request_field ingress_node counter m nm (take val_len val) else Inr (False, counter, m)) (\<lambda>(consumed, c, m1).
        if consumed then Inr (c, m1)
        else bindR (store_field m1 nm nm_len val val_len request False) (\<lambda>m2. Inr (c, m2))))"

text \<open>The virtual call.\<close>

definition add_header_field ::
  "bool \<Rightarrow> int \<Rightarrow> rpc_message \<Rightarrow> byte list \<Rightarrow> nat \<Rightarrow> byte list \<Rightarrow> nat \<Rightarrow> bool \<Rightarrow> bool \<Rightarrow> (int \<times> rpc_message) result" where
  "add_header_field ingress_node counter m nm nm_len val val_len request tailer =
     (case m_http m of
        HTTP2 \<Rightarrow> grpc_add_header_field ingress_node counter m nm nm_len val val_len request tailer
      | HTTP1 \<Rightarrow> http_add_header_field ingress_node counter m nm nm_len val val_len request tailer)"

lemmas add_header_field_defs =
  add_header_field_def grpc_add_header_field_def http_add_header_field_def read_request_field_def

text \<open>The literals end in a zero byte.\<close>

definition set_local_id_header :: "bool \<Rightarrow> int \<Rightarrow> rpc_message \<Rightarrow> (int \<times> rpc_message) result" where
  "set_local_id_header ingress_node counter m =
     add_header_field ingress_node counter m (bytes ''rpc-local-id'' @ [0]) 12
       (snprintf_int 32 (local_id m)) (length (show_int (local_id m))) True False"

section \<open>Payload, clearing, request target\<close>

definition append_data :: "data_read \<Rightarrow> byte list \<Rightarrow> nat \<Rightarrow> data_read result" where
  "append_data dr d len =
     (if len > MAX_PAYLOAD_SIZE - dr_offset dr then Inl (Fatal ''Data length exceeds maximum payload size'')
      else if len > length d then Inl (Undefined ''copy_n past the source'')
      else Inr (dr\<lparr>dr_data := write_at (dr_data dr) (dr_offset dr) (take len d), dr_offset := dr_offset dr + len\<rparr>))"

definition grpc_add_data :: "rpc_message \<Rightarrow> byte list \<Rightarrow> nat \<Rightarrow> bool \<Rightarrow> rpc_message result" where
  "grpc_add_data m d len request =
     (if request then bindR (append_data (req_data m) d len) (\<lambda>dr. Inr (m\<lparr>req_data := dr\<rparr>))
      else bindR (append_data (res_data m) d len) (\<lambda>dr. Inr (m\<lparr>res_data := dr\<rparr>)))"

definition http_add_data :: "rpc_message \<Rightarrow> byte list \<Rightarrow> nat \<Rightarrow> bool \<Rightarrow> rpc_message result" where
  "http_add_data m d len request =
     (if request then Inl (Fatal ''Request data is not supported in HTTPMessage'')
      else bindR (append_data (res_data m) d len) (\<lambda>dr. Inr (m\<lparr>res_data := dr\<rparr>)))"

definition add_data :: "rpc_message \<Rightarrow> byte list \<Rightarrow> nat \<Rightarrow> bool \<Rightarrow> rpc_message result" where
  "add_data m d len request =
     (case m_http m of HTTP2 \<Rightarrow> grpc_add_data m d len request | HTTP1 \<Rightarrow> http_add_data m d len request)"

lemmas add_data_defs = add_data_def grpc_add_data_def http_add_data_def

definition clear_field :: "header_field \<Rightarrow> header_field" where
  "clear_field h = h\<lparr>hf_name_len := 0, hf_value_len := 0\<rparr>"

definition clear_data :: "data_read \<Rightarrow> data_read" where
  "clear_data d = d\<lparr>dr_offset := 0, dr_read_offset := 0\<rparr>"

text \<open>
  clear() of both classes: the common part, then the members of the subclass. The priority, the type
  and (for HTTPMessage) the path are not reset by either.
\<close>

definition clear_common :: "rpc_message \<Rightarrow> rpc_message" where
  "clear_common m = m
     \<lparr>ds_stream_id := -1, ds_fd := -1, us_stream_id := -1, us_fd := -1, m_error := False,
      m_service := [], m_method := [],
      req_headers := map clear_field (req_headers m), req_header_count := 0,
      res_headers := map clear_field (res_headers m), res_header_count := 0,
      req_for_time := 0, req_rcv_time := 0, res_rcv_time := 0, local_id := -1, global_id := -1,
      pfanout_req := 0, pfanout_res := 0, dfanout_service := None\<rparr>"

definition grpc_clear :: "rpc_message \<Rightarrow> rpc_message result" where
  "grpc_clear m =
     (if credit_return_queue m \<noteq> [] then Inl (Fatal ''credit_return queue is not empty'')
      else Inr ((clear_common m)
        \<lparr>req_data := clear_data (req_data m), res_data := clear_data (res_data m),
         res_trailers := map clear_field (res_trailers m), res_trailer_count := 0\<rparr>))"

definition http_clear :: "rpc_message \<Rightarrow> rpc_message result" where
  "http_clear m =
     (if credit_return_queue m \<noteq> [] then Inl (Fatal ''credit_return queue is not empty'')
      else Inr ((clear_common m)\<lparr>res_data := clear_data (res_data m), m_msg := [], m_minor := 0, m_status := 0\<rparr>))"

definition clear :: "rpc_message \<Rightarrow> rpc_message result" where
  "clear m = (case m_http m of HTTP2 \<Rightarrow> grpc_clear m | HTTP1 \<Rightarrow> http_clear m)"

lemmas clear_defs = clear_def grpc_clear_def http_clear_def clear_common_def

text \<open>
  The first path segment of a request target. \<open>find_byte\<close> is memchr, as an offset from the start.
\<close>

definition find_byte :: "char \<Rightarrow> string \<Rightarrow> nat option" where
  "find_byte c s = (let n = length (takeWhile (\<lambda>x. x \<noteq> c) s) in if n < length s then Some n else None)"

definition parse_service_from_request_target :: "string \<Rightarrow> string option" where
  "parse_service_from_request_target s =
     (let p = (if length s \<ge> 7 \<and> take 7 s = ''http://'' then drop 7 s else s)
      in case find_byte CHR ''/'' p of
           None \<Rightarrow> None
         | Some slash \<Rightarrow>
             if Suc slash \<ge> length p then None
             else let svc = drop (Suc slash) p
                  in Some (case find_byte CHR ''?'' svc of Some question \<Rightarrow> take question svc | None \<Rightarrow> svc))"

definition set_service :: "rpc_message \<Rightarrow> string \<Rightarrow> rpc_message result" where
  "set_service m s =
     (case parse_service_from_request_target s of
        None \<Rightarrow> Inl (Fatal ''Invalid service format'')
      | Some svc \<Rightarrow> Inr (m\<lparr>m_service := svc\<rparr>))"

section \<open>The message pool\<close>

type_synonym heap = "nat \<Rightarrow> rpc_message"

record rpc_pool =
  grpc_pool :: "nat list"
  http_pool :: "nat list"

text \<open>
  free_rpc of a non-null pointer. \<open>others\<close> is the number of further shared_ptr that hold the message:
  use_count() > 1.
\<close>

definition free_rpc :: "heap \<Rightarrow> rpc_pool \<Rightarrow> nat \<Rightarrow> nat \<Rightarrow> (heap \<times> rpc_pool) result" where
  "free_rpc h pool others r =
     (if others > 0 then Inl (Fatal ''RPCMessage is still in use'')
      else bindR (clear (h r)) (\<lambda>m.
        Inr (h(r := m),
             case m_http m of
               HTTP1 \<Rightarrow> pool\<lparr>http_pool := http_pool pool @ [r]\<rparr>
             | HTTP2 \<Rightarrow> pool\<lparr>grpc_pool := grpc_pool pool @ [r]\<rparr>)))"

definition free_range :: "http_version \<Rightarrow> nat list \<Rightarrow> (heap \<times> rpc_pool) \<Rightarrow> (heap \<times> rpc_pool) result" where
  "free_range http rs s = foldR (\<lambda>r (h, p). free_rpc (h(r := new_message http 0)) p 0 r) rs s"

definition pool_construct :: "nat \<Rightarrow> nat \<Rightarrow> (heap \<times> rpc_pool) result" where
  "pool_construct grpc_n http_n =
     bindR (free_range HTTP1 [0..<http_n] (\<lambda>r. new_message HTTP1 0, \<lparr>grpc_pool = [], http_pool = []\<rparr>)) (\<lambda>s.
       free_range HTTP2 [http_n..<http_n + grpc_n] s)"

definition get_rpc :: "heap \<Rightarrow> rpc_pool \<Rightarrow> int \<Rightarrow> int \<Rightarrow> http_version \<Rightarrow> conn_type \<Rightarrow> (nat \<times> heap \<times> rpc_pool) result" where
  "get_rpc h pool stream_id fd http type =
     (let q = (case http of HTTP1 \<Rightarrow> http_pool pool | HTTP2 \<Rightarrow> grpc_pool pool) in
      case q of
        [] \<Rightarrow> Inl (Fatal ''No RPCMessage available in the pool'')
      | r # rs \<Rightarrow>
          Inr (r, h(r := (h r)\<lparr>ds_fd := fd, ds_stream_id := stream_id, m_type := type\<rparr>),
               case http of HTTP1 \<Rightarrow> pool\<lparr>http_pool := rs\<rparr> | HTTP2 \<Rightarrow> pool\<lparr>grpc_pool := rs\<rparr>))"

end
