(* ===== verification/Rpc_Message_Correct.thy ===== *)
theory Rpc_Message_Correct
  imports Rpc_Message
begin

text \<open>
  Correctness of the message operations: decimal numbers written into header values are read back,
  the id that an egress request takes from the rpc-local-id header leads back to its ingress request,
  header fields and payloads respect their bounds, and a recycled message starts clean except for its
  priority.
\<close>

section \<open>Decimal numbers\<close>

lemma digit_byte: "n < 10 \<Longrightarrow> is_digit (of_nat (48 + n)) \<and> uint (of_nat (48 + n) :: byte) = 48 + int n"
proof -
  assume n: "n < 10"
  define w :: byte where "w = of_nat (48 + n)"
  have "unat w = (48 + n) mod 2 ^ LENGTH(8)" unfolding w_def by (rule unat_of_nat)
  then have u: "unat w = 48 + n" using n by simp
  then have "uint w = 48 + int n" by (simp add: uint_nat)
  then show ?thesis using u n unfolding w_def [symmetric] by (simp add: is_digit_def word_le_nat_alt)
qed

lemma dec_digits: "\<forall>d\<in>set (dec n). is_digit d" and dec_ne: "dec n \<noteq> []"
  by (induction n rule: dec.induct; subst dec.simps; use digit_byte in auto)+

lemma digits_val_append: "digits_val (xs @ [d]) = digits_val xs * 10 + (uint d - 48)"
  by (simp add: digits_val_def)

lemma digits_val_dec: "digits_val (dec n) = int n"
proof (induction n rule: dec.induct)
  case (1 n)
  show ?case
  proof (cases "n < 10")
    case True
    then show ?thesis using digit_byte [of n] by (subst dec.simps) (simp add: digits_val_def)
  next
    case False
    have "digits_val (dec n) = digits_val (dec (n div 10)) * 10 + int (n mod 10)"
      using False digit_byte [of "n mod 10"] by (subst dec.simps) (simp add: digits_val_append del: of_nat_add)
    also have "\<dots> = int (n div 10 * 10 + n mod 10)" unfolding 1 [OF False] by (simp only: of_nat_add of_nat_mult of_nat_numeral)
    finally show ?thesis by (simp only: div_mult_mod_eq)
  qed
qed

lemma dec_hd: "dec n \<noteq> [] \<and> is_digit (hd (dec n))"
  using dec_digits [of n] dec_ne [of n] by (cases "dec n") auto

lemma digit_not: "is_digit d \<Longrightarrow> \<not> is_space d \<and> d \<noteq> 45 \<and> d \<noteq> 43"
  by (auto simp: is_digit_def is_space_def word_le_nat_alt word_less_nat_alt)

lemma takeWhile_dec: "t = [] \<or> \<not> is_digit (hd t) \<Longrightarrow> takeWhile is_digit (dec n @ t) = dec n"
  using dec_digits [of n] by (cases t) (simp_all add: takeWhile_append2 takeWhile_append)

lemma stoll_show_int:
  assumes "- (2 ^ 63) \<le> i" "i < 2 ^ 63" "t = [] \<or> \<not> is_digit (hd t)"
  shows "stoll (show_int i @ t) = Inr i"
proof (cases "i < 0")
  case True
  have sp: "\<not> is_space 45" by (simp add: is_space_def word_le_nat_alt)
  show ?thesis
    using True assms takeWhile_dec [OF assms(3), of "nat (- i)"] digits_val_dec [of "nat (- i)"] dec_ne [of "nat (- i)"] sp
    by (simp add: stoll_def show_int_def Let_def)
next
  case False
  obtain d ds where d: "dec (nat i) = d # ds" using dec_ne [of "nat i"] by (cases "dec (nat i)") auto
  then have "\<not> is_space d" "d \<noteq> 45" "d \<noteq> 43" using dec_hd [of "nat i"] digit_not [of d] by auto
  then show ?thesis
    using False assms takeWhile_dec [OF assms(3), of "nat i"] digits_val_dec [of "nat i"] dec_ne [of "nat i"] d
    by (simp add: stoll_def show_int_def Let_def)
qed

lemma length_dec_le: "n < 10 ^ Suc k \<Longrightarrow> length (dec n) \<le> Suc k"
proof (induction k arbitrary: n)
  case 0
  then show ?case by (subst dec.simps) simp
next
  case (Suc k)
  show ?case
  proof (cases "n < 10")
    case True
    then show ?thesis by (subst dec.simps) simp
  next
    case False
    have "n div 10 < 10 ^ Suc k" using Suc.prems by (simp add: less_mult_imp_div_less mult.commute)
    then show ?thesis using Suc.IH [of "n div 10"] False by (subst dec.simps) simp
  qed
qed

lemma length_show_int:
  assumes "- (2 ^ 63) \<le> i" "i < 2 ^ 63"
  shows "length (show_int i) \<le> 20"
proof -
  have "length (dec n) \<le> 19" if "n \<le> 2 ^ 63" for n
    using length_dec_le [of n 18] that by simp
  then have "length (dec (nat (- i))) \<le> 19" "length (dec (nat i)) \<le> 19" using assms by auto
  then show ?thesis by (simp add: show_int_def)
qed

lemma snprintf_int_32:
  assumes "- (2 ^ 63) \<le> i" "i < 2 ^ 63"
  shows "snprintf_int 32 i = show_int i @ replicate (32 - length (show_int i)) 0"
  using length_show_int [OF assms] by (simp add: snprintf_int_def Let_def)

section \<open>Local ids\<close>

lemma new_local_id_parts:
  assumes "get_new_local_id c p = (c', i)"
  shows "c' = c + 1 \<and> drop_bit 32 (of_int i :: 64 word) = ucast (of_int p :: 32 word) \<and>
    (ucast (of_int i :: 64 word) :: 32 word) = of_int c'"
proof -
  let ?w = "push_bit 32 (ucast (of_int p :: 32 word)) OR (ucast (of_int (c + 1) :: 32 word) :: 64 word)"
  have i: "c' = c + 1" "i = sint ?w" using assms by (auto simp: get_new_local_id_def Let_def)
  have "(of_int i :: 64 word) = ?w" unfolding i(2) by simp
  moreover have "drop_bit 32 ?w = ucast (of_int p :: 32 word)"
    by (rule bit_word_eqI) (auto simp: bit_simps dest: bit_imp_le_length)
  moreover have "(ucast ?w :: 32 word) = of_int (c + 1)"
    by (rule bit_word_eqI) (auto simp: bit_simps)
  ultimately show ?thesis using i(1) by simp
qed

lemma ingress_side_of_new:
  assumes "get_new_local_id c p = (c', i)" "0 \<le> p" "p < 2 ^ 32"
  shows "ingress_side_id i = p"
  using new_local_id_parts [OF assms(1)] assms(2,3)
  by (simp add: ingress_side_id_def unsigned_ucast_eq uint_word_of_int take_bit_eq_mod)

lemma new_root_id:
  assumes "get_new_local_id c 0 = (c', i)" "0 \<le> c" "c + 1 < 2 ^ 32"
  shows "i = c + 1"
proof -
  have w: "(push_bit 32 (ucast (of_int 0 :: 32 word)) OR (ucast (of_int (c + 1) :: 32 word) :: 64 word)) = of_int (c + 1)"
  proof -
    have "uint (of_int (c + 1) :: 32 word) = (c + 1) mod 2 ^ LENGTH(32)" by (rule uint_word_of_int)
    then have "uint (of_int (c + 1) :: 32 word) = c + 1" using assms(2,3) by simp
    then have "(ucast (of_int (c + 1) :: 32 word) :: 64 word) = of_int (c + 1)"
      by (metis of_int_uint)
    then show ?thesis by (simp del: of_int_add)
  qed
  have "i = sint (of_int (c + 1) :: 64 word)"
    using assms(1) w by (auto simp: get_new_local_id_def Let_def)
  then show ?thesis using assms(2,3) sint_of_int_id [where 'a = 64, of "c + 1"] by simp
qed

section \<open>Header fields\<close>

lemma hf_set_ok:
  assumes "length (hf_name hf) = 60" "length (hf_value hf) = 60" "n \<le> length nm" "v \<le> length val" "n < 60" "v < 60"
  shows "\<exists>hf'. hf_set hf nm n val v = Inr hf' \<and> hf_name_len hf' = n \<and> hf_value_len hf' = v \<and>
    length (hf_name hf') = 60 \<and> length (hf_value hf') = 60 \<and>
    take (Suc n) (hf_name hf') = take n nm @ [0] \<and> take (Suc v) (hf_value hf') = take v val @ [0]"
proof -
  have "take (Suc k) ((write_at d 0 (take k s))[k := 0]) = take k s @ [0]"
    if "k < length d" "k \<le> length s" for k and d s :: "byte list"
    using that by (simp add: write_at_def list_update_append take_Suc_conv_app_nth nth_append min_def)
  then show ?thesis using assms by (simp add: hf_set_def)
qed

text \<open>A stored header as name and value.\<close>

definition header_pair :: "header_field \<Rightarrow> byte list \<times> byte list" where
  "header_pair h = (take (hf_name_len h) (hf_name h), take (hf_value_len h) (hf_value h))"

lemma hf_set_pair:
  assumes "hf_set hf nm n vl v = Inr hf'"
  shows "header_pair hf' = (take n nm, take v vl)"
proof -
  have "take k ((write_at d 0 (take k s))[k := 0]) = take k s" if "k \<le> length s" for k and d s :: "byte list"
    using that by (simp add: write_at_def list_update_append min_def)
  then show ?thesis using assms by (auto simp: hf_set_def header_pair_def put_at_def split: if_splits)
qed

definition headers_ok :: "rpc_message \<Rightarrow> bool" where
  "headers_ok m \<longleftrightarrow> length (req_headers m) = 13 \<and>
     (\<forall>h\<in>set (req_headers m). length (hf_name h) = 60 \<and> length (hf_value h) = 60)"

section \<open>Request targets\<close>

lemma takeWhile_no: "c \<notin> set a \<Longrightarrow> takeWhile (\<lambda>x. x \<noteq> c) (a @ c # b) = a"
  by (induction a) auto

lemma find_byte_split: "c \<notin> set a \<Longrightarrow> find_byte c (a @ c # b) = Some (length a)"
  using takeWhile_no [of c a b] by (simp add: find_byte_def Let_def)

lemma find_byte_none: "c \<notin> set a \<Longrightarrow> find_byte c a = None"
proof -
  assume "c \<notin> set a"
  then have tw: "takeWhile (\<lambda>x. x \<noteq> c) a = a" by (auto simp: takeWhile_eq_all_conv)
  show ?thesis unfolding find_byte_def Let_def tw by simp
qed

section \<open>Properties\<close>

text \<open>
  C32: the chain of local ids. An ingress message whose id \<open>l\<close> was drawn from the counter carries it in the
  rpc-local-id header; whatever message on the egress side reads that header value gets an id whose
  upper half is \<open>l\<close>, so get_ingress_rpc finds the ingress request, and whose lower half is fresh.
\<close>

theorem local_id_chain:
  assumes "get_new_local_id c 0 = (c1, l)" "0 \<le> c" "c + 1 < 2 ^ 32" "m_type m = EGRESS"
    and "read_rpc_local_id c2 m (bytes ''rpc-local-id'' @ t) (take (length (show_int l)) (snprintf_int 32 l)) = Inr (b, c3, m')"
  shows "b \<and> c3 = c2 + 1 \<and> ingress_side_id (local_id m') = l \<and>
    (ucast (of_int (local_id m') :: 64 word) :: 32 word) = of_int (c2 + 1)"
proof -
  have l: "l = c + 1" by (rule new_root_id [OF assms(1-3)])
  have bounds: "- (2 ^ 63) \<le> l" "l < 2 ^ 63" using l assms(2,3) by auto
  have "take (length (show_int l)) (snprintf_int 32 l) = show_int l"
    using snprintf_int_32 [OF bounds] by simp
  then have s: "stoll (take (length (show_int l)) (snprintf_int 32 l)) = Inr l"
    using stoll_show_int [OF bounds, of "[]"] by simp
  obtain c4 i where n: "get_new_local_id c2 l = (c4, i)" by (cases "get_new_local_id c2 l")
  have "mem_prefix (bytes ''rpc-local-id'' @ t) ''rpc-local-id''" by (simp add: mem_prefix_def)
  then have "b" "c3 = c4" "m' = m\<lparr>local_id := i\<rparr>"
    using assms(2-5) s n l by (auto simp: read_rpc_local_id_def split: if_splits)
  then show ?thesis
    using new_local_id_parts [OF n] ingress_side_of_new [OF n] l assms(2,3) by simp
qed

theorem local_id_chain_witness:
  "\<exists>b c3 m'. read_rpc_local_id 9 ((new_message HTTP2 0)\<lparr>m_type := EGRESS\<rparr>) (bytes ''rpc-local-id'' @ [0])
      (take (length (show_int 6)) (snprintf_int 32 6)) = Inr (b, c3, m') \<and> ingress_side_id (local_id m') = 6"
proof -
  let ?m = "(new_message HTTP2 0)\<lparr>m_type := EGRESS\<rparr>" and ?v = "take (length (show_int 6)) (snprintf_int 32 6)"
  have "?v = show_int 6" using snprintf_int_32 [of 6] by simp
  then have "stoll ?v = Inr 6" using stoll_show_int [of 6 "[]"] by simp
  then obtain b c3 m' where r: "read_rpc_local_id 9 ?m (bytes ''rpc-local-id'' @ [0]) ?v = Inr (b, c3, m')"
    by (cases "get_new_local_id 9 6") (auto simp: read_rpc_local_id_def mem_prefix_def)
  obtain c1 l where n: "get_new_local_id 5 0 = (c1, l)" by (cases "get_new_local_id 5 0")
  have l: "l = 6" using new_root_id [OF n] by simp
  show ?thesis using local_id_chain [OF n, of ?m 9 "[0]" b c3 m'] r unfolding l by (auto simp: new_message_def)
qed

text \<open>
  The value of the rpc-id header that the ingress formats into its 32-byte array (sent with its zero
  padding) is read back as the same 64-bit id by the next sidecar, which then draws a local id exactly
  when it is an ingress node or on its ingress side.
\<close>

theorem rpc_id_header_roundtrip:
  assumes "- (2 ^ 63) \<le> i" "i < 2 ^ 63"
  shows "\<exists>c' m'. read_rpc_id ingr c m (bytes ''rpc-id'' @ t) (snprintf_int 32 i) = Inr (c', m') \<and>
    length (snprintf_int 32 i) = 32 \<and> global_id m' = i \<and>
    (if ingr \<or> m_type m = INGRESS then c' = c + 1 else c' = c \<and> local_id m' = local_id m)"
proof -
  have s: "stoll (snprintf_int 32 i) = Inr i"
    unfolding snprintf_int_32 [OF assms] using length_show_int [OF assms]
    by (intro stoll_show_int assms) (simp add: is_digit_def word_le_nat_alt)
  have len: "length (snprintf_int 32 i) = 32"
    using length_show_int [OF assms] by (simp add: snprintf_int_32 [OF assms])
  obtain c1 j where n: "get_new_local_id c 0 = (c1, j)" by (cases "get_new_local_id c 0")
  then show ?thesis
    using s len new_local_id_parts [OF n] by (simp add: read_rpc_id_def mem_prefix_def Let_def)
qed

theorem rpc_id_header_roundtrip_witness:
  "\<exists>c' m'. read_rpc_id True 5 (new_message HTTP1 0) (bytes ''rpc-id'') (snprintf_int 32 281474976710657) = Inr (c', m') \<and>
     global_id m' = 281474976710657 \<and> c' = 6"
  using rpc_id_header_roundtrip [of 281474976710657 True 5 "new_message HTTP1 0" "[]"] by auto

text \<open>
  A header field is stored with its bytes and a terminating zero exactly when name and value are
  shorter than 60 bytes. A name of exactly 60 bytes passes the length check and then makes the bounds
  check of the terminator throw; longer ones stop the process.
\<close>

theorem header_field_bounds:
  assumes "length (hf_name hf) = 60" "length (hf_value hf) = 60" "n \<le> length nm" "v \<le> length val"
  shows "if n < 60 \<and> v < 60
    then \<exists>hf'. hf_set hf nm n val v = Inr hf' \<and> hf_name_len hf' = n \<and> hf_value_len hf' = v \<and>
      take (Suc n) (hf_name hf') = take n nm @ [0] \<and> take (Suc v) (hf_value hf') = take v val @ [0]
    else if n \<le> 60 \<and> v \<le> 60 then hf_set hf nm n val v = Inl OutOfRange
    else \<exists>msg. hf_set hf nm n val v = Inl (Fatal msg)"
proof (cases "n < 60 \<and> v < 60")
  case True
  then show ?thesis using hf_set_ok [OF assms] by auto
next
  case False
  then show ?thesis using assms by (auto simp: hf_set_def put_at_def)
qed

theorem header_field_bounds_witness:
  "hf_set new_header_field (replicate 60 97) 60 [98] 1 = Inl OutOfRange"
  using header_field_bounds [of new_header_field 60 "replicate 60 97" 1 "[98]"]
  by (simp add: new_header_field_def MAX_HEADER_FIELD_SIZE_def)

text \<open>
  Payload chunks are appended in order up to 20000 bytes: a chunk that fits extends the stored
  prefix by exactly its bytes, one that does not fit stops the process and is never truncated.
\<close>

theorem add_data_appends:
  assumes "length (dr_data (res_data m)) = 20000" "dr_offset (res_data m) \<le> 20000" "len \<le> length d"
  shows "if dr_offset (res_data m) + len \<le> 20000
    then \<exists>m'. add_data m d len False = Inr m' \<and> dr_offset (res_data m') = dr_offset (res_data m) + len \<and>
      length (dr_data (res_data m')) = 20000 \<and>
      take (dr_offset (res_data m')) (dr_data (res_data m')) =
        take (dr_offset (res_data m)) (dr_data (res_data m)) @ take len d
    else \<exists>msg. add_data m d len False = Inl (Fatal msg)"
proof -
  let ?o = "dr_offset (res_data m)" and ?d = "dr_data (res_data m)"
  have "take (?o + len) (write_at ?d ?o (take len d)) = take ?o ?d @ take len d" if "?o + len \<le> 20000"
    using that assms by (simp add: write_at_def)
  then show ?thesis
    using assms by (cases "m_http m") (auto simp: add_data_defs append_data_def MAX_PAYLOAD_SIZE_def)
qed

theorem add_data_appends_witness:
  "\<exists>m'. add_data (new_message HTTP1 0) [104, 105] 2 False = Inr m' \<and>
     take (dr_offset (res_data m')) (dr_data (res_data m')) = [104, 105]"
  using add_data_appends [of "new_message HTTP1 0" 2 "[104, 105]"]
  by (auto simp: new_message_def new_data_read_def MAX_PAYLOAD_SIZE_def Let_def)

text \<open>
  A message returned to its pool is cleared (ids, streams, counters, header counts, payload
  offsets, service) but keeps the priority of the request it served: the check of forward_request
  for a priority of -1 does not see a message whose request brought none.
\<close>

theorem recycled_message_keeps_priority:
  assumes "free_rpc h pool 0 r = Inr (h', pool')"
  shows "local_id (h' r) = -1 \<and> global_id (h' r) = -1 \<and> ds_stream_id (h' r) = -1 \<and> us_stream_id (h' r) = -1 \<and>
    m_service (h' r) = [] \<and> req_header_count (h' r) = 0 \<and> res_header_count (h' r) = 0 \<and>
    dr_offset (res_data (h' r)) = 0 \<and> pfanout_req (h' r) = 0 \<and> pfanout_res (h' r) = 0 \<and>
    credit_return_queue (h' r) = [] \<and> m_priority (h' r) = m_priority (h r) \<and>
    r \<in> set (grpc_pool pool' @ http_pool pool') \<and> (\<forall>q. q \<noteq> r \<longrightarrow> h' q = h q)"
  using assms by (cases "m_http (h r)") (auto simp: free_rpc_def clear_defs clear_data_def split: if_splits)

theorem recycled_message_keeps_priority_witness:
  "\<exists>h' pool'. free_rpc (\<lambda>_. new_message HTTP2 2) \<lparr>grpc_pool = [], http_pool = []\<rparr> 0 7 = Inr (h', pool') \<and>
     m_priority (h' 7) = 2 \<and> local_id (h' 7) = -1"
proof -
  obtain h' pool' where f: "free_rpc (\<lambda>_. new_message HTTP2 2) \<lparr>grpc_pool = [], http_pool = []\<rparr> 0 7 = Inr (h', pool')"
    by (auto simp: free_rpc_def clear_defs new_message_def Let_def)
  then show ?thesis using recycled_message_keeps_priority [OF f] by (simp add: new_message_def Let_def)
qed

text \<open>
  The service of a request target is its first path segment: for an absolute or an origin form
  target with a host without slash and a segment without question mark, the query is cut off.
\<close>

theorem service_of_request_target:
  assumes "CHR ''/'' \<notin> set host" "svc \<noteq> []" "CHR ''?'' \<notin> set svc" "query = [] \<or> hd query = CHR ''?''"
  shows "parse_service_from_request_target (''http://'' @ host @ ''/'' @ svc @ query) = Some svc \<and>
    take 7 (''/'' @ svc @ query) \<noteq> ''http://'' \<and>
    parse_service_from_request_target (''/'' @ svc @ query) = Some svc"
proof -
  have q: "(case find_byte CHR ''?'' (svc @ query) of Some n \<Rightarrow> take n (svc @ query) | None \<Rightarrow> svc @ query) = svc"
  proof (cases query)
    case Nil
    then show ?thesis using find_byte_none [OF assms(3)] by simp
  next
    case (Cons a rest)
    then show ?thesis using assms(4) find_byte_split [OF assms(3), of rest] by simp
  qed
  have "drop (Suc (length host)) (host @ ''/'' @ svc @ query) = svc @ query" by simp
  then have "parse_service_from_request_target (''http://'' @ host @ ''/'' @ svc @ query) = Some svc"
    using find_byte_split [OF assms(1), of "svc @ query"] assms(2) q
    by (simp add: parse_service_from_request_target_def Let_def)
  moreover have "find_byte CHR ''/'' (''/'' @ svc @ query) = Some 0" by (simp add: find_byte_def Let_def)
  then have "take 7 (''/'' @ svc @ query) \<noteq> ''http://'' \<and>
      parse_service_from_request_target (''/'' @ svc @ query) = Some svc"
    using assms(2) q by (simp add: parse_service_from_request_target_def Let_def)
  ultimately show ?thesis by blast
qed

theorem service_of_request_target_witness:
  "parse_service_from_request_target ''http://192.168.1.100:2000/hotels?lat=37.7'' = Some ''hotels''"
  using service_of_request_target [of "''192.168.1.100:2000''" "''hotels''" "''?lat=37.7''"] by simp

end
