(* ===== verification/Rpc_Queue.thy ===== *)
theory Rpc_Queue
  imports Rpc_Message
begin

text \<open>
  The two queues between the handlers. RPCQueue (src/rpc_queue.cc) keeps a FIFO of (fd, stream id)
  pairs for every connection type and direction; PPMQueue (src/ppm_queue.cc) keeps, for every
  downstream service, the waiting requests in a std::map ordered by local id (here a list sorted by
  id). A waiting request is the reference of its message.
\<close>

section \<open>RPCQueue\<close>

type_synonym rpc_queue = "conn_type \<Rightarrow> conn_dir \<Rightarrow> (int \<times> int) list"

definition rq_construct :: rpc_queue where
  "rq_construct = (\<lambda>_ _. [])"

definition rq_enqueue :: "rpc_queue \<Rightarrow> conn_type \<Rightarrow> conn_dir \<Rightarrow> int \<Rightarrow> int \<Rightarrow> rpc_queue" where
  "rq_enqueue q t d fd stream_id = q(t := (q t)(d := q t d @ [(fd, stream_id)]))"

definition rq_dequeue :: "rpc_queue \<Rightarrow> conn_type \<Rightarrow> conn_dir \<Rightarrow> ((int \<times> int) \<times> rpc_queue) result" where
  "rq_dequeue q t d =
     (case q t d of
        [] \<Rightarrow> Inl (Fatal ''Trying to dequeue from an empty queue'')
      | x # xs \<Rightarrow> Inr (x, q(t := (q t)(d := xs))))"

definition rq_empty :: "rpc_queue \<Rightarrow> conn_type \<Rightarrow> conn_dir \<Rightarrow> bool" where
  "rq_empty q t d \<longleftrightarrow> q t d = []"

definition rq_size :: "rpc_queue \<Rightarrow> conn_type \<Rightarrow> conn_dir \<Rightarrow> nat" where
  "rq_size q t d = length (q t d)"

section \<open>The interface of a family of FIFO queues\<close>

text \<open>
  What the handlers rely on: an element comes out of the queue it was put into, in order, and the
  other queues of the family do not change.
\<close>

locale fifo_family =
  fixes enq :: "'q \<Rightarrow> 'k \<Rightarrow> 'a \<Rightarrow> 'q"
    and deq :: "'q \<Rightarrow> 'k \<Rightarrow> ('a \<times> 'q) result"
    and abs :: "'q \<Rightarrow> 'k \<Rightarrow> 'a list"
  assumes enq_abs: "abs (enq q k x) = (abs q)(k := abs q k @ [x])"
    and deq_empty: "abs q k = [] \<Longrightarrow> \<exists>e. deq q k = Inl e"
    and deq_cons: "abs q k = x # xs \<Longrightarrow> \<exists>q'. deq q k = Inr (x, q') \<and> abs q' = (abs q)(k := xs)"
begin

definition enq_all :: "'q \<Rightarrow> 'k \<Rightarrow> 'a list \<Rightarrow> 'q" where
  "enq_all q k xs = foldl (\<lambda>q x. enq q k x) q xs"

fun deq_n :: "nat \<Rightarrow> 'q \<Rightarrow> 'k \<Rightarrow> ('a list \<times> 'q) result" where
  "deq_n 0 q k = Inr ([], q)"
| "deq_n (Suc n) q k = bindR (deq q k) (\<lambda>(x, q'). bindR (deq_n n q' k) (\<lambda>(xs, q''). Inr (x # xs, q'')))"

lemma enq_all_abs: "abs (enq_all q k xs) = (abs q)(k := abs q k @ xs)"
  by (induction xs arbitrary: q) (auto simp: enq_all_def enq_abs)

lemma deq_n_abs:
  "n \<le> length (abs q k) \<Longrightarrow>
   \<exists>q'. deq_n n q k = Inr (take n (abs q k), q') \<and> abs q' = (abs q)(k := drop n (abs q k))"
proof (induction n arbitrary: q)
  case (Suc n)
  then obtain x xs where xs: "abs q k = x # xs" by (cases "abs q k") auto
  from deq_cons [OF xs] obtain q' where q': "deq q k = Inr (x, q')" "abs q' = (abs q)(k := xs)" by blast
  have e: "abs q' k = xs" and "n \<le> length (abs q' k)" using q'(2) xs Suc.prems by simp_all
  from Suc.IH [OF this(2)] obtain q'' where
    "deq_n n q' k = Inr (take n (abs q' k), q'')" "abs q'' = (abs q')(k := drop n (abs q' k))" by blast
  then show ?case using q' xs e by (auto simp: fun_eq_iff)
qed simp

lemma fifo_order:
  assumes "abs q k = []"
  shows "\<exists>q'. deq_n (length xs) (enq_all q k xs) k = Inr (xs, q') \<and> abs q' = abs q"
  using deq_n_abs [of "length xs" "enq_all q k xs" k] assms by (auto simp: enq_all_abs fun_upd_idem)

end

definition rq_enq :: "rpc_queue \<Rightarrow> conn_type \<times> conn_dir \<Rightarrow> int \<times> int \<Rightarrow> rpc_queue" where
  "rq_enq q k x = rq_enqueue q (fst k) (snd k) (fst x) (snd x)"

definition rq_deq :: "rpc_queue \<Rightarrow> conn_type \<times> conn_dir \<Rightarrow> ((int \<times> int) \<times> rpc_queue) result" where
  "rq_deq q k = rq_dequeue q (fst k) (snd k)"

interpretation rq: fifo_family rq_enq rq_deq "\<lambda>q (t, d). q t d"
proof
  fix q :: rpc_queue and k :: "conn_type \<times> conn_dir" and x xs
  show "(\<lambda>(t, d). rq_enq q k x t d) = (\<lambda>(t, d). q t d)(k := (\<lambda>(t, d). q t d) k @ [x])"
    by (cases k) (auto simp: rq_enq_def rq_enqueue_def fun_eq_iff)
  show "(\<lambda>(t, d). q t d) k = [] \<Longrightarrow> \<exists>e. rq_deq q k = Inl e"
    by (cases k) (auto simp: rq_deq_def rq_dequeue_def)
  show "(\<lambda>(t, d). q t d) k = x # xs \<Longrightarrow>
      \<exists>q'. rq_deq q k = Inr (x, q') \<and> (\<lambda>(t, d). q' t d) = (\<lambda>(t, d). q t d)(k := xs)"
    by (intro exI [of _ "q(fst k := (q (fst k))(snd k := xs))"], cases k)
      (auto simp: rq_deq_def rq_dequeue_def fun_eq_iff)
qed

section \<open>PPMQueue\<close>

type_synonym ppm_queue = "(string \<times> (int \<times> nat) list) list"

definition ppm_construct :: "(string \<times> 'r) list \<Rightarrow> ppm_queue" where
  "ppm_construct rt = map (\<lambda>(route, _). (route, [])) rt"

text \<open>std::map::emplace: nothing happens when the key is there.\<close>

fun map_emplace :: "int \<Rightarrow> 'a \<Rightarrow> (int \<times> 'a) list \<Rightarrow> (int \<times> 'a) list" where
  "map_emplace k v [] = [(k, v)]"
| "map_emplace k v ((k', v') # xs) =
     (if k < k' then (k, v) # (k', v') # xs
      else if k = k' then (k', v') # xs
      else (k', v') # map_emplace k v xs)"

definition upd_service :: "ppm_queue \<Rightarrow> string \<Rightarrow> (int \<times> nat) list \<Rightarrow> ppm_queue" where
  "upd_service ppm service m = map (\<lambda>(s, x). if s = service then (s, m) else (s, x)) ppm"

definition ppm_push :: "heap \<Rightarrow> ppm_queue \<Rightarrow> nat \<Rightarrow> ppm_queue result" where
  "ppm_push h ppm r =
     (case map_of ppm (m_service (h r)) of
        None \<Rightarrow> Inl (Fatal ''Error in pushing RPC message'')
      | Some m \<Rightarrow>
          if map_of m (local_id (h r)) \<noteq> None then Inl (Fatal ''Insertion into ppm_queue did not take place'')
          else Inr (upd_service ppm (m_service (h r)) (map_emplace (local_id (h r)) r m)))"

definition ppm_pop :: "ppm_queue \<Rightarrow> string \<Rightarrow> int \<Rightarrow> (nat \<times> ppm_queue) result" where
  "ppm_pop ppm service i =
     (case map_of ppm service of
        None \<Rightarrow> Inl (Fatal ''Service not found in PPM queue'')
      | Some m \<Rightarrow>
          if m = [] then Inl (Fatal ''Trying to pop from an empty queue'')
          else case map_of m i of
            None \<Rightarrow> Inl (Fatal ''Trying to pop from a queue with an invalid id'')
          | Some r \<Rightarrow> Inr (r, upd_service ppm service (filter (\<lambda>(k, _). k \<noteq> i) m)))"

definition ppm_check :: "ppm_queue \<Rightarrow> string \<Rightarrow> string result" where
  "ppm_check ppm service =
     (if service \<in> fst ` set ppm then Inr service else Inl (Fatal ''Service not found in PPM queue''))"

definition ppm_size :: "ppm_queue \<Rightarrow> string \<Rightarrow> nat result" where
  "ppm_size ppm service =
     (case map_of ppm service of None \<Rightarrow> Inl (Fatal ''Service not found in PPM queue'') | Some m \<Rightarrow> Inr (length m))"

definition ppm_waiting_delay_us :: "heap \<Rightarrow> ppm_queue \<Rightarrow> string \<Rightarrow> int \<Rightarrow> int result" where
  "ppm_waiting_delay_us h ppm service now =
     (case map_of ppm service of
        None \<Rightarrow> Inl (Fatal ''Service not found in PPM queue'')
      | Some [] \<Rightarrow> Inr 0
      | Some ((_, r) # _) \<Rightarrow> Inr (to_int32 (now - req_rcv_time (h r))))"

lemma map_of_upd_service:
  "map_of (upd_service ppm s m) s' = (if s' = s \<and> s \<in> fst ` set ppm then Some m else map_of ppm s')"
proof (induction ppm)
  case (Cons a ppm)
  obtain k v where a: "a = (k, v)" by (cases a)
  have "upd_service (a # ppm) s m = (if k = s then (k, m) else (k, v)) # upd_service ppm s m"
    by (simp add: upd_service_def a)
  then show ?case using Cons.IH by (cases "k = s"; cases "s' = s") (simp_all add: a)
qed (simp add: upd_service_def)

lemma dom_upd_service: "fst ` set (upd_service ppm s m) = fst ` set ppm"
  by (induction ppm) (auto simp: upd_service_def)

lemma map_of_emplace: "map_of m k = None \<Longrightarrow> map_of (map_emplace k v m) = (map_of m)(k \<mapsto> v)"
  by (induction k v m rule: map_emplace.induct) (auto simp: fun_eq_iff split: if_splits)

lemma length_map_emplace: "map_of m k = None \<Longrightarrow> length (map_emplace k v m) = Suc (length m)"
  by (induction k v m rule: map_emplace.induct) (auto split: if_splits)

lemma map_emplace_ne: "map_emplace k v m \<noteq> []"
  by (induction k v m rule: map_emplace.induct) auto

lemma set_map_emplace: "map_of m k = None \<Longrightarrow> set (map_emplace k v m) = insert (k, v) (set m)"
  by (induction k v m rule: map_emplace.induct) (auto split: if_splits)

text \<open>Every queue is sorted by id without duplicates: the first entry has the smallest id.\<close>

definition ppm_inv :: "ppm_queue \<Rightarrow> bool" where
  "ppm_inv ppm \<longleftrightarrow> (\<forall>(s, m) \<in> set ppm. sorted_wrt (<) (map fst m))"

lemma sorted_emplace: "sorted_wrt (<) (map fst m) \<Longrightarrow> sorted_wrt (<) (map fst (map_emplace k v m))"
proof (induction k v m rule: map_emplace.induct)
  case (2 k v k' v' xs)
  have "fst ` set (map_emplace k v xs) \<subseteq> insert k (fst ` set xs)"
    by (induction k v xs rule: map_emplace.induct) auto
  with 2 show ?case by (fastforce split: if_splits)
qed simp

lemma ppm_inv_upd: "ppm_inv ppm \<Longrightarrow> sorted_wrt (<) (map fst m) \<Longrightarrow> ppm_inv (upd_service ppm s m)"
  by (auto simp: ppm_inv_def upd_service_def split: if_split_asm)

lemma ppm_inv_lookup: "ppm_inv ppm \<Longrightarrow> map_of ppm s = Some m \<Longrightarrow> sorted_wrt (<) (map fst m)"
  by (auto simp: ppm_inv_def dest: map_of_SomeD)

lemma sorted_filter_fst: "sorted_wrt (<) (map fst m) \<Longrightarrow> sorted_wrt (<) (map fst (filter P m))"
  by (induction m) auto

lemma ppm_push_inv: "ppm_inv ppm \<Longrightarrow> ppm_push h ppm r = Inr ppm' \<Longrightarrow> ppm_inv ppm'"
  by (auto simp: ppm_push_def intro!: ppm_inv_upd sorted_emplace dest: ppm_inv_lookup split: option.splits if_splits)

lemma ppm_pop_inv: "ppm_inv ppm \<Longrightarrow> ppm_pop ppm s i = Inr (r, ppm') \<Longrightarrow> ppm_inv ppm'"
  by (auto simp: ppm_pop_def intro!: ppm_inv_upd sorted_filter_fst dest: ppm_inv_lookup split: option.splits if_splits)

section \<open>Properties\<close>

text \<open>
  What is enqueued on one type and direction is dequeued there in the same order, whatever lies in
  the other three queues, and they stay as they are.
\<close>

theorem rpc_queue_fifo:
  assumes "rq_empty q t d"
  shows "\<exists>q'. rq.deq_n (length xs) (rq.enq_all q (t, d) xs) (t, d) = Inr (xs, q') \<and> q' = q"
proof -
  from rq.fifo_order [of q "(t, d)" xs] assms obtain q' where
    "rq.deq_n (length xs) (rq.enq_all q (t, d) xs) (t, d) = Inr (xs, q')" "(\<lambda>(t, d). q' t d) = (\<lambda>(t, d). q t d)"
    by (auto simp: rq_empty_def)
  moreover from this(2) have "q' = q" by (auto simp: fun_eq_iff)
  ultimately show ?thesis by blast
qed

theorem rpc_queue_fifo_witness:
  "\<exists>q'. rq.deq_n 2 (rq.enq_all rq_construct (EGRESS, UPSTREAM) [(5, 1), (4, 3)]) (EGRESS, UPSTREAM) = Inr ([(5, 1), (4, 3)], q')"
  using rpc_queue_fifo [of rq_construct EGRESS UPSTREAM "[(5, 1), (4, 3)]"]
  by (auto simp: rq_empty_def rq_construct_def numeral_2_eq_2)

text \<open>
  A request pushed under its service and local id is the one popped for them, exactly once; the
  queues of the other services and the other ids are not touched, and the entries stay sorted by id.
  Pushing an id twice, or popping one that does not wait, stops the process.
\<close>

theorem ppm_push_pop:
  assumes "ppm_inv ppm" "map_of ppm (m_service (h r)) = Some m"
  shows "if map_of m (local_id (h r)) \<noteq> None then \<exists>msg. ppm_push h ppm r = Inl (Fatal msg)
    else \<exists>ppm1 ppm2. ppm_push h ppm r = Inr ppm1 \<and> ppm_inv ppm1 \<and>
      ppm_size ppm1 (m_service (h r)) = Inr (Suc (length m)) \<and>
      ppm_pop ppm1 (m_service (h r)) (local_id (h r)) = Inr (r, ppm2) \<and> ppm_inv ppm2 \<and>
      (\<forall>s. map_option map_of (map_of ppm2 s) = map_option map_of (map_of ppm s)) \<and>
      (\<exists>msg. ppm_pop ppm2 (m_service (h r)) (local_id (h r)) = Inl (Fatal msg))"
proof (cases "map_of m (local_id (h r))")
  case (Some x)
  then show ?thesis using assms(2) by (simp add: ppm_push_def)
next
  case None
  let ?s = "m_service (h r)" and ?i = "local_id (h r)"
  define ppm1 where "ppm1 = upd_service ppm ?s (map_emplace ?i r m)"
  define ppm2 where "ppm2 = upd_service ppm1 ?s (filter (\<lambda>(k, _). k \<noteq> ?i) (map_emplace ?i r m))"
  have mem: "?s \<in> fst ` set ppm" using assms(2) by (metis domI dom_map_of_conv_image_fst)
  then have mem1: "?s \<in> fst ` set ppm1" by (simp add: ppm1_def dom_upd_service)
  have look1: "map_of ppm1 ?s = Some (map_emplace ?i r m)" using mem by (simp add: ppm1_def map_of_upd_service)
  have push: "ppm_push h ppm r = Inr ppm1" using assms(2) None by (simp add: ppm_push_def ppm1_def)
  have got: "map_of (map_emplace ?i r m) ?i = Some r" using map_of_emplace [OF None] by simp
  have pop: "ppm_pop ppm1 ?s ?i = Inr (r, ppm2)" using look1 map_emplace_ne got by (simp add: ppm_pop_def ppm2_def)
  note len = length_map_emplace [OF None, of r]
  have rest: "map_of (filter (\<lambda>(k, _). k \<noteq> ?i) (map_emplace ?i r m)) = map_of m"
  proof
    fix k
    have "map_of (filter (\<lambda>(k', _). k' \<noteq> i) xs) k = (if k = i then None else map_of xs k)" for i and xs :: "(int \<times> nat) list"
      by (induction xs) auto
    then show "map_of (filter (\<lambda>(k, _). k \<noteq> ?i) (map_emplace ?i r m)) k = map_of m k"
      using map_of_emplace [OF None, of r] None by simp
  qed
  have "map_option map_of (map_of ppm2 s) = map_option map_of (map_of ppm s)" for s
    using rest mem mem1 assms(2) by (simp add: ppm2_def ppm1_def map_of_upd_service)
  moreover have "\<exists>msg. ppm_pop ppm2 ?s ?i = Inl (Fatal msg)"
    using mem1 rest None by (auto simp: ppm_pop_def ppm2_def map_of_upd_service)
  ultimately show ?thesis
    using None push pop len look1 ppm_push_inv [OF assms(1) push] ppm_pop_inv [OF _ pop]
    by (auto simp: ppm_size_def)
qed

theorem ppm_push_pop_witness:
  "let h = (\<lambda>_. (new_message HTTP2 0)\<lparr>m_service := ''cart'', local_id := 4294967298\<rparr>) in
   \<exists>ppm1 ppm2. ppm_push h (ppm_construct [(''cart'', ()), (''user'', ())]) 3 = Inr ppm1 \<and>
     ppm_pop ppm1 ''cart'' 4294967298 = Inr (3, ppm2)"
  using ppm_push_pop [of "ppm_construct [(''cart'', ()), (''user'', ())]"
      "\<lambda>_. (new_message HTTP2 0)\<lparr>m_service := ''cart'', local_id := 4294967298\<rparr>" 3 "[]"]
  by (auto simp: ppm_construct_def ppm_inv_def Let_def)

end
