(* ===== verification/Rpc_Mapper.thy ===== *)
theory Rpc_Mapper
  imports Rpc_Queue "HOL-Library.AList"
begin

text \<open>
  RPCMapper (src/rpc_mapper.cc): the tables that find a request by its downstream stream, by its
  upstream stream and by its local id, and the pool the messages come from. The nested unordered_maps
  are association lists with distinct keys; a shared_ptr is the reference of its message.
\<close>

type_synonym stream_table = "(int \<times> (int \<times> nat) list) list"

record rpc_mapper =
  ds_map :: "conn_type \<Rightarrow> stream_table"
  us_map :: "conn_type \<Rightarrow> stream_table"
  id_map :: "conn_type \<Rightarrow> (int \<times> nat) list"
  mpool :: rpc_pool

definition mapper_construct :: "rpc_pool \<Rightarrow> rpc_mapper" where
  "mapper_construct p = \<lparr>ds_map = (\<lambda>_. []), us_map = (\<lambda>_. []), id_map = (\<lambda>_. []), mpool = p\<rparr>"

definition table_at :: "stream_table \<Rightarrow> int \<Rightarrow> int \<Rightarrow> nat result" where
  "table_at t fd stream_id = bindR (map_at (map_of t) fd) (\<lambda>m. map_at (map_of m) stream_id)"

text \<open>\<open>emplace(fd, {})\<close> when the descriptor is new, then \<open>at(fd).emplace(stream_id, rpc)\<close>.\<close>

definition table_open :: "stream_table \<Rightarrow> int \<Rightarrow> stream_table" where
  "table_open t fd = (if map_of t fd = None then AList.update fd [] t else t)"

definition table_emplace :: "stream_table \<Rightarrow> int \<Rightarrow> int \<Rightarrow> nat \<Rightarrow> stream_table" where
  "table_emplace t fd stream_id r =
     (case map_of t fd of
        Some m \<Rightarrow> if map_of m stream_id = None then AList.update fd (AList.update stream_id r m) t else t
      | None \<Rightarrow> t)"

text \<open>\<open>at(fd).erase(stream_id)\<close>\<close>

definition table_erase :: "stream_table \<Rightarrow> int \<Rightarrow> int \<Rightarrow> stream_table result" where
  "table_erase t fd stream_id =
     bindR (map_at (map_of t) fd) (\<lambda>m. Inr (AList.update fd (AList.delete stream_id m) t))"

definition allocate_rpc ::
  "heap \<Rightarrow> rpc_mapper \<Rightarrow> conn_type \<Rightarrow> int \<Rightarrow> int \<Rightarrow> http_version \<Rightarrow> (nat \<times> heap \<times> rpc_mapper) result" where
  "allocate_rpc h mp type stream_id fd http =
     bindR (get_rpc h (mpool mp) stream_id fd http type) (\<lambda>(r, h', p').
       let t = table_open (ds_map mp type) fd in
       case table_at t fd stream_id of
         Inr _ \<Rightarrow> Inl (Fatal ''RPC already exists for stream id'')
       | Inl _ \<Rightarrow> Inr (r, h', mp\<lparr>ds_map := (ds_map mp)(type := table_emplace t fd stream_id r), mpool := p'\<rparr>))"

definition mapper_route ::
  "heap \<Rightarrow> rpc_mapper \<Rightarrow> conn_type \<Rightarrow> int \<Rightarrow> int \<Rightarrow> int \<Rightarrow> int \<Rightarrow> rpc_mapper result" where
  "mapper_route h mp type ds_stream ds us_stream us =
     (let t = table_open (us_map mp type) us in
      bindR (table_at (ds_map mp type) ds ds_stream) (\<lambda>r.
        if map_of (id_map mp type) (local_id (h r)) \<noteq> None then Inl (Fatal ''id already existed in id_map'')
        else Inr (mp\<lparr>id_map := (id_map mp)(type := AList.update (local_id (h r)) r (id_map mp type)),
                     us_map := (us_map mp)(type := table_emplace t us us_stream r)\<rparr>)))"

definition get_ingress_rpc :: "rpc_mapper \<Rightarrow> int \<Rightarrow> nat result" where
  "get_ingress_rpc mp i =
     (if ingress_side_id i = 0 then Inl (Fatal ''Upper 32 bits of local id is zero'')
      else case map_of (id_map mp INGRESS) (ingress_side_id i) of
             Some r \<Rightarrow> Inr r
           | None \<Rightarrow> Inl (Fatal ''No INGRESS RPC found''))"

definition get_us_rpc :: "rpc_mapper \<Rightarrow> conn_type \<Rightarrow> int \<Rightarrow> int \<Rightarrow> nat result" where
  "get_us_rpc mp type us_stream us =
     (case table_at (us_map mp type) us us_stream of Inr r \<Rightarrow> Inr r | Inl _ \<Rightarrow> Inl (Fatal ''No US RPC found''))"

definition get_ds_rpc :: "rpc_mapper \<Rightarrow> conn_type \<Rightarrow> int \<Rightarrow> int \<Rightarrow> nat result" where
  "get_ds_rpc mp type ds_stream ds =
     (case table_at (ds_map mp type) ds ds_stream of Inr r \<Rightarrow> Inr r | Inl _ \<Rightarrow> Inl (Fatal ''No DS RPC found''))"

text \<open>How often the tables still hold a message: the part of use_count() that the mapper sees.\<close>

definition table_refs :: "stream_table \<Rightarrow> nat list" where
  "table_refs t = concat (map (\<lambda>(_, m). map snd m) t)"

definition holders :: "rpc_mapper \<Rightarrow> nat \<Rightarrow> nat" where
  "holders mp r =
     (\<Sum>t\<leftarrow>[INGRESS, EGRESS]. count_list (table_refs (ds_map mp t)) r + count_list (table_refs (us_map mp t)) r +
        count_list (map snd (id_map mp t)) r)"

text \<open>\<open>others\<close> counts the shared_ptr outside the mapper beside the one that is passed in.\<close>

definition remove_rpc :: "heap \<Rightarrow> rpc_mapper \<Rightarrow> conn_type \<Rightarrow> nat \<Rightarrow> nat \<Rightarrow> (heap \<times> rpc_mapper) result" where
  "remove_rpc h mp type others r =
     bindR (table_erase (us_map mp type) (us_fd (h r)) (us_stream_id (h r))) (\<lambda>ut.
     bindR (table_erase (ds_map mp type) (ds_fd (h r)) (ds_stream_id (h r))) (\<lambda>dt.
       let mp' = mp\<lparr>us_map := (us_map mp)(type := ut), ds_map := (ds_map mp)(type := dt),
                    id_map := (id_map mp)(type := AList.delete (local_id (h r)) (id_map mp type))\<rparr>
       in bindR (free_rpc h (mpool mp) (holders mp' r + others) r) (\<lambda>(h', p').
            Inr (h', mp'\<lparr>mpool := p'\<rparr>))))"

definition get_fd_concurrency :: "rpc_mapper \<Rightarrow> int \<Rightarrow> conn_type \<Rightarrow> bool \<Rightarrow> nat result" where
  "get_fd_concurrency mp fd type is_us =
     bindR (map_at (map_of (if is_us then us_map mp type else ds_map mp type)) fd) (\<lambda>m. Inr (length m))"

definition check_fd_exists :: "rpc_mapper \<Rightarrow> conn_type \<Rightarrow> int \<Rightarrow> bool \<Rightarrow> bool" where
  "check_fd_exists mp type fd is_us =
     (case map_of (if is_us then us_map mp type else ds_map mp type) fd of Some m \<Rightarrow> m \<noteq> [] | None \<Rightarrow> False)"

section \<open>Tables as partial functions\<close>

definition lookup :: "stream_table \<Rightarrow> int \<Rightarrow> int \<Rightarrow> nat option" where
  "lookup t fd s = (case map_of t fd of Some m \<Rightarrow> map_of m s | None \<Rightarrow> None)"

lemma table_at_lookup: "table_at t fd s = (case lookup t fd s of Some r \<Rightarrow> Inr r | None \<Rightarrow> Inl OutOfRange)"
  by (simp add: table_at_def lookup_def map_at_def split: option.splits)

lemma lookup_open [simp]: "lookup (table_open t fd) fd' s = lookup t fd' s"
  by (simp add: lookup_def table_open_def update_conv' split: option.splits)

lemma open_fd: "map_of (table_open t fd) fd \<noteq> None"
  by (simp add: table_open_def update_conv')

lemma lookup_emplace:
  assumes "map_of t fd \<noteq> None" "lookup t fd s = None"
  shows "lookup (table_emplace t fd s r) fd' s' = (if fd' = fd \<and> s' = s then Some r else lookup t fd' s')"
  using assms by (auto simp: lookup_def table_emplace_def update_conv' split: option.splits)

lemma lookup_emplace_taken:
  assumes "lookup t fd s = Some r'"
  shows "table_emplace t fd s r = t"
  using assms by (auto simp: lookup_def table_emplace_def split: option.splits)

lemma lookup_erase:
  assumes "table_erase t fd s = Inr t'"
  shows "lookup t' fd' s' = (if fd' = fd \<and> s' = s then None else lookup t fd' s')"
proof -
  from assms obtain m where m: "map_of t fd = Some m" "t' = AList.update fd (AList.delete s m) t"
    by (auto simp: table_erase_def)
  show ?thesis by (cases "fd' = fd") (auto simp: lookup_def m update_conv' delete_conv')
qed

lemma erase_ok: "map_of t fd \<noteq> None \<Longrightarrow> \<exists>t'. table_erase t fd s = Inr t'"
  by (auto simp: table_erase_def)

lemma map_of_None_lookup: "lookup t fd s = Some r \<Longrightarrow> map_of t fd \<noteq> None"
  by (auto simp: lookup_def split: option.splits)

definition table_ok :: "stream_table \<Rightarrow> bool" where
  "table_ok t \<longleftrightarrow> distinct (map fst t) \<and> (\<forall>(fd, m) \<in> set t. distinct (map fst m))"

lemma set_update_subset: "set (AList.update k v al) \<subseteq> insert (k, v) (set al)"
  by (induction al) auto

lemma table_ok_update:
  assumes "table_ok t" "distinct (map fst m)"
  shows "table_ok (AList.update fd m t)"
  using assms set_update_subset [of fd m t] distinct_update [of t fd m] by (fastforce simp: table_ok_def)

lemma table_ok_row: "table_ok t \<Longrightarrow> map_of t fd = Some m \<Longrightarrow> distinct (map fst m)"
  by (auto simp: table_ok_def dest: map_of_SomeD)

lemma table_ok_open [simp]: "table_ok t \<Longrightarrow> table_ok (table_open t fd)"
  by (simp add: table_open_def table_ok_update)

lemma table_ok_emplace [simp]: "table_ok t \<Longrightarrow> table_ok (table_emplace t fd s r)"
  by (auto simp: table_emplace_def intro!: table_ok_update distinct_update dest: table_ok_row split: option.splits)

lemma table_ok_erase: "table_ok t \<Longrightarrow> table_erase t fd s = Inr t' \<Longrightarrow> table_ok t'"
  by (auto simp: table_erase_def intro!: table_ok_update distinct_delete dest: table_ok_row)

lemma refs_iff:
  assumes "table_ok t"
  shows "r \<in> set (table_refs t) \<longleftrightarrow> (\<exists>fd s. lookup t fd s = Some r)"
proof
  assume "r \<in> set (table_refs t)"
  then obtain fd m s where "(fd, m) \<in> set t" "(s, r) \<in> set m" by (auto simp: table_refs_def)
  with assms have "map_of t fd = Some m" "map_of m s = Some r" by (auto simp: table_ok_def)
  then show "\<exists>fd s. lookup t fd s = Some r" by (intro exI [of _ fd] exI [of _ s]) (simp add: lookup_def)
next
  assume "\<exists>fd s. lookup t fd s = Some r"
  then obtain fd s m where "map_of t fd = Some m" "map_of m s = Some r" by (auto simp: lookup_def split: option.splits)
  then show "r \<in> set (table_refs t)" by (force simp: table_refs_def dest: map_of_SomeD)
qed

section \<open>Invariant\<close>

definition mapper_ok :: "rpc_mapper \<Rightarrow> bool" where
  "mapper_ok mp \<longleftrightarrow> (\<forall>t. table_ok (ds_map mp t) \<and> table_ok (us_map mp t) \<and> distinct (map fst (id_map mp t)))"

definition pool_list :: "rpc_pool \<Rightarrow> http_version \<Rightarrow> nat list" where
  "pool_list p http = (case http of HTTP1 \<Rightarrow> http_pool p | HTTP2 \<Rightarrow> grpc_pool p)"

text \<open>
  A message is either in the pool of its class or in exactly one downstream slot, the one it names;
  the upstream table and the id table refer to live messages under the keys that they name.
\<close>

definition mapper_inv :: "heap \<Rightarrow> rpc_mapper \<Rightarrow> bool" where
  "mapper_inv h mp \<longleftrightarrow> mapper_ok mp \<and>
     (\<forall>http. distinct (pool_list (mpool mp) http) \<and>
        (\<forall>r\<in>set (pool_list (mpool mp) http). m_http (h r) = http \<and> credit_return_queue (h r) = [])) \<and>
     (\<forall>t fd s r. lookup (ds_map mp t) fd s = Some r \<longrightarrow>
        ds_fd (h r) = fd \<and> ds_stream_id (h r) = s \<and> m_type (h r) = t \<and> r \<notin> set (pool_list (mpool mp) (m_http (h r)))) \<and>
     (\<forall>t fd s r. lookup (us_map mp t) fd s = Some r \<longrightarrow>
        us_fd (h r) = fd \<and> us_stream_id (h r) = s \<and> lookup (ds_map mp t) (ds_fd (h r)) (ds_stream_id (h r)) = Some r) \<and>
     (\<forall>t i r. map_of (id_map mp t) i = Some r \<longrightarrow>
        local_id (h r) = i \<and> lookup (ds_map mp t) (ds_fd (h r)) (ds_stream_id (h r)) = Some r)"

lemma holders_zero:
  assumes "mapper_ok mp" "\<And>t fd s. lookup (ds_map mp t) fd s \<noteq> Some r" "\<And>t fd s. lookup (us_map mp t) fd s \<noteq> Some r"
    and "\<And>t i. map_of (id_map mp t) i \<noteq> Some r"
  shows "holders mp r = 0"
proof -
  have "r \<notin> set (table_refs (ds_map mp t))" "r \<notin> set (table_refs (us_map mp t))" for t
    using assms refs_iff by (auto simp: mapper_ok_def)
  moreover have "r \<notin> set (map snd (id_map mp t))" for t
    using assms(1,4) by (auto simp: mapper_ok_def)
  ultimately show ?thesis by (simp add: holders_def count_list_0_iff)
qed

lemma get_rpc_pop:
  assumes "pool_list p http = r # rs"
  shows "\<exists>p'. get_rpc h p s fd http t = Inr (r, h(r := (h r)\<lparr>ds_fd := fd, ds_stream_id := s, m_type := t\<rparr>), p') \<and>
    pool_list p' = (pool_list p)(http := rs)"
  using assms by (cases http) (auto simp: get_rpc_def pool_list_def fun_eq_iff split: http_version.splits)

lemma free_rpc_push:
  assumes "credit_return_queue (h r) = []"
  shows "\<exists>h' p'. free_rpc h p 0 r = Inr (h', p') \<and> clear (h r) = Inr (h' r) \<and> local_id (h' r) = -1 \<and> (\<forall>q. q \<noteq> r \<longrightarrow> h' q = h q) \<and>
    m_http (h' r) = m_http (h r) \<and> credit_return_queue (h' r) = [] \<and>
    pool_list p' = (pool_list p)(m_http (h r) := pool_list p (m_http (h r)) @ [r])"
proof -
  obtain m where m: "clear (h r) = Inr m" "m_http m = m_http (h r)" "credit_return_queue m = []" "local_id m = -1"
    using assms by (cases "m_http (h r)") (auto simp: clear_defs)
  have "pool_list (case m_http m of HTTP1 \<Rightarrow> p\<lparr>http_pool := http_pool p @ [r]\<rparr> | HTTP2 \<Rightarrow> p\<lparr>grpc_pool := grpc_pool p @ [r]\<rparr>) =
      (pool_list p)(m_http (h r) := pool_list p (m_http (h r)) @ [r])"
    unfolding m(2) by (cases "m_http (h r)") (auto simp: pool_list_def fun_eq_iff split: http_version.splits)
  then show ?thesis using m by (auto simp: free_rpc_def)
qed

end
