(* ===== verification/Rpc_Mapper_Correct.thy ===== *)
theory Rpc_Mapper_Correct
  imports Rpc_Mapper
begin

text \<open>
  The life cycle of a request in RPCMapper: allocation takes a message out of the pool, routing makes
  it findable from the upstream side and by its id, removal undoes both and returns it to the pool.
\<close>

lemma mapper_invD:
  assumes "mapper_inv h mp"
  shows "mapper_ok mp"
    and "distinct (pool_list (mpool mp) http)"
    and "r \<in> set (pool_list (mpool mp) http) \<Longrightarrow> m_http (h r) = http \<and> credit_return_queue (h r) = []"
    and "lookup (ds_map mp t) fd s = Some r \<Longrightarrow>
        ds_fd (h r) = fd \<and> ds_stream_id (h r) = s \<and> m_type (h r) = t \<and> r \<notin> set (pool_list (mpool mp) (m_http (h r)))"
    and "lookup (us_map mp t) fd s = Some r \<Longrightarrow>
        us_fd (h r) = fd \<and> us_stream_id (h r) = s \<and> lookup (ds_map mp t) (ds_fd (h r)) (ds_stream_id (h r)) = Some r"
    and "map_of (id_map mp t) i = Some r \<Longrightarrow>
        local_id (h r) = i \<and> lookup (ds_map mp t) (ds_fd (h r)) (ds_stream_id (h r)) = Some r"
  using assms unfolding mapper_inv_def by blast+

lemma mapper_invI:
  assumes "mapper_ok mp" "\<And>http. distinct (pool_list (mpool mp) http)"
    and "\<And>http r. r \<in> set (pool_list (mpool mp) http) \<Longrightarrow> m_http (h r) = http \<and> credit_return_queue (h r) = []"
    and "\<And>t fd s r. lookup (ds_map mp t) fd s = Some r \<Longrightarrow>
        ds_fd (h r) = fd \<and> ds_stream_id (h r) = s \<and> m_type (h r) = t \<and> r \<notin> set (pool_list (mpool mp) (m_http (h r)))"
    and "\<And>t fd s r. lookup (us_map mp t) fd s = Some r \<Longrightarrow>
        us_fd (h r) = fd \<and> us_stream_id (h r) = s \<and> lookup (ds_map mp t) (ds_fd (h r)) (ds_stream_id (h r)) = Some r"
    and "\<And>t i r. map_of (id_map mp t) i = Some r \<Longrightarrow>
        local_id (h r) = i \<and> lookup (ds_map mp t) (ds_fd (h r)) (ds_stream_id (h r)) = Some r"
  shows "mapper_inv h mp"
  unfolding mapper_inv_def using assms by blast

text \<open>A message of the pool is in no table.\<close>

lemma pooled_not_live:
  assumes inv: "mapper_inv h mp" and r: "r \<in> set (pool_list (mpool mp) http)"
  shows "lookup (ds_map mp t) fd s \<noteq> Some r" "lookup (us_map mp t) fd s \<noteq> Some r" "map_of (id_map mp t) i \<noteq> Some r"
proof -
  have http: "m_http (h r) = http" using mapper_invD(3) [OF inv r] by simp
  show ds: "lookup (ds_map mp t) fd s \<noteq> Some r" for fd s using mapper_invD(4) [OF inv, of t fd s r] r http by auto
  show "lookup (us_map mp t) fd s \<noteq> Some r" using mapper_invD(5) [OF inv, of t fd s r] ds by auto
  show "map_of (id_map mp t) i \<noteq> Some r" using mapper_invD(6) [OF inv, of t i r] ds by auto
qed

lemma allocate_ok:
  assumes inv: "mapper_inv h mp" and pool: "pool_list (mpool mp) http = r # rs"
    and fresh: "lookup (ds_map mp t) fd s = None"
  shows "\<exists>h1 mp1. allocate_rpc h mp t s fd http = Inr (r, h1, mp1) \<and> mapper_ok mp1 \<and>
    h1 = h(r := (h r)\<lparr>ds_fd := fd, ds_stream_id := s, m_type := t\<rparr>) \<and>
    (\<forall>t' fd' s'. lookup (ds_map mp1 t') fd' s' =
        (if t' = t \<and> fd' = fd \<and> s' = s then Some r else lookup (ds_map mp t') fd' s')) \<and>
    us_map mp1 = us_map mp \<and> id_map mp1 = id_map mp \<and>
    pool_list (mpool mp1) = (pool_list (mpool mp))(http := rs)"
proof -
  from get_rpc_pop [OF pool] obtain p' where
    g: "get_rpc h (mpool mp) s fd http t = Inr (r, h(r := (h r)\<lparr>ds_fd := fd, ds_stream_id := s, m_type := t\<rparr>), p')"
    "pool_list p' = (pool_list (mpool mp))(http := rs)" by blast
  let ?t = "table_open (ds_map mp t) fd"
  let ?mp1 = "mp\<lparr>ds_map := (ds_map mp)(t := table_emplace ?t fd s r), mpool := p'\<rparr>"
  have "allocate_rpc h mp t s fd http = Inr (r, h(r := (h r)\<lparr>ds_fd := fd, ds_stream_id := s, m_type := t\<rparr>), ?mp1)"
    using g(1) fresh by (simp add: allocate_rpc_def Let_def table_at_lookup)
  moreover have "lookup (table_emplace ?t fd s r) fd' s' = (if fd' = fd \<and> s' = s then Some r else lookup (ds_map mp t) fd' s')" for fd' s'
    using lookup_emplace [OF open_fd, of "ds_map mp t" fd s] fresh by simp
  moreover have "mapper_ok ?mp1" using mapper_invD(1) [OF inv] by (simp add: mapper_ok_def)
  ultimately show ?thesis using g(2) by auto
qed

text \<open>Routing adds one upstream key and one id, removal takes one key out of each table.\<close>

lemma route_ok:
  assumes ok: "mapper_ok mp" and ds: "lookup (ds_map mp t) fd s = Some r"
    and fresh: "map_of (id_map mp t) (local_id (h r)) = None" "lookup (us_map mp t) ufd us = None"
  shows "\<exists>mp2. mapper_route h mp t s fd us ufd = Inr mp2 \<and> mapper_ok mp2 \<and>
    ds_map mp2 = ds_map mp \<and> mpool mp2 = mpool mp \<and>
    (\<forall>t' fd' s'. lookup (us_map mp2 t') fd' s' =
        (if t' = t \<and> fd' = ufd \<and> s' = us then Some r else lookup (us_map mp t') fd' s')) \<and>
    (\<forall>t' i. map_of (id_map mp2 t') i = (if t' = t \<and> i = local_id (h r) then Some r else map_of (id_map mp t') i))"
proof -
  let ?mp2 = "mp\<lparr>id_map := (id_map mp)(t := AList.update (local_id (h r)) r (id_map mp t)),
                 us_map := (us_map mp)(t := table_emplace (table_open (us_map mp t) ufd) ufd us r)\<rparr>"
  have "mapper_route h mp t s fd us ufd = Inr ?mp2"
    using ds fresh(1) by (simp add: mapper_route_def Let_def table_at_lookup)
  moreover have "lookup (table_emplace (table_open (us_map mp t) ufd) ufd us r) fd' s' =
      (if fd' = ufd \<and> s' = us then Some r else lookup (us_map mp t) fd' s')" for fd' s'
    using lookup_emplace [OF open_fd, of "us_map mp t" ufd us] fresh(2) by simp
  moreover have "mapper_ok ?mp2" using ok by (auto simp: mapper_ok_def intro!: distinct_update)
  ultimately show ?thesis by (intro exI [of _ ?mp2]) (auto simp: update_conv')
qed

lemma remove_ok:
  assumes ok: "mapper_ok mp" and cq: "credit_return_queue (h r) = []"
    and keys: "lookup (us_map mp t) (us_fd (h r)) (us_stream_id (h r)) = Some r"
      "lookup (ds_map mp t) (ds_fd (h r)) (ds_stream_id (h r)) = Some r"
    and only: "\<And>t' fd s. lookup (us_map mp t') fd s = Some r \<Longrightarrow> t' = t \<and> fd = us_fd (h r) \<and> s = us_stream_id (h r)"
      "\<And>t' fd s. lookup (ds_map mp t') fd s = Some r \<Longrightarrow> t' = t \<and> fd = ds_fd (h r) \<and> s = ds_stream_id (h r)"
      "\<And>t' i. map_of (id_map mp t') i = Some r \<Longrightarrow> t' = t \<and> i = local_id (h r)"
  shows "\<exists>h3 mp3. remove_rpc h mp t 0 r = Inr (h3, mp3) \<and> mapper_ok mp3 \<and>
    (\<forall>t' fd s. lookup (us_map mp3 t') fd s =
        (if t' = t \<and> fd = us_fd (h r) \<and> s = us_stream_id (h r) then None else lookup (us_map mp t') fd s)) \<and>
    (\<forall>t' fd s. lookup (ds_map mp3 t') fd s =
        (if t' = t \<and> fd = ds_fd (h r) \<and> s = ds_stream_id (h r) then None else lookup (ds_map mp t') fd s)) \<and>
    (\<forall>t' i. map_of (id_map mp3 t') i = (if t' = t \<and> i = local_id (h r) then None else map_of (id_map mp t') i)) \<and>
    local_id (h3 r) = -1 \<and> m_http (h3 r) = m_http (h r) \<and> credit_return_queue (h3 r) = [] \<and> (\<forall>q. q \<noteq> r \<longrightarrow> h3 q = h q) \<and>
    pool_list (mpool mp3) = (pool_list (mpool mp))(m_http (h r) := pool_list (mpool mp) (m_http (h r)) @ [r])"
proof -
  obtain ut where ut: "table_erase (us_map mp t) (us_fd (h r)) (us_stream_id (h r)) = Inr ut"
    using erase_ok [OF map_of_None_lookup [OF keys(1)]] by blast
  obtain dt where dt: "table_erase (ds_map mp t) (ds_fd (h r)) (ds_stream_id (h r)) = Inr dt"
    using erase_ok [OF map_of_None_lookup [OF keys(2)]] by blast
  define mp' where "mp' = mp\<lparr>us_map := (us_map mp)(t := ut), ds_map := (ds_map mp)(t := dt),
                    id_map := (id_map mp)(t := AList.delete (local_id (h r)) (id_map mp t))\<rparr>"
  have us': "lookup (us_map mp' t') fd s =
      (if t' = t \<and> fd = us_fd (h r) \<and> s = us_stream_id (h r) then None else lookup (us_map mp t') fd s)" for t' fd s
    by (simp add: mp'_def lookup_erase [OF ut])
  have ds': "lookup (ds_map mp' t') fd s =
      (if t' = t \<and> fd = ds_fd (h r) \<and> s = ds_stream_id (h r) then None else lookup (ds_map mp t') fd s)" for t' fd s
    by (simp add: mp'_def lookup_erase [OF dt])
  have id': "map_of (id_map mp' t') i = (if t' = t \<and> i = local_id (h r) then None else map_of (id_map mp t') i)" for t' i
    by (simp add: mp'_def delete_conv')
  have ok': "mapper_ok mp'"
    using ok table_ok_erase [OF _ ut] table_ok_erase [OF _ dt] by (auto simp: mapper_ok_def mp'_def intro!: distinct_delete)
  have "lookup (ds_map mp' t') fd s \<noteq> Some r" "lookup (us_map mp' t') fd s \<noteq> Some r" "map_of (id_map mp' t') i \<noteq> Some r" for t' fd s i
    using only(1) [of t' fd s] only(2) [of t' fd s] only(3) [of t' i] unfolding us' ds' id' by (metis option.distinct(1))+
  then have "holders mp' r = 0" by (rule holders_zero [OF ok'])
  moreover from free_rpc_push [of h r "mpool mp", OF cq] obtain h3 p3 where
    f: "free_rpc h (mpool mp) 0 r = Inr (h3, p3)" "local_id (h3 r) = -1" "\<forall>q. q \<noteq> r \<longrightarrow> h3 q = h q"
    "m_http (h3 r) = m_http (h r)" "credit_return_queue (h3 r) = []"
    "pool_list p3 = (pool_list (mpool mp))(m_http (h r) := pool_list (mpool mp) (m_http (h r)) @ [r])" by metis
  ultimately have "remove_rpc h mp t 0 r = Inr (h3, mp'\<lparr>mpool := p3\<rparr>)"
    using ut dt by (simp add: remove_rpc_def Let_def mp'_def)
  moreover have "mapper_ok (mp'\<lparr>mpool := p3\<rparr>)" using ok' by (simp add: mapper_ok_def)
  ultimately show ?thesis
    using us' ds' id' f(2-6) by (intro exI [of _ h3] exI [of _ "mp'\<lparr>mpool := p3\<rparr>"]) simp
qed

text \<open>The invariant does not look at a pooled message beyond its class and its empty queue of returns.\<close>

lemma mapper_inv_pooled:
  assumes inv: "mapper_inv h mp" and r: "r \<in> set (pool_list (mpool mp) http)"
    and ok': "mapper_ok mp'"
    and tabs: "\<And>t. lookup (ds_map mp' t) = lookup (ds_map mp t)" "\<And>t. lookup (us_map mp' t) = lookup (us_map mp t)"
      "\<And>t. map_of (id_map mp' t) = map_of (id_map mp t)"
    and pools: "\<And>k. set (pool_list (mpool mp') k) = set (pool_list (mpool mp) k)" "\<And>k. distinct (pool_list (mpool mp') k)"
    and heap: "\<And>q. q \<noteq> r \<Longrightarrow> h' q = h q" "m_http (h' r) = http" "credit_return_queue (h' r) = []"
  shows "mapper_inv h' mp'"
proof (rule mapper_invI)
  note nl = pooled_not_live [OF inv r]
  show "mapper_ok mp'" "distinct (pool_list (mpool mp') k)" for k using ok' pools(2) by auto
  show "m_http (h' q) = k \<and> credit_return_queue (h' q) = []" if "q \<in> set (pool_list (mpool mp') k)" for k q
    using mapper_invD(3) [OF inv, of q k] mapper_invD(3) [OF inv r] that heap pools(1) by (cases "q = r") auto
  show "ds_fd (h' q) = fd \<and> ds_stream_id (h' q) = s \<and> m_type (h' q) = t \<and> q \<notin> set (pool_list (mpool mp') (m_http (h' q)))"
    if "lookup (ds_map mp' t) fd s = Some q" for t fd s q
    using mapper_invD(4) [OF inv, of t fd s q] nl(1) [of t fd s] that heap(1) [of q] pools(1) by (cases "q = r") (auto simp: tabs)
  show "us_fd (h' q) = fd \<and> us_stream_id (h' q) = s \<and> lookup (ds_map mp' t) (ds_fd (h' q)) (ds_stream_id (h' q)) = Some q"
    if "lookup (us_map mp' t) fd s = Some q" for t fd s q
    using mapper_invD(5) [OF inv, of t fd s q] nl(2) [of t fd s] that heap(1) [of q] by (cases "q = r") (auto simp: tabs)
  show "local_id (h' q) = i \<and> lookup (ds_map mp' t) (ds_fd (h' q)) (ds_stream_id (h' q)) = Some q"
    if "map_of (id_map mp' t) i = Some q" for t i q
    using mapper_invD(6) [OF inv, of t i q] nl(3) [of t i] that heap(1) [of q] by (cases "q = r") (auto simp: tabs)
qed

section \<open>Properties\<close>

text \<open>
  C22: a request allocated for a free downstream stream, given upstream ids and a local id not in use, and
  routed, is the one found from either side and by its id; removing it succeeds, leaves every table as it
  was before the allocation, and puts the cleared message back at the end of its pool. The tables and the
  pool stay consistent throughout.
\<close>

theorem mapper_life_cycle:
  assumes inv: "mapper_inv h mp" and pool: "pool_list (mpool mp) http = r # rs"
    and fresh: "lookup (ds_map mp t) fd s = None" "lookup (us_map mp t) ufd us = None" "map_of (id_map mp t) l = None"
  shows "\<exists>h1 mp1 mp2 h3 mp3. allocate_rpc h mp t s fd http = Inr (r, h1, mp1) \<and>
    get_ds_rpc mp1 t s fd = Inr r \<and>
    (let h2 = h1(r := (h1 r)\<lparr>us_fd := ufd, us_stream_id := us, local_id := l\<rparr>) in
     mapper_route h2 mp1 t s fd us ufd = Inr mp2 \<and> get_us_rpc mp2 t us ufd = Inr r \<and>
     map_of (id_map mp2 t) l = Some r \<and>
     remove_rpc h2 mp2 t 0 r = Inr (h3, mp3)) \<and>
    mapper_inv h3 mp3 \<and> local_id (h3 r) = -1 \<and>
    pool_list (mpool mp3) http = rs @ [r] \<and>
    (\<forall>t. lookup (ds_map mp3 t) = lookup (ds_map mp t) \<and> lookup (us_map mp3 t) = lookup (us_map mp t) \<and>
       map_of (id_map mp3 t) = map_of (id_map mp t))"
proof -
  have rp: "r \<in> set (pool_list (mpool mp) http)" using pool by simp
  note nl = pooled_not_live [OF inv rp]
  have http: "m_http (h r) = http" "credit_return_queue (h r) = []" using mapper_invD(3) [OF inv rp] by auto
  from allocate_ok [OF inv pool fresh(1)] obtain h1 mp1 where
    a: "allocate_rpc h mp t s fd http = Inr (r, h1, mp1)" "mapper_ok mp1"
    "h1 = h(r := (h r)\<lparr>ds_fd := fd, ds_stream_id := s, m_type := t\<rparr>)"
    "\<And>t' fd' s'. lookup (ds_map mp1 t') fd' s' = (if t' = t \<and> fd' = fd \<and> s' = s then Some r else lookup (ds_map mp t') fd' s')"
    "us_map mp1 = us_map mp" "id_map mp1 = id_map mp" "pool_list (mpool mp1) = (pool_list (mpool mp))(http := rs)" by metis
  define h2 where "h2 = h1(r := (h1 r)\<lparr>us_fd := ufd, us_stream_id := us, local_id := l\<rparr>)"
  have h2: "us_fd (h2 r) = ufd" "us_stream_id (h2 r) = us" "local_id (h2 r) = l" "ds_fd (h2 r) = fd" "ds_stream_id (h2 r) = s"
    "m_http (h2 r) = http" "credit_return_queue (h2 r) = []" "\<And>q. q \<noteq> r \<Longrightarrow> h2 q = h q"
    using http by (simp_all add: h2_def a(3))
  from route_ok [OF a(2), of t fd s r h2 ufd us] fresh obtain mp2 where
    b: "mapper_route h2 mp1 t s fd us ufd = Inr mp2" "mapper_ok mp2" "ds_map mp2 = ds_map mp1" "mpool mp2 = mpool mp1"
    "\<And>t' fd' s'. lookup (us_map mp2 t') fd' s' = (if t' = t \<and> fd' = ufd \<and> s' = us then Some r else lookup (us_map mp t') fd' s')"
    "\<And>t' i. map_of (id_map mp2 t') i = (if t' = t \<and> i = l then Some r else map_of (id_map mp t') i)"
    by (auto simp: a(4-6) h2(3))
  have keys: "lookup (us_map mp2 t) (us_fd (h2 r)) (us_stream_id (h2 r)) = Some r"
    "lookup (ds_map mp2 t) (ds_fd (h2 r)) (ds_stream_id (h2 r)) = Some r"
    by (simp_all add: h2 a(4) b(3,5))
  have only: "lookup (us_map mp2 t') fd' s' = Some r \<Longrightarrow> t' = t \<and> fd' = us_fd (h2 r) \<and> s' = us_stream_id (h2 r)"
    "lookup (ds_map mp2 t') fd' s' = Some r \<Longrightarrow> t' = t \<and> fd' = ds_fd (h2 r) \<and> s' = ds_stream_id (h2 r)"
    "map_of (id_map mp2 t') i = Some r \<Longrightarrow> t' = t \<and> i = local_id (h2 r)" for t' fd' s' i
    using nl by (simp_all add: h2 a(4) b(3,5,6) split: if_splits)
  from remove_ok [where h = h2 and r = r, OF b(2) h2(7) keys only] obtain h3 mp3 where
    c: "remove_rpc h2 mp2 t 0 r = Inr (h3, mp3)" "mapper_ok mp3"
    "\<And>t' fd' s'. lookup (us_map mp3 t') fd' s' = lookup (us_map mp t') fd' s'"
    "\<And>t' fd' s'. lookup (ds_map mp3 t') fd' s' = lookup (ds_map mp t') fd' s'"
    "\<And>t' i. map_of (id_map mp3 t') i = map_of (id_map mp t') i" "local_id (h3 r) = -1" "m_http (h3 r) = http"
    "credit_return_queue (h3 r) = []" "\<And>q. q \<noteq> r \<Longrightarrow> h3 q = h q" "pool_list (mpool mp3) = (pool_list (mpool mp))(http := rs @ [r])"
    by (auto simp: h2 a(4,7) b(3-6) fresh)
  have "mapper_inv h3 mp3"
    using mapper_invD(2) [OF inv] mapper_invD(2) [OF inv, of http, unfolded pool] pool by (intro mapper_inv_pooled [OF inv rp c(2)]) (auto simp: c fun_eq_iff split: if_splits)
  moreover have "get_ds_rpc mp1 t s fd = Inr r" "get_us_rpc mp2 t us ufd = Inr r"
    by (simp_all add: get_ds_rpc_def get_us_rpc_def table_at_lookup a(4) b(5))
  ultimately show ?thesis using a(1) b(1) c unfolding h2_def [symmetric] Let_def
    by (intro exI [of _ h1] exI [of _ mp1] exI [of _ mp2] exI [of _ h3] exI [of _ mp3]) (simp add: fun_eq_iff b(6) h2_def [symmetric])
qed

lemma small_mapper_inv:
  "mapper_inv (\<lambda>_. new_message HTTP2 0) (mapper_construct \<lparr>grpc_pool = [0, 1], http_pool = []\<rparr>)"
  by (auto simp: mapper_inv_def mapper_ok_def mapper_construct_def table_ok_def lookup_def pool_list_def
      new_message_def Let_def split: http_version.splits)

theorem mapper_life_cycle_witness:
  "\<exists>h1 mp1 mp2 h3 mp3.
     allocate_rpc (\<lambda>_. new_message HTTP2 0) (mapper_construct \<lparr>grpc_pool = [0, 1], http_pool = []\<rparr>) INGRESS 3 8 HTTP2 = Inr (0, h1, mp1) \<and>
     mapper_route (h1(0 := (h1 0)\<lparr>us_fd := 9, us_stream_id := 1, local_id := 5\<rparr>)) mp1 INGRESS 3 8 1 9 = Inr mp2 \<and>
     remove_rpc (h1(0 := (h1 0)\<lparr>us_fd := 9, us_stream_id := 1, local_id := 5\<rparr>)) mp2 INGRESS 0 0 = Inr (h3, mp3) \<and>
     pool_list (mpool mp3) HTTP2 = [1, 0]"
  using mapper_life_cycle [OF small_mapper_inv, of HTTP2 0 "[1]" INGRESS 8 3 9 1 5]
  by (auto simp: pool_list_def mapper_construct_def lookup_def Let_def)

text \<open>
  What RPCMapper refuses and what it does not notice. A second allocation for a live downstream stream
  and a second routing of a live local id stop the process; but when the upstream stream is already mapped,
  route drops the new mapping without a word (the result of the second emplace is not checked) and the
  response of that stream is looked up as the older request.
\<close>

theorem mapper_collisions:
  assumes "mapper_inv h mp"
  shows "(lookup (ds_map mp t) fd s \<noteq> None \<and> pool_list (mpool mp) http \<noteq> [] \<longrightarrow>
      (\<exists>msg. allocate_rpc h mp t s fd http = Inl (Fatal msg))) \<and>
    (lookup (ds_map mp t) fd s = Some r \<and> map_of (id_map mp t) (local_id (h r)) \<noteq> None \<longrightarrow>
      (\<exists>msg. mapper_route h mp t s fd us ufd = Inl (Fatal msg))) \<and>
    (lookup (ds_map mp t) fd s = Some r \<and> map_of (id_map mp t) (local_id (h r)) = None \<and>
       lookup (us_map mp t) ufd us = Some old \<longrightarrow>
      (\<exists>mp'. mapper_route h mp t s fd us ufd = Inr mp' \<and> get_us_rpc mp' t us ufd = Inr old))"
proof (intro conjI impI)
  assume a: "lookup (ds_map mp t) fd s \<noteq> None \<and> pool_list (mpool mp) http \<noteq> []"
  then obtain r' rs where "pool_list (mpool mp) http = r' # rs" by (cases "pool_list (mpool mp) http") auto
  from get_rpc_pop [OF this, of h s fd t] a show "\<exists>msg. allocate_rpc h mp t s fd http = Inl (Fatal msg)"
    by (auto simp: allocate_rpc_def Let_def table_at_lookup)
next
  assume "lookup (ds_map mp t) fd s = Some r \<and> map_of (id_map mp t) (local_id (h r)) \<noteq> None"
  then show "\<exists>msg. mapper_route h mp t s fd us ufd = Inl (Fatal msg)"
    by (auto simp: mapper_route_def Let_def table_at_lookup)
next
  assume a: "lookup (ds_map mp t) fd s = Some r \<and> map_of (id_map mp t) (local_id (h r)) = None \<and>
       lookup (us_map mp t) ufd us = Some old"
  then have "table_emplace (table_open (us_map mp t) ufd) ufd us r = table_open (us_map mp t) ufd"
    by (intro lookup_emplace_taken [of _ _ _ old]) simp
  then show "\<exists>mp'. mapper_route h mp t s fd us ufd = Inr mp' \<and> get_us_rpc mp' t us ufd = Inr old"
    using a by (simp add: mapper_route_def Let_def table_at_lookup get_us_rpc_def)
qed

theorem mapper_collisions_witness:
  "\<exists>msg. allocate_rpc (\<lambda>_. new_message HTTP2 0)
     ((mapper_construct \<lparr>grpc_pool = [1], http_pool = []\<rparr>)\<lparr>ds_map := (\<lambda>t. if t = INGRESS then [(-1, [(0, 0)])] else [])\<rparr>)
     INGRESS 0 (-1) HTTP2 = Inl (Fatal msg)"
proof -
  let ?mp = "(mapper_construct \<lparr>grpc_pool = [1], http_pool = []\<rparr>)\<lparr>ds_map := (\<lambda>t. if t = INGRESS then [(-1, [(0, 0)])] else [])\<rparr>"
  have "mapper_inv (\<lambda>_. new_message HTTP2 0) ?mp"
    by (auto simp: mapper_inv_def mapper_ok_def mapper_construct_def table_ok_def lookup_def pool_list_def
        new_message_def Let_def split: http_version.splits if_splits)
  from mapper_collisions [OF this, of INGRESS "-1" 0 HTTP2 0 0 0 0] show ?thesis
    by (simp add: lookup_def pool_list_def mapper_construct_def)
qed

end
