(* ===== verification/Stats.thy ===== *)
theory Stats
  imports Credit_Queue Rpc_Message
begin

text \<open>
  The estimators of src/stats.cc, include/stats.h and include/quantile_estimator.hpp and the class
  Stats that keeps one of each per service. Floating point values are reals, time points are integers
  in microseconds and are passed in where the code reads the clock; a not-a-number is \<open>None\<close>. The
  histogram of Utilization is a foreign library that is only logged, so it is left out, as are the descriptions and
  the log lines; the t-digest has a theory of its own, Tdigest.
\<close>

section \<open>Averages\<close>

record moving_average =
  ma_count :: nat
  ma_value :: real

definition ma_construct :: moving_average where
  "ma_construct = \<lparr>ma_count = 0, ma_value = 0\<rparr>"

definition ma_update :: "int \<Rightarrow> moving_average \<Rightarrow> moving_average" where
  "ma_update new_value m =
     (let c = (ma_count m + 1) mod 2 ^ 32
      in \<lparr>ma_count = c, ma_value = ma_value m + (of_int new_value - ma_value m) / of_nat c\<rparr>)"

record ema =
  ema_count :: nat
  ema_value :: real
  ema_alpha :: real
  ema_last_value :: int

text \<open>The constructor leaves \<open>last_value\<close> uninitialised; \<open>lv\<close> is what it holds.\<close>

definition ema_construct :: "int \<Rightarrow> ema" where
  "ema_construct lv = \<lparr>ema_count = 0, ema_value = 0, ema_alpha = 1 / 100, ema_last_value = lv\<rparr>"

definition ema_update :: "int \<Rightarrow> ema \<Rightarrow> ema" where
  "ema_update new_value e = e
     \<lparr>ema_count := (ema_count e + 1) mod 2 ^ 32, ema_last_value := new_value,
      ema_value := ema_alpha e * of_int new_value + (1 - ema_alpha e) * ema_value e\<rparr>"

definition ema_up :: "ema \<Rightarrow> ema" where
  "ema_up e = ema_update (ema_last_value e + 1) e"

definition ema_down :: "ema \<Rightarrow> ema result" where
  "ema_down e =
     (if ema_last_value e = 0 then Inl (Fatal ''Last value is 0, cannot decrement'')
      else Inr (ema_update (ema_last_value e - 1) e))"

definition ema_get_value_cap :: "real \<Rightarrow> real \<Rightarrow> ema \<Rightarrow> real" where
  "ema_get_value_cap lo hi e = max lo (min hi (ema_value e))"

section \<open>Counter\<close>

text \<open>The member \<open>mode2_credits\<close> of Stats is the only Counter; nothing changes it.\<close>

record counter =
  ct_count :: int

definition counter_construct :: counter where
  "counter_construct = \<lparr>ct_count = 0\<rparr>"

definition counter_up :: "int \<Rightarrow> counter \<Rightarrow> counter" where
  "counter_up v c = c\<lparr>ct_count := ct_count c + v\<rparr>"

definition counter_down :: "int \<Rightarrow> counter \<Rightarrow> counter" where
  "counter_down v c = c\<lparr>ct_count := ct_count c - v\<rparr>"

section \<open>Time-weighted mean\<close>

record tw_mean =
  tw_last_flush :: "int option"
  tw_last_t :: int
  tw_area :: real
  tw_last_x :: real

definition tw_construct :: tw_mean where
  "tw_construct = \<lparr>tw_last_flush = None, tw_last_t = 0, tw_area = 0, tw_last_x = 0\<rparr>"

text \<open>A duration in seconds.\<close>

definition seconds :: "int \<Rightarrow> real" where
  "seconds us = of_int us / 1000000"

definition tw_update :: "real \<Rightarrow> int \<Rightarrow> tw_mean \<Rightarrow> tw_mean" where
  "tw_update sample t m =
     (case tw_last_flush m of
        None \<Rightarrow> m\<lparr>tw_last_flush := Some t, tw_last_t := t, tw_last_x := sample\<rparr>
      | Some _ \<Rightarrow>
          let dt = seconds (t - tw_last_t m);
              area = (if dt > 0 then tw_area m + tw_last_x m * dt else tw_area m)
          in m\<lparr>tw_area := area, tw_last_x := sample, tw_last_t := t\<rparr>)"

definition tw_level :: "tw_mean \<Rightarrow> real" where
  "tw_level m = (if tw_last_flush m \<noteq> None then tw_last_x m else 0)"

definition tw_up :: "int \<Rightarrow> tw_mean \<Rightarrow> tw_mean" where
  "tw_up t m = tw_update (tw_level m + 1) t m"

definition tw_down :: "int \<Rightarrow> tw_mean \<Rightarrow> tw_mean result" where
  "tw_down t m =
     (if tw_level m - 1 < 0 then Inl (Fatal ''negative value in down method of TimeWeightedMean'')
      else Inr (tw_update (tw_level m - 1) t m))"

definition tw_read :: "int \<Rightarrow> tw_mean \<Rightarrow> real \<times> tw_mean" where
  "tw_read now m =
     (case tw_last_flush m of
        None \<Rightarrow> (0, m)
      | Some flush \<Rightarrow>
          if \<not> now > flush then (0, m)
          else
            let area = (if now > tw_last_t m then tw_area m + tw_last_x m * seconds (now - tw_last_t m) else tw_area m)
            in (area / seconds (now - flush),
                m\<lparr>tw_area := 0, tw_last_flush := Some now, tw_last_t := now\<rparr>))"

section \<open>Smoothed quantile\<close>

definition max_quantile_sorted_index :: "int \<Rightarrow> real \<Rightarrow> int" where
  "max_quantile_sorted_index n q =
     (if n \<le> 1 then max 0 (n - 1)
      else if q \<le> 0 then 0
      else if q \<ge> 1 then n - 1
      else let h = of_int (n - 1) * q in max \<lfloor>h\<rfloor> \<lceil>h\<rceil>)"

text \<open>
  The code sorts the prefix that the quantile reads; the order of the rest is not specified, and here
  it is sorted as well.
\<close>

definition partial_sort_for_quantile :: "real list \<Rightarrow> real \<Rightarrow> real list" where
  "partial_sort_for_quantile v q =
     (let n = length v in
      if n \<le> 1 then v
      else let need = nat (max_quantile_sorted_index (int n) q) + 1
           in if need \<ge> n then sort v else take need (sort v) @ drop need (sort v))"

definition quantile_sorted :: "real list \<Rightarrow> real \<Rightarrow> real option" where
  "quantile_sorted s q =
     (if s = [] then None
      else let n = int (length s) in
        if n = 1 then Some (s ! 0)
        else if q \<le> 0 then Some (s ! 0)
        else if q \<ge> 1 then Some (s ! nat (n - 1))
        else let h = of_int (n - 1) * q; lo = \<lfloor>h\<rfloor>; hi = \<lceil>h\<rceil>
             in if lo \<ge> hi then Some (s ! nat lo)
                else Some (s ! nat lo + (h - of_int lo) * (s ! nat hi - s ! nat lo)))"

record quantile_estimator =
  qe_alpha :: real
  qe_time_period :: int
  qe_sample_period :: nat
  qe_target_q :: real
  qe_buf :: "real list"
  qe_next_flush :: "int option"
  qe_smoothed :: "real option"
  qe_flush_updated :: bool

definition qe_construct :: quantile_estimator where
  "qe_construct =
     \<lparr>qe_alpha = 1 / 2, qe_time_period = 200000, qe_sample_period = 100, qe_target_q = 99 / 100,
      qe_buf = [], qe_next_flush = None, qe_smoothed = None, qe_flush_updated = False\<rparr>"

definition qe_flush_at :: "int \<Rightarrow> quantile_estimator \<Rightarrow> quantile_estimator" where
  "qe_flush_at now e =
     (if qe_buf e = [] then e\<lparr>qe_next_flush := Some (now + qe_time_period e)\<rparr>
      else
        let q = quantile_sorted (partial_sort_for_quantile (qe_buf e) (qe_target_q e)) (qe_target_q e);
            e' = e\<lparr>qe_buf := [], qe_next_flush := Some (now + qe_time_period e)\<rparr>
        in case q of
             None \<Rightarrow> e'
           | Some v \<Rightarrow> e'\<lparr>qe_smoothed := Some (case qe_smoothed e of
                 None \<Rightarrow> v | Some s \<Rightarrow> qe_alpha e * v + (1 - qe_alpha e) * s),
               qe_flush_updated := True\<rparr>)"

definition qe_update :: "real \<Rightarrow> int \<Rightarrow> quantile_estimator \<Rightarrow> quantile_estimator" where
  "qe_update sample now e =
     (let nf = (case qe_next_flush e of None \<Rightarrow> now + qe_time_period e | Some t \<Rightarrow> t);
          e1 = e\<lparr>qe_buf := qe_buf e @ [sample], qe_next_flush := Some nf\<rparr>
      in if length (qe_buf e1) \<ge> qe_sample_period e \<or> now \<ge> nf then qe_flush_at now e1 else e1)"

definition qe_flush_pending :: "int \<Rightarrow> quantile_estimator \<Rightarrow> quantile_estimator" where
  "qe_flush_pending now e = (if qe_buf e \<noteq> [] then qe_flush_at now e else e)"

definition qe_value :: "quantile_estimator \<Rightarrow> real" where
  "qe_value e = value_or (qe_smoothed e) 0"

definition qe_consume_flush_updated :: "quantile_estimator \<Rightarrow> bool \<times> quantile_estimator" where
  "qe_consume_flush_updated e = (qe_flush_updated e, e\<lparr>qe_flush_updated := False\<rparr>)"

section \<open>Utilization\<close>

record utilization =
  ut_total :: "real local_map"
  ut_last_in :: "nat local_map"
  ut_count :: "nat local_map"
  ut_period :: nat
  ut_last_update :: "int local_map"
  ut_last_report :: "int local_map"

definition ut_report :: "string \<Rightarrow> int \<Rightarrow> utilization \<Rightarrow> utilization result" where
  "ut_report service now u =
     bindR (lm_get (ut_last_report u) service) (\<lambda>_.
     bindR (lm_set (ut_total u) service 0) (\<lambda>total.
     bindR (lm_set (ut_count u) service 0) (\<lambda>count.
     bindR (lm_set (ut_last_in u) service 0) (\<lambda>last_in.
     bindR (lm_set (ut_last_report u) service now) (\<lambda>last_report.
       Inr (u\<lparr>ut_total := total, ut_count := count, ut_last_in := last_in, ut_last_report := last_report\<rparr>))))))"

definition ut_update :: "nat \<Rightarrow> string \<Rightarrow> int \<Rightarrow> utilization \<Rightarrow> utilization result" where
  "ut_update inl service now u =
     bindR (lm_get (ut_last_update u) service) (\<lambda>lu.
     bindR (lm_get (ut_last_in u) service) (\<lambda>li.
     bindR (lm_add (ut_total u) service (of_nat li * of_int (now - lu))) (\<lambda>total.
     bindR (lm_set (ut_last_in u) service inl) (\<lambda>last_in.
     bindR (lm_set (ut_last_update u) service now) (\<lambda>last_update.
     bindR (lm_add (ut_count u) service 1) (\<lambda>count.
       let u' = u\<lparr>ut_total := total, ut_last_in := last_in, ut_last_update := last_update, ut_count := count\<rparr>
       in bindR (lm_get count service) (\<lambda>c. if c \<ge> ut_period u then ut_report service now u' else Inr u')))))))"

definition set_all :: "string list \<Rightarrow> 'v \<Rightarrow> 'v local_map \<Rightarrow> 'v local_map result" where
  "set_all services v m = foldR (\<lambda>s m. lm_set m s v) services m"

definition ut_construct :: "nat \<Rightarrow> string list \<Rightarrow> int \<Rightarrow> utilization result" where
  "ut_construct period services now =
     bindR (lm_construct 0 services) (\<lambda>total.
     bindR (lm_construct 0 services) (\<lambda>last_in.
     bindR (lm_construct 0 services) (\<lambda>count.
     bindR (lm_construct 0 services) (\<lambda>times.
     bindR (set_all services now times) (\<lambda>times.
       Inr \<lparr>ut_total = total, ut_last_in = last_in, ut_count = count, ut_period = period,
            ut_last_update = times, ut_last_report = times\<rparr>)))))"

section \<open>Stats\<close>

record stats =
  ema_ds_service_time_us :: "ema local_map"
  ema_us_service_time_us :: "ema local_map"
  ema_us_sidecar_rtt_us :: "ema local_map"
  ema_ds_sidecar_rtt_us :: "ema local_map"
  tail_ds_service_time_us :: "quantile_estimator local_map"
  tail_e2e_time_us :: "quantile_estimator local_map"
  time_mean_ds_concurrency :: "tw_mean local_map"
  ema_wait_to_tx_us :: "ema local_map"

definition stats_construct :: "string list \<Rightarrow> string list \<Rightarrow> stats result" where
  "stats_construct ds_services us_services =
     bindR (lm_construct (ema_construct 0) ds_services) (\<lambda>ds.
     bindR (lm_construct (ema_construct 0) us_services) (\<lambda>us.
     bindR (lm_construct qe_construct ds_services) (\<lambda>tds.
     bindR (lm_construct qe_construct us_services) (\<lambda>tus.
     bindR (lm_construct tw_construct ds_services) (\<lambda>tw.
       Inr \<lparr>ema_ds_service_time_us = ds, ema_us_service_time_us = us, ema_us_sidecar_rtt_us = us,
            ema_ds_sidecar_rtt_us = ds, tail_ds_service_time_us = tds, tail_e2e_time_us = tus,
            time_mean_ds_concurrency = tw, ema_wait_to_tx_us = ds\<rparr>)))))"

definition report_latency :: "bool \<Rightarrow> rpc_message \<Rightarrow> int \<Rightarrow> stats \<Rightarrow> stats result" where
  "report_latency ingress_node m now st =
     (if m_error m then Inr st
      else case m_type m of
        EGRESS \<Rightarrow>
          if req_for_time m > now then Inl (Fatal ''Service time is negative'')
          else
            let t = to_int32 (now - req_for_time m) in
            bindR (lm_update (ema_ds_service_time_us st) (m_service m) (ema_update t)) (\<lambda>a.
            bindR (lm_update (tail_ds_service_time_us st) (m_service m) (qe_update (of_int t) now)) (\<lambda>b.
              let st' = st\<lparr>ema_ds_service_time_us := a, tail_ds_service_time_us := b\<rparr> in
              if \<not> ingress_node then Inr st'
              else if req_rcv_time m > now then Inl (Fatal ''Service time is negative'')
              else bindR (lm_update (tail_e2e_time_us st) (m_service m) (qe_update (of_int (now - req_rcv_time m)) now)) (\<lambda>c.
                     Inr (st'\<lparr>tail_e2e_time_us := c\<rparr>))))
      | INGRESS \<Rightarrow>
          if req_for_time m > now then Inl (Fatal ''Service time is negative'')
          else bindR (lm_update (ema_us_service_time_us st) (m_service m) (ema_update (to_int32 (now - req_for_time m)))) (\<lambda>a.
                 Inr (st\<lparr>ema_us_service_time_us := a\<rparr>)))"

section \<open>Laws of the averages\<close>

lemma ema_convex:
  assumes "0 \<le> ema_alpha e" "ema_alpha e \<le> 1" "lo \<le> ema_value e" "ema_value e \<le> hi" "lo \<le> of_int x" "of_int x \<le> hi"
  shows "lo \<le> ema_value (ema_update x e) \<and> ema_value (ema_update x e) \<le> hi"
proof -
  let ?a = "ema_alpha e"
  have "?a * lo + (1 - ?a) * lo \<le> ?a * of_int x + (1 - ?a) * ema_value e"
    using assms by (intro add_mono mult_left_mono) auto
  moreover have "?a * of_int x + (1 - ?a) * ema_value e \<le> ?a * hi + (1 - ?a) * hi"
    using assms by (intro add_mono mult_left_mono) auto
  ultimately show ?thesis by (simp add: ema_update_def algebra_simps)
qed

lemma ma_fold:
  assumes "ma_count m + length xs < 2 ^ 32"
  shows "ma_count (fold ma_update xs m) = ma_count m + length xs \<and>
    of_nat (ma_count m + length xs) * ma_value (fold ma_update xs m) =
      of_nat (ma_count m) * ma_value m + (\<Sum>x\<leftarrow>xs. of_int x)"
  using assms
proof (induction xs arbitrary: m)
  case (Cons x xs)
  let ?m = "ma_update x m"
  have c: "ma_count ?m = Suc (ma_count m)" using Cons.prems by (simp add: ma_update_def Let_def)
  have "of_nat (Suc (ma_count m)) * ma_value ?m = of_nat (ma_count m) * ma_value m + of_int x"
    using Cons.prems by (simp add: ma_update_def Let_def field_simps)
  then show ?case using Cons.IH [of ?m] Cons.prems c by (simp add: algebra_simps)
qed simp

text \<open>The integral of the level since the last flush, for updates at growing times.\<close>

fun integral :: "int \<Rightarrow> real \<Rightarrow> (int \<times> real) list \<Rightarrow> int \<Rightarrow> real" where
  "integral t x [] now = x * seconds (now - t)"
| "integral t x ((t', x') # us) now = x * seconds (t' - t) + integral t' x' us now"

definition tw_updates :: "(int \<times> real) list \<Rightarrow> tw_mean \<Rightarrow> tw_mean" where
  "tw_updates us m = fold (\<lambda>(t, x). tw_update x t) us m"

lemma seconds_pos: "0 < seconds d \<longleftrightarrow> 0 < d"
  by (simp add: seconds_def)

lemma tw_updates_integral:
  assumes "tw_last_flush m = Some f" "sorted_wrt (<) (tw_last_t m # map fst us @ [now])"
  shows "let m' = tw_updates us m in
    tw_last_flush m' = Some f \<and> tw_last_t m' < now \<and>
    tw_area m' + tw_last_x m' * seconds (now - tw_last_t m') = tw_area m + integral (tw_last_t m) (tw_last_x m) us now"
  using assms
proof (induction us arbitrary: m)
  case Nil
  then show ?case by (simp add: tw_updates_def)
next
  case (Cons u us)
  obtain t x where u: "u = (t, x)" by (cases u)
  let ?m = "tw_update x t m"
  have lt: "tw_last_t m < t" using Cons.prems(2) by (simp add: u)
  then have m: "tw_last_flush ?m = Some f" "tw_last_t ?m = t" "tw_last_x ?m = x"
    "tw_area ?m = tw_area m + tw_last_x m * seconds (t - tw_last_t m)"
    using Cons.prems(1) by (simp_all add: tw_update_def Let_def seconds_pos)
  have "sorted_wrt (<) (tw_last_t ?m # map fst us @ [now])" using Cons.prems(2) m(2) by (simp add: u)
  from Cons.IH [OF m(1) this] show ?case
    using m by (simp add: tw_updates_def u Let_def)
qed

lemma integral_bounds:
  assumes "sorted_wrt (<) (t # map fst us @ [now])" "lo \<le> x" "x \<le> hi" "\<forall>(t, x) \<in> set us. lo \<le> x \<and> x \<le> hi"
  shows "lo * seconds (now - t) \<le> integral t x us now \<and> integral t x us now \<le> hi * seconds (now - t)"
  using assms
proof (induction us arbitrary: t x)
  case Nil
  then have "0 \<le> seconds (now - t)" by (simp add: seconds_def)
  then show ?case using Nil by (auto intro: mult_right_mono)
next
  case (Cons u us)
  obtain t' x' where u: "u = (t', x')" by (cases u)
  have split: "seconds (now - t) = seconds (t' - t) + seconds (now - t')" by (simp add: seconds_def field_simps)
  have "0 \<le> seconds (t' - t)" using Cons.prems(1) by (simp add: u seconds_def)
  then have "lo * seconds (t' - t) \<le> x * seconds (t' - t)" "x * seconds (t' - t) \<le> hi * seconds (t' - t)"
    using Cons.prems(2,3) by (auto intro: mult_right_mono)
  moreover have "lo * seconds (now - t') \<le> integral t' x' us now \<and> integral t' x' us now \<le> hi * seconds (now - t')"
    using Cons.prems by (intro Cons.IH) (auto simp: u)
  ultimately show ?case by (simp add: u split algebra_simps)
qed

lemma interpolate:
  assumes "(a :: real) \<le> b" "0 \<le> w" "w \<le> 1"
  shows "a \<le> a + w * (b - a) \<and> a + w * (b - a) \<le> b"
proof -
  have "0 \<le> w * (b - a)" using assms by simp
  moreover have "w * (b - a) \<le> 1 * (b - a)" using assms by (intro mult_right_mono) auto
  ultimately show ?thesis by simp
qed

lemma quantile_index:
  assumes "0 < q" "q < 1" "1 < n"
  shows "0 \<le> \<lfloor>of_int (n - 1) * q\<rfloor> \<and> \<lceil>of_int (n - 1) * q\<rceil> \<le> n - 1 \<and>
    \<lfloor>of_int (n - 1) * q\<rfloor> \<le> \<lceil>of_int (n - 1) * q\<rceil>"
proof -
  have "of_int (n - 1) * q \<le> of_int (n - 1) * 1" using assms by (intro mult_left_mono) auto
  then have "\<lceil>of_int (n - 1) * q\<rceil> \<le> n - 1" by (intro ceiling_le) simp
  moreover have "0 \<le> of_int (n - 1) * q" using assms by simp
  ultimately show ?thesis by (simp add: floor_le_ceiling)
qed

lemma quantile_between:
  assumes "sorted s" "s \<noteq> []" "quantile_sorted s q = Some v"
  shows "s ! 0 \<le> v \<and> v \<le> s ! (length s - 1)"
proof -
  have mono: "i \<le> j \<Longrightarrow> j < length s \<Longrightarrow> s ! i \<le> s ! j" for i j using assms(1) by (simp add: sorted_iff_nth_mono)
  show ?thesis
  proof (cases "int (length s) = 1 \<or> q \<le> 0 \<or> q \<ge> 1")
    case True
    moreover have "nat (int (length s) - 1) = length s - 1" by linarith
    ultimately show ?thesis
      using assms(2,3) mono [of 0 "length s - 1"] by (auto simp: quantile_sorted_def Let_def split: if_splits)
  next
    case False
    define h where "h = of_int (int (length s) - 1) * q"
    have len: "1 < int (length s)" using False assms(2) by (cases "length s") auto
    have ix: "0 \<le> \<lfloor>h\<rfloor>" "\<lceil>h\<rceil> \<le> int (length s) - 1" "\<lfloor>h\<rfloor> \<le> \<lceil>h\<rceil>"
      using quantile_index [of q "int (length s)"] False len by (simp_all add: h_def)
    have lo: "nat \<lfloor>h\<rfloor> \<le> nat \<lceil>h\<rceil>" "nat \<lceil>h\<rceil> \<le> length s - 1" "nat \<lceil>h\<rceil> < length s" using ix len by linarith+
    have b: "s ! 0 \<le> s ! nat \<lfloor>h\<rfloor>" "s ! nat \<lfloor>h\<rfloor> \<le> s ! nat \<lceil>h\<rceil>" "s ! nat \<lceil>h\<rceil> \<le> s ! (length s - 1)"
      "s ! nat \<lfloor>h\<rfloor> \<le> s ! (length s - 1)"
      using lo by (auto intro!: mono)
    have "0 \<le> h - of_int \<lfloor>h\<rfloor>" "h - of_int \<lfloor>h\<rfloor> \<le> 1" by linarith+
    then have i: "s ! nat \<lfloor>h\<rfloor> \<le> s ! nat \<lfloor>h\<rfloor> + (h - of_int \<lfloor>h\<rfloor>) * (s ! nat \<lceil>h\<rceil> - s ! nat \<lfloor>h\<rfloor>)"
      "s ! nat \<lfloor>h\<rfloor> + (h - of_int \<lfloor>h\<rfloor>) * (s ! nat \<lceil>h\<rceil> - s ! nat \<lfloor>h\<rfloor>) \<le> s ! nat \<lceil>h\<rceil>"
      using interpolate [OF b(2)] by auto
    have "v = s ! nat \<lfloor>h\<rfloor> \<or> v = s ! nat \<lfloor>h\<rfloor> + (h - of_int \<lfloor>h\<rfloor>) * (s ! nat \<lceil>h\<rceil> - s ! nat \<lfloor>h\<rfloor>)"
      using assms(2,3) False len by (auto simp: quantile_sorted_def Let_def h_def split: if_splits)
    then show ?thesis using b i by auto
  qed
qed

end
