(* ===== verification/Stats_Correct.thy ===== *)
theory Stats_Correct
  imports Stats
begin

text \<open>
  What the estimators compute: the moving average is the mean, the exponential average and the smoothed
  quantile stay between the samples, the time-weighted mean is the integral of the level over the
  window divided by its length.
\<close>

definition qe_run :: "(real \<times> int) list \<Rightarrow> quantile_estimator \<Rightarrow> quantile_estimator" where
  "qe_run us e = fold (\<lambda>(x, now). qe_update x now) us e"

definition qe_within :: "real \<Rightarrow> real \<Rightarrow> quantile_estimator \<Rightarrow> bool" where
  "qe_within lo hi e \<longleftrightarrow> 0 \<le> qe_alpha e \<and> qe_alpha e \<le> 1 \<and> (\<forall>x\<in>set (qe_buf e). lo \<le> x \<and> x \<le> hi) \<and>
     (case qe_smoothed e of None \<Rightarrow> True | Some s \<Rightarrow> lo \<le> s \<and> s \<le> hi) \<and>
     length (qe_buf e) < max 1 (qe_sample_period e)"

lemma convex_between:
  assumes "0 \<le> (a :: real)" "a \<le> 1" "lo \<le> x" "x \<le> hi" "lo \<le> y" "y \<le> hi"
  shows "lo \<le> a * x + (1 - a) * y \<and> a * x + (1 - a) * y \<le> hi"
proof -
  have "a * lo + (1 - a) * lo \<le> a * x + (1 - a) * y" using assms by (intro add_mono mult_left_mono) auto
  moreover have "a * x + (1 - a) * y \<le> a * hi + (1 - a) * hi" using assms by (intro add_mono mult_left_mono) auto
  ultimately show ?thesis by (simp add: algebra_simps)
qed

lemma partial_sort: "partial_sort_for_quantile v q = sort v"
proof (cases "length v \<le> 1")
  case True
  then have "v = [] \<or> (\<exists>x. v = [x])" by (cases v) auto
  then show ?thesis by (auto simp: partial_sort_for_quantile_def)
qed (simp add: partial_sort_for_quantile_def Let_def)

lemma quantile_in_hull:
  assumes "v \<noteq> []" "\<forall>x\<in>set v. lo \<le> x \<and> x \<le> hi"
  shows "\<exists>m. quantile_sorted (partial_sort_for_quantile v q) q = Some m \<and> lo \<le> m \<and> m \<le> hi"
proof -
  have ne: "sort v \<noteq> []" using assms(1) by (metis length_0_conv length_sort)
  then have "quantile_sorted (sort v) q \<noteq> None" by (simp add: quantile_sorted_def Let_def)
  then obtain m where m: "quantile_sorted (sort v) q = Some m" by blast
  have "sort v ! 0 \<in> set v" "sort v ! (length (sort v) - 1) \<in> set v"
    using ne by (metis length_greater_0_conv nth_mem set_sort, metis diff_less length_greater_0_conv less_one nth_mem set_sort)
  then show ?thesis
    using quantile_between [OF sorted_sort ne m] assms(2) m unfolding partial_sort by fastforce
qed

lemma qe_flush_within:
  assumes "0 \<le> qe_alpha e" "qe_alpha e \<le> 1" "\<forall>x\<in>set (qe_buf e). lo \<le> x \<and> x \<le> hi" "qe_buf e \<noteq> []"
    "case qe_smoothed e of None \<Rightarrow> True | Some s \<Rightarrow> lo \<le> s \<and> s \<le> hi"
  shows "qe_within lo hi (qe_flush_at now e) \<and> qe_buf (qe_flush_at now e) = [] \<and>
    qe_flush_updated (qe_flush_at now e) \<and> qe_smoothed (qe_flush_at now e) \<noteq> None"
proof -
  from quantile_in_hull [OF assms(4,3), of "qe_target_q e"] obtain m where
    m: "quantile_sorted (partial_sort_for_quantile (qe_buf e) (qe_target_q e)) (qe_target_q e) = Some m" "lo \<le> m" "m \<le> hi"
    by blast
  then show ?thesis
    using assms convex_between [OF assms(1,2) m(2,3)]
    by (auto simp: qe_flush_at_def Let_def qe_within_def split: option.splits)
qed

lemma qe_update_within:
  assumes "qe_within lo hi e" "lo \<le> x" "x \<le> hi"
  shows "qe_within lo hi (qe_update x now e)"
proof -
  let ?nf = "case qe_next_flush e of None \<Rightarrow> now + qe_time_period e | Some t \<Rightarrow> t"
  let ?e = "e\<lparr>qe_buf := qe_buf e @ [x], qe_next_flush := Some ?nf\<rparr>"
  have "qe_within lo hi (qe_flush_at now ?e)"
    using assms qe_flush_within [of ?e lo hi now] by (auto simp: qe_within_def)
  then show ?thesis using assms by (auto simp: qe_update_def Let_def qe_within_def)
qed

section \<open>Properties\<close>

text \<open>After any samples (fewer than the range of the counter) a MovingAverage holds their mean.\<close>

theorem moving_average_is_mean:
  assumes "xs \<noteq> []" "length xs < 2 ^ 32"
  shows "ma_value (fold ma_update xs ma_construct) = (\<Sum>x\<leftarrow>xs. of_int x) / of_nat (length xs)"
  using ma_fold [of ma_construct xs] assms by (simp add: ma_construct_def field_simps)

theorem moving_average_is_mean_witness: "ma_value (fold ma_update [10, 20, 60] ma_construct) = 30"
  using moving_average_is_mean [of "[10, 20, 60]"] by simp

text \<open>
  An ExponentialMovingAverage with a weight between 0 and 1 never leaves the range of its samples
  and its start value, and counts its samples.
\<close>

theorem ema_stays_in_range:
  assumes "0 \<le> ema_alpha e" "ema_alpha e \<le> 1" "lo \<le> ema_value e" "ema_value e \<le> hi"
    and "\<forall>x\<in>set xs. lo \<le> of_int x \<and> of_int x \<le> hi" "ema_count e + length xs < 2 ^ 32"
  shows "lo \<le> ema_value (fold ema_update xs e) \<and> ema_value (fold ema_update xs e) \<le> hi \<and>
    ema_count (fold ema_update xs e) = ema_count e + length xs"
  using assms
proof (induction xs arbitrary: e)
  case (Cons x xs)
  then have "lo \<le> ema_value (ema_update x e) \<and> ema_value (ema_update x e) \<le> hi" by (intro ema_convex) auto
  moreover have "ema_count (ema_update x e) = Suc (ema_count e)" "ema_alpha (ema_update x e) = ema_alpha e"
    using Cons.prems(6) by (simp_all add: ema_update_def)
  ultimately show ?case using Cons.IH [of "ema_update x e"] Cons.prems by simp
qed simp

theorem ema_stays_in_range_witness:
  "0 \<le> ema_value (fold ema_update [250, 100, 300] (ema_construct 0)) \<and>
   ema_value (fold ema_update [250, 100, 300] (ema_construct 0)) \<le> 300"
  using ema_stays_in_range [of "ema_construct 0" 0 300 "[250, 100, 300]"] by (simp add: ema_construct_def)

text \<open>
  C33: reading a TimeWeightedMean returns the integral of the level since the last read divided by the
  elapsed time, so the result lies between the smallest and the largest level, and starts a new window.
\<close>

theorem time_weighted_mean_correct:
  assumes "tw_last_flush m = Some f" "tw_last_t m = f" "tw_area m = 0"
    and "sorted_wrt (<) (f # map fst us @ [now])"
    and "lo \<le> tw_last_x m" "tw_last_x m \<le> hi" "\<forall>(t, x) \<in> set us. lo \<le> x \<and> x \<le> hi"
  shows "let (v, m') = tw_read now (tw_updates us m) in
    v = integral f (tw_last_x m) us now / seconds (now - f) \<and> lo \<le> v \<and> v \<le> hi \<and>
    tw_last_flush m' = Some now \<and> tw_last_t m' = now \<and> tw_area m' = 0"
proof -
  have now: "f < now" using assms(4) by (auto simp: sorted_wrt_append)
  then have pos: "0 < seconds (now - f)" by (simp add: seconds_def)
  have u: "tw_last_flush (tw_updates us m) = Some f" "tw_last_t (tw_updates us m) < now"
    "tw_area (tw_updates us m) + tw_last_x (tw_updates us m) * seconds (now - tw_last_t (tw_updates us m)) =
      integral f (tw_last_x m) us now"
    using tw_updates_integral [OF assms(1), of us now] assms(2-4) by (auto simp: Let_def)
  have "lo * seconds (now - f) \<le> integral f (tw_last_x m) us now \<and> integral f (tw_last_x m) us now \<le> hi * seconds (now - f)"
    using assms(4-7) by (intro integral_bounds) auto
  then have "lo \<le> integral f (tw_last_x m) us now / seconds (now - f)"
    "integral f (tw_last_x m) us now / seconds (now - f) \<le> hi"
    using pos by (simp_all add: pos_le_divide_eq pos_divide_le_eq)
  then show ?thesis using u now by (simp add: tw_read_def Let_def)
qed

theorem time_weighted_mean_correct_witness:
  "fst (tw_read 4000000 (tw_updates [(1000000, 3), (3000000, 1)] (tw_update 2 0 tw_construct))) = 9 / 4"
  using time_weighted_mean_correct [of "tw_update 2 0 tw_construct" 0 "[(1000000, 3), (3000000, 1)]" 4000000 1 3]
  by (simp add: tw_update_def tw_construct_def Let_def seconds_def split: prod.splits)

text \<open>
  C34: the value of a SmoothedQuantileEstimator stays between the smallest and the largest sample. A
  sample that fills the batch or comes when the period is over empties the buffer and is announced by
  exactly one read of consume_flush_updated; any other sample only joins the buffer.
\<close>

theorem smoothed_quantile_in_range:
  assumes "qe_within lo hi e" "\<forall>(x, now) \<in> set us. lo \<le> x \<and> x \<le> hi" "lo \<le> x" "x \<le> hi"
  shows "let e1 = qe_run us e; e2 = qe_update x now e1;
      full = (Suc (length (qe_buf e1)) \<ge> qe_sample_period e1 \<or>
              now \<ge> (case qe_next_flush e1 of Some t \<Rightarrow> t | None \<Rightarrow> now + qe_time_period e1))
    in qe_within lo hi e2 \<and>
       (if full then qe_buf e2 = [] \<and> lo \<le> qe_value e2 \<and> qe_value e2 \<le> hi \<and>
          (let (first, e3) = qe_consume_flush_updated e2; (second, _) = qe_consume_flush_updated e3 in first \<and> \<not> second)
        else qe_buf e2 = qe_buf e1 @ [x] \<and> qe_value e2 = qe_value e1)"
proof -
  have w: "qe_within lo hi (qe_run us e)"
    using assms(1,2)
  proof (induction us arbitrary: e)
    case (Cons u us)
    then show ?case using qe_update_within [of lo hi e "fst u" "snd u"] by (auto simp: qe_run_def split: prod.splits)
  qed (simp add: qe_run_def)
  define e1 where "e1 = qe_run us e"
  let ?nf = "case qe_next_flush e1 of None \<Rightarrow> now + qe_time_period e1 | Some t \<Rightarrow> t"
  let ?e = "e1\<lparr>qe_buf := qe_buf e1 @ [x], qe_next_flush := Some ?nf\<rparr>"
  have w2: "qe_within lo hi (qe_update x now e1)" using qe_update_within w assms(3,4) by (simp add: e1_def)
  have f: "qe_within lo hi (qe_flush_at now ?e) \<and> qe_buf (qe_flush_at now ?e) = [] \<and>
    qe_flush_updated (qe_flush_at now ?e) \<and> qe_smoothed (qe_flush_at now ?e) \<noteq> None"
    using w assms(3,4) unfolding e1_def [symmetric] by (intro qe_flush_within) (auto simp: qe_within_def)
  then have "lo \<le> qe_value (qe_flush_at now ?e) \<and> qe_value (qe_flush_at now ?e) \<le> hi"
    by (auto simp: qe_within_def qe_value_def)
  then show ?thesis
    using f w2 unfolding e1_def [symmetric] Let_def
    by (auto simp: qe_update_def Let_def qe_consume_flush_updated_def qe_value_def)
qed

theorem smoothed_quantile_in_range_witness:
  "qe_within 5 90 (qe_update 20 250000 (qe_run [(5, 0), (90, 100000)] qe_construct)) \<and>
   qe_buf (qe_update 20 250000 (qe_run [(5, 0), (90, 100000)] qe_construct)) = []"
  using smoothed_quantile_in_range [of 5 90 qe_construct "[(5, 0), (90, 100000)]" 20 250000]
  by (simp add: qe_within_def qe_construct_def qe_run_def qe_update_def Let_def)

end
