(* ===== verification/Buffer_Manager.thy ===== *)
theory Buffer_Manager
  imports Buffer
begin

text \<open>
  UserData (include/ring_helper.hpp), BufferManager (src/buffer_manager.cc) and the part of RingWrapper
  that offers buffers to the kernel. Both buffer classes follow the same protocol with different index
  ranges, so the manager holds two pools: TCP buffers have the indices from 0, UDP buffers from
  \<open>count\<close>. A moved-from unique_ptr is \<open>None\<close>. The kernel's buffer ring is io_uring code: here it is
  the list of the indices offered to it.
\<close>

section \<open>UserData\<close>

datatype operation = OP_ACCEPT | OP_READ | OP_WRITE | OP_CONNECT | OP_CANCEL | OP_RCVMSG | OP_SENDMSG | OP_CLEAR

datatype udp_type = UDP_REQUEST | UDP_RESPONSE | UDP_CLEAR

record user_data =
  ud_buffer :: "buffer option"
  ud_in_ring :: bool
  ud_listener :: "nat option"
  ud_conn :: "nat option"
  ud_op :: operation
  ud_index :: nat
  ud_udp_type :: udp_type

definition new_user_data :: "nat \<Rightarrow> user_data" where
  "new_user_data i =
     \<lparr>ud_buffer = None, ud_in_ring = False, ud_listener = None, ud_conn = None, ud_op = OP_ACCEPT, ud_index = i,
      ud_udp_type = UDP_REQUEST\<rparr>"

definition ud_get_buffer :: "user_data \<Rightarrow> (buffer \<times> user_data) result" where
  "ud_get_buffer ud =
     (case ud_buffer ud of None \<Rightarrow> Inl (Fatal ''Buffer is null'') | Some b \<Rightarrow> Inr (b, ud\<lparr>ud_buffer := None\<rparr>))"

definition ud_set_buffer :: "buffer option \<Rightarrow> user_data \<Rightarrow> user_data result" where
  "ud_set_buffer b ud =
     (case b of None \<Rightarrow> Inl (Fatal ''Buffer cannot be null'') | Some b' \<Rightarrow> Inr (ud\<lparr>ud_buffer := Some b'\<rparr>))"

definition ud_clear :: "user_data \<Rightarrow> user_data result" where
  "ud_clear ud =
     (if ud_buffer ud \<noteq> None then Inl (Fatal ''Buffer is not null'')
      else Inr (ud\<lparr>ud_buffer := None, ud_listener := None, ud_conn := None, ud_op := OP_CLEAR,
                   ud_udp_type := UDP_CLEAR, ud_in_ring := False\<rparr>))"

section \<open>A pool of buffers\<close>

text \<open>
  \<open>bp_ring\<close> lists the buffers handed to the kernel by add_buffer_to_ring, the newest last; their
  unique_ptr stays in the vector until a completion names the index.
\<close>

record buf_pool =
  bp_base :: nat
  bp_vector :: "buffer option list"
  bp_free :: "nat list"
  bp_ring :: "nat list"

definition add_buffer_to_ring :: "nat \<Rightarrow> buf_pool \<Rightarrow> buf_pool" where
  "add_buffer_to_ring i p = p\<lparr>bp_ring := bp_ring p @ [i]\<rparr>"

text \<open>
  Moving the buffer out of slot \<open>i - base\<close> and the checks of the getters. Only the getters by index look
  for a null slot before they read it.
\<close>

definition take_slot :: "error \<Rightarrow> nat \<Rightarrow> buf_pool \<Rightarrow> (buffer \<times> buf_pool) result" where
  "take_slot if_null i p =
     bindR (vec_at (bp_vector p) (i - bp_base p)) (\<lambda>slot. case slot of
         None \<Rightarrow> Inl if_null
       | Some b \<Rightarrow>
           if \<not> buf_is_free b then Inl (Fatal ''Buffer is not free'')
           else Inr (b\<lparr>buf_is_free := False\<rparr>, p\<lparr>bp_vector := (bp_vector p)[i - bp_base p := None]\<rparr>))"

definition pool_get :: "buf_pool \<Rightarrow> (buffer \<times> buf_pool) result" where
  "pool_get p =
     (case bp_free p of
        [] \<Rightarrow> Inl (Fatal ''No free buffer available'')
      | i # rest \<Rightarrow> take_slot (Undefined ''null buffer'') i (p\<lparr>bp_free := rest\<rparr>))"

definition pool_get_by_index :: "nat \<Rightarrow> buf_pool \<Rightarrow> (buffer \<times> buf_pool) result" where
  "pool_get_by_index i p =
     (if i < bp_base p \<or> i \<ge> bp_base p + length (bp_vector p) then Inl (Fatal ''buffer id out of range'')
      else take_slot (Fatal ''Buffer is null'') i p)"

definition pool_free :: "buffer option \<Rightarrow> buf_pool \<Rightarrow> buf_pool result" where
  "pool_free mb p =
     (case mb of
        None \<Rightarrow> Inl (Fatal ''buffer cannot be null'')
      | Some b \<Rightarrow>
          if buf_is_free b then Inl (Fatal ''Buffer is already free'')
          else
            let b' = buffer_clear b; i = buf_index b' in
            bindR (vec_at (bp_vector p) (i - bp_base p)) (\<lambda>_.
              let p' = p\<lparr>bp_vector := (bp_vector p)[i - bp_base p := Some b']\<rparr>
              in Inr (if buf_is_provided b' then add_buffer_to_ring i p' else p'\<lparr>bp_free := bp_free p' @ [i]\<rparr>)))"

section \<open>The manager\<close>

record buffer_manager =
  bm_count :: nat
  bm_tcp :: buf_pool
  bm_udp :: buf_pool
  bm_user_data :: "nat \<Rightarrow> user_data"
  bm_user_data_queue :: "nat list"

text \<open>
  Buffer \<open>i\<close> of \<open>n\<close> is provided to the kernel while \<open>i < 0.8 * n\<close> (compared without rounding).
\<close>

definition provided_index :: "nat \<Rightarrow> nat \<Rightarrow> bool" where
  "provided_index n i \<longleftrightarrow> 10 * i < 8 * n"

definition init_pool :: "nat \<Rightarrow> nat \<Rightarrow> nat \<Rightarrow> buf_pool" where
  "init_pool base n len =
     \<lparr>bp_base = base,
      bp_vector = map (\<lambda>i. Some ((new_buffer len (base + i))\<lparr>buf_is_provided := provided_index n i\<rparr>)) [0..<n],
      bp_free = map ((+) base) (filter (\<lambda>i. \<not> provided_index n i) [0..<n]),
      bp_ring = map ((+) base) (filter (provided_index n) [0..<n])\<rparr>"

definition bm_construct :: "nat \<Rightarrow> nat \<Rightarrow> buffer_manager" where
  "bm_construct n len =
     \<lparr>bm_count = n, bm_tcp = init_pool 0 n len, bm_udp = init_pool n n 256,
      bm_user_data = new_user_data, bm_user_data_queue = [0..<n]\<rparr>"

definition get_buffer :: "buffer_manager \<Rightarrow> (buffer \<times> buffer_manager) result" where
  "get_buffer bm = bindR (pool_get (bm_tcp bm)) (\<lambda>(b, p). Inr (b, bm\<lparr>bm_tcp := p\<rparr>))"

definition get_buffer_by_index :: "nat \<Rightarrow> buffer_manager \<Rightarrow> (buffer \<times> buffer_manager) result" where
  "get_buffer_by_index i bm = bindR (pool_get_by_index i (bm_tcp bm)) (\<lambda>(b, p). Inr (b, bm\<lparr>bm_tcp := p\<rparr>))"

definition get_udp_buffer :: "buffer_manager \<Rightarrow> (buffer \<times> buffer_manager) result" where
  "get_udp_buffer bm = bindR (pool_get (bm_udp bm)) (\<lambda>(b, p). Inr (b, bm\<lparr>bm_udp := p\<rparr>))"

definition get_udp_buffer_by_index :: "nat \<Rightarrow> buffer_manager \<Rightarrow> (buffer \<times> buffer_manager) result" where
  "get_udp_buffer_by_index i bm = bindR (pool_get_by_index i (bm_udp bm)) (\<lambda>(b, p). Inr (b, bm\<lparr>bm_udp := p\<rparr>))"

definition free_buffer :: "buffer option \<Rightarrow> buffer_manager \<Rightarrow> buffer_manager result" where
  "free_buffer b bm = bindR (pool_free b (bm_tcp bm)) (\<lambda>p. Inr (bm\<lparr>bm_tcp := p\<rparr>))"

definition free_udp_buffer :: "buffer option \<Rightarrow> buffer_manager \<Rightarrow> buffer_manager result" where
  "free_udp_buffer b bm = bindR (pool_free b (bm_udp bm)) (\<lambda>p. Inr (bm\<lparr>bm_udp := p\<rparr>))"

definition get_user_data :: "buffer_manager \<Rightarrow> (nat \<times> buffer_manager) result" where
  "get_user_data bm =
     (case bm_user_data_queue bm of
        [] \<Rightarrow> Inl (Fatal ''No free user data available'')
      | i # rest \<Rightarrow> Inr (i, bm\<lparr>bm_user_data_queue := rest\<rparr>))"

definition free_user_data :: "nat option \<Rightarrow> buffer_manager \<Rightarrow> buffer_manager result" where
  "free_user_data ud bm =
     (case ud of
        None \<Rightarrow> Inl (Fatal ''UserData cannot be null'')
      | Some i \<Rightarrow>
          if ud_in_ring (bm_user_data bm i) then Inl (Fatal ''UserData is still in the ring, cannot free it'')
          else bindR (ud_clear (bm_user_data bm i)) (\<lambda>u.
            Inr (bm\<lparr>bm_user_data := (bm_user_data bm)(i := u), bm_user_data_queue := bm_user_data_queue bm @ [i]\<rparr>)))"

section \<open>Ownership\<close>

text \<open>
  \<open>own\<close> lists the buffers that are held outside the pool. Each slot of the vector is empty exactly when
  its buffer is held outside; the free queue and the kernel ring name disjoint full slots.
\<close>

definition pool_inv :: "buf_pool \<Rightarrow> buffer list \<Rightarrow> bool" where
  "pool_inv p own \<longleftrightarrow>
     distinct (bp_free p @ map buf_index own) \<and>
     (\<forall>i\<in>set (bp_free p). bp_base p \<le> i \<and> i - bp_base p < length (bp_vector p) \<and>
        (\<exists>b. bp_vector p ! (i - bp_base p) = Some b \<and> \<not> buf_is_provided b)) \<and>
     (\<forall>k < length (bp_vector p). case bp_vector p ! k of
        None \<Rightarrow> bp_base p + k \<in> set (map buf_index own)
      | Some b \<Rightarrow> buf_index b = bp_base p + k \<and> buf_is_free b \<and> buffer_ok b \<and> buf_filled b = 0) \<and>
     (\<forall>b\<in>set own. \<not> buf_is_free b \<and> buffer_ok b \<and> bp_base p \<le> buf_index b \<and>
        buf_index b - bp_base p < length (bp_vector p) \<and> bp_vector p ! (buf_index b - bp_base p) = None)"

lemma pool_invD:
  assumes "pool_inv p own"
  shows "distinct (bp_free p)" "distinct (map buf_index own)" "i \<in> set (bp_free p) \<Longrightarrow> i \<notin> set (map buf_index own)"
    and "i \<in> set (bp_free p) \<Longrightarrow> bp_base p \<le> i \<and> i - bp_base p < length (bp_vector p) \<and>
        (\<exists>b. bp_vector p ! (i - bp_base p) = Some b \<and> \<not> buf_is_provided b)"
    and "k < length (bp_vector p) \<Longrightarrow> bp_vector p ! k = None \<Longrightarrow> bp_base p + k \<in> set (map buf_index own)"
    and "k < length (bp_vector p) \<Longrightarrow> bp_vector p ! k = Some b \<Longrightarrow> buf_index b = bp_base p + k \<and> buf_is_free b \<and> buffer_ok b \<and> buf_filled b = 0"
    and "b \<in> set own \<Longrightarrow> \<not> buf_is_free b \<and> buffer_ok b \<and> bp_base p \<le> buf_index b \<and>
        buf_index b - bp_base p < length (bp_vector p) \<and> bp_vector p ! (buf_index b - bp_base p) = None"
  using assms unfolding pool_inv_def by (auto split: option.splits)

lemma take_slot_inv:
  assumes inv: "pool_inv p own" and i: "bp_base p \<le> i" "i - bp_base p < length (bp_vector p)"
    and slot: "bp_vector p ! (i - bp_base p) = Some b" and f: "set f \<subseteq> set (bp_free p) - {i}" "distinct f"
  shows "take_slot e i (p\<lparr>bp_free := f\<rparr>) =
      Inr (b\<lparr>buf_is_free := False\<rparr>, p\<lparr>bp_free := f, bp_vector := (bp_vector p)[i - bp_base p := None]\<rparr>) \<and>
    buf_index b = i \<and> i \<notin> set (map buf_index own) \<and>
    pool_inv (p\<lparr>bp_free := f, bp_vector := (bp_vector p)[i - bp_base p := None]\<rparr>) (b\<lparr>buf_is_free := False\<rparr> # own)"
proof -
  note D = pool_invD [OF inv]
  have b: "buf_index b = i" "buf_is_free b" "buffer_ok b" "buf_filled b = 0" using D(6) [OF i(2) slot] i(1) by auto
  have new: "i \<notin> set (map buf_index own)"
  proof
    assume "i \<in> set (map buf_index own)"
    then obtain o' where "o' \<in> set own" "buf_index o' = i" by auto
    with D(7) slot show False by auto
  qed
  let ?p = "p\<lparr>bp_free := f, bp_vector := (bp_vector p)[i - bp_base p := None]\<rparr>"
  have "pool_inv ?p (b\<lparr>buf_is_free := False\<rparr> # own)"
    unfolding pool_inv_def
  proof (intro conjI)
    show "distinct (bp_free ?p @ map buf_index (b\<lparr>buf_is_free := False\<rparr> # own))"
      using D(1-3) f new b(1) by auto
    show "\<forall>j\<in>set (bp_free ?p). bp_base ?p \<le> j \<and> j - bp_base ?p < length (bp_vector ?p) \<and>
        (\<exists>b. bp_vector ?p ! (j - bp_base ?p) = Some b \<and> \<not> buf_is_provided b)"
    proof
      fix j assume "j \<in> set (bp_free ?p)"
      then have j: "j \<in> set (bp_free p)" "j \<noteq> i" using f(1) by auto
      from D(4) [OF j(1)] j(2) i show "bp_base ?p \<le> j \<and> j - bp_base ?p < length (bp_vector ?p) \<and>
        (\<exists>b. bp_vector ?p ! (j - bp_base ?p) = Some b \<and> \<not> buf_is_provided b)"
        by (auto simp: nth_list_update)
    qed
    show "\<forall>k < length (bp_vector ?p). case bp_vector ?p ! k of
        None \<Rightarrow> bp_base ?p + k \<in> set (map buf_index (b\<lparr>buf_is_free := False\<rparr> # own))
      | Some b \<Rightarrow> buf_index b = bp_base ?p + k \<and> buf_is_free b \<and> buffer_ok b \<and> buf_filled b = 0"
      using D(5,6) i b(1) by (auto simp: nth_list_update split: option.splits)
    show "\<forall>b'\<in>set (b\<lparr>buf_is_free := False\<rparr> # own). \<not> buf_is_free b' \<and> buffer_ok b' \<and> bp_base ?p \<le> buf_index b' \<and>
        buf_index b' - bp_base ?p < length (bp_vector ?p) \<and> bp_vector ?p ! (buf_index b' - bp_base ?p) = None"
    proof
      fix b' assume "b' \<in> set (b\<lparr>buf_is_free := False\<rparr> # own)"
      then consider "b' = b\<lparr>buf_is_free := False\<rparr>" | "b' \<in> set own" by auto
      then show "\<not> buf_is_free b' \<and> buffer_ok b' \<and> bp_base ?p \<le> buf_index b' \<and>
        buf_index b' - bp_base ?p < length (bp_vector ?p) \<and> bp_vector ?p ! (buf_index b' - bp_base ?p) = None"
      proof cases
        case 1
        then show ?thesis using b i by (simp add: buffer_ok_def)
      next
        case 2
        from D(7) [OF 2] show ?thesis by (cases "buf_index b' - bp_base p = i - bp_base p") auto
      qed
    qed
  qed
  then show ?thesis using i slot b new by (simp add: take_slot_def)
qed

lemma pool_free_inv:
  assumes inv: "pool_inv p (own1 @ b # own2)"
  shows "\<exists>p'. pool_free (Some b) p = Inr p' \<and> pool_inv p' (own1 @ own2) \<and>
    bp_free p' = bp_free p @ (if buf_is_provided b then [] else [buf_index b]) \<and>
    bp_ring p' = bp_ring p @ (if buf_is_provided b then [buf_index b] else []) \<and> bp_base p' = bp_base p \<and>
    length (bp_vector p') = length (bp_vector p)"
proof -
  note D = pool_invD [OF inv]
  let ?i = "buf_index b" and ?b = "buffer_clear b"
  have b: "\<not> buf_is_free b" "buffer_ok b" "bp_base p \<le> ?i" "?i - bp_base p < length (bp_vector p)"
    using D(7) [of b] by auto
  have cl: "buf_index ?b = ?i" "buf_is_free ?b" "buffer_ok ?b" "buf_filled ?b = 0" "buf_is_provided ?b = buf_is_provided b"
    using b(2) by (simp_all add: buffer_clear_def buffer_clear_ok [unfolded buffer_clear_def])
  have fresh: "?i \<notin> set (map buf_index (own1 @ own2))" "?i \<notin> set (bp_free p)"
    using D(2) D(3) [of ?i] by auto
  define f where "f = bp_free p @ (if buf_is_provided b then [] else [?i])"
  define g where "g = bp_ring p @ (if buf_is_provided b then [?i] else [])"
  let ?p = "p\<lparr>bp_vector := (bp_vector p)[?i - bp_base p := Some ?b], bp_free := f, bp_ring := g\<rparr>"
  have eq: "pool_free (Some b) p = Inr ?p"
    using b(1,4) cl by (simp add: pool_free_def Let_def f_def g_def add_buffer_to_ring_def)
  have "pool_inv ?p (own1 @ own2)"
    unfolding pool_inv_def
  proof (intro conjI)
    show "distinct (bp_free ?p @ map buf_index (own1 @ own2))"
      using inv fresh by (auto simp: pool_inv_def f_def)
    show "\<forall>j\<in>set (bp_free ?p). bp_base ?p \<le> j \<and> j - bp_base ?p < length (bp_vector ?p) \<and>
        (\<exists>b. bp_vector ?p ! (j - bp_base ?p) = Some b \<and> \<not> buf_is_provided b)"
    proof
      fix j assume j: "j \<in> set (bp_free ?p)"
      show "bp_base ?p \<le> j \<and> j - bp_base ?p < length (bp_vector ?p) \<and>
        (\<exists>b. bp_vector ?p ! (j - bp_base ?p) = Some b \<and> \<not> buf_is_provided b)"
      proof (cases "j = ?i")
        case True
        then show ?thesis using j fresh(2) b cl by (auto simp: f_def split: if_splits)
      next
        case False
        then have "j \<in> set (bp_free p)" using j by (auto simp: f_def split: if_splits)
        from D(4) [OF this] False b(3,4) show ?thesis by (auto simp: nth_list_update)
      qed
    qed
    show "\<forall>k < length (bp_vector ?p). case bp_vector ?p ! k of
        None \<Rightarrow> bp_base ?p + k \<in> set (map buf_index (own1 @ own2))
      | Some b \<Rightarrow> buf_index b = bp_base ?p + k \<and> buf_is_free b \<and> buffer_ok b \<and> buf_filled b = 0"
    proof (intro allI impI)
      fix k assume "k < length (bp_vector ?p)"
      then have k: "k < length (bp_vector p)" by simp
      show "case bp_vector ?p ! k of None \<Rightarrow> bp_base ?p + k \<in> set (map buf_index (own1 @ own2))
        | Some b \<Rightarrow> buf_index b = bp_base ?p + k \<and> buf_is_free b \<and> buffer_ok b \<and> buf_filled b = 0"
      proof (cases "k = ?i - bp_base p")
        case True
        then show ?thesis using b cl by simp
      next
        case False
        then have nk: "bp_vector ?p ! k = bp_vector p ! k" by simp
        have ne: "bp_base p + k \<noteq> ?i" using False by auto
        show ?thesis
        proof (cases "bp_vector p ! k")
          case None
          from D(5) [OF k None] have "bp_base p + k \<in> set (map buf_index (own1 @ own2)) \<or> bp_base p + k = ?i" by auto
          then show ?thesis using ne nk None by simp
        next
          case (Some c)
          from D(6) [OF k Some] show ?thesis using nk Some by simp
        qed
      qed
    qed
    show "\<forall>b'\<in>set (own1 @ own2). \<not> buf_is_free b' \<and> buffer_ok b' \<and> bp_base ?p \<le> buf_index b' \<and>
        buf_index b' - bp_base ?p < length (bp_vector ?p) \<and> bp_vector ?p ! (buf_index b' - bp_base ?p) = None"
    proof
      fix b' assume b': "b' \<in> set (own1 @ own2)"
      then have "buf_index b' \<noteq> ?i" using fresh(1) by (metis image_eqI set_map)
      then show "\<not> buf_is_free b' \<and> buffer_ok b' \<and> bp_base ?p \<le> buf_index b' \<and>
        buf_index b' - bp_base ?p < length (bp_vector ?p) \<and> bp_vector ?p ! (buf_index b' - bp_base ?p) = None"
        using D(7) [of b'] b' b(3,4) by (auto simp: nth_list_update)
    qed
  qed
  then show ?thesis using eq by (simp add: f_def g_def)
qed

lemma init_pool_inv: "0 < len \<Longrightarrow> pool_inv (init_pool base n len) []"
  using new_buffer_ok [of len]
  by (auto simp: pool_inv_def init_pool_def distinct_map new_buffer_def buffer_ok_def)

end
