(* ===== verification/Buffer_Manager_Correct.thy ===== *)
theory Buffer_Manager_Correct
  imports Buffer_Manager
begin

text \<open>
  Properties of BufferManager over arbitrary sequences of its operations. The record \<open>holding\<close> adds to
  the manager what its callers hold: the buffers they moved out and the UserData objects they took.
\<close>

record holding =
  hd_bm :: buffer_manager
  hd_tcp :: "buffer list"
  hd_udp :: "buffer list"
  hd_ud :: "nat list"

datatype bm_op =
    Get_Tcp | Get_Tcp_At nat | Free_Tcp nat
  | Get_Udp | Get_Udp_At nat | Free_Udp nat
  | Get_UD | Free_UD nat | Fill_Udp nat nat

text \<open>The number of a free operation is the position of the object among those held.\<close>

definition remove_nth :: "nat \<Rightarrow> 'a list \<Rightarrow> 'a list" where
  "remove_nth k xs = take k xs @ drop (Suc k) xs"

fun bm_step :: "bm_op \<Rightarrow> holding \<Rightarrow> holding result" where
  "bm_step Get_Tcp s = bindR (get_buffer (hd_bm s)) (\<lambda>(b, bm). Inr (s\<lparr>hd_bm := bm, hd_tcp := b # hd_tcp s\<rparr>))"
| "bm_step (Get_Tcp_At i) s =
     bindR (get_buffer_by_index i (hd_bm s)) (\<lambda>(b, bm). Inr (s\<lparr>hd_bm := bm, hd_tcp := b # hd_tcp s\<rparr>))"
| "bm_step (Free_Tcp k) s =
     bindR (free_buffer (if k < length (hd_tcp s) then Some (hd_tcp s ! k) else None) (hd_bm s)) (\<lambda>bm.
       Inr (s\<lparr>hd_bm := bm, hd_tcp := remove_nth k (hd_tcp s)\<rparr>))"
| "bm_step Get_Udp s = bindR (get_udp_buffer (hd_bm s)) (\<lambda>(b, bm). Inr (s\<lparr>hd_bm := bm, hd_udp := b # hd_udp s\<rparr>))"
| "bm_step (Get_Udp_At i) s =
     bindR (get_udp_buffer_by_index i (hd_bm s)) (\<lambda>(b, bm). Inr (s\<lparr>hd_bm := bm, hd_udp := b # hd_udp s\<rparr>))"
| "bm_step (Free_Udp k) s =
     bindR (free_udp_buffer (if k < length (hd_udp s) then Some (hd_udp s ! k) else None) (hd_bm s)) (\<lambda>bm.
       Inr (s\<lparr>hd_bm := bm, hd_udp := remove_nth k (hd_udp s)\<rparr>))"
| "bm_step Get_UD s = bindR (get_user_data (hd_bm s)) (\<lambda>(u, bm). Inr (s\<lparr>hd_bm := bm, hd_ud := u # hd_ud s\<rparr>))"
| "bm_step (Free_UD k) s =
     bindR (free_user_data (if k < length (hd_ud s) then Some (hd_ud s ! k) else None) (hd_bm s)) (\<lambda>bm.
       Inr (s\<lparr>hd_bm := bm, hd_ud := remove_nth k (hd_ud s)\<rparr>))"
| "bm_step (Fill_Udp k f) s =
     (if k < length (hd_udp s)
      then bindR (set_filled (hd_udp s ! k) f) (\<lambda>b. Inr (s\<lparr>hd_udp := (hd_udp s)[k := b]\<rparr>)) else Inr s)"

definition bm_run :: "bm_op list \<Rightarrow> holding \<Rightarrow> holding result" where
  "bm_run ops s = foldR bm_step ops s"

definition bm_start :: "nat \<Rightarrow> nat \<Rightarrow> holding" where
  "bm_start n len = \<lparr>hd_bm = bm_construct n len, hd_tcp = [], hd_udp = [], hd_ud = []\<rparr>"

text \<open>Buffers keep the flag that the constructor gave them.\<close>

definition pool_flags :: "nat \<Rightarrow> buf_pool \<Rightarrow> buffer list \<Rightarrow> bool" where
  "pool_flags n p own \<longleftrightarrow> (\<forall>b. b \<in> set own \<or> Some b \<in> set (bp_vector p) \<longrightarrow>
     buf_is_provided b = provided_index n (buf_index b - bp_base p))"

definition pool_good :: "nat \<Rightarrow> nat \<Rightarrow> buf_pool \<Rightarrow> buffer list \<Rightarrow> bool" where
  "pool_good n base p own \<longleftrightarrow>
     pool_inv p own \<and> pool_flags n p own \<and> bp_base p = base \<and> length (bp_vector p) = n"

definition bm_inv :: "nat \<Rightarrow> holding \<Rightarrow> bool" where
  "bm_inv n s \<longleftrightarrow>
     pool_good n 0 (bm_tcp (hd_bm s)) (hd_tcp s) \<and> pool_good n n (bm_udp (hd_bm s)) (hd_udp s) \<and>
     distinct (bm_user_data_queue (hd_bm s) @ hd_ud s) \<and> set (bm_user_data_queue (hd_bm s) @ hd_ud s) = {..<n}"

section \<open>The getters on a pool\<close>

lemma take_slot_good:
  assumes good: "pool_good n base p own" and i: "base \<le> i" "i < base + n"
    and slot: "bp_vector p ! (i - base) = Some b" and f: "set f \<subseteq> set (bp_free p) - {i}" "distinct f"
  shows "\<exists>b' p'. take_slot e i (p\<lparr>bp_free := f\<rparr>) = Inr (b', p') \<and> buf_index b' = i \<and> buf_filled b' = 0 \<and>
    i \<notin> set (map buf_index own) \<and> pool_good n base p' (b' # own) \<and> bp_free p' = f"
proof -
  from good have g: "pool_inv p own" "pool_flags n p own" "bp_base p = base" "length (bp_vector p) = n"
    by (simp_all add: pool_good_def)
  have k: "i - bp_base p < length (bp_vector p)" using i g by simp
  from take_slot_inv [OF g(1) _ k _ f, of b e] i(1) slot g(3) have t:
    "take_slot e i (p\<lparr>bp_free := f\<rparr>) =
      Inr (b\<lparr>buf_is_free := False\<rparr>, p\<lparr>bp_free := f, bp_vector := (bp_vector p)[i - bp_base p := None]\<rparr>)"
    "buf_index b = i" "i \<notin> set (map buf_index own)"
    "pool_inv (p\<lparr>bp_free := f, bp_vector := (bp_vector p)[i - bp_base p := None]\<rparr>) (b\<lparr>buf_is_free := False\<rparr> # own)"
    by simp_all
  have filled: "buf_filled b = 0" using pool_invD(6) [OF g(1) k] slot g(3) by auto
  have mem: "Some b \<in> set (bp_vector p)" using slot k g(3) by (metis nth_mem)
  have "pool_flags n (p\<lparr>bp_free := f, bp_vector := (bp_vector p)[i - bp_base p := None]\<rparr>) (b\<lparr>buf_is_free := False\<rparr> # own)"
    using g(2) mem set_update_subset_insert [of "bp_vector p" "i - bp_base p" None]
    unfolding pool_flags_def by auto
  then show ?thesis using t filled g by (auto simp: pool_good_def)
qed

lemma pool_get_ok:
  assumes good: "pool_good n base p own" and free: "bp_free p = i # f"
  shows "\<exists>b p'. pool_get p = Inr (b, p') \<and> buf_index b = i \<and> buf_filled b = 0 \<and> i \<notin> set (map buf_index own) \<and>
    pool_good n base p' (b # own) \<and> bp_free p' = f"
proof -
  from good have g: "pool_inv p own" "bp_base p = base" "length (bp_vector p) = n" by (simp_all add: pool_good_def)
  note D = pool_invD [OF g(1)]
  have "i \<in> set (bp_free p)" using free by simp
  from D(4) [OF this] g obtain b where
    b: "base \<le> i" "i < base + n" "bp_vector p ! (i - base) = Some b" by auto
  have f: "set f \<subseteq> set (bp_free p) - {i}" "distinct f" using D(1) free by auto
  from take_slot_good [OF good b f] show ?thesis
    unfolding pool_get_def free by simp
qed

lemma pool_get_by_index_ok:
  assumes good: "pool_good n base p own" and i: "base \<le> i" "i < base + n" "provided_index n (i - base)"
    and own: "i \<notin> set (map buf_index own)"
  shows "\<exists>b p'. pool_get_by_index i p = Inr (b, p') \<and> buf_index b = i \<and> buf_filled b = 0 \<and>
    pool_good n base p' (b # own) \<and> bp_free p' = bp_free p"
proof -
  from good have g: "pool_inv p own" "pool_flags n p own" "bp_base p = base" "length (bp_vector p) = n"
    by (simp_all add: pool_good_def)
  note D = pool_invD [OF g(1)]
  have k: "i - bp_base p < length (bp_vector p)" using i g by simp
  have "bp_vector p ! (i - bp_base p) \<noteq> None"
  proof
    assume "bp_vector p ! (i - bp_base p) = None"
    from D(5) [OF k this] show False using own i(1) g(3) by simp
  qed
  then obtain b where b: "bp_vector p ! (i - base) = Some b" using g(3) by auto
  have "i \<notin> set (bp_free p)"
  proof
    assume "i \<in> set (bp_free p)"
    from D(4) [OF this] b g(3) have "\<not> buf_is_provided b" by auto
    moreover have "Some b \<in> set (bp_vector p)" using b k g(3) by (metis nth_mem)
    moreover have "buf_index b = i" using D(6) [OF k] b i(1) g(3) by auto
    ultimately show False using g(2,3) i(3) by (auto simp: pool_flags_def)
  qed
  then have f: "set (bp_free p) \<subseteq> set (bp_free p) - {i}" "distinct (bp_free p)" using D(1) by auto
  from take_slot_good [OF good i(1,2) b f, of "Fatal ''Buffer is null''"] i g show ?thesis
    by (auto simp: pool_get_by_index_def)
qed

lemma pool_get_by_index_owned:
  assumes good: "pool_good n base p own" and own: "i \<in> set (map buf_index own)"
  shows "\<exists>msg. pool_get_by_index i p = Inl (Fatal msg)"
proof -
  from own obtain b where b: "b \<in> set own" "buf_index b = i" by auto
  from pool_invD(7) [OF _ b(1)] good b(2) show ?thesis
    by (auto simp: pool_get_by_index_def take_slot_def pool_good_def)
qed

lemma pool_free_good:
  assumes good: "pool_good n base p own" and k: "k < length own"
  shows "\<exists>p'. pool_free (Some (own ! k)) p = Inr p' \<and> pool_good n base p' (remove_nth k own) \<and>
    bp_free p' = bp_free p @ (if provided_index n (buf_index (own ! k) - base) then [] else [buf_index (own ! k)]) \<and>
    bp_ring p' = bp_ring p @ (if provided_index n (buf_index (own ! k) - base) then [buf_index (own ! k)] else [])"
proof -
  from good have g: "pool_inv p own" "pool_flags n p own" "bp_base p = base" "length (bp_vector p) = n"
    by (simp_all add: pool_good_def)
  let ?b = "own ! k"
  have split: "own = take k own @ ?b # drop (Suc k) own" using k by (simp add: id_take_nth_drop)
  with g(1) have "pool_inv p (take k own @ ?b # drop (Suc k) own)" by simp
  from pool_free_inv [OF this] obtain p' where p': "pool_free (Some ?b) p = Inr p'"
    "pool_inv p' (remove_nth k own)" "bp_free p' = bp_free p @ (if buf_is_provided ?b then [] else [buf_index ?b])"
    "bp_ring p' = bp_ring p @ (if buf_is_provided ?b then [buf_index ?b] else [])"
    "bp_base p' = base" "length (bp_vector p') = n"
    using g by (auto simp: remove_nth_def)
  have prov: "buf_is_provided ?b = provided_index n (buf_index ?b - base)"
    using g(2,3) k by (auto simp: pool_flags_def)
  have sub: "set (remove_nth k own) \<subseteq> set own" by (auto simp: remove_nth_def dest: in_set_takeD in_set_dropD)
  have vec: "Some b \<in> set (bp_vector p') \<Longrightarrow> Some b \<in> set (bp_vector p) \<or> b = buffer_clear ?b" for b
    using p'(1) set_update_subset_insert [of "bp_vector p" "buf_index ?b - bp_base p" "Some (buffer_clear ?b)"]
    by (auto simp: pool_free_def Let_def add_buffer_to_ring_def vec_at_def buffer_clear_def split: if_splits)
  have "pool_flags n p' (remove_nth k own)"
    unfolding pool_flags_def
  proof (intro allI impI)
    fix b assume "b \<in> set (remove_nth k own) \<or> Some b \<in> set (bp_vector p')"
    then consider "b \<in> set own" | "Some b \<in> set (bp_vector p)" | "b = buffer_clear ?b" using sub vec by auto
    then show "buf_is_provided b = provided_index n (buf_index b - bp_base p')"
    proof cases
      case 3
      then show ?thesis using prov p'(5) by (simp add: buffer_clear_def)
    qed (use g(2,3) p'(5) in \<open>auto simp: pool_flags_def\<close>)
  qed
  then show ?thesis using p' prov by (auto simp: pool_good_def)
qed

lemma pool_fill_good:
  assumes good: "pool_good n base p own" and k: "k < length own" and b: "set_filled (own ! k) f = Inr b"
  shows "pool_good n base p (own[k := b])"
proof -
  have b': "b = (own ! k)\<lparr>buf_filled := f\<rparr>" "buffer_ok (own ! k) \<longrightarrow> buffer_ok b"
    using b set_filled_ok [OF _ b] by (auto simp: set_filled_def split: if_splits)
  have idx: "map buf_index (own[k := b]) = map buf_index own"
    using b'(1) k by (simp add: map_update list_update_same_conv)
  have mem: "c \<in> set (own[k := b]) \<Longrightarrow> c \<in> set own \<or> c = b" for c
    using set_update_subset_insert [of own k b] by auto
  have okk: "own ! k \<in> set own" using k by simp
  from good have g: "pool_inv p own" "pool_flags n p own" by (simp_all add: pool_good_def)
  have "pool_inv p (own[k := b])"
    using g(1) unfolding pool_inv_def idx
  proof (elim conjE, intro conjI)
    assume *: "\<forall>b\<in>set own. \<not> buf_is_free b \<and> buffer_ok b \<and> bp_base p \<le> buf_index b \<and>
      buf_index b - bp_base p < length (bp_vector p) \<and> bp_vector p ! (buf_index b - bp_base p) = None"
    show "\<forall>b\<in>set (own[k := b]). \<not> buf_is_free b \<and> buffer_ok b \<and> bp_base p \<le> buf_index b \<and>
      buf_index b - bp_base p < length (bp_vector p) \<and> bp_vector p ! (buf_index b - bp_base p) = None"
    proof
      fix c assume "c \<in> set (own[k := b])"
      from mem [OF this] show "\<not> buf_is_free c \<and> buffer_ok c \<and> bp_base p \<le> buf_index c \<and>
        buf_index c - bp_base p < length (bp_vector p) \<and> bp_vector p ! (buf_index c - bp_base p) = None"
        using bspec [OF * okk] * b' by auto
    qed
  qed
  moreover have "pool_flags n p (own[k := b])"
    unfolding pool_flags_def
  proof (intro allI impI)
    fix c assume "c \<in> set (own[k := b]) \<or> Some c \<in> set (bp_vector p)"
    then consider "c \<in> set own \<or> Some c \<in> set (bp_vector p)" | "c = b" using mem by auto
    then show "buf_is_provided c = provided_index n (buf_index c - bp_base p)"
      by cases (use g(2) okk b'(1) in \<open>auto simp: pool_flags_def\<close>)
  qed
  ultimately show ?thesis using good by (simp add: pool_good_def)
qed

lemma init_pool_good: "0 < len \<Longrightarrow> pool_good n base (init_pool base n len) []"
  using init_pool_inv [of len base n]
  by (auto simp: pool_good_def pool_flags_def init_pool_def new_buffer_def)


section \<open>Steps keep the invariant\<close>

text \<open>The kernel names only buffers that were offered to it.\<close>

fun bm_valid :: "nat \<Rightarrow> bm_op \<Rightarrow> bool" where
  "bm_valid n (Get_Tcp_At i) \<longleftrightarrow> i < n \<and> provided_index n i"
| "bm_valid n (Get_Udp_At i) \<longleftrightarrow> n \<le> i \<and> i < n + n \<and> provided_index n (i - n)"
| "bm_valid n _ \<longleftrightarrow> True"

lemma pool_get_empty: "bp_free p = [] \<Longrightarrow> pool_get p = Inl (Fatal ''No free buffer available'')"
  by (simp add: pool_get_def)

lemma pool_get_keeps:
  assumes "pool_good n base p own" "pool_get p = Inr (b, p')"
  shows "pool_good n base p' (b # own)"
proof (cases "bp_free p")
  case Nil
  then show ?thesis using assms(2) by (simp add: pool_get_empty)
next
  case (Cons i f)
  from pool_get_ok [OF assms(1) this] assms(2) show ?thesis by auto
qed

lemma pool_get_at_keeps:
  assumes "pool_good n base p own" "pool_get_by_index i p = Inr (b, p')" "base \<le> i" "i < base + n" "provided_index n (i - base)"
  shows "pool_good n base p' (b # own)"
proof (cases "i \<in> set (map buf_index own)")
  case True
  from pool_get_by_index_owned [OF assms(1) True] assms(2) show ?thesis by auto
next
  case False
  from pool_get_by_index_ok [OF assms(1,3-5) False] assms(2) show ?thesis by auto
qed

lemma pool_free_keeps:
  assumes "pool_good n base p own" "pool_free (if k < length own then Some (own ! k) else None) p = Inr p'"
  shows "pool_good n base p' (remove_nth k own)"
proof (cases "k < length own")
  case True
  from pool_free_good [OF assms(1) True] assms(2) True show ?thesis by auto
next
  case False
  then show ?thesis using assms(2) by (simp add: pool_free_def)
qed

lemma remove_nth_split: "k < length xs \<Longrightarrow> xs = take k xs @ xs ! k # drop (Suc k) xs"
  by (simp add: id_take_nth_drop)

lemma free_ud_keeps:
  assumes "distinct (q @ own)" "set (q @ own) = A" "k < length own"
  shows "distinct ((q @ [own ! k]) @ remove_nth k own)" "set ((q @ [own ! k]) @ remove_nth k own) = A"
proof -
  have s: "own = take k own @ own ! k # drop (Suc k) own" using assms(3) by (rule remove_nth_split)
  have d: "distinct (q @ take k own @ own ! k # drop (Suc k) own)" using assms(1) s by metis
  have e: "set (q @ take k own @ own ! k # drop (Suc k) own) = A" using assms(2) s by metis
  show "distinct ((q @ [own ! k]) @ remove_nth k own)" using d by (auto simp: remove_nth_def)
  show "set ((q @ [own ! k]) @ remove_nth k own) = A" using e by (auto simp: remove_nth_def)
qed

lemma bm_step_inv:
  assumes inv: "bm_inv n s" and ok: "bm_valid n op" and st: "bm_step op s = Inr s'"
  shows "bm_inv n s'"
proof -
  from inv have t: "pool_good n 0 (bm_tcp (hd_bm s)) (hd_tcp s)" and u: "pool_good n n (bm_udp (hd_bm s)) (hd_udp s)"
    and q: "distinct (bm_user_data_queue (hd_bm s) @ hd_ud s)" "set (bm_user_data_queue (hd_bm s) @ hd_ud s) = {..<n}"
    by (simp_all add: bm_inv_def)
  show ?thesis
  proof (cases op)
    case Get_Tcp
    then show ?thesis using st t u q pool_get_keeps [OF t] by (auto simp: get_buffer_def bm_inv_def)
  next
    case (Get_Tcp_At i)
    then show ?thesis using st ok t u q pool_get_at_keeps [OF t] by (auto simp: get_buffer_by_index_def bm_inv_def)
  next
    case (Free_Tcp k)
    then show ?thesis using st t u q pool_free_keeps [OF t] by (auto simp: free_buffer_def bm_inv_def)
  next
    case Get_Udp
    then show ?thesis using st t u q pool_get_keeps [OF u] by (auto simp: get_udp_buffer_def bm_inv_def)
  next
    case (Get_Udp_At i)
    then show ?thesis using st ok t u q pool_get_at_keeps [OF u] by (auto simp: get_udp_buffer_by_index_def bm_inv_def)
  next
    case (Free_Udp k)
    then show ?thesis using st t u q pool_free_keeps [OF u] by (auto simp: free_udp_buffer_def bm_inv_def)
  next
    case Get_UD
    then show ?thesis using st t u q by (auto simp: get_user_data_def bm_inv_def split: list.splits)
  next
    case (Free_UD k)
    then have k: "k < length (hd_ud s)" using st by (auto simp: free_user_data_def split: if_splits)
    have "bm_inv n s'" if "bm_user_data_queue (hd_bm s') = bm_user_data_queue (hd_bm s) @ [hd_ud s ! k]"
      "hd_ud s' = remove_nth k (hd_ud s)" "bm_tcp (hd_bm s') = bm_tcp (hd_bm s)" "bm_udp (hd_bm s') = bm_udp (hd_bm s)"
      "hd_tcp s' = hd_tcp s" "hd_udp s' = hd_udp s"
      using free_ud_keeps [OF q k] t u by (simp only: bm_inv_def that)
    moreover have "bm_user_data_queue (hd_bm s') = bm_user_data_queue (hd_bm s) @ [hd_ud s ! k] \<and>
      hd_ud s' = remove_nth k (hd_ud s) \<and> bm_tcp (hd_bm s') = bm_tcp (hd_bm s) \<and> bm_udp (hd_bm s') = bm_udp (hd_bm s) \<and>
      hd_tcp s' = hd_tcp s \<and> hd_udp s' = hd_udp s"
      using st Free_UD k by (auto simp: free_user_data_def split: if_splits)
    ultimately show ?thesis by blast
  next
    case (Fill_Udp k f)
    then show ?thesis using st t u q pool_fill_good [OF u] by (auto simp: bm_inv_def split: if_splits)
  qed
qed

lemma bm_run_inv: "bm_inv n s \<Longrightarrow> \<forall>op\<in>set ops. bm_valid n op \<Longrightarrow> bm_run ops s = Inr s' \<Longrightarrow> bm_inv n s'"
  unfolding bm_run_def by (erule foldR_inv) (auto intro: bm_step_inv)

lemma bm_start_inv: "0 < len \<Longrightarrow> bm_inv n (bm_start n len)"
  by (auto simp: bm_inv_def bm_start_def bm_construct_def init_pool_good)

section \<open>Properties\<close>

text \<open>
  C23: however the buffers and UserData objects are taken and given back, no object is ever handed out
  twice: the buffers held outside have pairwise different indices, TCP buffers below \<open>n\<close> and UDP buffers
  from \<open>n\<close> to \<open>2 * n - 1\<close>, none of them waits in a free queue, and every UserData object is either held
  or queued, exactly once.
\<close>

theorem buffers_never_shared:
  assumes "0 < len" "\<forall>op\<in>set ops. bm_valid n op" "bm_run ops (bm_start n len) = Inr s"
  shows "distinct (map buf_index (hd_tcp s)) \<and> distinct (map buf_index (hd_udp s)) \<and>
    (\<forall>b\<in>set (hd_tcp s). buf_index b < n \<and> \<not> buf_is_free b \<and> buffer_ok b \<and> buf_index b \<notin> set (bp_free (bm_tcp (hd_bm s)))) \<and>
    (\<forall>b\<in>set (hd_udp s). n \<le> buf_index b \<and> buf_index b < 2 * n \<and> \<not> buf_is_free b \<and> buffer_ok b \<and>
       buf_index b \<notin> set (bp_free (bm_udp (hd_bm s)))) \<and>
    distinct (bm_user_data_queue (hd_bm s) @ hd_ud s) \<and> set (bm_user_data_queue (hd_bm s) @ hd_ud s) = {..<n}"
proof -
  have inv: "bm_inv n s" using bm_run_inv [OF bm_start_inv [OF assms(1)] assms(2,3)] .
  then have t: "pool_inv (bm_tcp (hd_bm s)) (hd_tcp s)" "bp_base (bm_tcp (hd_bm s)) = 0" "length (bp_vector (bm_tcp (hd_bm s))) = n"
    and u: "pool_inv (bm_udp (hd_bm s)) (hd_udp s)" "bp_base (bm_udp (hd_bm s)) = n" "length (bp_vector (bm_udp (hd_bm s))) = n"
    and q: "distinct (bm_user_data_queue (hd_bm s) @ hd_ud s)" "set (bm_user_data_queue (hd_bm s) @ hd_ud s) = {..<n}"
    by (simp_all add: bm_inv_def pool_good_def)
  have "b \<in> set (hd_tcp s) \<Longrightarrow> buf_index b \<notin> set (bp_free (bm_tcp (hd_bm s)))" for b
    using pool_invD(3) [OF t(1), of "buf_index b"] by auto
  moreover have "b \<in> set (hd_udp s) \<Longrightarrow> buf_index b \<notin> set (bp_free (bm_udp (hd_bm s)))" for b
    using pool_invD(3) [OF u(1), of "buf_index b"] by auto
  moreover have "b \<in> set (hd_udp s) \<Longrightarrow> n \<le> buf_index b \<and> buf_index b < 2 * n" for b
    using pool_invD(7) [OF u(1), of b] u(2,3) by linarith
  ultimately show ?thesis
    using pool_invD(2) [OF t(1)] pool_invD(7) [OF t(1)] pool_invD(2) [OF u(1)] pool_invD(7) [OF u(1)] q t(2,3) u(2,3)
    by auto
qed



theorem buffers_never_shared_witness:
  "\<exists>s. bm_run [Get_Udp_At 6, Get_Udp, Get_UD, Free_Udp 1, Get_Udp_At 6] (bm_start 5 4) = Inr s \<and>
    distinct (map buf_index (hd_udp s)) \<and> map buf_index (hd_udp s) = [6, 9]"
proof -
  let ?ops = "[Get_Udp_At 6, Get_Udp, Get_UD, Free_Udp 1, Get_Udp_At 6]"
  have "case bm_run ?ops (bm_start 5 4) of Inl _ \<Rightarrow> False | Inr s \<Rightarrow> map buf_index (hd_udp s) = [6, 9]"
    by (simp add: bm_run_def bm_start_def bm_construct_def init_pool_def provided_index_def upt_rec
        get_udp_buffer_by_index_def pool_get_by_index_def take_slot_def get_udp_buffer_def pool_get_def get_user_data_def
        free_udp_buffer_def pool_free_def add_buffer_to_ring_def remove_nth_def del: bindR_eq_Inr)
  then obtain s where s: "bm_run ?ops (bm_start 5 4) = Inr s" "map buf_index (hd_udp s) = [6, 9]"
    by (cases "bm_run ?ops (bm_start 5 4)") (simp_all only: sum.case)
  moreover have "distinct (map buf_index (hd_udp s))"
    by (rule buffers_never_shared [OF _ _ s(1), THEN conjunct2, THEN conjunct1]) (simp_all add: provided_index_def)
  ultimately show ?thesis by (intro exI [of _ s] conjI)
qed

text \<open>
  What the three operations on one class of buffers promise to a caller that holds the buffers \<open>own\<close>, whose
  pool is \<open>pool bm\<close>; \<open>upd p bm\<close> is the manager with this pool replaced, so nothing else of it changes.
\<close>

definition empty_held :: "nat \<Rightarrow> buffer \<Rightarrow> bool" where
  "empty_held i b \<longleftrightarrow> buf_index b = i \<and> buf_filled b = 0 \<and> \<not> buf_is_free b"

definition life_cycle ::
    "nat \<Rightarrow> nat \<Rightarrow> ('m \<Rightarrow> buf_pool) \<Rightarrow> (buf_pool \<Rightarrow> 'm \<Rightarrow> 'm) \<Rightarrow> ('m \<Rightarrow> (buffer \<times> 'm) result) \<Rightarrow>
     (nat \<Rightarrow> 'm \<Rightarrow> (buffer \<times> 'm) result) \<Rightarrow> (buffer option \<Rightarrow> 'm \<Rightarrow> 'm result) \<Rightarrow> 'm \<Rightarrow> buffer list \<Rightarrow> bool" where
  "life_cycle n base pool upd get get_at free bm own \<longleftrightarrow>
     (case bp_free (pool bm) of
        [] \<Rightarrow> \<exists>msg. get bm = Inl (Fatal msg)
      | i # f \<Rightarrow> i \<notin> set (map buf_index own) \<and>
          (\<exists>b p. get bm = Inr (b, upd p bm) \<and> empty_held i b \<and> bp_free p = f \<and> bp_ring p = bp_ring (pool bm))) \<and>
     (\<forall>i. i < base \<or> base + n \<le> i \<or> i \<in> set (map buf_index own) \<longrightarrow> (\<exists>msg. get_at i bm = Inl (Fatal msg))) \<and>
     (\<forall>i. base \<le> i \<and> i < base + n \<and> provided_index n (i - base) \<and> i \<notin> set (map buf_index own) \<longrightarrow>
        (\<exists>b p. get_at i bm = Inr (b, upd p bm) \<and> empty_held i b \<and> bp_free p = bp_free (pool bm))) \<and>
     (\<forall>k<length own. let b = own ! k; i = buf_index b; kernels = provided_index n (i - base) in
        \<exists>p b' bm'. free (Some b) bm = Inr (upd p bm) \<and>
          bp_ring p = bp_ring (pool bm) @ (if kernels then [i] else []) \<and>
          bp_free p = bp_free (pool bm) @ (if kernels then [] else [i]) \<and>
          get_at i (upd p bm) = Inr (b', bm') \<and> empty_held i b' \<and> buf_msg b' = None \<and> buf_addr b' = no_addr \<and>
          buf_data b' = buf_data b) \<and>
     (\<forall>b. buf_is_free b \<longrightarrow> (\<exists>msg. free (Some b) bm = Inl (Fatal msg))) \<and>
     (\<exists>msg. free None bm = Inl (Fatal msg))"

lemma take_slot_ring: "take_slot e i p = Inr (b, p') \<Longrightarrow> bp_ring p' = bp_ring p"
  by (auto simp: take_slot_def split: option.splits if_splits)

lemma pool_get_empty_held:
  assumes good: "pool_good n base p own" and free: "bp_free p = i # f"
  shows "i \<notin> set (map buf_index own) \<and>
    (\<exists>b p'. pool_get p = Inr (b, p') \<and> empty_held i b \<and> bp_free p' = f \<and> bp_ring p' = bp_ring p)"
proof -
  from pool_get_ok [OF good free] obtain b p' where g: "pool_get p = Inr (b, p')" "buf_index b = i" "buf_filled b = 0"
      "i \<notin> set (map buf_index own)" "pool_good n base p' (b # own)" "bp_free p' = f" by blast
  have "\<not> buf_is_free b" using pool_invD(7) [of p' "b # own" b] g(5) by (simp add: pool_good_def)
  moreover have "bp_ring p' = bp_ring p" using g(1) free by (auto simp: pool_get_def dest: take_slot_ring)
  ultimately show ?thesis using g by (auto simp: empty_held_def)
qed

lemma pool_get_at_empty_held:
  assumes good: "pool_good n base p own" and i: "base \<le> i" "i < base + n" "provided_index n (i - base)"
    and own: "i \<notin> set (map buf_index own)"
  shows "\<exists>b p'. pool_get_by_index i p = Inr (b, p') \<and> empty_held i b \<and> bp_free p' = bp_free p"
proof -
  from pool_get_by_index_ok [OF assms] obtain b p' where g: "pool_get_by_index i p = Inr (b, p')" "buf_index b = i"
      "buf_filled b = 0" "pool_good n base p' (b # own)" "bp_free p' = bp_free p" by blast
  have "\<not> buf_is_free b" using pool_invD(7) [of p' "b # own" b] g(4) by (simp add: pool_good_def)
  then show ?thesis using g by (auto simp: empty_held_def)
qed

lemma pool_get_at_fails:
  assumes good: "pool_good n base p own" and i: "i < base \<or> base + n \<le> i \<or> i \<in> set (map buf_index own)"
  shows "\<exists>msg. pool_get_by_index i p = Inl (Fatal msg)"
proof (cases "i \<in> set (map buf_index own)")
  case True
  from pool_get_by_index_owned [OF good True] show ?thesis .
next
  case False
  then show ?thesis using i good by (auto simp: pool_get_by_index_def pool_good_def)
qed

text \<open>A freed buffer stands cleared in its slot, where a getter finds it.\<close>

lemma pool_free_back:
  assumes good: "pool_good n base p own" and k: "k < length own" and f: "pool_free (Some (own ! k)) p = Inr p'"
  shows "\<exists>b p2. pool_get_by_index (buf_index (own ! k)) p' = Inr (b, p2) \<and> empty_held (buf_index (own ! k)) b \<and>
    buf_msg b = None \<and> buf_addr b = no_addr \<and> buf_data b = buf_data (own ! k)"
proof -
  let ?b = "own ! k" and ?i = "buf_index (own ! k)"
  have "?b \<in> set own" using k by simp
  from pool_invD(7) [OF _ this] good have b: "base \<le> ?i" "?i - base < length (bp_vector p)" "bp_base p = base"
    by (auto simp: pool_good_def)
  have p': "bp_vector p' = (bp_vector p)[?i - base := Some (buffer_clear ?b)]" "bp_base p' = base"
    using f b by (auto simp: pool_free_def Let_def add_buffer_to_ring_def split: if_splits)
  have "pool_get_by_index ?i p' = Inr ((buffer_clear ?b)\<lparr>buf_is_free := False\<rparr>, p'\<lparr>bp_vector := (bp_vector p')[?i - base := None]\<rparr>)"
    using b p' by (simp add: pool_get_by_index_def take_slot_def)
  then show ?thesis by (simp add: empty_held_def buffer_clear_def)
qed

lemma life_cycleI:
  assumes good: "pool_good n base (pool bm) own"
    and get: "\<And>bm. get bm = bindR (pool_get (pool bm)) (\<lambda>(b, p). Inr (b, upd p bm))"
    and get_at: "\<And>i bm. get_at i bm = bindR (pool_get_by_index i (pool bm)) (\<lambda>(b, p). Inr (b, upd p bm))"
    and free: "\<And>b bm. free b bm = bindR (pool_free b (pool bm)) (\<lambda>p. Inr (upd p bm))"
    and upd: "\<And>p bm. pool (upd p bm) = p"
  shows "life_cycle n base pool upd get get_at free bm own"
  unfolding life_cycle_def Let_def
proof (intro conjI allI impI)
  show "case bp_free (pool bm) of [] \<Rightarrow> \<exists>msg. get bm = Inl (Fatal msg)
    | i # f \<Rightarrow> i \<notin> set (map buf_index own) \<and>
        (\<exists>b p. get bm = Inr (b, upd p bm) \<and> empty_held i b \<and> bp_free p = f \<and> bp_ring p = bp_ring (pool bm))"
    using pool_get_empty_held [OF good] by (fastforce simp: get pool_get_empty split: list.split)
next
  fix i assume "i < base \<or> base + n \<le> i \<or> i \<in> set (map buf_index own)"
  from pool_get_at_fails [OF good this] show "\<exists>msg. get_at i bm = Inl (Fatal msg)" by (auto simp: get_at)
next
  fix i assume "base \<le> i \<and> i < base + n \<and> provided_index n (i - base) \<and> i \<notin> set (map buf_index own)"
  then show "\<exists>b p. get_at i bm = Inr (b, upd p bm) \<and> empty_held i b \<and> bp_free p = bp_free (pool bm)"
    using pool_get_at_empty_held [OF good, of i] by (fastforce simp: get_at)
next
  fix k assume k: "k < length own"
  let ?i = "buf_index (own ! k)"
  from pool_free_good [OF good k] obtain p where p: "pool_free (Some (own ! k)) (pool bm) = Inr p"
      "bp_free p = bp_free (pool bm) @ (if provided_index n (?i - base) then [] else [?i])"
      "bp_ring p = bp_ring (pool bm) @ (if provided_index n (?i - base) then [?i] else [])" by blast
  from pool_free_back [OF good k p(1)] obtain b' p2 where "pool_get_by_index ?i p = Inr (b', p2)" "empty_held ?i b'"
      "buf_msg b' = None" "buf_addr b' = no_addr" "buf_data b' = buf_data (own ! k)" by blast
  then show "\<exists>p b' bm'. free (Some (own ! k)) bm = Inr (upd p bm) \<and>
      bp_ring p = bp_ring (pool bm) @ (if provided_index n (?i - base) then [?i] else []) \<and>
      bp_free p = bp_free (pool bm) @ (if provided_index n (?i - base) then [] else [?i]) \<and>
      get_at ?i (upd p bm) = Inr (b', bm') \<and> empty_held ?i b' \<and> buf_msg b' = None \<and> buf_addr b' = no_addr \<and>
      buf_data b' = buf_data (own ! k)"
    using p by (intro exI [of _ p] exI [of _ b'] exI [of _ "upd p2 (upd p bm)"]) (simp add: free get_at upd)
qed (simp_all add: free pool_free_def)

text \<open>
  C24: in every state that is reached from construction by operations in which the kernel names only buffers
  offered to it, both classes of buffers keep the same contract. The getter without an index hands out, empty and
  marked as held, the buffer that was freed longest ago and fails only when the free queue is empty. A buffer
  named by its index is handed out the same way unless it is already held or outside the class: then the
  process stops. A held buffer can be freed: it goes to the kernel's ring or to the free queue as the
  constructor decided and to nothing else, and the next getter finds it empty, without address or descriptor.
  Freeing a null pointer or a buffer that is already free stops the process.
\<close>

theorem buffer_life_cycle:
  assumes "0 < len" "\<forall>op\<in>set ops. bm_valid n op" "bm_run ops (bm_start n len) = Inr s"
  shows "life_cycle n 0 bm_tcp (\<lambda>p bm. bm\<lparr>bm_tcp := p\<rparr>) get_buffer get_buffer_by_index free_buffer (hd_bm s) (hd_tcp s) \<and>
    life_cycle n n bm_udp (\<lambda>p bm. bm\<lparr>bm_udp := p\<rparr>) get_udp_buffer get_udp_buffer_by_index free_udp_buffer (hd_bm s) (hd_udp s)"
proof -
  have "bm_inv n s" using bm_run_inv [OF bm_start_inv [OF assms(1)] assms(2,3)] .
  then have "pool_good n 0 (bm_tcp (hd_bm s)) (hd_tcp s)" "pool_good n n (bm_udp (hd_bm s)) (hd_udp s)"
    by (simp_all add: bm_inv_def)
  then show ?thesis
    by (intro conjI life_cycleI) (auto simp: get_buffer_def get_buffer_by_index_def free_buffer_def
        get_udp_buffer_def get_udp_buffer_by_index_def free_udp_buffer_def)
qed

text \<open>Five buffers of each class: one is taken and given back, then the kernel names the first one.\<close>

theorem buffer_life_cycle_witness:
  "\<exists>s. bm_run [Get_Tcp, Free_Tcp 0, Get_Tcp_At 0] (bm_start 5 4) = Inr s \<and> map buf_index (hd_tcp s) = [0] \<and>
     (\<exists>msg. get_buffer_by_index 0 (hd_bm s) = Inl (Fatal msg)) \<and>
     (\<exists>b bm. get_buffer (hd_bm s) = Inr (b, bm) \<and> empty_held 4 b)"
proof -
  have up: "[0..<5] = [0, 1, 2, 3, 4 :: nat]" by (simp add: upt_rec)
  have "\<exists>s. bm_run [Get_Tcp, Free_Tcp 0, Get_Tcp_At 0] (bm_start 5 4) = Inr s \<and>
      map buf_index (hd_tcp s) = [0] \<and> bp_free (bm_tcp (hd_bm s)) = [4]"
    by (simp add: bm_run_def bm_start_def bm_construct_def init_pool_def up provided_index_def get_buffer_def pool_get_def
        take_slot_def vec_at_def free_buffer_def pool_free_def Let_def get_buffer_by_index_def pool_get_by_index_def
        remove_nth_def add_buffer_to_ring_def)
  then obtain s where r: "bm_run [Get_Tcp, Free_Tcp 0, Get_Tcp_At 0] (bm_start 5 4) = Inr s"
      and s: "map buf_index (hd_tcp s) = [0]" "bp_free (bm_tcp (hd_bm s)) = [4]" by (elim exE conjE)
  have "\<forall>op\<in>set [Get_Tcp, Free_Tcp 0, Get_Tcp_At 0]. bm_valid 5 op" by (simp add: provided_index_def)
  from buffer_life_cycle [OF _ this r] have c: "life_cycle 5 0 bm_tcp (\<lambda>p bm. bm\<lparr>bm_tcp := p\<rparr>) get_buffer
      get_buffer_by_index free_buffer (hd_bm s) (hd_tcp s)" by simp
  have "\<exists>msg. get_buffer_by_index 0 (hd_bm s) = Inl (Fatal msg)"
    using c s(1) unfolding life_cycle_def by simp
  moreover have "\<exists>b bm. get_buffer (hd_bm s) = Inr (b, bm) \<and> empty_held 4 b"
    using c s(2) unfolding life_cycle_def by auto
  ultimately show ?thesis by (intro exI [of _ s] conjI) (rule r, rule s(1), assumption+)
qed

end
