(* ===== verification/Ingress.thy ===== *)
theory Ingress
  imports Rpc_Mapper Stats
begin

text \<open>
  The admission queue of an ingress node (src/ingress.cc): requests wait here until a credit arrives,
  at most one Credit Request is outstanding, and an AIMD controller driven by the tail latency sets the
  queue's cap. The record \<open>core\<close> is what the components of one sidecar thread share: the messages, the
  counter of local ids, the mapper, the RPC queue and the statistics. Every operation takes the time
  as an argument.
\<close>

record core =
  k_heap :: heap
  k_ctr :: int
  k_mapper :: rpc_mapper
  k_rq :: rpc_queue
  k_stats :: stats

definition upd_msg :: "nat \<Rightarrow> (rpc_message \<Rightarrow> rpc_message) \<Rightarrow> core \<Rightarrow> core" where
  "upd_msg r f k = k\<lparr>k_heap := (k_heap k)(r := f (k_heap k r))\<rparr>"

record ingress =
  ig_cap :: nat
  ig_queue :: "nat list"
  ig_mean :: tw_mean
  ig_on_fly :: bool
  ig_priority :: int
  ig_drop_id :: int
  ig_drop_fd :: int
  ig_last_rpc_id :: int
  ig_service :: string

definition aimd_queue_th :: real where
  "aimd_queue_th = 8 / 10"

text \<open>The constructor; \<open>pr\<close> is what the priority holds when the node is not an ingress.\<close>

definition ingress_construct :: "config \<Rightarrow> int \<Rightarrow> string \<Rightarrow> int \<Rightarrow> ingress result" where
  "ingress_construct cfg idx service pr =
     bindR (if is_ingress cfg then
              bindR (map_at (map_of (routing cfg)) service) (\<lambda>e.
                if re_slo e = None then Inl (Fatal ''No SLO configured for ingress service'')
                else case re_priority e of
                  None \<Rightarrow> Inl (Fatal ''No priority configured for ingress service'')
                | Some p \<Rightarrow> if p < 0 \<or> p > 3 then Inl (Fatal ''Invalid priority configured for ingress service'')
                            else Inr p)
            else Inr pr) (\<lambda>p.
       Inr \<lparr>ig_cap = 10, ig_queue = [], ig_mean = tw_construct, ig_on_fly = False, ig_priority = p,
            ig_drop_id = 0, ig_drop_fd = - idx, ig_last_rpc_id = idx * 2 ^ 48, ig_service = service\<rparr>)"

definition add_rpc_id_header :: "config \<Rightarrow> nat \<Rightarrow> ingress \<Rightarrow> core \<Rightarrow> (ingress \<times> core) result" where
  "add_rpc_id_header cfg r ig k =
     (let i = ig_last_rpc_id ig + 1 in
      bindR (add_header_field (is_ingress cfg) (k_ctr k) (k_heap k r) (bytes ''rpc-id'' @ [0]) 7
               (snprintf_int 32 i) 32 True False) (\<lambda>(c, m).
        Inr (ig\<lparr>ig_last_rpc_id := i\<rparr>, k\<lparr>k_ctr := c, k_heap := (k_heap k)(r := m)\<rparr>)))"

definition add_priority_header :: "config \<Rightarrow> nat \<Rightarrow> ingress \<Rightarrow> core \<Rightarrow> core result" where
  "add_priority_header cfg r ig k =
     bindR (add_header_field (is_ingress cfg) (k_ctr k) (k_heap k r) (bytes ''priority'' @ [0]) 9
              (snprintf_int 32 (ig_priority ig)) 32 True False) (\<lambda>(c, m).
       Inr (k\<lparr>k_ctr := c, k_heap := (k_heap k)(r := m)\<rparr>))"

definition drop_rpc :: "nat \<Rightarrow> ingress \<Rightarrow> core \<Rightarrow> (ingress \<times> core) result" where
  "drop_rpc r ig k =
     (let m = k_heap k r in
      if m_http m \<noteq> HTTP1 then Inl (Fatal ''Null pointer after dynamic_pointer_cast'')
      else if m_service m \<noteq> ig_service ig then Inl (Fatal ''Service mismatch in drop RPC'')
      else
        let d = ig_drop_id ig + 1;
            m' = m\<lparr>m_error := True, m_status := 503, local_id := - (d + 1), us_fd := ig_drop_fd ig, us_stream_id := d\<rparr>;
            h = (k_heap k)(r := m')
        in bindR (mapper_route h (k_mapper k) EGRESS (ds_stream_id m') (ds_fd m') d (ig_drop_fd ig)) (\<lambda>mp.
             Inr (ig\<lparr>ig_drop_id := d\<rparr>,
                  k\<lparr>k_heap := h, k_mapper := mp,
                    k_rq := rq_enqueue (k_rq k) EGRESS UPSTREAM (us_fd m') (us_stream_id m')\<rparr>)))"

definition ingress_enqueue :: "config \<Rightarrow> int \<Rightarrow> nat \<Rightarrow> ingress \<Rightarrow> core \<Rightarrow> (ingress \<times> core) result" where
  "ingress_enqueue cfg now r ig k =
     (if m_service (k_heap k r) \<noteq> ig_service ig then Inl (Fatal ''Service mismatch in ingress'')
      else if length (ig_queue ig) \<ge> ig_cap ig then drop_rpc r ig k
      else
        bindR (add_rpc_id_header cfg r ig k) (\<lambda>(ig1, k1).
        bindR (add_priority_header cfg r ig1 k1) (\<lambda>k2.
          let q = ig_queue ig1 @ [r] in
          Inr (ig1\<lparr>ig_queue := q, ig_mean := tw_update (of_nat (length q)) now (ig_mean ig1)\<rparr>, k2))))"

text \<open>The optional that dequeue returns always has a value.\<close>

definition ingress_dequeue :: "int \<Rightarrow> ingress \<Rightarrow> (nat option \<times> ingress) result" where
  "ingress_dequeue now ig =
     (case ig_queue ig of
        [] \<Rightarrow> Inl (Fatal ''No RPC message in ingress queue for service'')
      | r # q \<Rightarrow>
          Inr (Some r, ig\<lparr>ig_queue := q, ig_on_fly := False, ig_mean := tw_update (of_nat (length q)) now (ig_mean ig)\<rparr>))"

text \<open>\<open>std::ceil((float)ingress_size_cap / config.aimd_adj_d)\<close>\<close>

definition lower_cap :: "config \<Rightarrow> nat \<Rightarrow> floating" where
  "lower_cap cfg cap = flt_ceil (flt_div (Finite (of_nat cap)) (aimd_adj_d cfg))"

text \<open>The relative error of the tail latency. For an SLO of 0 it is infinite or not a number.\<close>

definition slo_error :: "real \<Rightarrow> int \<Rightarrow> floating" where
  "slo_error tail slo_us = flt_div (Finite (tail - of_int slo_us)) (Finite (of_int slo_us))"

definition raise_or_trim :: "config \<Rightarrow> floating \<Rightarrow> real \<Rightarrow> real \<Rightarrow> nat \<Rightarrow> nat result" where
  "raise_or_trim cfg err mean concurrency cap =
     (let target = flt_mult (safe_multiply cfg) (Finite concurrency) in
      if mean \<ge> of_nat cap * aimd_queue_th then
        bindR (to_size_t (flt_ceil (flt_mult (flt_neg err) (aimd_adj_i cfg)))) (\<lambda>d. Inr ((cap + d) mod 2 ^ 64))
      else if flt_less target (Finite (of_nat cap)) then to_size_t (flt_max target (lower_cap cfg cap))
      else Inr cap)"

text \<open>The product of the SLO and 1000 is one of ints.\<close>

definition update_ingress_cap :: "config \<Rightarrow> int \<Rightarrow> ingress \<Rightarrow> stats \<Rightarrow> (ingress \<times> stats) result" where
  "update_ingress_cap cfg now ig st =
     bindR (map_at (map_of (routing cfg)) (ig_service ig)) (\<lambda>e.
     bindR (as_int32 (value_or (re_slo e) 0 * 1000)) (\<lambda>slo_us.
     bindR (lm_get (tail_e2e_time_us st) (ig_service ig)) (\<lambda>q.
       let err = slo_error (qe_value q) slo_us; cap = ig_cap ig in
       bindR (if flt_less (aimd_err_d cfg) err then
                bindR (to_size_t (lower_cap cfg cap)) (\<lambda>c. Inr (c, ig, st))
              else if flt_less err (aimd_err_i cfg) then
                let (mean, im) = tw_read now (ig_mean ig) in
                bindR (lm_get (time_mean_ds_concurrency st) (ig_service ig)) (\<lambda>tm.
                  let (concurrency, tm') = tw_read now tm in
                  bindR (lm_set (time_mean_ds_concurrency st) (ig_service ig) tm') (\<lambda>tms.
                  bindR (raise_or_trim cfg err mean concurrency cap) (\<lambda>c.
                    Inr (c, ig\<lparr>ig_mean := im\<rparr>, st\<lparr>time_mean_ds_concurrency := tms\<rparr>))))
              else Inr (cap, ig, st)) (\<lambda>(c, ig', st').
         Inr (ig'\<lparr>ig_cap := max 1 c\<rparr>, st')))))"

definition send_credit_request_checker :: "ingress \<Rightarrow> bool \<times> ingress" where
  "send_credit_request_checker ig =
     (let check = (ig_queue ig \<noteq> [] \<and> \<not> ig_on_fly ig)
      in (check, ig\<lparr>ig_on_fly := (if check then True else ig_on_fly ig)\<rparr>))"

definition front_msg :: "heap \<Rightarrow> ingress \<Rightarrow> rpc_message result" where
  "front_msg h ig = (case ig_queue ig of [] \<Rightarrow> Inl (Undefined ''front of an empty deque'') | r # _ \<Rightarrow> Inr (h r))"

definition get_tail_id :: "heap \<Rightarrow> ingress \<Rightarrow> int result" where
  "get_tail_id h ig = bindR (front_msg h ig) (\<lambda>m. Inr (local_id m))"

definition get_tail_priority :: "heap \<Rightarrow> ingress \<Rightarrow> int result" where
  "get_tail_priority h ig = bindR (front_msg h ig) (\<lambda>m. Inr (m_priority m))"

definition ingress_size :: "ingress \<Rightarrow> nat" where
  "ingress_size ig = length (ig_queue ig)"

section \<open>Laws\<close>

lemma drop_rpc_queue: "drop_rpc r ig k = Inr (ig', k') \<Longrightarrow>
    ig_queue ig' = ig_queue ig \<and> ig_on_fly ig' = ig_on_fly ig \<and> ig_cap ig' = ig_cap ig"
  by (auto simp: drop_rpc_def Let_def split: if_splits)

lemma ingress_enqueue_queue:
  assumes "ingress_enqueue cfg now r ig k = Inr (ig', k')"
  shows "ig_queue ig' = (if length (ig_queue ig) \<ge> ig_cap ig then ig_queue ig else ig_queue ig @ [r]) \<and>
    ig_on_fly ig' = ig_on_fly ig \<and> ig_cap ig' = ig_cap ig"
  using assms drop_rpc_queue [of r ig k ig' k']
  by (auto simp: ingress_enqueue_def add_rpc_id_header_def Let_def split: if_splits)

lemma checker_iff: "fst (send_credit_request_checker ig) \<longleftrightarrow> ig_queue ig \<noteq> [] \<and> \<not> ig_on_fly ig"
  by (simp add: send_credit_request_checker_def Let_def)

end
