(* ===== verification/Ingress_Correct.thy ===== *)
theory Ingress_Correct
  imports Ingress Rpc_Message_Correct
begin

text \<open>Properties of the ingress queue: admission and drops, the AIMD cap and the credit protocol.\<close>

section \<open>Formatted headers are read back\<close>

lemma read_priority_snprintf:
  assumes "0 \<le> p" "p < 128"
  shows "read_priority m (bytes ''priority'' @ t) (snprintf_int 32 p) = Inr (m\<lparr>m_priority := p\<rparr>)"
proof -
  have b: "- (2 ^ 63) \<le> p" "p < 2 ^ 63" using assms by auto
  have "stoll (snprintf_int 32 p) = Inr p"
    unfolding snprintf_int_32 [OF b] using length_show_int [OF b]
    by (intro stoll_show_int b) (simp add: is_digit_def word_le_nat_alt)
  moreover have "to_int32 p = p" using assms by (simp add: to_int32_def sint_of_int_id)
  ultimately show ?thesis by (simp add: read_priority_def mem_prefix_def)
qed

lemma store_request_field:
  assumes "headers_ok m" "req_header_count m < 13" "n < 60" "v < 60" "n \<le> length nm" "v \<le> length vl"
  shows "\<exists>m' h. store_field m nm n vl v True False = Inr m' \<and> headers_ok m' \<and> header_pair h = (take n nm, take v vl) \<and>
    m' = m\<lparr>req_headers := (req_headers m)[req_header_count m := h], req_header_count := Suc (req_header_count m)\<rparr>"
proof -
  let ?i = "req_header_count m"
  have h: "?i < length (req_headers m)" "length (hf_name (req_headers m ! ?i)) = 60" "length (hf_value (req_headers m ! ?i)) = 60"
    using assms(1,2) by (auto simp: headers_ok_def)
  from hf_set_ok [OF h(2,3) assms(5,6,3,4)] obtain hf' where
    hf': "hf_set (req_headers m ! ?i) nm n vl v = Inr hf'" "length (hf_name hf') = 60" "length (hf_value hf') = 60" by blast
  let ?m = "m\<lparr>req_headers := (req_headers m)[?i := hf'], req_header_count := Suc ?i\<rparr>"
  have "store_field m nm n vl v True False = Inr ?m"
    using assms(2) h(1) hf'(1) by (simp add: store_field_def set_nth_def MAX_HEADER_FIELD_NUMBER_def)
  moreover have "headers_ok ?m" using assms(1) hf'(2,3)
    by (auto simp: headers_ok_def dest!: set_update_subset_insert [THEN subsetD])
  ultimately show ?thesis using hf_set_pair [OF hf'(1)] by blast
qed

lemma prefixes [simp]:
  "mem_prefix (bytes ''rpc-id'' @ [0]) ''rpc-id''" "\<not> mem_prefix (bytes ''rpc-id'' @ [0]) ''rpc-local-id''"
  "\<not> mem_prefix (bytes ''rpc-id'' @ [0]) ''priority''" "\<not> mem_prefix (bytes ''priority'' @ [0]) ''rpc-id''"
  "\<not> mem_prefix (bytes ''priority'' @ [0]) ''rpc-local-id''"
  by (simp_all add: mem_prefix_def bytes_def byte_of_def)

text \<open>
  A request record after the two headers were added: the fields that the admission changes.
\<close>

lemma add_rpc_id_ok:
  assumes m: "m_http (k_heap k r) = HTTP1" "headers_ok (k_heap k r)" "req_header_count (k_heap k r) < 13"
    and i: "0 \<le> ig_last_rpc_id ig" "ig_last_rpc_id ig + 1 < 2 ^ 63" and ingr: "is_ingress cfg"
  shows "\<exists>m' l f. add_rpc_id_header cfg r ig k =
      Inr (ig\<lparr>ig_last_rpc_id := ig_last_rpc_id ig + 1\<rparr>, k\<lparr>k_ctr := k_ctr k + 1, k_heap := (k_heap k)(r := m')\<rparr>) \<and>
    headers_ok m' \<and> get_new_local_id (k_ctr k) 0 = (k_ctr k + 1, l) \<and>
    header_pair f = (bytes ''rpc-id'' @ [0], snprintf_int 32 (ig_last_rpc_id ig + 1)) \<and>
    m' = (k_heap k r)\<lparr>global_id := ig_last_rpc_id ig + 1, local_id := l,
            req_headers := (req_headers (k_heap k r))[req_header_count (k_heap k r) := f],
            req_header_count := Suc (req_header_count (k_heap k r))\<rparr>"
proof -
  let ?i = "ig_last_rpc_id ig + 1" and ?m = "k_heap k r"
  have b: "- (2 ^ 63) \<le> ?i" "?i < 2 ^ 63" using i by auto
  obtain l where l: "get_new_local_id (k_ctr k) 0 = (k_ctr k + 1, l)" by (simp add: get_new_local_id_def Let_def)
  have s: "stoll (snprintf_int 32 ?i) = Inr ?i"
    unfolding snprintf_int_32 [OF b] using length_show_int [OF b]
    by (intro stoll_show_int b) (simp add: is_digit_def word_le_nat_alt)
  have len: "length (snprintf_int 32 ?i) = 32"
    using length_show_int [OF b] by (simp add: snprintf_int_32 [OF b])
  let ?m1 = "?m\<lparr>global_id := ?i, local_id := l\<rparr>"
  have rid: "read_rpc_id True (k_ctr k) ?m (bytes ''rpc-id'' @ [0]) (snprintf_int 32 ?i) = Inr (k_ctr k + 1, ?m1)"
    using s l by (simp add: read_rpc_id_def)
  have "headers_ok ?m1" "req_header_count ?m1 < 13" using m by (simp_all add: headers_ok_def)
  from store_request_field [OF this, of 7 32 "bytes ''rpc-id'' @ [0]" "snprintf_int 32 ?i"] len
  obtain m' f where m': "store_field ?m1 (bytes ''rpc-id'' @ [0]) 7 (snprintf_int 32 ?i) 32 True False = Inr m'"
    "headers_ok m'" "m' = ?m1\<lparr>req_headers := (req_headers ?m1)[req_header_count ?m1 := f], req_header_count := Suc (req_header_count ?m1)\<rparr>"
    and f: "header_pair f = (bytes ''rpc-id'' @ [0], snprintf_int 32 ?i)" by auto
  have "add_header_field True (k_ctr k) ?m (bytes ''rpc-id'' @ [0]) 7 (snprintf_int 32 ?i) 32 True False = Inr (k_ctr k + 1, m')"
    using rid m'(1) m(1) len by (simp add: add_header_field_defs read_rpc_local_id_def read_priority_def)
  then show ?thesis using ingr m'(2,3) f l by (intro exI [of _ m'] exI [of _ l] exI [of _ f]) (simp add: add_rpc_id_header_def Let_def)
qed

lemma add_priority_ok:
  assumes m: "m_http (k_heap k r) = HTTP1" "headers_ok (k_heap k r)" "req_header_count (k_heap k r) < 13"
    and p: "0 \<le> ig_priority ig" "ig_priority ig < 128"
  shows "\<exists>m' f. add_priority_header cfg r ig k = Inr (k\<lparr>k_heap := (k_heap k)(r := m')\<rparr>) \<and> headers_ok m' \<and>
    header_pair f = (bytes ''priority'' @ [0], snprintf_int 32 (ig_priority ig)) \<and>
    m' = (k_heap k r)\<lparr>m_priority := ig_priority ig,
            req_headers := (req_headers (k_heap k r))[req_header_count (k_heap k r) := f],
            req_header_count := Suc (req_header_count (k_heap k r))\<rparr>"
proof -
  let ?p = "ig_priority ig" and ?m = "k_heap k r"
  have b: "- (2 ^ 63) \<le> ?p" "?p < 2 ^ 63" using p by auto
  have len: "length (snprintf_int 32 ?p) = 32"
    using length_show_int [OF b] by (simp add: snprintf_int_32 [OF b])
  let ?m1 = "?m\<lparr>m_priority := ?p\<rparr>"
  have "headers_ok ?m1" "req_header_count ?m1 < 13" using m by (simp_all add: headers_ok_def)
  from store_request_field [OF this, of 9 32 "bytes ''priority'' @ [0]" "snprintf_int 32 ?p"] len
  obtain m' f where m': "store_field ?m1 (bytes ''priority'' @ [0]) 9 (snprintf_int 32 ?p) 32 True False = Inr m'"
    "headers_ok m'" "m' = ?m1\<lparr>req_headers := (req_headers ?m1)[req_header_count ?m1 := f], req_header_count := Suc (req_header_count ?m1)\<rparr>"
    and f: "header_pair f = (bytes ''priority'' @ [0], snprintf_int 32 ?p)" by auto
  have "add_header_field (is_ingress cfg) (k_ctr k) ?m (bytes ''priority'' @ [0]) 9 (snprintf_int 32 ?p) 32 True False = Inr (k_ctr k, m')"
    using read_priority_snprintf [OF p, of ?m "[0]"] m'(1) m(1) len
    by (simp add: add_header_field_defs read_rpc_id_def read_rpc_local_id_def)
  then show ?thesis using m'(2,3) f by (intro exI [of _ m'] exI [of _ f]) (simp add: add_priority_header_def)
qed

section \<open>Properties\<close>

text \<open>
  C18: below the cap a request is admitted at the end of the queue with the next id of this ingress as its global
  id, the configured priority and a local id from the counter of local ids, where src/docs/rpc_ids.md has the
  global id. Exactly two header fields are
  stored behind its own: rpc-id with the text of the global id and priority with the text of the priority.
  Nothing else of the message, no other message and neither the mapper nor the outgoing queues change.
\<close>

theorem ingress_admits:
  assumes "m_service (k_heap k r) = ig_service ig" "length (ig_queue ig) < ig_cap ig" "is_ingress cfg"
    and "m_http (k_heap k r) = HTTP1" "headers_ok (k_heap k r)" "req_header_count (k_heap k r) \<le> 11"
    and "0 \<le> ig_last_rpc_id ig" "ig_last_rpc_id ig + 1 < 2 ^ 63" "0 \<le> ig_priority ig" "ig_priority ig \<le> 3"
  shows "\<exists>ig' k' l f1 f2. ingress_enqueue cfg now r ig k = Inr (ig', k') \<and>
    ig_queue ig' = ig_queue ig @ [r] \<and> ig_last_rpc_id ig' = ig_last_rpc_id ig + 1 \<and> k_ctr k' = k_ctr k + 1 \<and>
    get_new_local_id (k_ctr k) 0 = (k_ctr k + 1, l) \<and>
    k_heap k' = (k_heap k)(r := (k_heap k r)\<lparr>global_id := ig_last_rpc_id ig + 1, local_id := l, m_priority := ig_priority ig,
       req_headers := (req_headers (k_heap k r))
         [req_header_count (k_heap k r) := f1, req_header_count (k_heap k r) + 1 := f2],
       req_header_count := req_header_count (k_heap k r) + 2\<rparr>) \<and>
    header_pair f1 = (bytes ''rpc-id'' @ [0], snprintf_int 32 (ig_last_rpc_id ig + 1)) \<and>
    header_pair f2 = (bytes ''priority'' @ [0], snprintf_int 32 (ig_priority ig)) \<and>
    k_mapper k' = k_mapper k \<and> k_rq k' = k_rq k \<and> k_stats k' = k_stats k"
proof -
  have c: "req_header_count (k_heap k r) < 13" using assms(6) by simp
  let ?m = "k_heap k r"
  from add_rpc_id_ok [OF assms(4,5) c assms(7,8,3)] obtain m1 l f1 where
    a1: "add_rpc_id_header cfg r ig k =
      Inr (ig\<lparr>ig_last_rpc_id := ig_last_rpc_id ig + 1\<rparr>, k\<lparr>k_ctr := k_ctr k + 1, k_heap := (k_heap k)(r := m1)\<rparr>)"
    "headers_ok m1" "get_new_local_id (k_ctr k) 0 = (k_ctr k + 1, l)"
    "header_pair f1 = (bytes ''rpc-id'' @ [0], snprintf_int 32 (ig_last_rpc_id ig + 1))"
    and m1: "m1 = ?m\<lparr>global_id := ig_last_rpc_id ig + 1, local_id := l,
            req_headers := (req_headers ?m)[req_header_count ?m := f1], req_header_count := Suc (req_header_count ?m)\<rparr>" by blast
  let ?k1 = "k\<lparr>k_ctr := k_ctr k + 1, k_heap := (k_heap k)(r := m1)\<rparr>" and ?ig1 = "ig\<lparr>ig_last_rpc_id := ig_last_rpc_id ig + 1\<rparr>"
  have "m_http (k_heap ?k1 r) = HTTP1" "headers_ok (k_heap ?k1 r)" "req_header_count (k_heap ?k1 r) < 13"
    "0 \<le> ig_priority ?ig1" "ig_priority ?ig1 < 128"
    using m1 a1(2) assms(4,6,9,10) by simp_all
  from add_priority_ok [OF this, of cfg] obtain m2 f2 where
    a2: "add_priority_header cfg r ?ig1 ?k1 = Inr (?k1\<lparr>k_heap := (k_heap ?k1)(r := m2)\<rparr>)"
    "header_pair f2 = (bytes ''priority'' @ [0], snprintf_int 32 (ig_priority ig))"
    and m2: "m2 = m1\<lparr>m_priority := ig_priority ig, req_headers := (req_headers m1)[req_header_count m1 := f2],
      req_header_count := Suc (req_header_count m1)\<rparr>"
    by auto
  have "m2 = ?m\<lparr>global_id := ig_last_rpc_id ig + 1, local_id := l, m_priority := ig_priority ig,
       req_headers := (req_headers ?m)[req_header_count ?m := f1, req_header_count ?m + 1 := f2],
       req_header_count := req_header_count ?m + 2\<rparr>"
    unfolding m2 m1 by simp
  then have h: "(k_heap ?k1)(r := m2) = (k_heap k)(r := ?m\<lparr>global_id := ig_last_rpc_id ig + 1, local_id := l,
       m_priority := ig_priority ig,
       req_headers := (req_headers ?m)[req_header_count ?m := f1, req_header_count ?m + 1 := f2],
       req_header_count := req_header_count ?m + 2\<rparr>)"
    by (simp add: fun_eq_iff)
  have e: "ingress_enqueue cfg now r ig k =
      Inr (?ig1\<lparr>ig_queue := ig_queue ig @ [r], ig_mean := tw_update (of_nat (length (ig_queue ig @ [r]))) now (ig_mean ig)\<rparr>,
           ?k1\<lparr>k_heap := (k_heap ?k1)(r := m2)\<rparr>)"
    unfolding ingress_enqueue_def a1(1) using assms(1,2) a2(1) by (simp add: Let_def del: fun_upd_apply)
  show ?thesis unfolding e h
    by (rule exI, rule exI, rule exI [of _ l], rule exI [of _ f1], rule exI [of _ f2], intro conjI, rule refl)
      (rule a1(4) a2(2) | simp add: a1(3))+
qed


lemma start_ingress:
  "is_ingress cfg \<Longrightarrow> map_of (routing cfg) svc = Some e \<Longrightarrow> re_slo e = Some s \<Longrightarrow> re_priority e = Some p \<Longrightarrow> 0 \<le> p \<Longrightarrow> p \<le> 3 \<Longrightarrow>
   ingress_construct cfg idx svc pr =
     Inr \<lparr>ig_cap = 10, ig_queue = [], ig_mean = tw_construct, ig_on_fly = False, ig_priority = p,
          ig_drop_id = 0, ig_drop_fd = - idx, ig_last_rpc_id = idx * 2 ^ 48, ig_service = svc\<rparr>"
  by (simp add: ingress_construct_def)

definition demo_ingress :: "nat \<Rightarrow> ingress" where
  "demo_ingress cap =
     \<lparr>ig_cap = cap, ig_queue = [], ig_mean = tw_construct, ig_on_fly = False, ig_priority = 1,
      ig_drop_id = 0, ig_drop_fd = -2, ig_last_rpc_id = 2 * 2 ^ 48, ig_service = ''a''\<rparr>"

definition demo_core :: "stats \<Rightarrow> core" where
  "demo_core st =
     \<lparr>k_heap = (\<lambda>_. (new_message HTTP1 0)\<lparr>m_service := ''a'', ds_fd := 7, ds_stream_id := 1, m_type := EGRESS\<rparr>), k_ctr = 1,
      k_mapper = (mapper_construct \<lparr>grpc_pool = [], http_pool = []\<rparr>)\<lparr>ds_map := (\<lambda>t. if t = EGRESS then [(7, [(1, 0)])] else [])\<rparr>,
      k_rq = rq_construct, k_stats = st\<rparr>"

lemma demo_start:
  "headers_ok (k_heap (demo_core st) 0)" "m_http (k_heap (demo_core st) 0) = HTTP1"
  "req_header_count (k_heap (demo_core st) 0) = 0" "m_service (k_heap (demo_core st) 0) = ig_service (demo_ingress c)"
  by (simp_all add: demo_core_def demo_ingress_def new_message_def Let_def headers_ok_def new_header_field_def
      MAX_HEADER_FIELD_NUMBER_def MAX_HEADER_FIELD_SIZE_def)

lemma demo_admitted:
  "\<exists>ig' k'. ingress_enqueue (default_config\<lparr>is_ingress := True\<rparr>) 5 0 (demo_ingress 10) (demo_core st) = Inr (ig', k')"
proof -
  let ?cfg = "default_config\<lparr>is_ingress := True\<rparr>"
  from add_rpc_id_ok [of "demo_core st" 0 "demo_ingress 10" ?cfg] obtain m1 l f where
    a1: "add_rpc_id_header ?cfg 0 (demo_ingress 10) (demo_core st) =
      Inr ((demo_ingress 10)\<lparr>ig_last_rpc_id := ig_last_rpc_id (demo_ingress 10) + 1\<rparr>,
           (demo_core st)\<lparr>k_ctr := k_ctr (demo_core st) + 1, k_heap := (k_heap (demo_core st))(0 := m1)\<rparr>)" "headers_ok m1"
      "m1 = (k_heap (demo_core st) 0)\<lparr>global_id := ig_last_rpc_id (demo_ingress 10) + 1, local_id := l,
            req_headers := (req_headers (k_heap (demo_core st) 0))[req_header_count (k_heap (demo_core st) 0) := f],
            req_header_count := Suc (req_header_count (k_heap (demo_core st) 0))\<rparr>"
    using demo_start by (auto simp: demo_ingress_def)
  have f: "m_http m1 = HTTP1" "req_header_count m1 = 1"
    by (subst a1(3), simp add: demo_start)+
  let ?ig = "(demo_ingress 10)\<lparr>ig_last_rpc_id := ig_last_rpc_id (demo_ingress 10) + 1\<rparr>"
    and ?k = "(demo_core st)\<lparr>k_ctr := k_ctr (demo_core st) + 1, k_heap := (k_heap (demo_core st))(0 := m1)\<rparr>"
  have "m_http (k_heap ?k 0) = HTTP1" "headers_ok (k_heap ?k 0)" "req_header_count (k_heap ?k 0) < 13"
    "0 \<le> ig_priority ?ig" "ig_priority ?ig < 128"
    using f a1(2) by (simp_all add: demo_ingress_def)
  from add_priority_ok [OF this, of ?cfg] obtain k2 where "add_priority_header ?cfg 0 ?ig ?k = Inr k2" by blast
  then show ?thesis using a1(1) demo_start(4) [of st 10]
    by (simp add: ingress_enqueue_def Let_def) (simp add: demo_ingress_def)
qed

theorem ingress_admits_witness:
  "\<forall>st. \<exists>ig' k'. ingress_enqueue (default_config\<lparr>is_ingress := True\<rparr>) 5 0 (demo_ingress 10) (demo_core st) = Inr (ig', k') \<and>
    ig_queue ig' = [0] \<and> global_id (k_heap k' 0) = 562949953421313 \<and> m_priority (k_heap k' 0) = 1"
proof (rule allI)
  fix st
  have "headers_ok (k_heap (demo_core st) 0)"
    by (simp add: demo_core_def new_message_def Let_def headers_ok_def new_header_field_def MAX_HEADER_FIELD_NUMBER_def MAX_HEADER_FIELD_SIZE_def)
  moreover have "m_http (k_heap (demo_core st) 0) = HTTP1" "req_header_count (k_heap (demo_core st) 0) \<le> 11"
    "m_service (k_heap (demo_core st) 0) = ig_service (demo_ingress 10)"
    by (simp_all add: demo_core_def demo_ingress_def new_message_def Let_def)
  ultimately obtain ig' k' l f1 f2 where r:
    "ingress_enqueue (default_config\<lparr>is_ingress := True\<rparr>) 5 0 (demo_ingress 10) (demo_core st) = Inr (ig', k')"
    "ig_queue ig' = ig_queue (demo_ingress 10) @ [0]"
    "k_heap k' = (k_heap (demo_core st))(0 := (k_heap (demo_core st) 0)\<lparr>global_id := ig_last_rpc_id (demo_ingress 10) + 1,
       local_id := l, m_priority := ig_priority (demo_ingress 10),
       req_headers := (req_headers (k_heap (demo_core st) 0))
         [req_header_count (k_heap (demo_core st) 0) := f1, req_header_count (k_heap (demo_core st) 0) + 1 := f2],
       req_header_count := req_header_count (k_heap (demo_core st) 0) + 2\<rparr>)"
    using ingress_admits [of "demo_core st" 0 "demo_ingress 10" "default_config\<lparr>is_ingress := True\<rparr>" 5]
    by (auto simp: demo_ingress_def)
  then show "\<exists>ig' k'. ingress_enqueue (default_config\<lparr>is_ingress := True\<rparr>) 5 0 (demo_ingress 10) (demo_core st) = Inr (ig', k') \<and>
    ig_queue ig' = [0] \<and> global_id (k_heap k' 0) = 562949953421313 \<and> m_priority (k_heap k' 0) = 1"
    by (intro exI [of _ ig'] exI [of _ k']) (simp add: demo_ingress_def)
qed

text \<open>
  C19: at the cap a request is turned into a 503 drop instead: it gets an id of its own, it is routed under
  the ingress' pseudo descriptor and it is queued for its downstream connection, where the mapper finds
  it; the admission queue and the credit flag stay as they are.
\<close>

theorem ingress_drops:
  assumes "m_service (k_heap k r) = ig_service ig" "ig_cap ig \<le> length (ig_queue ig)" "m_http (k_heap k r) = HTTP1"
    and "lookup (ds_map (k_mapper k) EGRESS) (ds_fd (k_heap k r)) (ds_stream_id (k_heap k r)) = Some r"
    and "map_of (id_map (k_mapper k) EGRESS) (- (ig_drop_id ig + 2)) = None"
    and "lookup (us_map (k_mapper k) EGRESS) (ig_drop_fd ig) (ig_drop_id ig + 1) = None"
  shows "\<exists>ig' k'. ingress_enqueue cfg now r ig k = Inr (ig', k') \<and> ig' = ig\<lparr>ig_drop_id := ig_drop_id ig + 1\<rparr> \<and>
    is_drop (k_heap k' r) \<and> (\<forall>q. q \<noteq> r \<longrightarrow> k_heap k' q = k_heap k q) \<and>
    k_rq k' EGRESS UPSTREAM = k_rq k EGRESS UPSTREAM @ [(ig_drop_fd ig, ig_drop_id ig + 1)] \<and>
    get_us_rpc (k_mapper k') EGRESS (ig_drop_id ig + 1) (ig_drop_fd ig) = Inr r"
proof -
  let ?m = "(k_heap k r)\<lparr>m_error := True, m_status := 503, local_id := - (ig_drop_id ig + 1 + 1), us_fd := ig_drop_fd ig,
      us_stream_id := ig_drop_id ig + 1\<rparr>"
  define h where "h = (k_heap k)(r := ?m)"
  define mp where "mp = (k_mapper k)
     \<lparr>id_map := (id_map (k_mapper k))(EGRESS := AList.update (- (ig_drop_id ig + 1 + 1)) r (id_map (k_mapper k) EGRESS)),
      us_map := (us_map (k_mapper k))(EGRESS := table_emplace (table_open (us_map (k_mapper k) EGRESS) (ig_drop_fd ig)) (ig_drop_fd ig) (ig_drop_id ig + 1) r)\<rparr>"
  have i: "- (ig_drop_id ig + 2) = - (ig_drop_id ig + 1 + 1)" by simp
  have route: "mapper_route h (k_mapper k) EGRESS (ds_stream_id (k_heap k r)) (ds_fd (k_heap k r)) (ig_drop_id ig + 1) (ig_drop_fd ig) = Inr mp"
    using assms(4,5) unfolding i by (simp add: mapper_route_def table_at_lookup Let_def h_def mp_def)
  have "lookup (us_map mp EGRESS) (ig_drop_fd ig) (ig_drop_id ig + 1) = Some r"
    using assms(6) open_fd by (simp add: mp_def lookup_emplace)
  then have "get_us_rpc mp EGRESS (ig_drop_id ig + 1) (ig_drop_fd ig) = Inr r"
    by (simp add: get_us_rpc_def table_at_lookup)
  moreover have "ingress_enqueue cfg now r ig k = Inr (ig\<lparr>ig_drop_id := ig_drop_id ig + 1\<rparr>,
      k\<lparr>k_heap := h, k_mapper := mp, k_rq := rq_enqueue (k_rq k) EGRESS UPSTREAM (ig_drop_fd ig) (ig_drop_id ig + 1)\<rparr>)"
    using assms(1-3) route by (simp add: ingress_enqueue_def drop_rpc_def Let_def h_def)
  ultimately show ?thesis
    using assms(3) by (simp add: h_def is_drop_def rq_enqueue_def)
qed

theorem ingress_drops_witness:
  "\<forall>st. \<exists>ig' k'. ingress_enqueue default_config 5 0 (demo_ingress 0) (demo_core st) = Inr (ig', k') \<and> is_drop (k_heap k' 0) \<and>
    get_us_rpc (k_mapper k') EGRESS 1 (-2) = Inr 0"
proof (rule allI)
  fix st
  show "\<exists>ig' k'. ingress_enqueue default_config 5 0 (demo_ingress 0) (demo_core st) = Inr (ig', k') \<and> is_drop (k_heap k' 0) \<and>
    get_us_rpc (k_mapper k') EGRESS 1 (-2) = Inr 0"
    using ingress_drops [of "demo_core st" 0 "demo_ingress 0" default_config 5]
    by (auto simp: demo_core_def demo_ingress_def new_message_def Let_def mapper_construct_def lookup_def)
qed

section \<open>The AIMD cap\<close>




section \<open>The credit protocol of the ingress\<close>

text \<open>
  What happens to the queue between two credits: requests arrive, the checker is asked whether to send a
  Credit Request, and a grant for an outstanding request dequeues.
\<close>

datatype ingress_event = Arrive nat | Ask | Credit

fun ingress_event_step :: "config \<Rightarrow> int \<Rightarrow> ingress_event \<Rightarrow> ingress \<times> core \<times> nat \<times> nat \<times> nat list \<Rightarrow>
    (ingress \<times> core \<times> nat \<times> nat \<times> nat list) result" where
  "ingress_event_step cfg now (Arrive r) (ig, k, asked, granted, out) =
     bindR (ingress_enqueue cfg now r ig k) (\<lambda>(ig', k'). Inr (ig', k', asked, granted, out))"
| "ingress_event_step cfg now Ask (ig, k, asked, granted, out) =
     (let (b, ig') = send_credit_request_checker ig in Inr (ig', k, (if b then Suc asked else asked), granted, out))"
| "ingress_event_step cfg now Credit (ig, k, asked, granted, out) =
     (if granted < asked
      then bindR (ingress_dequeue now ig) (\<lambda>(r, ig'). Inr (ig', k, asked, Suc granted, out @ (case r of None \<Rightarrow> [] | Some x \<Rightarrow> [x])))
      else Inr (ig, k, asked, granted, out))"

definition ingress_events :: "config \<Rightarrow> int \<Rightarrow> ingress_event list \<Rightarrow> ingress \<times> core \<times> nat \<times> nat \<times> nat list \<Rightarrow>
    (ingress \<times> core \<times> nat \<times> nat \<times> nat list) result" where
  "ingress_events cfg now es s = foldR (ingress_event_step cfg now) es s"

definition credit_inv :: "ingress \<times> core \<times> nat \<times> nat \<times> nat list \<Rightarrow> bool" where
  "credit_inv = (\<lambda>(ig, k, asked, granted, out).
     (if ig_on_fly ig then asked = Suc granted \<and> ig_queue ig \<noteq> [] else asked = granted))"

lemma credit_inv_step:
  assumes "credit_inv s" "ingress_event_step cfg now e s = Inr s'"
  shows "credit_inv s'"
proof -
  obtain ig k asked granted out where s: "s = (ig, k, asked, granted, out)" by (cases s)
  show ?thesis
  proof (cases e)
    case (Arrive r)
    then show ?thesis using assms ingress_enqueue_queue [of cfg now r ig k]
      by (auto simp: s credit_inv_def split: if_splits)
  next
    case Ask
    then show ?thesis using assms by (auto simp: s credit_inv_def send_credit_request_checker_def Let_def split: if_splits)
  next
    case Credit
    then show ?thesis using assms
      by (auto simp: s credit_inv_def ingress_dequeue_def split: if_splits list.splits)
  qed
qed

lemma credit_inv_run: "credit_inv s \<Longrightarrow> ingress_events cfg now es s = Inr s' \<Longrightarrow> credit_inv s'"
  unfolding ingress_events_def by (erule foldR_inv) (auto intro: credit_inv_step)

text \<open>
  C21: however arrivals, checks and grants interleave, at most one Credit Request is outstanding, and as
  long as one is, its grant finds a request to release: the abort on an empty queue cannot happen.
\<close>

theorem one_credit_request_at_a_time:
  assumes "ig_queue ig = []" "\<not> ig_on_fly ig"
    and "ingress_events cfg now es (ig, k, 0, 0, []) = Inr (ig', k', asked, granted, out)"
  shows "asked \<le> Suc granted \<and> granted \<le> asked \<and>
    (granted < asked \<longrightarrow> (\<exists>r q ig2. ig_queue ig' = r # q \<and> ingress_dequeue now ig' = Inr (Some r, ig2) \<and>
       ig_queue ig2 = q \<and> \<not> ig_on_fly ig2))"
proof -
  have "credit_inv (ig', k', asked, granted, out)"
    by (rule credit_inv_run [OF _ assms(3)]) (simp add: credit_inv_def assms(1,2))
  then show ?thesis
    by (auto simp: credit_inv_def ingress_dequeue_def neq_Nil_conv split: if_splits)
qed

theorem one_credit_request_at_a_time_witness:
  "\<forall>st. \<exists>ig' k' asked granted out. ingress_events (default_config\<lparr>is_ingress := True\<rparr>) 5 [Arrive 0, Ask, Ask, Credit, Ask]
      (demo_ingress 10, demo_core st, 0, 0, []) = Inr (ig', k', asked, granted, out) \<and> asked \<le> Suc granted \<and> out = [0]"
proof (rule allI)
  fix st
  from demo_admitted [of st] obtain ig1 k1 where e:
    "ingress_enqueue (default_config\<lparr>is_ingress := True\<rparr>) 5 0 (demo_ingress 10) (demo_core st) = Inr (ig1, k1)" by blast
  have q: "ig_queue ig1 = [0]" "\<not> ig_on_fly ig1"
    using ingress_enqueue_queue [OF e] by (simp_all add: demo_ingress_def)
  let ?es = "[Arrive 0, Ask, Ask, Credit, Ask]" and ?s = "(demo_ingress 10, demo_core st, 0, 0, [])"
  obtain ig' k' asked granted where r:
    "ingress_events (default_config\<lparr>is_ingress := True\<rparr>) 5 ?es ?s = Inr (ig', k', asked, granted, [0])"
    using q by (simp add: ingress_events_def e send_credit_request_checker_def ingress_dequeue_def)
  from one_credit_request_at_a_time [OF _ _ r]
  show "\<exists>ig' k' asked granted out. ingress_events (default_config\<lparr>is_ingress := True\<rparr>) 5 [Arrive 0, Ask, Ask, Credit, Ask]
      (demo_ingress 10, demo_core st, 0, 0, []) = Inr (ig', k', asked, granted, out) \<and> asked \<le> Suc granted \<and> out = [0]"
    by (intro exI conjI) (rule r, simp_all add: demo_ingress_def)
qed

end
