(* ===== verification/Ring.thy ===== *)
theory Ring
  imports Buffer_Manager
begin

text \<open>
  RingWrapper (src/ring_wrapper.cc): how the program fills submission queue entries. The io_uring library
  is outside the repository. What the wrapper sees of it is the number of free entries: a ring has
  \<open>rg_entries\<close> of them, \<open>rg_prepared\<close> are filled and not yet submitted, \<open>rg_lag\<close> are submitted and not yet
  taken by the kernel thread. A submission hands the prepared entries over; the thread takes up to
  \<open>rg_speed\<close> entries while the program submits or looks a second time. A buffer pointer in an entry is the content of the
  buffer when the entry is filled.
\<close>

section \<open>Submission queue entries\<close>

datatype sqe =
    Sqe_Accept int
  | Sqe_Recv_Multishot int nat
  | Sqe_Connect int sockaddr
  | Sqe_Send int "byte list"
  | Sqe_Close int
  | Sqe_Recvmsg_Multishot int nat
  | Sqe_Sendmsg int "byte list" sockaddr

record ring =
  rg_entries :: nat
  rg_verbosity :: nat
  rg_speed :: nat
  rg_prepared :: "(sqe \<times> nat) list"
  rg_lag :: nat
  rg_submitted :: "(sqe \<times> nat) list"

text \<open>The checks of the constructor on the number of buffers; \<open>ret\<close> is the result of io_uring_queue_init.\<close>

definition ring_construct :: "int \<Rightarrow> nat \<Rightarrow> nat \<Rightarrow> nat \<Rightarrow> nat \<Rightarrow> ring result" where
  "ring_construct ret entries verbosity speed buffer_count =
     (if ret < 0 then Inl (Fatal ''Failed to initialize ring'')
      else if (of_nat buffer_count :: 64 word) AND (of_nat buffer_count - 1) \<noteq> 0
      then Inl (Fatal ''Buffer count is not power of 2'')
      else if buffer_count > 32 * 1024 * 1024 then Inl (Fatal ''Buffer count is too large'')
      else Inr \<lparr>rg_entries = entries, rg_verbosity = verbosity, rg_speed = speed, rg_prepared = [], rg_lag = 0,
                rg_submitted = []\<rparr>)"

definition ring_full :: "ring \<Rightarrow> bool" where
  "ring_full r \<longleftrightarrow> rg_entries r \<le> rg_lag r + length (rg_prepared r)"

definition io_uring_submit :: "ring \<Rightarrow> ring" where
  "io_uring_submit r =
     r\<lparr>rg_prepared := [], rg_lag := rg_lag r + length (rg_prepared r) - rg_speed r,
       rg_submitted := rg_submitted r @ rg_prepared r\<rparr>"

definition submit :: "int \<Rightarrow> ring \<Rightarrow> ring result" where
  "submit ret r = (if ret < 0 then Inl (Fatal ''Failed to submit'') else Inr (io_uring_submit r))"

text \<open>
  get_sqe: the submission of a full ring is written inside the arguments of \<open>VLOG(1)\<close>, which are evaluated
  only when the verbosity is at least 1. Between the two looks at a full ring the thread may take entries that
  were submitted before.
\<close>

definition kernel_takes :: "ring \<Rightarrow> ring" where
  "kernel_takes r = r\<lparr>rg_lag := rg_lag r - rg_speed r\<rparr>"

definition get_sqe :: "ring \<Rightarrow> ring result" where
  "get_sqe r =
     (let r' = (if \<not> ring_full r then r else if 1 \<le> rg_verbosity r then io_uring_submit r else kernel_takes r)
      in if ring_full r' then Inl (Fatal ''Failed to get SQE'') else Inr r')"

definition set_user_data :: "sqe \<Rightarrow> user_data \<Rightarrow> ring \<Rightarrow> ring result" where
  "set_user_data e ud r =
     (if ud_op ud = OP_CLEAR then Inl (Fatal ''UserData is in CLEAR state, this should not happen'')
      else Inr (r\<lparr>rg_prepared := rg_prepared r @ [(e, ud_index ud)]\<rparr>))"

text \<open>The user data a completion names.\<close>

definition ring_get_user_data :: "user_data option \<Rightarrow> user_data result" where
  "ring_get_user_data mu =
     (case mu of
        None \<Rightarrow> Inl (Fatal ''UserData is null'')
      | Some u \<Rightarrow> if ud_op u = OP_CLEAR then Inl (Fatal ''UserData is in CLEAR state'') else Inr u)"

text \<open>io_uring_peek_cqe: \<open>None\<close> is -EAGAIN, a negative result otherwise stops the program.\<close>

definition peek_cqe :: "(int + 'c) \<Rightarrow> 'c option result" where
  "peek_cqe res =
     (case res of Inl ret \<Rightarrow> if ret = - 11 then Inr None else Inl (Fatal ''Failed to peek CQE'') | Inr c \<Rightarrow> Inr (Some c))"

definition submit_and_wait :: "nat \<Rightarrow> nat \<Rightarrow> int \<Rightarrow> ring \<Rightarrow> ring result" where
  "submit_and_wait completions cq_entries ret r =
     (if rg_lag r + length (rg_prepared r) > rg_entries r then Inl (Fatal ''SQ overflow'')
      else if completions > cq_entries then Inl (Fatal ''CQ overflow'')
      else if ret < 0 then Inl (Fatal ''Failed to submit and wait'')
      else Inr (io_uring_submit r))"

section \<open>Preparing operations\<close>

definition prepare_accept :: "int \<Rightarrow> nat \<Rightarrow> user_data \<Rightarrow> ring \<Rightarrow> (user_data \<times> ring) result" where
  "prepare_accept fd listener ud r =
     bindR (get_sqe r) (\<lambda>r.
       let ud = ud\<lparr>ud_listener := Some listener, ud_op := OP_ACCEPT\<rparr> in
       bindR (set_user_data (Sqe_Accept fd) ud r) (\<lambda>r. Inr (ud, r)))"

definition ud_prepare_read :: "user_data \<Rightarrow> nat option \<Rightarrow> nat \<Rightarrow> user_data" where
  "ud_prepare_read ud listener conn = ud\<lparr>ud_op := OP_READ, ud_conn := Some conn, ud_listener := listener\<rparr>"

definition prepare_read :: "int \<Rightarrow> user_data \<Rightarrow> nat option \<Rightarrow> nat \<Rightarrow> ring \<Rightarrow> (user_data \<times> ring) result" where
  "prepare_read fd ud listener conn r =
     bindR (get_sqe r) (\<lambda>r.
       let ud = ud_prepare_read ud listener conn in
       bindR (set_user_data (Sqe_Recv_Multishot fd 0) ud r) (\<lambda>r. Inr (ud, r)))"

definition prepare_connect :: "int \<Rightarrow> sockaddr \<Rightarrow> nat \<Rightarrow> user_data \<Rightarrow> ring \<Rightarrow> (user_data \<times> ring) result" where
  "prepare_connect fd addr conn ud r =
     bindR (get_sqe r) (\<lambda>r.
       let ud = ud\<lparr>ud_conn := Some conn, ud_op := OP_CONNECT\<rparr> in
       bindR (set_user_data (Sqe_Connect fd addr) ud r) (\<lambda>r. Inr (ud, r)))"

definition ud_prepare_write :: "user_data \<Rightarrow> buffer option \<Rightarrow> nat \<Rightarrow> user_data result" where
  "ud_prepare_write ud b conn =
     bindR (ud_set_buffer b ud) (\<lambda>ud. Inr (ud\<lparr>ud_op := OP_WRITE, ud_conn := Some conn\<rparr>))"

definition prepare_write :: "int \<Rightarrow> nat \<Rightarrow> buffer \<Rightarrow> user_data \<Rightarrow> ring \<Rightarrow> (user_data \<times> ring) result" where
  "prepare_write fd conn b ud r =
     bindR (get_sqe r) (\<lambda>r.
       bindR (ud_prepare_write ud (Some b) conn) (\<lambda>ud.
         bindR (set_user_data (Sqe_Send fd (take (buf_filled b) (buf_data b))) ud r) (\<lambda>r. Inr (ud, r))))"

definition prepare_cancel :: "int \<Rightarrow> nat \<Rightarrow> user_data \<Rightarrow> ring \<Rightarrow> (user_data \<times> ring) result" where
  "prepare_cancel fd conn ud r =
     bindR (get_sqe r) (\<lambda>r.
       let ud = ud\<lparr>ud_conn := Some conn, ud_op := OP_CANCEL\<rparr> in
       bindR (set_user_data (Sqe_Close fd) ud r) (\<lambda>r. Inr (ud, r)))"

definition prepare_rcvmsg :: "int \<Rightarrow> user_data \<Rightarrow> ring \<Rightarrow> (user_data \<times> ring) result" where
  "prepare_rcvmsg fd ud r =
     bindR (get_sqe r) (\<lambda>r.
       let ud = ud\<lparr>ud_op := OP_RCVMSG\<rparr> in
       bindR (set_user_data (Sqe_Recvmsg_Multishot fd 1) ud r) (\<lambda>r. Inr (ud, r)))"

text \<open>
  A datagram is sent from the descriptor of the buffer. One whose descriptor was never filled carries
  nothing.
\<close>

definition msg_payload :: "buffer \<Rightarrow> byte list" where
  "msg_payload b = (case buf_msg b of None \<Rightarrow> [] | Some n \<Rightarrow> take n (buf_data b))"

definition ring_prepare_sendmsg :: "int \<Rightarrow> buffer \<Rightarrow> user_data \<Rightarrow> ring \<Rightarrow> (user_data \<times> ring) result" where
  "ring_prepare_sendmsg fd b ud r =
     bindR (get_sqe r) (\<lambda>r.
       bindR (ud_set_buffer (Some b) ud) (\<lambda>ud.
         let ud = ud\<lparr>ud_op := OP_SENDMSG\<rparr> in
         bindR (set_user_data (Sqe_Sendmsg fd (msg_payload b) (buf_addr b)) ud r) (\<lambda>r. Inr (ud, r))))"

definition prepare_sendmsg_with_serveraddr ::
    "int \<Rightarrow> buffer \<Rightarrow> user_data \<Rightarrow> sockaddr \<Rightarrow> ring \<Rightarrow> (user_data \<times> ring) result" where
  "prepare_sendmsg_with_serveraddr fd b ud a r =
     bindR (get_sqe r) (\<lambda>r.
       let b = prepare_sendmsg b a in
       bindR (ud_set_buffer (Some b) ud) (\<lambda>ud.
         let ud = ud\<lparr>ud_op := OP_SENDMSG\<rparr> in
         bindR (set_user_data (Sqe_Sendmsg fd (msg_payload b) (buf_addr b)) ud r) (\<lambda>r. Inr (ud, r))))"

section \<open>Datagrams received by a multishot receive\<close>

text \<open>A little-endian unsigned integer in memory.\<close>

fun le_val :: "byte list \<Rightarrow> nat" where
  "le_val [] = 0"
| "le_val (b # bs) = unat b + 256 * le_val bs"

text \<open>
  The kernel puts a struct io_uring_recvmsg_out (four 32-bit words) and the address in front of the
  payload. A read behind the array is undefined.
\<close>

definition handle_multishot_recv :: "buffer \<Rightarrow> int \<Rightarrow> buffer result" where
  "handle_multishot_recv b cqe_res =
     (let d = buf_data b; namelen = le_val (take 4 d); controllen = le_val (take 4 (drop 4 d))
      in if length d < 32 then Inl (Undefined ''multishot header outside the buffer'')
      else bindR
        (if namelen > 0 then
           if namelen = 16
           then Inr (b\<lparr>buf_addr := \<lparr>sin_addr = le_val (take 4 (drop 20 d)), sin_port = le_val (take 2 (drop 18 d))\<rparr>\<rparr>,
                     16 + namelen)
           else Inl (Fatal ''Unexpected address length'')
         else Inr (b, 16)) (\<lambda>(b, header_len).
        let header_len = header_len + controllen
        in if size_t_of cqe_res < header_len then Inl (Fatal ''Received message smaller than header length'')
           else let payload_len = size_t_of cqe_res - header_len
                in if 0 < payload_len \<and> length d < header_len + payload_len
                   then Inl (Undefined ''payload outside the buffer'')
                   else set_filled (b\<lparr>buf_data := write_at d 0 (take payload_len (drop header_len d))\<rparr>) payload_len))"

end
