(* ===== verification/Ring_Correct.thy ===== *)
theory Ring_Correct
  imports Ring
begin

text \<open>
  Properties of RingWrapper: a datagram written into a buffer, sent, and received by another sidecar's
  multishot receive arrives with its bytes and its sender; and what happens when the ring is full.
\<close>

section \<open>Little-endian fields\<close>

fun le_bytes :: "nat \<Rightarrow> nat \<Rightarrow> byte list" where
  "le_bytes 0 v = []"
| "le_bytes (Suc n) v = of_nat v # le_bytes n (v div 256)"

lemma length_le_bytes [simp]: "length (le_bytes n v) = n"
  by (induction n v rule: le_bytes.induct) simp_all

lemma le_val_bytes [simp]: "v < 256 ^ n \<Longrightarrow> le_val (le_bytes n v) = v"
proof (induction n v rule: le_bytes.induct)
  case (2 n v)
  have "v div 256 < 256 ^ n" using 2(2) by (simp add: less_mult_imp_div_less mult.commute)
  with 2(1) have "le_val (le_bytes n (v div 256)) = v div 256" by simp
  moreover have "unat (of_nat v :: byte) = v mod 256" by (simp add: unat_of_nat)
  ultimately show ?case by simp
qed simp

text \<open>
  What the kernel writes into the selected buffer for a datagram \<open>payload\<close> from \<open>a\<close>: the io_uring_recvmsg_out
  header, the address and the payload.
\<close>

definition recvmsg_out :: "sockaddr \<Rightarrow> byte list \<Rightarrow> byte list" where
  "recvmsg_out a payload =
     le_bytes 4 16 @ le_bytes 4 0 @ le_bytes 4 (length payload) @ le_bytes 4 0 @
     [2, 0] @ le_bytes 2 (sin_port a) @ le_bytes 4 (sin_addr a) @ replicate 8 0 @ payload"

definition addr_ok :: "sockaddr \<Rightarrow> bool" where
  "addr_ok a \<longleftrightarrow> sin_port a < 2 ^ 16 \<and> sin_addr a < 2 ^ 32"

lemma recvmsg_out_fields:
  assumes "addr_ok a" "d = recvmsg_out a p @ rest"
  shows "le_val (take 4 d) = 16" "le_val (take 4 (drop 4 d)) = 0" "le_val (take 4 (drop 20 d)) = sin_addr a"
    "le_val (take 2 (drop 18 d)) = sin_port a" "drop 32 d = p @ rest" "length d = 32 + length p + length rest"
proof -
  have "take 4 d = le_bytes 4 16" "take 4 (drop 4 d) = le_bytes 4 0" "take 4 (drop 20 d) = le_bytes 4 (sin_addr a)"
    "take 2 (drop 18 d) = le_bytes 2 (sin_port a)"
    using assms(2) by (simp_all add: recvmsg_out_def drop_append take_append)
  then show "le_val (take 4 d) = 16" "le_val (take 4 (drop 4 d)) = 0" "le_val (take 4 (drop 20 d)) = sin_addr a"
    "le_val (take 2 (drop 18 d)) = sin_port a"
    using assms(1) by (simp_all add: addr_ok_def)
  show "drop 32 d = p @ rest" "length d = 32 + length p + length rest"
    using assms(2) by (simp_all add: recvmsg_out_def)
qed

lemma handle_recvmsg_out:
  assumes a: "addr_ok a" and b: "buffer_ok b" "buf_data b = recvmsg_out a p @ rest" "length p < 2 ^ 32"
  shows "handle_multishot_recv b (32 + int (length p)) =
    Inr (b\<lparr>buf_addr := a, buf_data := write_at (buf_data b) 0 p, buf_filled := length p\<rparr>)"
proof -
  let ?d = "buf_data b"
  note F = recvmsg_out_fields [OF a b(2)]
  have len: "size_t_of (32 + int (length p)) = 32 + length p" using b(3) by simp
  have "length p \<le> buf_size b" using b(1) F(6) by (simp add: buffer_ok_def)
  then show ?thesis
    using F by (simp add: handle_multishot_recv_def Let_def len set_filled_def del: b(2))
qed

section \<open>Properties\<close>

lemma get_sqe_room: "\<not> ring_full r \<Longrightarrow> get_sqe r = Inr r"
  by (simp add: get_sqe_def)

lemma get_sqe_full:
  assumes "ring_full r"
  shows "get_sqe r =
    (if 1 \<le> rg_verbosity r then
       if rg_lag r + length (rg_prepared r) - rg_speed r < rg_entries r
       then Inr (io_uring_submit r) else Inl (Fatal ''Failed to get SQE'')
     else if rg_lag r - rg_speed r + length (rg_prepared r) < rg_entries r
     then Inr (kernel_takes r) else Inl (Fatal ''Failed to get SQE''))"
  using assms by (auto simp: get_sqe_def ring_full_def io_uring_submit_def kernel_takes_def)

lemmas prepare_defs = prepare_accept_def prepare_read_def prepare_connect_def prepare_write_def prepare_cancel_def
  prepare_rcvmsg_def ring_prepare_sendmsg_def prepare_sendmsg_with_serveraddr_def

text \<open>
  C31: A datagram sent with prepare_sendmsg_with_serveraddr reaches the ring as exactly the filled bytes of the
  buffer and the requested destination, with the buffer kept alive by the user data. When the kernel delivers
  those bytes to a multishot receive, handle_multishot_recv leaves them at the start of the receiving
  buffer, with their length and the address of the sender.
\<close>

theorem datagram_delivered:
  assumes "\<not> ring_full r" and sb: "buffer_ok sb" "buf_filled sb < 2 ^ 32" and "addr_ok me"
    and "buffer_ok rb" "buf_data rb = recvmsg_out me (take (buf_filled sb) (buf_data sb)) @ rest"
  shows "\<exists>ud' r' rb'. prepare_sendmsg_with_serveraddr fd sb ud dest r = Inr (ud', r') \<and>
    rg_prepared r' = rg_prepared r @ [(Sqe_Sendmsg fd (take (buf_filled sb) (buf_data sb)) dest, ud_index ud)] \<and>
    ud_op ud' = OP_SENDMSG \<and> ud_buffer ud' = Some (prepare_sendmsg sb dest) \<and>
    handle_multishot_recv rb (32 + int (buf_filled sb)) = Inr rb' \<and> buffer_ok rb' \<and> buf_filled rb' = buf_filled sb \<and>
    take (buf_filled rb') (buf_data rb') = take (buf_filled sb) (buf_data sb) \<and> buf_addr rb' = me"
proof -
  let ?p = "take (buf_filled sb) (buf_data sb)"
  have p: "length ?p = buf_filled sb" using sb(1) by (auto simp: buffer_ok_def)
  let ?rb = "rb\<lparr>buf_addr := me, buf_data := write_at (buf_data rb) 0 ?p, buf_filled := buf_filled sb\<rparr>"
  have fit: "length ?p < length (buf_data rb)"
    using recvmsg_out_fields(6) [OF assms(4,6)] by simp
  have h: "handle_multishot_recv rb (32 + int (buf_filled sb)) = Inr ?rb"
    using handle_recvmsg_out [OF assms(4-6)] sb(2) p by simp
  have ok: "buffer_ok ?rb" using assms(5) fit p by (simp add: buffer_ok_def)
  have d: "take (buf_filled sb) (write_at (buf_data rb) 0 ?p) = ?p"
    using take_write_at_0 [of ?p "buf_data rb"] fit p by simp
  have s: "prepare_sendmsg_with_serveraddr fd sb ud dest r =
      Inr (ud\<lparr>ud_buffer := Some (prepare_sendmsg sb dest), ud_op := OP_SENDMSG\<rparr>,
        r\<lparr>rg_prepared := rg_prepared r @ [(Sqe_Sendmsg fd ?p dest, ud_index ud)]\<rparr>)"
    using assms(1) by (simp add: prepare_defs get_sqe_room Let_def ud_set_buffer_def set_user_data_def
        msg_payload_def prepare_sendmsg_def)
  show ?thesis by (simp add: h s d ok)
qed

theorem datagram_delivered_witness:
  "\<exists>ud' r' rb'. prepare_sendmsg_with_serveraddr 5 ((new_buffer 4 0)\<lparr>buf_filled := 2, buf_data := [7, 8, 9, 0]\<rparr>)
      (new_user_data 3) \<lparr>sin_addr = 1, sin_port = 80\<rparr> \<lparr>rg_entries = 1, rg_verbosity = 0, rg_speed = 0, rg_prepared = [],
        rg_lag = 0, rg_submitted = []\<rparr> = Inr (ud', r') \<and>
    rg_prepared r' = [(Sqe_Sendmsg 5 [7, 8] \<lparr>sin_addr = 1, sin_port = 80\<rparr>, 3)] \<and>
    handle_multishot_recv ((new_buffer 40 1)\<lparr>buf_data :=
      recvmsg_out \<lparr>sin_addr = 2, sin_port = 81\<rparr> [7, 8] @ replicate 6 0\<rparr>) 34 = Inr rb' \<and> buf_filled rb' = 2 \<and>
    take 2 (buf_data rb') = [7, 8] \<and> buf_addr rb' = \<lparr>sin_addr = 2, sin_port = 81\<rparr>"
proof -
  let ?r = "\<lparr>rg_entries = 1, rg_verbosity = 0, rg_speed = 0, rg_prepared = [], rg_lag = 0, rg_submitted = []\<rparr>"
  let ?sb = "(new_buffer 4 0)\<lparr>buf_filled := 2, buf_data := [7, 8, 9, 0]\<rparr>"
  let ?me = "\<lparr>sin_addr = 2, sin_port = 81\<rparr>"
  let ?rb = "(new_buffer 40 1)\<lparr>buf_data := recvmsg_out ?me [7, 8] @ replicate 6 0\<rparr>"
  have h: "\<not> ring_full ?r" "buffer_ok ?sb" "buf_filled ?sb < 2 ^ 32" "addr_ok ?me" "buffer_ok ?rb"
    "buf_data ?rb = recvmsg_out ?me (take (buf_filled ?sb) (buf_data ?sb)) @ replicate 6 0"
    by (simp_all add: ring_full_def buffer_ok_def addr_ok_def recvmsg_out_def)
  show ?thesis
    using datagram_delivered [OF h, of 5 "new_user_data 3" "\<lparr>sin_addr = 1, sin_port = 80\<rparr>"]
    by (auto simp: new_user_data_def)
qed

text \<open>
  The wrapper never overwrites an entry of the ring: preparing an operation either adds one entry behind
  the prepared ones or stops the program. A ring full of prepared entries stops it at the default verbosity
  whatever the operation, because the submission that would make room stands inside a VLOG;
  with verbosity 1 and a kernel that takes an entry it continues after submitting everything prepared.
\<close>

theorem full_ring_behaviour:
  assumes "ring_full r"
  shows "(rg_verbosity r = 0 \<and> rg_entries r \<le> rg_lag r - rg_speed r + length (rg_prepared r) \<longrightarrow>
      (\<forall>q \<in> {prepare_accept fd l ud, prepare_read fd ud ml c, prepare_connect fd a c ud, prepare_write fd c b ud,
         prepare_cancel fd c ud, prepare_rcvmsg fd ud, ring_prepare_sendmsg fd b ud,
         prepare_sendmsg_with_serveraddr fd b ud a}. q r = Inl (Fatal ''Failed to get SQE''))) \<and>
    (1 \<le> rg_verbosity r \<and> 0 < rg_speed r \<and> rg_lag r + length (rg_prepared r) = rg_entries r \<and> 0 < rg_entries r \<longrightarrow>
      (\<exists>ud' r'. prepare_write fd c b ud r = Inr (ud', r') \<and>
        rg_submitted r' = rg_submitted r @ rg_prepared r \<and>
        rg_prepared r' = [(Sqe_Send fd (take (buf_filled b) (buf_data b)), ud_index ud)]))"
proof (intro conjI impI)
  assume "rg_verbosity r = 0 \<and> rg_entries r \<le> rg_lag r - rg_speed r + length (rg_prepared r)"
  then show "\<forall>q \<in> {prepare_accept fd l ud, prepare_read fd ud ml c, prepare_connect fd a c ud, prepare_write fd c b ud,
         prepare_cancel fd c ud, prepare_rcvmsg fd ud, ring_prepare_sendmsg fd b ud,
         prepare_sendmsg_with_serveraddr fd b ud a}. q r = Inl (Fatal ''Failed to get SQE'')"
    using assms by (simp add: prepare_defs get_sqe_full)
next
  assume "1 \<le> rg_verbosity r \<and> 0 < rg_speed r \<and> rg_lag r + length (rg_prepared r) = rg_entries r \<and> 0 < rg_entries r"
  then show "\<exists>ud' r'. prepare_write fd c b ud r = Inr (ud', r') \<and>
        rg_submitted r' = rg_submitted r @ rg_prepared r \<and>
        rg_prepared r' = [(Sqe_Send fd (take (buf_filled b) (buf_data b)), ud_index ud)]"
    using assms by (simp add: prepare_defs get_sqe_full ud_prepare_write_def ud_set_buffer_def set_user_data_def
        io_uring_submit_def)
qed

definition demo_ring :: "nat \<Rightarrow> ring" where
  "demo_ring verbosity =
     \<lparr>rg_entries = 1, rg_verbosity = verbosity, rg_speed = 1, rg_prepared = [(Sqe_Close 4, 0)], rg_lag = 0, rg_submitted = []\<rparr>"

theorem full_ring_behaviour_witness:
  "prepare_cancel 5 0 (new_user_data 3) (demo_ring 0) = Inl (Fatal ''Failed to get SQE'') \<and>
   (\<exists>ud' r'. prepare_write 5 0 ((new_buffer 4 0)\<lparr>buf_filled := 1\<rparr>) (new_user_data 3) (demo_ring 1) = Inr (ud', r') \<and>
      rg_submitted r' = [(Sqe_Close 4, 0)] \<and> rg_prepared r' = [(Sqe_Send 5 [0], 3)])"
proof -
  have "ring_full (demo_ring 0)" "ring_full (demo_ring 1)" by (simp_all add: ring_full_def demo_ring_def)
  from full_ring_behaviour [OF this(1), of 5 0 "new_user_data 3" None 0 no_addr "new_buffer 4 0"]
    full_ring_behaviour [OF this(2), of 5 0 "new_user_data 3" None 0 no_addr "(new_buffer 4 0)\<lparr>buf_filled := 1\<rparr>"]
  show ?thesis by (simp add: demo_ring_def new_user_data_def)
qed

end
