(* ===== verification/Pico.thy ===== *)
theory Pico
  imports Prelude "HOL-Library.Sublist"
begin

text \<open>
  The HTTP/1 parser (src/picohttpparser.c). A cursor into the buffer is the list of the bytes from it to the
  end, a token is the bytes it points to. The parser returns the number of consumed bytes, -1 for
  malformed input or -2 for incomplete input; a read behind the end of the buffer, which C leaves
  undefined, is the third error. The file has two ways to look for the end of a token, selected at compile
  time: \<open>sse\<close> is true for the build with __SSE4_2__.
\<close>

datatype parse_error = Parse_Failed | Parse_Partial | Parse_Overrun

type_synonym 'a parse = "parse_error + 'a"

type_synonym cursor = "byte list"

record phr_header =
  ph_name :: "byte list option"
  ph_value :: "byte list"

section \<open>Characters\<close>

definition printable :: "byte \<Rightarrow> bool" where
  "printable c \<longleftrightarrow> 32 \<le> c \<and> c < 127"

definition token_char_map :: "byte \<Rightarrow> bool" where
  "token_char_map c \<longleftrightarrow> c = 0x21 \<or> (0x23 \<le> c \<and> c \<le> 0x27) \<or> c = 0x2a \<or> c = 0x2b \<or> c = 0x2d \<or> c = 0x2e \<or>
     (0x30 \<le> c \<and> c \<le> 0x39) \<or> (0x41 \<le> c \<and> c \<le> 0x5a) \<or> (0x5e \<le> c \<and> c \<le> 0x7a) \<or> c = 0x7c \<or> c = 0x7e"

text \<open>The condition for jumping to FOUND_CTL, under \<open>!IS_PRINTABLE_ASCII\<close>.\<close>

definition ctl :: "byte \<Rightarrow> bool" where
  "ctl c \<longleftrightarrow> (c < 32 \<and> c \<noteq> 9) \<or> c = 127"

definition blank :: "byte \<Rightarrow> bool" where
  "blank c \<longleftrightarrow> c = 32 \<or> c = 9"

text \<open>The macros EXPECT_CHAR, EXPECT_CHAR_NO_CHECK and PARSE_INT.\<close>

fun expect_char :: "byte \<Rightarrow> cursor \<Rightarrow> cursor parse" where
  "expect_char ch [] = Inl Parse_Partial"
| "expect_char ch (c # b) = (if c \<noteq> ch then Inl Parse_Failed else Inr b)"

fun expect_char_no_check :: "byte \<Rightarrow> cursor \<Rightarrow> cursor parse" where
  "expect_char_no_check ch [] = Inl Parse_Overrun"
| "expect_char_no_check ch (c # b) = (if c \<noteq> ch then Inl Parse_Failed else Inr b)"

fun parse_int :: "int \<Rightarrow> cursor \<Rightarrow> (int \<times> cursor) parse" where
  "parse_int mul [] = Inl Parse_Overrun"
| "parse_int mul (c # b) = (if c < 48 \<or> 57 < c then Inl Parse_Failed else Inr (mul * (uint c - 48), b))"

section \<open>Fast search\<close>

fun in_ranges :: "byte list \<Rightarrow> byte \<Rightarrow> bool" where
  "in_ranges (lo # hi # rs) c \<longleftrightarrow> (lo \<le> c \<and> c \<le> hi) \<or> in_ranges rs c"
| "in_ranges _ c \<longleftrightarrow> False"

text \<open>
  The loop over 16-byte blocks; _mm_cmpestri gives the index of the first byte of the block in one of the
  ranges, 16 when there is none.
\<close>

function findchar_blocks :: "(byte \<Rightarrow> bool) \<Rightarrow> cursor \<Rightarrow> cursor \<times> bool" where
  "findchar_blocks p buf =
     (if length buf < 16 then (buf, False)
      else let r = length (takeWhile (\<lambda>c. \<not> p c) (take 16 buf))
        in if r \<noteq> 16 then (drop r buf, True) else findchar_blocks p (drop 16 buf))"
  by auto
termination by (relation "measure (length \<circ> snd)") auto

definition findchar_fast :: "bool \<Rightarrow> byte list \<Rightarrow> cursor \<Rightarrow> cursor \<times> bool" where
  "findchar_fast sse ranges buf =
     (if sse \<and> 16 \<le> length buf then findchar_blocks (in_ranges ranges) buf else (buf, False))"

section \<open>Tokens up to the end of the line\<close>

text \<open>The loop unrolled for 8 bytes, of the build without SSE.\<close>

function eol_fast :: "cursor \<Rightarrow> cursor \<times> bool" where
  "eol_fast buf =
     (if length buf < 8 then (buf, False)
      else let n = length (takeWhile printable (take 8 buf))
        in if n = 8 then eol_fast (drop 8 buf)
           else if ctl (buf ! n) then (drop n buf, True)
           else eol_fast (drop (Suc n) buf))"
  by auto
termination by (relation "measure length") auto

fun eol_slow :: "cursor \<Rightarrow> cursor parse" where
  "eol_slow [] = Inl Parse_Partial"
| "eol_slow (c # b) = (if \<not> printable c \<and> ctl c then Inr (c # b) else eol_slow b)"

definition get_token_to_eol :: "bool \<Rightarrow> cursor \<Rightarrow> (byte list \<times> cursor) parse" where
  "get_token_to_eol sse buf =
     (let (b, found) = (if sse then findchar_fast sse [0, 8, 10, 31, 127, 127] buf else eol_fast buf) in
      bindR (if found then Inr b else eol_slow b) (\<lambda>b. case b of
          [] \<Rightarrow> Inl Parse_Overrun
        | c # b' \<Rightarrow>
            if c = 13 then bindR (expect_char 10 b') (\<lambda>rest. Inr (take (length buf - length rest - 2) buf, rest))
            else if c = 10 then Inr (take (length buf - length b) buf, b')
            else Inl Parse_Failed))"

section \<open>Completeness of a request\<close>

fun complete_loop :: "nat \<Rightarrow> cursor \<Rightarrow> cursor parse" where
  "complete_loop n [] = Inl Parse_Partial"
| "complete_loop n (c # b) =
     (if c = 13 then
        (case b of
           [] \<Rightarrow> Inl Parse_Partial
         | d # b' \<Rightarrow> if d \<noteq> 10 then Inl Parse_Failed else if Suc n = 2 then Inr b' else complete_loop (Suc n) b')
      else if c = 10 then (if Suc n = 2 then Inr b else complete_loop (Suc n) b)
      else complete_loop 0 b)"

definition is_complete :: "nat \<Rightarrow> cursor \<Rightarrow> cursor parse" where
  "is_complete last_len buf =
     (if last_len < 3 then complete_loop 0 buf
      else if length buf < last_len - 3 then Inl Parse_Overrun
      else complete_loop 0 (drop (last_len - 3) buf))"

section \<open>The parts of a request\<close>

fun token_loop :: "byte \<Rightarrow> cursor \<Rightarrow> cursor parse" where
  "token_loop next_char [] = Inl Parse_Overrun"
| "token_loop next_char (c # b) =
     (if c = next_char then Inr (c # b)
      else if \<not> token_char_map c then Inl Parse_Failed
      else if b = [] then Inl Parse_Partial
      else token_loop next_char b)"

definition parse_token :: "bool \<Rightarrow> byte \<Rightarrow> cursor \<Rightarrow> (byte list \<times> cursor) parse" where
  "parse_token sse next_char buf =
     (let (b, found) = findchar_fast sse [0, 32, 34, 34, 40, 41, 44, 44, 47, 47, 58, 64, 91, 93, 123, 255] buf in
      if \<not> found \<and> b = [] then Inl Parse_Partial
      else bindR (token_loop next_char b) (\<lambda>rest. Inr (take (length buf - length rest) buf, rest)))"

fun advance_loop :: "cursor \<Rightarrow> cursor parse" where
  "advance_loop [] = Inl Parse_Overrun"
| "advance_loop (c # b) =
     (if c = 32 then Inr (c # b)
      else if \<not> printable c \<and> (c < 32 \<or> c = 127) then Inl Parse_Failed
      else if b = [] then Inl Parse_Partial
      else advance_loop b)"

definition advance_token :: "bool \<Rightarrow> cursor \<Rightarrow> (byte list \<times> cursor) parse" where
  "advance_token sse buf =
     (let (b, found) = findchar_fast sse [0, 32, 127, 127] buf in
      if \<not> found \<and> b = [] then Inl Parse_Partial
      else bindR (advance_loop b) (\<lambda>rest. Inr (take (length buf - length rest) buf, rest)))"

text \<open>\<open>do { ++buf; CHECK_EOF(); } while (*buf == ' ')\<close>\<close>

fun skip_spaces :: "cursor \<Rightarrow> cursor parse" where
  "skip_spaces [] = Inl Parse_Overrun"
| "skip_spaces (c # b) =
     (case b of [] \<Rightarrow> Inl Parse_Partial | d # _ \<Rightarrow> if d = 32 then skip_spaces b else Inr b)"

definition parse_http_version :: "cursor \<Rightarrow> (int \<times> cursor) parse" where
  "parse_http_version buf =
     (if length buf < 9 then Inl Parse_Partial
      else bindR (foldR expect_char_no_check (bytes ''HTTP/1.'') buf) (parse_int 1))"

fun skip_blanks :: "cursor \<Rightarrow> cursor parse" where
  "skip_blanks [] = Inl Parse_Partial"
| "skip_blanks (c # b) = (if blank c then skip_blanks b else Inr (c # b))"

definition trim_value :: "byte list \<Rightarrow> byte list" where
  "trim_value v = rev (dropWhile blank (rev v))"

text \<open>One round of the loop of parse_headers: \<open>num\<close> headers are stored, \<open>c\<close> is the first byte of the line.\<close>

definition header_line :: "bool \<Rightarrow> nat \<Rightarrow> byte \<Rightarrow> cursor \<Rightarrow> (phr_header \<times> cursor) parse" where
  "header_line sse num c buf =
     bindR
       (if \<not> (num \<noteq> 0 \<and> blank c) then
          bindR (parse_token sse 58 buf) (\<lambda>(nm, b).
            if nm = [] then Inl Parse_Failed else bindR (skip_blanks (tl b)) (\<lambda>b. Inr (Some nm, b)))
        else Inr (None, buf))
       (\<lambda>(nm, b). bindR (get_token_to_eol sse b) (\<lambda>(v, rest). Inr (\<lparr>ph_name = nm, ph_value = trim_value v\<rparr>, rest)))"


section \<open>The searches without blocks\<close>

lemma byte_cmp:
  fixes c :: byte
  shows "c < numeral k \<longleftrightarrow> unat c < unat (numeral k :: byte)" "numeral k < c \<longleftrightarrow> unat (numeral k :: byte) < unat c"
    "numeral k \<le> c \<longleftrightarrow> unat (numeral k :: byte) \<le> unat c" "c \<le> numeral k \<longleftrightarrow> unat c \<le> unat (numeral k :: byte)"
    "c = numeral k \<longleftrightarrow> unat c = unat (numeral k :: byte)"
  by (simp_all add: word_less_nat_alt word_le_nat_alt word_unat_eq_iff)

lemma ctl_not_printable: "ctl c \<Longrightarrow> \<not> printable c"
  unfolding ctl_def printable_def by (auto simp: byte_cmp)

lemma eol_ranges: "in_ranges [0, 8, 10, 31, 127, 127] c \<longleftrightarrow> ctl c"
  unfolding ctl_def by (auto simp: byte_cmp)

lemma list_all_below: "list_all P [0..<n] \<Longrightarrow> i < n \<Longrightarrow> P i"
  by (simp add: list_all_iff)

lemma token_ranges:
  "\<not> in_ranges [0, 32, 34, 34, 40, 41, 44, 44, 47, 47, 58, 64, 91, 93, 123, 255] c \<Longrightarrow>
   token_char_map c \<and> c \<noteq> 32 \<and> c \<noteq> 58"
proof -
  let ?P = "\<lambda>c. in_ranges [0, 32, 34, 34, 40, 41, 44, 44, 47, 47, 58, 64, 91, 93, 123, 255] c \<or>
     (token_char_map c \<and> c \<noteq> 32 \<and> c \<noteq> 58)"
  have "list_all (\<lambda>n. ?P (of_nat n)) [0..<256]" by code_simp
  moreover have "unat c < 256" using unsigned_less [of c] by simp
  ultimately have "?P (of_nat (unat c))" by (rule list_all_below)
  moreover have "of_nat (unat c) = c" by simp
  ultimately have "?P c" by (simp only:)
  then show "\<not> in_ranges [0, 32, 34, 34, 40, 41, 44, 44, 47, 47, 58, 64, 91, 93, 123, 255] c \<Longrightarrow>
     token_char_map c \<and> c \<noteq> 32 \<and> c \<noteq> 58" by blast
qed

lemma target_ranges: "\<not> in_ranges [0, 32, 127, 127] c \<Longrightarrow> c \<noteq> 32 \<and> \<not> (c < 32 \<or> c = 127)"
  by (auto simp: byte_cmp)

declare findchar_blocks.simps [simp del] eol_fast.simps [simp del] skip_spaces.simps(2) [simp del]

lemma skip_spaces_simps [simp]:
  "skip_spaces [c] = Inl Parse_Partial"
  "skip_spaces (c # d # b) = (if d = 32 then skip_spaces (d # b) else Inr (d # b))"
  by (simp_all add: skip_spaces.simps)

lemma takeWhile_take:
  assumes r: "length (takeWhile P (take n xs)) < n" and n: "\<not> length xs < n"
  shows "length (takeWhile P (take n xs)) < length xs" "\<not> P (xs ! length (takeWhile P (take n xs)))"
    "\<forall>x\<in>set (take (length (takeWhile P (take n xs))) xs). P x"
proof -
  let ?r = "length (takeWhile P (take n xs))"
  show "?r < length xs" using r n by simp
  have "\<not> P (take n xs ! ?r)" using nth_length_takeWhile [of P "take n xs"] r n by simp
  then show "\<not> P (xs ! ?r)" using r by simp
  have "take ?r xs = takeWhile P (take n xs)"
    using takeWhile_eq_take [of P "take n xs"] r by (simp add: min_def)
  then show "\<forall>x\<in>set (take ?r xs). P x" by (metis set_takeWhileD)
qed

text \<open>What a block search skips is free of the characters looked for, and what it finds is one of them.\<close>

lemma findchar_blocks_spec:
  "findchar_blocks p buf = (b, found) \<Longrightarrow>
   \<exists>u. buf = u @ b \<and> (\<forall>c\<in>set u. \<not> p c) \<and> (found \<longrightarrow> b \<noteq> [] \<and> p (hd b))"
proof (induction p buf arbitrary: b found rule: findchar_blocks.induct)
  case (1 p buf)
  let ?r = "length (takeWhile (\<lambda>c. \<not> p c) (take 16 buf))"
  have le: "?r \<le> 16" using length_takeWhile_le [of "\<lambda>c. \<not> p c" "take 16 buf"] by simp
  consider "length buf < 16" | "\<not> length buf < 16" "?r = 16" | "\<not> length buf < 16" "?r \<noteq> 16" by blast
  then show ?case
  proof cases
    case 1
    then show ?thesis using "1.prems" by (simp add: findchar_blocks.simps [of p buf])
  next
    case 2
    then have "findchar_blocks p (drop 16 buf) = (b, found)" using "1.prems" by (simp add: findchar_blocks.simps [of p buf])
    from "1.IH" [OF 2(1) refl _ this] 2(2) obtain u where
      u: "drop 16 buf = u @ b" "\<forall>c\<in>set u. \<not> p c" "found \<longrightarrow> b \<noteq> [] \<and> p (hd b)" by auto
    have "takeWhile (\<lambda>c. \<not> p c) (take 16 buf) = take 16 buf"
      using 2 takeWhile_eq_take [of "\<lambda>c. \<not> p c" "take 16 buf"] by simp
    then have "\<forall>c\<in>set (take 16 buf). \<not> p c" by (simp add: takeWhile_eq_all_conv)
    then show ?thesis using u append_take_drop_id [of 16 buf]
      by (intro exI [of _ "take 16 buf @ u"]) auto
  next
    case 3
    then have "?r < 16" using le by simp
    note r = takeWhile_take [OF this 3(1)]
    have "findchar_blocks p buf = (drop ?r buf, True)"
      using 3 by (subst findchar_blocks.simps) (simp only: Let_def if_False if_True simp_thms)
    then have b: "b = drop ?r buf" "found" using "1.prems" by simp_all
    define k where "k = ?r"
    show ?thesis using r [folded k_def] b [folded k_def]
      by (intro exI [of _ "take k buf"]) (simp add: hd_drop_conv_nth)
  qed
qed

lemma findchar_fast_spec:
  assumes "findchar_fast sse rs buf = (b, found)"
  obtains u where "buf = u @ b" "\<forall>c\<in>set u. \<not> in_ranges rs c" "found \<Longrightarrow> b \<noteq> [] \<and> in_ranges rs (hd b)"
proof (cases "sse \<and> 16 \<le> length buf")
  case True
  then have "findchar_blocks (in_ranges rs) buf = (b, found)" using assms by (simp add: findchar_fast_def)
  from findchar_blocks_spec [OF this] that show ?thesis by blast
next
  case False
  then have "b = buf" "\<not> found" using assms by (auto simp: findchar_fast_def)
  then show ?thesis using that [of "[]"] by simp
qed

lemma eol_slow_skip: "\<forall>c\<in>set u. \<not> ctl c \<Longrightarrow> eol_slow (u @ b) = eol_slow b"
  by (induction u) auto

lemma eol_slow_found: "b \<noteq> [] \<Longrightarrow> ctl (hd b) \<Longrightarrow> eol_slow b = Inr b"
  by (cases b) (auto dest: ctl_not_printable)

lemma eol_fast_spec:
  "eol_fast buf = (b, found) \<Longrightarrow> \<exists>u. buf = u @ b \<and> (\<forall>c\<in>set u. \<not> ctl c) \<and> (found \<longrightarrow> b \<noteq> [] \<and> ctl (hd b))"
proof (induction buf arbitrary: b found rule: eol_fast.induct)
  case (1 buf)
  let ?n = "length (takeWhile printable (take 8 buf))"
  have le: "?n \<le> 8" using length_takeWhile_le [of printable "take 8 buf"] by simp
  have pr: "printable c \<Longrightarrow> \<not> ctl c" for c using ctl_not_printable by blast
  consider "length buf < 8" | "\<not> length buf < 8" "?n = 8" | "\<not> length buf < 8" "?n \<noteq> 8" by blast
  then show ?case
  proof cases
    case 1
    then show ?thesis using "1.prems" by (simp add: eol_fast.simps [of buf])
  next
    case 2
    then have "eol_fast (drop 8 buf) = (b, found)" using "1.prems" by (simp add: eol_fast.simps [of buf])
    from "1.IH"(1) [OF 2(1) refl 2(2) this] obtain u where
      u: "drop 8 buf = u @ b" "\<forall>c\<in>set u. \<not> ctl c" "found \<longrightarrow> b \<noteq> [] \<and> ctl (hd b)" by auto
    have "takeWhile printable (take 8 buf) = take 8 buf"
      using 2 takeWhile_eq_take [of printable "take 8 buf"] by simp
    then have "\<forall>c\<in>set (take 8 buf). \<not> ctl c" using pr by (simp add: takeWhile_eq_all_conv)
    then show ?thesis using u append_take_drop_id [of 8 buf]
      by (intro exI [of _ "take 8 buf @ u"]) auto
  next
    case 3
    then have "?n < 8" using le by simp
    note r = takeWhile_take [OF this 3(1)]
    then have n: "?n < length buf" "\<forall>c\<in>set (take ?n buf). \<not> ctl c" using pr by blast+
    show ?thesis
    proof (cases "ctl (buf ! ?n)")
      case True
      then have "eol_fast buf = (drop ?n buf, True)"
        using 3 by (subst eol_fast.simps) (simp only: Let_def if_False if_True simp_thms)
      then have b: "b = drop ?n buf" "found" using "1.prems" by simp_all
      define k where "k = ?n"
      show ?thesis using n [folded k_def] True [folded k_def] b [folded k_def]
        by (intro exI [of _ "take k buf"]) (simp add: hd_drop_conv_nth)
    next
      case False
      then have "eol_fast buf = eol_fast (drop (Suc ?n) buf)"
        using 3 by (subst eol_fast.simps) (simp only: Let_def if_False if_True simp_thms)
      then have "eol_fast (drop (Suc ?n) buf) = (b, found)" using "1.prems" by simp
      from "1.IH"(2) [OF 3(1) refl 3(2) False this] obtain u where
        u: "drop (Suc ?n) buf = u @ b" "\<forall>c\<in>set u. \<not> ctl c" "found \<longrightarrow> b \<noteq> [] \<and> ctl (hd b)" by auto
      have "\<forall>c\<in>set (take (Suc ?n) buf). \<not> ctl c" using n False by (auto simp: take_Suc_conv_app_nth)
      then show ?thesis using u append_take_drop_id [of "Suc ?n" buf]
        by (intro exI [of _ "take (Suc ?n) buf @ u"]) auto
    qed
  qed
qed

lemma token_loop_skip:
  "\<forall>c\<in>set u. c \<noteq> next \<and> token_char_map c \<Longrightarrow>
   token_loop next (u @ b) = (if b = [] \<and> u \<noteq> [] then Inl Parse_Partial else token_loop next b)"
  by (induction u) auto

lemma advance_loop_skip:
  "\<forall>c\<in>set u. c \<noteq> 32 \<and> \<not> (c < 32 \<or> c = 127) \<Longrightarrow>
   advance_loop (u @ b) = (if b = [] \<and> u \<noteq> [] then Inl Parse_Partial else advance_loop b)"
  by (induction u) auto

lemma get_token_to_eol_slow:
  "get_token_to_eol sse buf = bindR (eol_slow buf) (\<lambda>b. case b of
          [] \<Rightarrow> Inl Parse_Overrun
        | c # b' \<Rightarrow>
            if c = 13 then bindR (expect_char 10 b') (\<lambda>rest. Inr (take (length buf - length rest - 2) buf, rest))
            else if c = 10 then Inr (take (length buf - length b) buf, b')
            else Inl Parse_Failed)"
proof -
  let ?f = "if sse then findchar_fast sse [0, 8, 10, 31, 127, 127] buf else eol_fast buf"
  obtain b found where f: "?f = (b, found)" by (cases ?f)
  have "\<exists>u. buf = u @ b \<and> (\<forall>c\<in>set u. \<not> ctl c) \<and> (found \<longrightarrow> b \<noteq> [] \<and> ctl (hd b))"
  proof (cases sse)
    case True
    then have "findchar_fast sse [0, 8, 10, 31, 127, 127] buf = (b, found)" using f by simp
    then show ?thesis by (rule findchar_fast_spec) (simp only: eol_ranges, blast)
  next
    case False
    then show ?thesis using f eol_fast_spec by simp
  qed
  then obtain u where u: "buf = u @ b" "\<forall>c\<in>set u. \<not> ctl c" "found \<Longrightarrow> b \<noteq> [] \<and> ctl (hd b)" by blast
  have "(if found then Inr b else eol_slow b) = eol_slow buf"
    using u eol_slow_skip [of u b] eol_slow_found [of b] by auto
  then show ?thesis unfolding get_token_to_eol_def f by (simp only: Let_def prod.case)
qed

lemma parse_token_slow:
  assumes "next = 32 \<or> next = 58"
  shows "parse_token sse next buf =
    (if buf = [] then Inl Parse_Partial
     else bindR (token_loop next buf) (\<lambda>rest. Inr (take (length buf - length rest) buf, rest)))"
proof -
  let ?R = "[0, 32, 34, 34, 40, 41, 44, 44, 47, 47, 58, 64, 91, 93, 123, 255] :: byte list"
  obtain b found where f: "findchar_fast sse ?R buf = (b, found)" by (cases "findchar_fast sse ?R buf")
  then obtain u where u: "buf = u @ b" "\<forall>c\<in>set u. \<not> in_ranges ?R c" "found \<Longrightarrow> b \<noteq> []"
    by (rule findchar_fast_spec) blast
  have "\<forall>c\<in>set u. c \<noteq> next \<and> token_char_map c" using u(2) token_ranges assms by blast
  from token_loop_skip [OF this, of b] u(1,3) show ?thesis
    unfolding parse_token_def f by (auto simp: Let_def)
qed

lemma advance_token_slow:
  "advance_token sse buf =
    (if buf = [] then Inl Parse_Partial
     else bindR (advance_loop buf) (\<lambda>rest. Inr (take (length buf - length rest) buf, rest)))"
proof -
  let ?R = "[0, 32, 127, 127] :: byte list"
  obtain b found where f: "findchar_fast sse ?R buf = (b, found)" by (cases "findchar_fast sse ?R buf")
  then obtain u where u: "buf = u @ b" "\<forall>c\<in>set u. \<not> in_ranges ?R c" "found \<Longrightarrow> b \<noteq> []"
    by (rule findchar_fast_spec) blast
  have "\<forall>c\<in>set u. c \<noteq> 32 \<and> \<not> (c < 32 \<or> c = 127)" using u(2) target_ranges by blast
  from advance_loop_skip [OF this, of b] u(1,3) show ?thesis
    unfolding advance_token_def f by (auto simp: Let_def)
qed

text \<open>How much the parts consume.\<close>

lemma eol_slow_suffix: "eol_slow b = Inr r \<Longrightarrow> suffix r b \<and> r \<noteq> []"
  by (induction b) (auto split: if_splits intro: suffix_ConsI)

lemma token_loop_suffix: "token_loop next b = Inr r \<Longrightarrow> suffix r b \<and> r \<noteq> []"
  by (induction b) (auto split: if_splits intro: suffix_ConsI)

lemma skip_blanks_suffix: "skip_blanks b = Inr r \<Longrightarrow> suffix r b \<and> r \<noteq> []"
  by (induction b) (auto split: if_splits intro: suffix_ConsI)

lemma expect_char_Inr [simp]: "expect_char ch b = Inr r \<longleftrightarrow> b = ch # r"
  by (cases b) auto

lemma get_token_to_eol_less:
  assumes "get_token_to_eol sse b = Inr (v, r)"
  shows "length r < length b"
proof -
  from assms obtain b1 where b1: "eol_slow b = Inr b1" and v: "(case b1 of
          [] \<Rightarrow> Inl Parse_Overrun
        | c # b' \<Rightarrow>
            if c = 13 then bindR (expect_char 10 b') (\<lambda>rest. Inr (take (length b - length rest - 2) b, rest))
            else if c = 10 then Inr (take (length b - length b1) b, b')
            else Inl Parse_Failed) = Inr (v, r)"
    unfolding get_token_to_eol_slow bindR_eq_Inr by blast
  from eol_slow_suffix [OF b1] have "length b1 \<le> length b" by (simp add: suffix_length_le)
  with v show ?thesis by (auto split: list.splits if_splits)
qed

lemma parse_token_less:
  assumes "parse_token sse next b = Inr (t, r)" "next = 32 \<or> next = 58"
  shows "length r \<le> length b"
  using assms(1) token_loop_suffix suffix_length_le
  unfolding parse_token_slow [OF assms(2)] by (fastforce split: if_splits)

lemma header_line_less:
  assumes "header_line sse num c b = Inr (h, r)"
  shows "length r < length b"
proof -
  from assms obtain nm b1 v where v: "get_token_to_eol sse b1 = Inr (v, r)" and
    b1: "(if \<not> (num \<noteq> 0 \<and> blank c) then
          bindR (parse_token sse 58 b) (\<lambda>(nm, b).
            if nm = [] then Inl Parse_Failed else bindR (skip_blanks (tl b)) (\<lambda>b. Inr (Some nm, b)))
        else Inr (None, b)) = Inr (nm, b1)"
    unfolding header_line_def bindR_eq_Inr by (auto split: prod.splits)
  have "length b1 \<le> length b"
  proof (cases "\<not> (num \<noteq> 0 \<and> blank c)")
    case True
    with b1 obtain t b2 where "parse_token sse 58 b = Inr (t, b2)" "skip_blanks (tl b2) = Inr b1"
      by (auto split: if_splits)
    then have "length b2 \<le> length b" "length b1 \<le> length (tl b2)"
      using parse_token_less skip_blanks_suffix suffix_length_le by blast+
    then show ?thesis by simp
  qed (use b1 in auto)
  with get_token_to_eol_less [OF v] show ?thesis by simp
qed

section \<open>Requests and responses\<close>

function parse_headers :: "bool \<Rightarrow> nat \<Rightarrow> phr_header list \<Rightarrow> cursor \<Rightarrow> (phr_header list \<times> cursor) parse" where
  "parse_headers sse limit hs [] = Inl Parse_Partial"
| "parse_headers sse limit hs (c # b) =
     (if c = 13 then bindR (expect_char 10 b) (\<lambda>rest. Inr (hs, rest))
      else if c = 10 then Inr (hs, b)
      else if length hs = limit then Inl Parse_Failed
      else (case header_line sse (length hs) c (c # b) of
              Inl e \<Rightarrow> Inl e
            | Inr (h, rest) \<Rightarrow> parse_headers sse limit (hs @ [h]) rest))"
  by pat_completeness auto
termination
  by (relation "measure (\<lambda>(_, _, _, b). length b)") (auto dest: header_line_less)

record phr_request =
  pq_consumed :: int
  pq_method :: "byte list"
  pq_path :: "byte list"
  pq_minor :: int
  pq_headers :: "phr_header list"

definition parse_request :: "bool \<Rightarrow> nat \<Rightarrow> cursor \<Rightarrow> (phr_request \<times> cursor) parse" where
  "parse_request sse limit buf =
     bindR (case buf of
         [] \<Rightarrow> Inl Parse_Partial
       | c # b \<Rightarrow> if c = 13 then expect_char 10 b else if c = 10 then Inr b else Inr buf) (\<lambda>b.
     bindR (parse_token sse 32 b) (\<lambda>(method, b).
     bindR (skip_spaces b) (\<lambda>b.
     bindR (advance_token sse b) (\<lambda>(path, b).
     bindR (skip_spaces b) (\<lambda>b.
     if method = [] \<or> path = [] then Inl Parse_Failed
     else bindR (parse_http_version b) (\<lambda>(minor, b).
     bindR (case b of
         [] \<Rightarrow> Inl Parse_Overrun
       | c # b' \<Rightarrow> if c = 13 then expect_char 10 b' else if c = 10 then Inr b' else Inl Parse_Failed) (\<lambda>b.
     bindR (parse_headers sse limit [] b) (\<lambda>(hs, b).
     Inr (\<lparr>pq_consumed = 0, pq_method = method, pq_path = path, pq_minor = minor, pq_headers = hs\<rparr>, b)))))))))"

definition phr_parse_request :: "bool \<Rightarrow> nat \<Rightarrow> nat \<Rightarrow> cursor \<Rightarrow> phr_request parse" where
  "phr_parse_request sse limit last_len buf =
     bindR (if last_len \<noteq> 0 then is_complete last_len buf else Inr buf) (\<lambda>_.
     bindR (parse_request sse limit buf) (\<lambda>(q, rest).
       Inr (q\<lparr>pq_consumed := int (length buf) - int (length rest)\<rparr>)))"

record phr_response =
  pp_consumed :: int
  pp_minor :: int
  pp_status :: int
  pp_msg :: "byte list"
  pp_headers :: "phr_header list"

definition parse_response :: "bool \<Rightarrow> nat \<Rightarrow> cursor \<Rightarrow> (phr_response \<times> cursor) parse" where
  "parse_response sse limit buf =
     bindR (parse_http_version buf) (\<lambda>(minor, b).
     bindR (case b of [] \<Rightarrow> Inl Parse_Overrun | c # _ \<Rightarrow> if c \<noteq> 32 then Inl Parse_Failed else Inr b) (\<lambda>b.
     bindR (skip_spaces b) (\<lambda>b.
     if length b < 4 then Inl Parse_Partial
     else bindR (parse_int 100 b) (\<lambda>(v100, b).
     bindR (parse_int 10 b) (\<lambda>(v10, b).
     bindR (parse_int 1 b) (\<lambda>(v1, b).
     bindR (get_token_to_eol sse b) (\<lambda>(msg, b).
     bindR (case msg of
         [] \<Rightarrow> Inr []
       | c # _ \<Rightarrow> if c = 32 then Inr (dropWhile (\<lambda>c. c = 32) msg) else Inl Parse_Failed) (\<lambda>msg.
     bindR (parse_headers sse limit [] b) (\<lambda>(hs, b).
     Inr (\<lparr>pp_consumed = 0, pp_minor = minor, pp_status = v100 + v10 + v1, pp_msg = msg, pp_headers = hs\<rparr>, b))))))))))"

definition phr_parse_response :: "bool \<Rightarrow> nat \<Rightarrow> nat \<Rightarrow> cursor \<Rightarrow> phr_response parse" where
  "phr_parse_response sse limit last_len buf =
     bindR (if last_len \<noteq> 0 then is_complete last_len buf else Inr buf) (\<lambda>_.
     bindR (parse_response sse limit buf) (\<lambda>(q, rest).
       Inr (q\<lparr>pp_consumed := int (length buf) - int (length rest)\<rparr>)))"

definition phr_parse_headers :: "bool \<Rightarrow> nat \<Rightarrow> nat \<Rightarrow> cursor \<Rightarrow> (phr_header list \<times> int) parse" where
  "phr_parse_headers sse limit last_len buf =
     bindR (if last_len \<noteq> 0 then is_complete last_len buf else Inr buf) (\<lambda>_.
     bindR (parse_headers sse limit [] buf) (\<lambda>(hs, rest). Inr (hs, int (length buf) - int (length rest))))"
end
