(* ===== verification/Pico_Correct.thy ===== *)
theory Pico_Correct
  imports Pico
begin

text \<open>
  Correctness of the HTTP/1 parser: both builds compute the same function, the parser never reads behind
  its input, a verdict on the bytes received so far is never changed by the bytes that follow, and a printed
  request or response is parsed back, however it is cut into pieces.
\<close>

section \<open>More input\<close>

text \<open>
  \<open>extends g r r'\<close>: \<open>r\<close> is the result on some input and \<open>r'\<close> the result on a longer one. Unless \<open>r\<close> asks for
  more, \<open>r'\<close> is the same result, with the rest of the input longer by what \<open>g\<close> adds.
\<close>

definition extends :: "('v \<Rightarrow> 'v) \<Rightarrow> 'v parse \<Rightarrow> 'v parse \<Rightarrow> bool" where
  "extends g r r' \<longleftrightarrow>
     (case r of
        Inl Parse_Partial \<Rightarrow> True
      | Inl Parse_Failed \<Rightarrow> r' = Inl Parse_Failed
      | Inl Parse_Overrun \<Rightarrow> False
      | Inr v \<Rightarrow> r' = Inr (g v))"

lemma extends_simps [simp]:
  "extends g (Inl Parse_Partial) r'" "extends g (Inl Parse_Failed) r' \<longleftrightarrow> r' = Inl Parse_Failed"
  "\<not> extends g (Inl Parse_Overrun) r'" "extends g (Inr v) r' \<longleftrightarrow> r' = Inr (g v)"
  by (simp_all add: extends_def)

lemma extends_bind:
  assumes "extends g r r'" "\<And>v. r = Inr v \<Longrightarrow> extends h (f v) (f' (g v))"
  shows "extends h (bindR r f) (bindR r' f')"
proof (cases r)
  case (Inl e)
  then show ?thesis using assms(1) by (cases e) auto
next
  case (Inr v)
  then show ?thesis using assms by simp
qed

abbreviation longer :: "byte list \<Rightarrow> cursor \<Rightarrow> cursor" where
  "longer e \<equiv> \<lambda>b. b @ e"

abbreviation longerP :: "byte list \<Rightarrow> 'a \<times> cursor \<Rightarrow> 'a \<times> cursor" where
  "longerP e \<equiv> \<lambda>(x, b). (x, b @ e)"

lemma extends_bindP:
  assumes "extends (longerP e) r r'" "\<And>x b. r = Inr (x, b) \<Longrightarrow> extends h (f x b) (f' x (b @ e))"
  shows "extends h (bindR r (\<lambda>(x, b). f x b)) (bindR r' (\<lambda>(x, b). f' x b))"
  using assms by (intro extends_bind) auto

lemma eol_slow_extends: "extends (longer e) (eol_slow b) (eol_slow (b @ e))"
  by (induction b) auto

lemma token_loop_extends: "b \<noteq> [] \<Longrightarrow> extends (longer e) (token_loop next b) (token_loop next (b @ e))"
  by (induction b) auto

lemma advance_loop_extends: "b \<noteq> [] \<Longrightarrow> extends (longer e) (advance_loop b) (advance_loop (b @ e))"
  by (induction b) auto

lemma skip_blanks_extends: "extends (longer e) (skip_blanks b) (skip_blanks (b @ e))"
  by (induction b) auto

lemma skip_spaces_extends: "b \<noteq> [] \<Longrightarrow> extends (longer e) (skip_spaces b) (skip_spaces (b @ e))"
  by (induction b rule: induct_list012) auto

lemma expect_char_extends: "extends (longer e) (expect_char c b) (expect_char c (b @ e))"
  by (cases b) auto

lemma complete_loop_extends: "extends (longer e) (complete_loop n b) (complete_loop n (b @ e))"
  by (induction n b rule: complete_loop.induct) (auto split: list.splits)

lemma advance_loop_suffix: "advance_loop b = Inr r \<Longrightarrow> suffix r b \<and> r \<noteq> []"
  by (induction b) (auto split: if_splits intro: suffix_ConsI)

lemma skip_spaces_suffix: "skip_spaces b = Inr r \<Longrightarrow> suffix r b \<and> r \<noteq> []"
  by (induction b rule: induct_list012) (auto split: if_splits intro: suffix_ConsI)

lemma take_more: "length r \<le> length b \<Longrightarrow> take (length (b @ e) - length (r @ e) - k) (b @ e) = take (length b - length r - k) b"
  by simp

lemma parse_token_extends:
  assumes "next = 32 \<or> next = 58"
  shows "extends (longerP e) (parse_token sse next b) (parse_token sse' next (b @ e))"
proof (cases "b = []")
  case False
  have "extends (longerP e) (bindR (token_loop next b) (\<lambda>rest. Inr (take (length b - length rest) b, rest)))
    (bindR (token_loop next (b @ e)) (\<lambda>rest. Inr (take (length (b @ e) - length rest) (b @ e), rest)))"
    by (rule extends_bind [OF token_loop_extends [OF False]])
      (use take_more [of _ b e 0] in \<open>auto dest!: token_loop_suffix suffix_length_le\<close>)
  then show ?thesis using False by (simp add: parse_token_slow [OF assms])
qed (simp add: parse_token_slow [OF assms])

lemma advance_token_extends: "extends (longerP e) (advance_token sse b) (advance_token sse' (b @ e))"
proof (cases "b = []")
  case False
  have "extends (longerP e) (bindR (advance_loop b) (\<lambda>rest. Inr (take (length b - length rest) b, rest)))
    (bindR (advance_loop (b @ e)) (\<lambda>rest. Inr (take (length (b @ e) - length rest) (b @ e), rest)))"
    by (rule extends_bind [OF advance_loop_extends [OF False]])
      (use take_more [of _ b e 0] in \<open>auto dest!: advance_loop_suffix suffix_length_le\<close>)
  then show ?thesis using False by (simp add: advance_token_slow)
qed (simp add: advance_token_slow)

lemma get_token_to_eol_extends: "extends (longerP e) (get_token_to_eol sse b) (get_token_to_eol sse' (b @ e))"
  unfolding get_token_to_eol_slow
proof (rule extends_bind [OF eol_slow_extends])
  fix r assume r: "eol_slow b = Inr r"
  from eol_slow_suffix [OF r] obtain c r' where cr: "r = c # r'" and s: "suffix r b" by (cases r) auto
  have len: "length r' < length b" using suffix_length_le [OF s] cr by simp
  consider "c = 13" | "c = 10" | "c \<noteq> 13" "c \<noteq> 10" by blast
  then show "extends (longerP e)
     (case r of [] \<Rightarrow> Inl Parse_Overrun
        | c # b' \<Rightarrow> if c = 13 then bindR (expect_char 10 b') (\<lambda>rest. Inr (take (length b - length rest - 2) b, rest))
            else if c = 10 then Inr (take (length b - length r) b, b') else Inl Parse_Failed)
     (case r @ e of [] \<Rightarrow> Inl Parse_Overrun
        | c # b' \<Rightarrow> if c = 13 then bindR (expect_char 10 b') (\<lambda>rest. Inr (take (length (b @ e) - length rest - 2) (b @ e), rest))
            else if c = 10 then Inr (take (length (b @ e) - length (r @ e)) (b @ e), b') else Inl Parse_Failed)"
  proof cases
    case 1
    then show ?thesis using len unfolding cr
      by (simp del: expect_char.simps) (rule extends_bind [OF expect_char_extends], auto)
  qed (use cr len in auto)
qed

lemma header_line_extends: "extends (longerP e) (header_line sse num c b) (header_line sse' num c (b @ e))"
  unfolding header_line_def
proof (rule extends_bind [where g = "longerP e"])
  show "extends (longerP e)
     (if \<not> (num \<noteq> 0 \<and> blank c)
      then bindR (parse_token sse 58 b) (\<lambda>(nm, b). if nm = [] then Inl Parse_Failed
               else bindR (skip_blanks (tl b)) (\<lambda>b. Inr (Some nm, b)))
      else Inr (None, b))
     (if \<not> (num \<noteq> 0 \<and> blank c)
      then bindR (parse_token sse' 58 (b @ e)) (\<lambda>(nm, b). if nm = [] then Inl Parse_Failed
               else bindR (skip_blanks (tl b)) (\<lambda>b. Inr (Some nm, b)))
      else Inr (None, b @ e))"
  proof (cases "\<not> (num \<noteq> 0 \<and> blank c)")
    case True
    have "extends (longerP e)
      (bindR (parse_token sse 58 b) (\<lambda>(nm, b). if nm = [] then Inl Parse_Failed
               else bindR (skip_blanks (tl b)) (\<lambda>b. Inr (Some nm, b))))
      (bindR (parse_token sse' 58 (b @ e)) (\<lambda>(nm, b). if nm = [] then Inl Parse_Failed
               else bindR (skip_blanks (tl b)) (\<lambda>b. Inr (Some nm, b))))"
    proof (rule extends_bind [OF parse_token_extends])
      fix v assume "parse_token sse 58 b = Inr v"
      then obtain nm r where v: "v = (nm, r)" "r \<noteq> []"
        by (auto simp: parse_token_slow split: if_splits dest!: token_loop_suffix)
      then have tl: "tl (r @ e) = tl r @ e" by simp
      show "extends (longerP e)
        (case v of (nm, b) \<Rightarrow> if nm = [] then Inl Parse_Failed else bindR (skip_blanks (tl b)) (\<lambda>b. Inr (Some nm, b)))
        (case longerP e v of (nm, b) \<Rightarrow> if nm = [] then Inl Parse_Failed else bindR (skip_blanks (tl b)) (\<lambda>b. Inr (Some nm, b)))"
        unfolding v prod.case tl by (simp, intro impI, rule extends_bind [OF skip_blanks_extends], simp)
    qed simp
    then show ?thesis using True by simp
  qed auto
next
  fix v :: "byte list option \<times> cursor"
  obtain nm b1 where v: "v = (nm, b1)" by (cases v)
  show "extends (longerP e)
     (case v of (nm, b) \<Rightarrow> bindR (get_token_to_eol sse b) (\<lambda>(v, rest). Inr (\<lparr>ph_name = nm, ph_value = trim_value v\<rparr>, rest)))
     (case longerP e v of (nm, b) \<Rightarrow>
        bindR (get_token_to_eol sse' b) (\<lambda>(v, rest). Inr (\<lparr>ph_name = nm, ph_value = trim_value v\<rparr>, rest)))"
    unfolding v prod.case by (rule extends_bind [OF get_token_to_eol_extends]) auto
qed

lemma parse_headers_extends:
  "extends (longerP e) (parse_headers sse limit hs b) (parse_headers sse' limit hs (b @ e))"
proof (induction sse limit hs b rule: parse_headers.induct)
  case (2 sse limit hs c b)
  have line: "extends (longerP e) (header_line sse (length hs) c (c # b)) (header_line sse' (length hs) c ((c # b) @ e))"
    by (rule header_line_extends)
  consider "c = 13" | "c = 10" | "c \<noteq> 13" "c \<noteq> 10" "length hs = limit" | "c \<noteq> 13" "c \<noteq> 10" "length hs \<noteq> limit" by blast
  then show ?case
  proof cases
    case 1
    then show ?thesis by (simp del: expect_char.simps) (rule extends_bind [OF expect_char_extends], simp)
  next
    case 4
    show ?thesis
    proof (cases "header_line sse (length hs) c (c # b)")
      case (Inl err)
      then show ?thesis using 4 line by (cases err) auto
    next
      case (Inr v)
      obtain h r where v: "v = (h, r)" by (cases v)
      then show ?thesis using 4 Inr line 2 [OF 4 Inr v [symmetric]] by simp
    qed
  qed auto
qed simp

lemma long_list_cases:
  assumes "9 \<le> length b"
  obtains c0 c1 c2 c3 c4 c5 c6 c7 c8 r where "b = c0 # c1 # c2 # c3 # c4 # c5 # c6 # c7 # c8 # r"
  using assms by (auto simp: numeral_eq_Suc Suc_le_length_iff)

lemma parse_http_version_extends: "extends (longerP e) (parse_http_version b) (parse_http_version (b @ e))"
proof (cases "length b < 9")
  case False
  then obtain c0 c1 c2 c3 c4 c5 c6 c7 c8 r where b: "b = c0 # c1 # c2 # c3 # c4 # c5 # c6 # c7 # c8 # r"
    using long_list_cases by (metis not_less)
  show ?thesis by (simp add: parse_http_version_def b bytes_def)
qed (simp add: parse_http_version_def)

lemma parse_http_version_rest:
  assumes "parse_http_version b = Inr (m, r)"
  shows "r \<noteq> [] \<and> length r < length b"
proof -
  from assms have "\<not> length b < 9" by (auto simp: parse_http_version_def)
  then obtain c0 c1 c2 c3 c4 c5 c6 c7 c8 r where b: "b = c0 # c1 # c2 # c3 # c4 # c5 # c6 # c7 # c8 # r"
    using long_list_cases by (metis not_less)
  show ?thesis using assms by (auto simp: parse_http_version_def b bytes_def split: if_splits)
qed

lemma parse_headers_less: "parse_headers sse limit hs b = Inr (hs', r) \<Longrightarrow> length r < length b"
proof (induction sse limit hs b rule: parse_headers.induct)
  case (2 sse limit hs c b)
  consider "c = 13 \<or> c = 10 \<or> length hs = limit" | "c \<noteq> 13" "c \<noteq> 10" "length hs \<noteq> limit" by blast
  then show ?case
  proof cases
    case 1
    then show ?thesis using 2(2) by (auto split: if_splits)
  next
    case u: 2
    with 2(2) obtain h b1 where h: "header_line sse (length hs) c (c # b) = Inr (h, b1)"
      and r: "parse_headers sse limit (hs @ [h]) b1 = Inr (hs', r)" by (auto split: sum.splits prod.splits)
    from 2(1) [OF u h refl r] header_line_less [OF h] show ?thesis by simp
  qed
qed simp

text \<open>The line end after the request line, and the empty line that may precede it.\<close>

lemma line_end_extends:
  "extends (longer e)
     (case b of [] \<Rightarrow> Inl Parse_Partial | c # b' \<Rightarrow> if c = 13 then expect_char 10 b' else if c = 10 then Inr b' else Inr b)
     (case b @ e of [] \<Rightarrow> Inl Parse_Partial | c # b' \<Rightarrow> if c = 13 then expect_char 10 b' else if c = 10 then Inr b' else Inr (b @ e))"
  using expect_char_extends [of e 10 "tl b"] by (cases b) auto

lemma version_end_extends:
  "b \<noteq> [] \<Longrightarrow> extends (longer e)
     (case b of [] \<Rightarrow> Inl Parse_Overrun | c # b' \<Rightarrow> if c = 13 then expect_char 10 b' else if c = 10 then Inr b' else Inl Parse_Failed)
     (case b @ e of [] \<Rightarrow> Inl Parse_Overrun | c # b' \<Rightarrow> if c = 13 then expect_char 10 b' else if c = 10 then Inr b' else Inl Parse_Failed)"
  using expect_char_extends [of e 10 "tl b"] by (cases b) auto

lemma parse_token_rest: "parse_token sse next b = Inr (t, r) \<Longrightarrow> next = 32 \<or> next = 58 \<Longrightarrow> suffix r b \<and> r \<noteq> []"
  by (auto simp: parse_token_slow split: if_splits dest!: token_loop_suffix)

lemma advance_token_rest: "advance_token sse b = Inr (t, r) \<Longrightarrow> suffix r b \<and> r \<noteq> []"
  by (auto simp: advance_token_slow split: if_splits dest!: advance_loop_suffix)

lemma parse_request_extends: "extends (longerP e) (parse_request sse limit b) (parse_request sse' limit (b @ e))"
  unfolding parse_request_def
  apply (rule extends_bind [OF line_end_extends])
  apply (rule extends_bindP [OF parse_token_extends], simp)
  apply (drule parse_token_rest, simp)
  apply (rule extends_bind [OF skip_spaces_extends], blast)
  apply (rule extends_bindP [OF advance_token_extends])
  apply (drule advance_token_rest)
  apply (rule extends_bind [OF skip_spaces_extends], blast)
  apply (rule if_split [THEN iffD2], intro conjI impI, simp only: if_True extends_simps simp_thms)
  apply (simp only: if_False simp_thms)
  apply (rule extends_bindP [OF parse_http_version_extends])
  apply (drule parse_http_version_rest)
  apply (rule extends_bind [OF version_end_extends], blast)
  apply (rule extends_bindP [OF parse_headers_extends])
  apply simp
  done

lemma parse_int_extends: "b \<noteq> [] \<Longrightarrow> extends (longerP e) (parse_int mul b) (parse_int mul (b @ e))"
  by (cases b) auto

lemma parse_int_rest: "parse_int mul b = Inr (v, r) \<Longrightarrow> length b = Suc (length r)"
  by (cases b) (auto split: if_splits)

lemma first_space_extends:
  "b \<noteq> [] \<Longrightarrow> extends (longer e)
     (case b of [] \<Rightarrow> Inl Parse_Overrun | c # _ \<Rightarrow> if c \<noteq> 32 then Inl Parse_Failed else Inr b)
     (case b @ e of [] \<Rightarrow> Inl Parse_Overrun | c # _ \<Rightarrow> if c \<noteq> 32 then Inl Parse_Failed else Inr (b @ e))"
  by (cases b) auto

lemma parse_response_extends: "extends (longerP e) (parse_response sse limit b) (parse_response sse' limit (b @ e))"
  unfolding parse_response_def
  apply (rule extends_bindP [OF parse_http_version_extends])
  apply (drule parse_http_version_rest)
  apply (rule extends_bind [OF first_space_extends], blast)
  apply (rule extends_bind [OF skip_spaces_extends], fastforce split: list.splits if_splits)
  apply (rule if_split [THEN iffD2], intro conjI impI, simp only: extends_simps)
  apply (subst if_not_P [where P = "length (b @ e) < n" for b n], simp)
  apply (rule extends_bindP [OF parse_int_extends], fastforce)
  apply (drule parse_int_rest, rule extends_bindP [OF parse_int_extends], fastforce)
  apply (drule parse_int_rest, rule extends_bindP [OF parse_int_extends], fastforce)
  apply (rule extends_bindP [OF get_token_to_eol_extends])
  apply (rule extends_bind [where g = "\<lambda>m. m"], simp split: list.splits)
  apply (rule extends_bindP [OF parse_headers_extends])
  apply simp
  done

text \<open>A successful parse consumes something.\<close>

lemma parse_request_less:
  assumes "parse_request sse limit b = Inr (q, r)"
  shows "length r < length b"
proof -
  from assms obtain b0 m b1 b2 p b3 b4 minor b5 b6 where
    steps: "(case b of [] \<Rightarrow> Inl Parse_Partial | c # b' \<Rightarrow> if c = 13 then expect_char 10 b' else if c = 10 then Inr b' else Inr b) = Inr b0"
    "parse_token sse 32 b0 = Inr (m, b1)" "skip_spaces b1 = Inr b2" "advance_token sse b2 = Inr (p, b3)"
    "skip_spaces b3 = Inr b4" "parse_http_version b4 = Inr (minor, b5)"
    "(case b5 of [] \<Rightarrow> Inl Parse_Overrun | c # b' \<Rightarrow> if c = 13 then expect_char 10 b' else if c = 10 then Inr b' else Inl Parse_Failed) = Inr b6"
    "parse_headers sse limit [] b6 = Inr (pq_headers q, r)"
    unfolding parse_request_def bindR_eq_Inr by (auto split: prod.splits if_splits)
  have "length b0 \<le> length b" "length b6 \<le> length b5" using steps(1,7) by (auto split: list.splits if_splits)
  then show ?thesis
    using parse_token_rest [OF steps(2)] skip_spaces_suffix [OF steps(3)] advance_token_rest [OF steps(4)]
      skip_spaces_suffix [OF steps(5)] parse_http_version_rest [OF steps(6)] parse_headers_less [OF steps(8)]
    by (auto dest!: suffix_length_le)
qed

lemma parse_response_less:
  assumes "parse_response sse limit b = Inr (q, r)"
  shows "length r < length b"
proof -
  from assms obtain v0 b0 b1 b2 x1 b3 x2 b4 x3 b5 m b6 hs where
    steps: "parse_http_version b = Inr (v0, b0)"
    "(case b0 of [] \<Rightarrow> Inl Parse_Overrun | c # _ \<Rightarrow> if c \<noteq> 32 then Inl Parse_Failed else Inr b0) = Inr b1"
    "skip_spaces b1 = Inr b2" "parse_int 100 b2 = Inr (x1, b3)" "parse_int 10 b3 = Inr (x2, b4)"
    "parse_int 1 b4 = Inr (x3, b5)" "get_token_to_eol sse b5 = Inr (m, b6)" "parse_headers sse limit [] b6 = Inr (hs, r)"
    unfolding parse_response_def bindR_eq_Inr by (auto split: prod.splits if_splits)
  have "b1 = b0" using steps(2) by (auto split: list.splits if_splits)
  then show ?thesis
    using parse_http_version_rest [OF steps(1)] skip_spaces_suffix [OF steps(3)] parse_int_rest [OF steps(4)]
      parse_int_rest [OF steps(5)] parse_int_rest [OF steps(6)] get_token_to_eol_less [OF steps(7)] parse_headers_less [OF steps(8)]
    by (auto dest!: suffix_length_le)
qed

section \<open>Printed messages\<close>

definition print_header :: "byte list \<times> byte list \<Rightarrow> byte list" where
  "print_header = (\<lambda>(nm, v). nm @ [58, 32] @ v @ [13, 10])"

definition print_headers :: "(byte list \<times> byte list) list \<Rightarrow> byte list" where
  "print_headers hl = concat (map print_header hl) @ [13, 10]"

definition print_version :: "nat \<Rightarrow> byte list" where
  "print_version d = bytes ''HTTP/1.'' @ [48 + of_nat d]"

definition print_request :: "byte list \<Rightarrow> byte list \<Rightarrow> nat \<Rightarrow> (byte list \<times> byte list) list \<Rightarrow> byte list" where
  "print_request m p d hl = m @ [32] @ p @ [32] @ print_version d @ [13, 10] @ print_headers hl"

definition parsed_header :: "byte list \<times> byte list \<Rightarrow> phr_header" where
  "parsed_header = (\<lambda>(nm, v). \<lparr>ph_name = Some nm, ph_value = v\<rparr>)"

definition token_ok :: "byte list \<Rightarrow> bool" where
  "token_ok t \<longleftrightarrow> t \<noteq> [] \<and> list_all token_char_map t"

definition target_ok :: "byte list \<Rightarrow> bool" where
  "target_ok p \<longleftrightarrow> p \<noteq> [] \<and> list_all (\<lambda>c. c \<noteq> 32 \<and> \<not> (c < 32 \<or> c = 127)) p"

definition value_ok :: "byte list \<Rightarrow> bool" where
  "value_ok v \<longleftrightarrow> list_all (\<lambda>c. \<not> ctl c) v \<and> (v \<noteq> [] \<longrightarrow> \<not> blank (hd v) \<and> \<not> blank (last v))"

definition header_ok :: "byte list \<times> byte list \<Rightarrow> bool" where
  "header_ok = (\<lambda>(nm, v). token_ok nm \<and> value_ok v)"

lemma token_char_not:
  "token_char_map c \<Longrightarrow> c \<noteq> 32 \<and> c \<noteq> 58 \<and> c \<noteq> 13 \<and> c \<noteq> 10 \<and> \<not> blank c"
  by (auto simp: token_char_map_def blank_def)

lemma parse_token_print:
  assumes "token_ok t" "next = 32 \<or> next = 58"
  shows "parse_token sse next (t @ next # b) = Inr (t, next # b)"
proof -
  have "\<forall>c\<in>set t. c \<noteq> next \<and> token_char_map c"
    using assms token_char_not by (auto simp: token_ok_def list_all_iff)
  from token_loop_skip [OF this, of "next # b"] show ?thesis
    using assms(1) by (simp add: parse_token_slow [OF assms(2)] token_ok_def)
qed

lemma advance_token_print:
  assumes "target_ok p"
  shows "advance_token sse (p @ 32 # b) = Inr (p, 32 # b)"
proof -
  have "\<forall>c\<in>set p. c \<noteq> 32 \<and> \<not> (c < 32 \<or> c = 127)" using assms by (simp add: target_ok_def list_all_iff)
  from advance_loop_skip [OF this, of "32 # b"] show ?thesis
    using assms by (simp add: advance_token_slow target_ok_def)
qed

lemma get_token_to_eol_print:
  assumes "list_all (\<lambda>c. \<not> ctl c) v"
  shows "get_token_to_eol sse (v @ 13 # 10 # b) = Inr (v, b)"
proof -
  have "\<forall>c\<in>set v. \<not> ctl c" using assms by (simp add: list_all_iff)
  from eol_slow_skip [OF this, of "13 # 10 # b"] have "eol_slow (v @ 13 # 10 # b) = Inr (13 # 10 # b)"
    by (simp add: printable_def ctl_def)
  then show ?thesis by (simp add: get_token_to_eol_slow)
qed

lemma trim_value_ok: "value_ok v \<Longrightarrow> trim_value v = v"
  by (cases v rule: rev_cases) (auto simp: trim_value_def value_ok_def)

lemma skip_blanks_value:
  assumes "value_ok v"
  shows "skip_blanks (v @ 13 # b) = Inr (v @ 13 # b)"
  using assms by (cases v) (auto simp: value_ok_def blank_def)

lemma header_line_print:
  assumes "header_ok (nm, v)"
  shows "header_line sse n (hd nm) (print_header (nm, v) @ b) = Inr (parsed_header (nm, v), b)"
proof -
  from assms have t: "token_ok nm" and v: "value_ok v" by (simp_all add: header_ok_def)
  have "\<not> blank (hd nm)" using t token_char_not by (cases nm) (auto simp: token_ok_def)
  moreover have "nm \<noteq> []" using t by (simp add: token_ok_def)
  moreover have "list_all (\<lambda>c. \<not> ctl c) v" using v by (simp add: value_ok_def)
  ultimately show ?thesis
    by (simp add: header_line_def print_header_def parse_token_print [OF t] skip_blanks_value [OF v]
        get_token_to_eol_print trim_value_ok [OF v] parsed_header_def blank_def [of 32])
qed

lemma parse_headers_print:
  "list_all header_ok hl \<Longrightarrow> length hs + length hl \<le> limit \<Longrightarrow>
   parse_headers sse limit hs (print_headers hl @ b) = Inr (hs @ map parsed_header hl, b)"
proof (induction hl arbitrary: hs)
  case Nil
  then show ?case by (simp add: print_headers_def)
next
  case (Cons h hl)
  obtain nm v where h: "h = (nm, v)" by (cases h)
  have ok: "header_ok (nm, v)" using Cons.prems(1) h by simp
  then obtain c nm' where c: "nm = c # nm'" "c \<noteq> 13" "c \<noteq> 10"
    using token_char_not by (cases nm) (auto simp: header_ok_def token_ok_def)
  have eq: "print_headers (h # hl) @ b = c # (nm' @ [58, 32] @ v @ [13, 10] @ print_headers hl @ b)"
    by (simp add: print_headers_def print_header_def h c)
  have "header_line sse (length hs) c (c # (nm' @ [58, 32] @ v @ [13, 10] @ print_headers hl @ b)) =
      Inr (parsed_header (nm, v), print_headers hl @ b)"
    using header_line_print [OF ok, of sse "length hs" "print_headers hl @ b"] c(1) by (simp add: print_header_def)
  then show ?case
    using Cons.IH [of "hs @ [parsed_header (nm, v)]"] Cons.prems c(2,3) unfolding eq by (simp add: h)
qed

lemma parse_http_version_print:
  "d < 10 \<Longrightarrow> parse_http_version (print_version d @ c # b) = Inr (int d, c # b)"
proof -
  assume d: "d < 10"
  have u: "unat (48 + of_nat d :: byte) = 48 + d" using d by (simp add: unat_of_nat unat_word_ariths)
  then have "\<not> 48 + of_nat d < (48 :: byte)" "\<not> (57 :: byte) < 48 + of_nat d" "uint (48 + of_nat d :: byte) = 48 + int d"
    using d by (simp_all add: word_less_nat_alt uint_nat)
  then show ?thesis by (simp add: parse_http_version_def print_version_def bytes_def)
qed

lemma skip_spaces_print: "c \<noteq> 32 \<Longrightarrow> skip_spaces (32 # c # b) = Inr (c # b)"
  by simp

lemma parse_request_print:
  assumes "token_ok m" "target_ok p" "d < 10" "list_all header_ok hl" "length hl \<le> limit"
  shows "parse_request sse limit (print_request m p d hl @ b) =
    Inr (\<lparr>pq_consumed = 0, pq_method = m, pq_path = p, pq_minor = int d, pq_headers = map parsed_header hl\<rparr>, b)"
proof -
  obtain c m' where m: "m = c # m'" "c \<noteq> 13" "c \<noteq> 10"
    using assms(1) token_char_not by (cases m) (auto simp: token_ok_def)
  obtain c' p' where p: "p = c' # p'" "c' \<noteq> 32" using assms(2) by (cases p) (auto simp: target_ok_def)
  obtain v where v: "print_version d = 72 # v" by (simp add: print_version_def bytes_def byte_of_def)
  have t: "parse_token sse 32 (c # (m' @ 32 # x)) = Inr (m, 32 # x)" for x
    using parse_token_print [OF assms(1), of 32 sse x] m(1) by simp
  have a: "advance_token sse (c' # (p' @ 32 # x)) = Inr (p, 32 # x)" for x
    using advance_token_print [OF assms(2), of sse x] p(1) by simp
  have h: "parse_http_version (72 # (v @ 13 # x)) = Inr (int d, 13 # x)" for x
    using parse_http_version_print [OF assms(3), of 13 x] v by simp
  have r: "print_request m p d hl @ b = c # (m' @ 32 # c' # (p' @ 32 # 72 # (v @ 13 # 10 # (print_headers hl @ b))))"
    by (simp add: print_request_def v m(1) p(1))
  show ?thesis
    unfolding r parse_request_def
    using m p parse_headers_print [OF assms(4), of "[]" limit sse b] assms(5)
    by (simp add: t a h)
qed

text \<open>The lines of a message: a carriage return is always followed by a line feed.\<close>

fun crlf_ok :: "byte list \<Rightarrow> bool" where
  "crlf_ok [] \<longleftrightarrow> True"
| "crlf_ok [c] \<longleftrightarrow> c \<noteq> 13"
| "crlf_ok (c # d # b) \<longleftrightarrow> (if c = 13 then d = 10 \<and> crlf_ok b else crlf_ok (d # b))"

lemma crlf_ok_Cons: "c \<noteq> 13 \<Longrightarrow> crlf_ok (c # b) \<longleftrightarrow> crlf_ok b"
  by (cases b) auto

lemma crlf_ok_append: "crlf_ok u \<Longrightarrow> crlf_ok v \<Longrightarrow> crlf_ok (u @ v)"
  by (induction u rule: crlf_ok.induct) (auto simp: crlf_ok_Cons split: if_splits)

lemma crlf_ok_plain: "13 \<notin> set u \<Longrightarrow> crlf_ok u"
  by (induction u) (auto simp: crlf_ok_Cons)

lemma crlf_ok_drop: "crlf_ok u \<Longrightarrow> crlf_ok (drop k u)"
proof (induction k arbitrary: u)
  case (Suc k)
  have "crlf_ok (tl u)" using Suc.prems by (cases u rule: crlf_ok.cases) (auto simp: crlf_ok_Cons split: if_splits)
  then show ?case using Suc.IH by (cases u) auto
qed simp

lemma complete_loop_ok:
  "crlf_ok u \<Longrightarrow> n \<le> 1 \<Longrightarrow> \<exists>r. complete_loop n (u @ 13 # 10 # 13 # 10 # b) = Inr r"
proof (induction u arbitrary: n rule: crlf_ok.induct)
  case (3 c d u)
  consider "c = 13" | "c = 10" | "c \<noteq> 13" "c \<noteq> 10" by blast
  then show ?case
  proof cases
    case 1
    then show ?thesis using 3 by (cases n) auto
  next
    case 2
    then show ?thesis using 3 by (cases n) (auto simp del: complete_loop.simps(2) simp: complete_loop.simps(2) [of _ 10])
  next
    case c: 3
    then show ?thesis using 3(2) [of 0] 3(3) by (simp add: complete_loop.simps(2) [of n c] del: complete_loop.simps(2))
  qed
qed (auto simp: le_Suc_eq)

lemma is_complete_ok:
  assumes "crlf_ok u" "last_len < length u + 4"
  shows "\<exists>r. is_complete last_len (u @ 13 # 10 # 13 # 10 # b) = Inr r"
proof (cases "last_len < 3")
  case True
  then show ?thesis using complete_loop_ok [OF assms(1), of 0] by (simp add: is_complete_def)
next
  case False
  then have "last_len - 3 \<le> length u" using assms(2) by simp
  then show ?thesis
    using False complete_loop_ok [OF crlf_ok_drop [OF assms(1)], of 0 "last_len - 3" b] by (simp add: is_complete_def)
qed

lemma is_complete_extends:
  "last_len \<le> length b + 3 \<Longrightarrow> extends (longer e) (is_complete last_len b) (is_complete last_len (b @ e))"
  using complete_loop_extends [of e 0 b] complete_loop_extends [of e 0 "drop (last_len - 3) b"]
  by (auto simp: is_complete_def)

lemma token_no_cr: "token_ok t \<Longrightarrow> 13 \<notin> set t"
  using token_char_not by (auto simp: token_ok_def list_all_iff)

lemma value_no_cr: "value_ok v \<Longrightarrow> 13 \<notin> set v"
  by (auto simp: value_ok_def list_all_iff ctl_def)

lemma target_no_cr: "target_ok p \<Longrightarrow> 13 \<notin> set p"
  by (auto simp: target_ok_def list_all_iff)

lemma version_no_cr: "d < 10 \<Longrightarrow> 13 \<notin> set (print_version d)"
proof
  assume d: "d < 10" and "13 \<in> set (print_version d)"
  then have "(13 :: byte) = 48 + of_nat d" by (auto simp: print_version_def bytes_def byte_of_def)
  then have "unat (13 :: byte) = unat (48 + of_nat d :: byte)" by (rule arg_cong)
  then show False using d by (simp add: unat_of_nat unat_word_ariths)
qed

text \<open>A first line and headers end with an empty line; everything before it has proper line ends.\<close>

lemma message_lines:
  assumes "13 \<notin> set l" "list_all header_ok hl"
  shows "\<exists>u. l @ [13, 10] @ print_headers hl = u @ [13, 10, 13, 10] \<and> crlf_ok u"
proof (cases hl rule: rev_cases)
  case Nil
  then show ?thesis using crlf_ok_plain [OF assms(1)] by (intro exI [of _ l]) (simp add: print_headers_def)
next
  case (snoc hl' h)
  have lines: "13 \<notin> set nm \<and> 13 \<notin> set v" if "(nm, v) \<in> set hl" for nm v
    using assms(2) that token_no_cr value_no_cr by (auto simp: list_all_iff header_ok_def)
  have head: "crlf_ok (concat (map print_header gl))" if "set gl \<subseteq> set hl" for gl
    using that
  proof (induction gl)
    case (Cons g gl)
    obtain nm v where g: "g = (nm, v)" by (cases g)
    then have "13 \<notin> set (nm @ [58, 32] @ v)" using lines Cons.prems by auto
    from crlf_ok_append [OF crlf_ok_plain [OF this], of "[13, 10]"] have "crlf_ok (print_header g)"
      by (simp add: print_header_def g)
    then show ?case using Cons by (auto intro: crlf_ok_append)
  qed simp
  obtain nm v where h: "h = (nm, v)" by (cases h)
  have "13 \<notin> set (nm @ [58, 32] @ v)" using lines [of nm v] snoc h by auto
  then have "crlf_ok (l @ [13, 10] @ concat (map print_header hl') @ nm @ [58, 32] @ v)"
    using crlf_ok_plain [OF assms(1)] head [of hl'] snoc by (intro crlf_ok_append) (auto intro: crlf_ok_plain)
  then show ?thesis using snoc h
    by (intro exI [of _ "l @ [13, 10] @ concat (map print_header hl') @ nm @ [58, 32] @ v"])
      (simp add: print_headers_def print_header_def)
qed

lemma request_lines:
  assumes "token_ok m" "target_ok p" "d < 10" "list_all header_ok hl"
  shows "\<exists>u. print_request m p d hl = u @ [13, 10, 13, 10] \<and> crlf_ok u"
proof -
  have "13 \<notin> set (m @ [32] @ p @ [32] @ print_version d)"
    using token_no_cr [OF assms(1)] target_no_cr [OF assms(2)] version_no_cr [OF assms(3)] by auto
  from message_lines [OF this assms(4)] show ?thesis by (simp add: print_request_def)
qed

section \<open>Properties\<close>

lemma request_result_extends:
  assumes "last_len \<le> length b + 3"
  shows "extends id (phr_parse_request sse limit last_len b) (phr_parse_request sse' limit last_len (b @ e))"
proof -
  have "extends (longer e) (if last_len \<noteq> 0 then is_complete last_len b else Inr b)
      (if last_len \<noteq> 0 then is_complete last_len (b @ e) else Inr (b @ e))"
    using is_complete_extends [OF assms] by simp
  then show ?thesis
    unfolding phr_parse_request_def
    by (rule extends_bind) (rule extends_bindP [OF parse_request_extends], simp)
qed

lemma response_result_extends:
  assumes "last_len \<le> length b + 3"
  shows "extends id (phr_parse_response sse limit last_len b) (phr_parse_response sse' limit last_len (b @ e))"
proof -
  have "extends (longer e) (if last_len \<noteq> 0 then is_complete last_len b else Inr b)
      (if last_len \<noteq> 0 then is_complete last_len (b @ e) else Inr (b @ e))"
    using is_complete_extends [OF assms] by simp
  then show ?thesis
    unfolding phr_parse_response_def
    by (rule extends_bind) (rule extends_bindP [OF parse_response_extends], simp)
qed

lemma request_consumed:
  assumes "phr_parse_request sse limit last_len b = Inr q"
  shows "0 < pq_consumed q \<and> pq_consumed q \<le> int (length b)"
  using assms parse_request_less by (auto simp: phr_parse_request_def split: prod.splits)

lemma response_consumed:
  assumes "phr_parse_response sse limit last_len b = Inr q"
  shows "0 < pp_consumed q \<and> pp_consumed q \<le> int (length b)"
  using assms parse_response_less by (auto simp: phr_parse_response_def split: prod.splits)

lemma extends_idD:
  "extends id r r' \<Longrightarrow> r \<noteq> Inl Parse_Overrun \<and> (r \<noteq> Inl Parse_Partial \<longrightarrow> r' = r)"
  by (auto simp: extends_def split: sum.splits parse_error.splits)

text \<open>
  C30: The parser never reads behind the bytes it is given, it consumes at least one and at most all of them,
  and a verdict other than -2 is final: with any further bytes, in either build, the result is the same. So
  the two builds compute one function, and parsing again whenever bytes arrive gives the result of parsing
  everything at once.
\<close>

theorem parser_verdicts_final:
  assumes "last_len \<le> length b + 3"
  shows "phr_parse_request sse limit last_len b \<noteq> Inl Parse_Overrun \<and>
    phr_parse_response sse limit last_len b \<noteq> Inl Parse_Overrun \<and>
    (phr_parse_request sse limit last_len b \<noteq> Inl Parse_Partial \<longrightarrow>
       phr_parse_request sse' limit last_len (b @ e) = phr_parse_request sse limit last_len b) \<and>
    (phr_parse_response sse limit last_len b \<noteq> Inl Parse_Partial \<longrightarrow>
       phr_parse_response sse' limit last_len (b @ e) = phr_parse_response sse limit last_len b) \<and>
    (\<forall>q. phr_parse_request sse limit last_len b = Inr q \<longrightarrow> 0 < pq_consumed q \<and> pq_consumed q \<le> int (length b)) \<and>
    (\<forall>q. phr_parse_response sse limit last_len b = Inr q \<longrightarrow> 0 < pp_consumed q \<and> pp_consumed q \<le> int (length b))"
  using extends_idD [OF request_result_extends [OF assms, of sse limit sse' e]]
    extends_idD [OF response_result_extends [OF assms, of sse limit sse' e]] request_consumed response_consumed
  by blast

theorem parser_verdicts_final_witness:
  "phr_parse_request True 4 0 (bytes ''X'') = Inl Parse_Partial \<and>
   phr_parse_request False 4 0 (bytes '': '' @ bytes ''Y'') = Inl Parse_Failed"
proof -
  have f: "phr_parse_request True 4 0 (bytes '': '') = Inl Parse_Failed" by code_simp
  from parser_verdicts_final [of 0 "bytes '': ''" True 4 False "bytes ''Y''"] f
  show ?thesis by (simp add: phr_parse_request_def parse_request_def parse_token_slow token_char_map_def bytes_def byte_of_def)
qed

text \<open>
  C29: A printed request is parsed back exactly: method, target, minor version and headers, consuming the
  printed bytes and no byte of what follows. Cut anywhere before its end it is reported as incomplete,
  whatever was seen before; and once complete it is accepted whatever length the previous attempt had.
\<close>

theorem request_parsed_incrementally:
  assumes ok: "token_ok m" "target_ok p" "d < 10" "list_all header_ok hl" "length hl \<le> limit"
    and k: "k < length (print_request m p d hl)" and last: "last_len \<le> k"
  shows "phr_parse_request sse limit last_len (take k (print_request m p d hl)) = Inl Parse_Partial \<and>
    phr_parse_request sse limit last_len (print_request m p d hl @ body) =
      Inr \<lparr>pq_consumed = int (length (print_request m p d hl)), pq_method = m, pq_path = p, pq_minor = int d,
           pq_headers = map parsed_header hl\<rparr>"
proof -
  let ?P = "print_request m p d hl"
  let ?q = "\<lparr>pq_consumed = int (length ?P), pq_method = m, pq_path = p, pq_minor = int d, pq_headers = map parsed_header hl\<rparr>"
  obtain u where u: "?P = u @ [13, 10, 13, 10]" "crlf_ok u" using request_lines [OF ok(1-4)] by blast
  have "last_len < length u + 4" using k last u(1) by simp
  from is_complete_ok [OF u(2) this] have c: "\<exists>r. is_complete last_len (?P @ e) = Inr r" for e by (simp add: u(1))
  have full: "phr_parse_request sse limit last_len (?P @ e) = Inr ?q" for e
    using c [of e] parse_request_print [OF ok, of sse e] by (auto simp: phr_parse_request_def)
  moreover have "phr_parse_request sse limit last_len (take k ?P) = Inl Parse_Partial"
  proof (rule ccontr)
    assume np: "phr_parse_request sse limit last_len (take k ?P) \<noteq> Inl Parse_Partial"
    have "last_len \<le> length (take k ?P) + 3" using last k by simp
    from extends_idD [OF request_result_extends [OF this, of sse limit sse "drop k ?P"]] np full [of "[]"]
    have q: "phr_parse_request sse limit last_len (take k ?P) = Inr ?q" by simp
    from request_consumed [OF q] k show False by simp
  qed
  ultimately show ?thesis by simp
qed

theorem request_parsed_incrementally_witness:
  "phr_parse_request True 8 5 (take 20 (print_request (bytes ''GET'') (bytes ''/a'') 1 [(bytes ''Host'', bytes ''x'')])) =
     Inl Parse_Partial \<and>
   phr_parse_request True 8 5 (print_request (bytes ''GET'') (bytes ''/a'') 1 [(bytes ''Host'', bytes ''x'')] @ bytes ''GE'') =
     Inr \<lparr>pq_consumed = 28, pq_method = bytes ''GET'', pq_path = bytes ''/a'', pq_minor = 1,
          pq_headers = [\<lparr>ph_name = Some (bytes ''Host''), ph_value = bytes ''x''\<rparr>]\<rparr>"
proof -
  have h: "token_ok (bytes ''GET'')" "target_ok (bytes ''/a'')" "(1 :: nat) < 10"
    "list_all header_ok [(bytes ''Host'', bytes ''x'')]" "length [(bytes ''Host'', bytes ''x'')] \<le> 8"
    by code_simp+
  have l: "length (print_request (bytes ''GET'') (bytes ''/a'') 1 [(bytes ''Host'', bytes ''x'')]) = 28"
    by (simp add: print_request_def print_version_def print_headers_def print_header_def)
  show ?thesis
    using request_parsed_incrementally [OF h, of 20 5 True "bytes ''GE''"] by (simp add: l [unfolded One_nat_def] parsed_header_def)
qed

end
