(* ===== verification/Connection.thy ===== *)
theory Connection
  imports Ingress Pico
begin

text \<open>
  Connections and connection pools (src/connection.cc). One record holds the members of HTTPConnection and
  of its subclasses: \<open>c_http\<close> says which subclass an object is, \<open>h2_session\<close> is the nghttp2 session of an
  HTTP2Connection. The array \<open>buf\<close> of an HTTP1Connection is the list of its first \<open>buf_len\<close> bytes. Sockets
  are outside the model: their descriptors, addresses and error codes are arguments.
\<close>

record 's conn =
  c_fd :: int
  c_addr :: sockaddr
  c_status :: conn_status
  c_host :: string
  c_port :: nat
  c_type :: conn_type
  c_dir :: conn_dir
  c_http :: http_version
  h1_buf :: "byte list"
  h1_prev_buf_len :: nat
  h1_hdr_complete :: bool
  h1_content_length :: int
  h1_hdr_size :: int
  h1_idle :: bool
  h1_last_id :: int
  h1_rpc_message :: "nat option"
  h2_session :: "'s option"

definition HTTP1Connection_BUF_SIZE :: nat where
  "HTTP1Connection_BUF_SIZE = 200000"

definition HTTP1Connection_MAX_HEADERS :: nat where
  "HTTP1Connection_MAX_HEADERS = 10"

section \<open>Construction\<close>

text \<open>A connection accepted by a listener.\<close>

definition accepted_connection :: "int \<Rightarrow> conn_type \<Rightarrow> http_version \<Rightarrow> 's option \<Rightarrow> 's conn result" where
  "accepted_connection fd type http session =
     (if fd < 0 then Inl (Fatal ''Invalid file descriptor'')
      else Inr \<lparr>c_fd = fd, c_addr = no_addr, c_status = UP, c_host = [], c_port = 0, c_type = type, c_dir = DOWNSTREAM,
                c_http = http, h1_buf = [], h1_prev_buf_len = 0, h1_hdr_complete = False, h1_content_length = -1,
                h1_hdr_size = 0, h1_idle = True, h1_last_id = 0, h1_rpc_message = None, h2_session = session\<rparr>)"

text \<open>
  The loop that looks for a clean socket: each attempt is the result of socket, the result of getsockopt and
  the pending error, which is dirty for EINPROGRESS (115) and EALREADY (114).
\<close>

fun open_socket :: "nat \<Rightarrow> (int \<times> int \<times> int) list \<Rightarrow> int result" where
  "open_socket retries [] = Inl (Undefined ''no outcome'')"
| "open_socket retries ((fd, ret, err) # rest) =
     (if fd < 0 then Inl (Fatal ''Failed to create socket'')
      else if ret < 0 then Inl (Fatal ''getsockopt failed'')
      else if err = 115 \<or> err = 114 then
        if Suc retries > 2 then Inl (Fatal ''Failed to create a clean socket after 2 retries'')
        else open_socket (Suc retries) rest
      else Inr fd)"

text \<open>A connection the sidecar opens; \<open>resolved\<close> is the address getaddrinfo finds.\<close>

definition upstream_connection ::
    "(int \<times> int \<times> int) list \<Rightarrow> sockaddr option \<Rightarrow> string \<Rightarrow> nat \<Rightarrow> conn_type \<Rightarrow> http_version \<Rightarrow> 's option \<Rightarrow> 's conn result" where
  "upstream_connection attempts resolved host port type http session =
     bindR (open_socket 0 attempts) (\<lambda>fd. case resolved of
         None \<Rightarrow> Inl (Fatal ''DNS resolution failed'')
       | Some a \<Rightarrow>
           Inr \<lparr>c_fd = fd, c_addr = a, c_status = DOWN, c_host = host, c_port = port, c_type = type, c_dir = UPSTREAM,
                c_http = http, h1_buf = [], h1_prev_buf_len = 0, h1_hdr_complete = False, h1_content_length = -1,
                h1_hdr_size = 0, h1_idle = True, h1_last_id = 0, h1_rpc_message = None, h2_session = session\<rparr>)"

definition available :: "'s conn \<Rightarrow> bool" where
  "available c = (case c_http c of HTTP1 \<Rightarrow> h1_idle c \<and> c_status c = UP | HTTP2 \<Rightarrow> c_status c = UP)"

section \<open>Pools\<close>

text \<open>
  A shared_ptr to a connection is a reference into a store. \<open>cp_conns\<close> lists the entries of the unordered
  map in iteration order and \<open>cp_next\<close> is the position of the iterator next_conn in it, the number of
  entries for end(). Where a new entry comes in the order is up to the hash table: \<open>rehash\<close>.
\<close>

record conn_pool =
  cp_conns :: "(int \<times> nat) list"
  cp_type :: conn_type
  cp_addr :: "sockaddr option"
  cp_next :: nat

definition pool_new :: "conn_type \<Rightarrow> conn_pool" where
  "pool_new type = \<lparr>cp_conns = [], cp_type = type, cp_addr = None, cp_next = 0\<rparr>"

definition pool_add_connection ::
    "((int \<times> nat) list \<Rightarrow> (int \<times> nat) list) \<Rightarrow> 's conn \<Rightarrow> nat \<Rightarrow> conn_pool \<Rightarrow> (nat \<times> conn_pool) result" where
  "pool_add_connection rehash c r p =
     (let fd = c_fd c;
          cs = (if map_of (cp_conns p) fd = None then rehash (cp_conns p @ [(fd, r)]) else cp_conns p)
      in bindR (map_at (map_of cs) fd) (\<lambda>r'.
           Inr (r', p\<lparr>cp_conns := cs, cp_next := 0,
                      cp_addr := (if cp_addr p = None then Some (c_addr c) else cp_addr p)\<rparr>)))"

definition pool_get_addr :: "conn_pool \<Rightarrow> sockaddr result" where
  "pool_get_addr p = (case cp_addr p of None \<Rightarrow> Inl (Fatal ''Address not set for connection pool'') | Some a \<Rightarrow> Inr a)"

definition pool_has_connection :: "conn_pool \<Rightarrow> int \<Rightarrow> bool" where
  "pool_has_connection p fd \<longleftrightarrow> map_of (cp_conns p) fd \<noteq> None"

definition pool_get_connection :: "conn_pool \<Rightarrow> int \<Rightarrow> nat result" where
  "pool_get_connection p fd =
     (case map_of (cp_conns p) fd of None \<Rightarrow> Inl (Fatal ''Connection not found in pool'') | Some r \<Rightarrow> Inr r)"

definition pool_remove_connection :: "conn_pool \<Rightarrow> int \<Rightarrow> conn_pool" where
  "pool_remove_connection p fd = p\<lparr>cp_conns := AList.delete fd (cp_conns p), cp_next := 0\<rparr>"

text \<open>
  The loop of get_any_connection, on the availability of the entries in iteration order: the outcome and the
  position where the iterator is left. The exception leaves it behind the last entry.
\<close>

function any_loop :: "bool list \<Rightarrow> bool \<Rightarrow> nat \<Rightarrow> nat result \<times> nat" where
  "any_loop av wrap i =
     (if i \<ge> length av then (Inl (Undefined ''dereference of end()''), i)
      else if av ! i then (Inr i, i)
      else if wrap \<and> Suc i = length av then (Inl (NoConnection ''No available connections in the pool''), Suc i)
      else if \<not> wrap \<and> Suc i = length av then any_loop av True 0
      else any_loop av wrap (Suc i))"
  by auto
termination any_loop
  by (relation "measure (\<lambda>(av, wrap, i). if wrap then length av - i else 2 * length av - i)") auto

declare any_loop.simps [simp del]

text \<open>The connection or the exception, and the pool with its iterator moved.\<close>

definition get_any_connection :: "(nat \<Rightarrow> bool) \<Rightarrow> conn_pool \<Rightarrow> nat result \<times> conn_pool" where
  "get_any_connection avail p =
     (if cp_conns p = [] then (Inl (NoConnection ''Pool is empty''), p)
      else let (res, i) = any_loop (map (\<lambda>(_, r). avail r) (cp_conns p)) False (cp_next p)
           in (bindR res (\<lambda>j. Inr (snd (cp_conns p ! j))), p\<lparr>cp_next := i\<rparr>))"

end
