(* ===== verification/Http1.thy ===== *)
theory Http1
  imports Connection
begin

text \<open>
  HTTP1Connection (src/connection.cc): reading requests and responses from a byte stream, and writing them.
  A connection carries one request at a time. The rest of the program state a handler works on is the
  ingress queue and the core. The time is an argument.
\<close>

section \<open>Numbers in header values\<close>

text \<open>The sign and the digits at the start of a text.\<close>

definition c_digits :: "byte list \<Rightarrow> byte list" where
  "c_digits s = takeWhile is_digit s"

text \<open>strtoul in base 10, which answers ULONG_MAX when the number is too large.\<close>

definition strtoul :: "byte list \<Rightarrow> int" where
  "strtoul s =
     (let s1 = dropWhile is_space s;
          neg = (s1 \<noteq> [] \<and> hd s1 = 45);
          s2 = (if s1 \<noteq> [] \<and> (hd s1 = 45 \<or> hd s1 = 43) then tl s1 else s1);
          v = digits_val (c_digits s2)
      in if v \<ge> 2 ^ 64 then 2 ^ 64 - 1 else if neg then (- v) mod 2 ^ 64 else v)"

text \<open>std::from_chars into an int; \<open>None\<close> is an error, which leaves the target as it was.\<close>

definition from_chars_int :: "byte list \<Rightarrow> int option" where
  "from_chars_int s =
     (let neg = (s \<noteq> [] \<and> hd s = 45);
          ds = c_digits (if neg then tl s else s);
          v = (if neg then - digits_val ds else digits_val ds)
      in if ds = [] \<or> v < - (2 ^ 31) \<or> 2 ^ 31 \<le> v then None else Some v)"

definition to_lower :: "byte \<Rightarrow> byte" where
  "to_lower b = (if 65 \<le> b \<and> b \<le> 90 then b + 32 else b)"

text \<open>strncasecmp(p, s, |s|) == 0\<close>

definition case_prefix :: "byte list \<Rightarrow> string \<Rightarrow> bool" where
  "case_prefix p s \<longleftrightarrow> map to_lower (take (length s) p) = map to_lower (bytes s)"

definition name_of :: "phr_header \<Rightarrow> byte list" where
  "name_of h = (case ph_name h of None \<Rightarrow> [] | Some nm \<Rightarrow> nm)"

section \<open>Reading\<close>

text \<open>
  The Content-Length of a request. strtoul does not stop at the end of the value: from an empty value it
  skips the line end and reads \<open>behind\<close>, whatever stands there in the buffer.
\<close>

definition request_content_length :: "byte list \<Rightarrow> phr_header list \<Rightarrow> int \<Rightarrow> int" where
  "request_content_length behind hs cl =
     foldl (\<lambda>cl h.
       if length (name_of h) \<ge> 14 \<and> take 14 (name_of h) = bytes ''Content-Length''
       then to_int32 (strtoul (if ph_value h = [] then behind else ph_value h))
       else cl) cl hs"

text \<open>A parsed header goes into the message. The name of a continuation line is a null pointer.\<close>

definition add_parsed_header :: "config \<Rightarrow> bool \<Rightarrow> phr_header \<Rightarrow> int \<times> rpc_message \<Rightarrow> (int \<times> rpc_message) result" where
  "add_parsed_header cfg request h = (\<lambda>(ctr, m).
     case ph_name h of
       None \<Rightarrow>
         if request then Inl (Undefined ''memcmp of a null name'')
         else add_header_field (is_ingress cfg) ctr m [] 0 (ph_value h) (length (ph_value h)) request False
     | Some nm \<Rightarrow>
         add_header_field (is_ingress cfg) ctr m nm (length nm) (ph_value h) (length (ph_value h)) request False)"

definition h1_reset :: "'s conn \<Rightarrow> 's conn" where
  "h1_reset c = c\<lparr>h1_buf := [], h1_prev_buf_len := 0, h1_hdr_complete := False, h1_content_length := -1, h1_hdr_size := 0\<rparr>"

text \<open>Only what an ingress checks before it takes a request.\<close>

definition check_ingress_target :: "config \<Rightarrow> string \<Rightarrow> ingress \<Rightarrow> unit result" where
  "check_ingress_target cfg path ig =
     (if \<not> is_ingress cfg then Inr ()
      else case parse_service_from_request_target path of
        None \<Rightarrow> Inl (HTTPParse ''invalid request target for ingress'')
      | Some seg \<Rightarrow> if seg \<noteq> ig_service ig then Inl (HTTPParse ''ingress service mismatch'') else Inr ())"

definition new_http_request :: "config \<Rightarrow> int \<Rightarrow> 's conn \<Rightarrow> phr_request \<Rightarrow> core \<Rightarrow> (nat \<times> core) result" where
  "new_http_request cfg now c q k =
     bindR (allocate_rpc (k_heap k) (k_mapper k) (c_type c) (h1_last_id c) (c_fd c) HTTP1) (\<lambda>(_, h, mp).
     bindR (get_ds_rpc mp (c_type c) (h1_last_id c) (c_fd c)) (\<lambda>r.
     bindR (foldR (add_parsed_header cfg True) (pq_headers q) (k_ctr k, (h r)\<lparr>req_rcv_time := now\<rparr>)) (\<lambda>(ctr, m).
     bindR (set_service (m\<lparr>m_method := chars (pq_method q)\<rparr>) (chars (pq_path q))) (\<lambda>m.
       Inr (r, k\<lparr>k_heap := h(r := m\<lparr>m_path := chars (pq_path q), m_minor := pq_minor q\<rparr>), k_ctr := ctr, k_mapper := mp\<rparr>)))))"

definition http1_read_request ::
    "bool \<Rightarrow> config \<Rightarrow> int \<Rightarrow> byte list \<Rightarrow> 's conn \<Rightarrow> ingress \<Rightarrow> core \<Rightarrow> ('s conn \<times> ingress \<times> core) result" where
  "http1_read_request sse cfg now behind c ig k =
     (case phr_parse_request sse HTTP1Connection_MAX_HEADERS (h1_prev_buf_len c) (h1_buf c) of
        Inl Parse_Partial \<Rightarrow> Inr (c\<lparr>h1_hdr_size := -2\<rparr>, ig, k)
      | Inl Parse_Failed \<Rightarrow>
          if is_ingress cfg then Inl (HTTPParse ''Failed to parse HTTP/1.1 request'')
          else Inl (Fatal ''Failed to parse HTTP/1.1 request'')
      | Inl Parse_Overrun \<Rightarrow> Inl (Undefined ''read behind the buffer'')
      | Inr q \<Rightarrow>
          if request_content_length behind (pq_headers q) (h1_content_length c) \<ge> 0 then
            if is_ingress cfg then Inl (HTTPParse ''Content-Length header is not supported in HTTP/1.1 requests'')
            else Inl (Fatal ''Content-Length header is not supported in HTTP/1.1 requests'')
          else
            bindR (check_ingress_target cfg (chars (pq_path q)) ig) (\<lambda>_.
            if length (h1_buf c) > nat (pq_consumed q)
            then Inl (Fatal ''We have more data than headers size in request parsing'')
            else
              let c = c\<lparr>h1_last_id := h1_last_id c + 1\<rparr> in
              bindR (new_http_request cfg now c q k) (\<lambda>(r, k).
              bindR (if is_frontend cfg then
                       Inr (ig, k\<lparr>k_rq := rq_enqueue (k_rq k) (c_type c) (c_dir c) (c_fd c) (h1_last_id c)\<rparr>)
                     else if is_ingress cfg then
                       if c_type c = INGRESS then Inl (Fatal ''Ingress should be on the EGRESS connection'')
                       else ingress_enqueue cfg now r ig k
                     else Inl (Fatal ''HTTP1 connection while both config.is_ingress and config.is_frontend are false'')) (\<lambda>(ig, k).
              if \<not> h1_idle c then Inl (Fatal ''Reading a request on non-idle connection'')
              else Inr (h1_reset (c\<lparr>h1_idle := False\<rparr>), ig, k)))))"

definition header_body_allowed :: "int \<Rightarrow> bool" where
  "header_body_allowed code \<longleftrightarrow> \<not> ((100 \<le> code \<and> code < 200) \<or> code = 204 \<or> code = 304)"

definition response_body_header :: "phr_header \<Rightarrow> int \<Rightarrow> int result" where
  "response_body_header h cl =
     bindR (if length (name_of h) = 14 \<and> case_prefix (name_of h) ''Content-Length'' then
              (case from_chars_int (ph_value h) of
                 Some v \<Rightarrow> Inr v
               | None \<Rightarrow> if cl \<noteq> -1 then Inl (Fatal ''Failed to parse Content-Length header'') else Inr cl)
            else Inr cl) (\<lambda>cl.
     if length (name_of h) = 17 \<and> length (ph_value h) \<ge> 7 \<and> case_prefix (name_of h) ''Transfer-Encoding'' \<and>
        case_prefix (ph_value h) ''chunked''
     then Inl (Fatal ''Chunked transfer encoding is not supported in HTTP/1.1 responses'')
     else Inr cl)"

text \<open>dynamic_pointer_cast to HTTPMessage, with the check for null.\<close>

definition http_message :: "core \<Rightarrow> nat \<Rightarrow> unit result" where
  "http_message k r = ensure (m_http (k_heap k r) = HTTP1) (Fatal ''Null pointer after dynamic_pointer_cast'')"

text \<open>The part under \<open>if (!hdr_complete)\<close>; \<open>None\<close> is the early return.\<close>

definition http1_response_head :: "bool \<Rightarrow> config \<Rightarrow> 's conn \<Rightarrow> core \<Rightarrow> ('s conn \<times> core) option result" where
  "http1_response_head sse cfg c k =
     (case phr_parse_response sse HTTP1Connection_MAX_HEADERS (h1_prev_buf_len c) (h1_buf c) of
        Inl Parse_Partial \<Rightarrow> Inr None
      | Inl Parse_Failed \<Rightarrow> Inl (Fatal ''Failed to parse HTTP/1.1 request'')
      | Inl Parse_Overrun \<Rightarrow> Inl (Undefined ''read behind the buffer'')
      | Inr q \<Rightarrow>
          bindR (if header_body_allowed (pp_status q)
                 then foldR response_body_header (pp_headers q) (h1_content_length c)
                 else Inr (h1_content_length c)) (\<lambda>cl.
          bindR (get_us_rpc (k_mapper k) (c_type c) (h1_last_id c) (c_fd c)) (\<lambda>r.
          bindR (http_message k r) (\<lambda>_.
          bindR (foldR (add_parsed_header cfg False) (pp_headers q) (k_ctr k, k_heap k r)) (\<lambda>(ctr, m).
            Inr (Some
              (c\<lparr>h1_hdr_size := pp_consumed q, h1_content_length := cl, h1_hdr_complete := True\<rparr>,
               k\<lparr>k_ctr := ctr,
                 k_heap := (k_heap k)(r := m\<lparr>m_status := pp_status q, m_msg := chars (pp_msg q), m_minor := pp_minor q\<rparr>)\<rparr>)))))))"

definition http1_response_body :: "int \<Rightarrow> 's conn \<Rightarrow> core \<Rightarrow> ('s conn \<times> core) result" where
  "http1_response_body now c k =
     bindR (if h1_content_length c > 0 then
              bindR (get_us_rpc (k_mapper k) (c_type c) (h1_last_id c) (c_fd c)) (\<lambda>r.
              bindR (http_message k r) (\<lambda>_.
              bindR (add_data ((k_heap k r)\<lparr>res_rcv_time := now\<rparr>) (drop (nat (h1_hdr_size c)) (h1_buf c))
                       (nat (h1_content_length c)) False) (\<lambda>m.
                Inr (h1_content_length c, k\<lparr>k_heap := (k_heap k)(r := m)\<rparr>))))
            else Inr (0, k)) (\<lambda>(cl, k).
     let k = k\<lparr>k_rq := rq_enqueue (k_rq k) (c_type c) (c_dir c) (c_fd c) (h1_last_id c)\<rparr> in
     if int (length (h1_buf c)) > h1_hdr_size c + cl
     then Inl (Fatal ''We have more data than headers size + body size in response parsing'')
     else if h1_idle c then Inl (Fatal ''Reading a response from idle connection'')
     else Inr (h1_reset (c\<lparr>h1_idle := True\<rparr>), k))"

definition http1_read_response :: "bool \<Rightarrow> config \<Rightarrow> int \<Rightarrow> 's conn \<Rightarrow> core \<Rightarrow> ('s conn \<times> core) result" where
  "http1_read_response sse cfg now c k =
     bindR (if h1_hdr_complete c then Inr (Some (c, k)) else http1_response_head sse cfg c k) (\<lambda>head. case head of
         None \<Rightarrow> Inr (c\<lparr>h1_hdr_size := -2\<rparr>, k)
       | Some (c, k) \<Rightarrow>
           if int (length (h1_buf c)) - h1_hdr_size c < h1_content_length c then Inr (c, k)
           else http1_response_body now c k)"

definition http1_read ::
    "bool \<Rightarrow> config \<Rightarrow> int \<Rightarrow> byte list \<Rightarrow> buffer \<Rightarrow> 's conn \<Rightarrow> ingress \<Rightarrow> core \<Rightarrow> ('s conn \<times> ingress \<times> core) result" where
  "http1_read sse cfg now behind b c ig k =
     (if buf_filled b = 0 then Inr (c, ig, k)
      else if buf_filled b > HTTP1Connection_BUF_SIZE - length (h1_buf c) then Inl (Fatal ''Buffer overflow'')
      else
        let c = c\<lparr>h1_prev_buf_len := length (h1_buf c), h1_buf := h1_buf c @ take (buf_filled b) (buf_data b)\<rparr> in
        case c_dir c of
          DOWNSTREAM \<Rightarrow> http1_read_request sse cfg now behind c ig k
        | UPSTREAM \<Rightarrow> bindR (http1_read_response sse cfg now c k) (\<lambda>(c, k). Inr (c, ig, k)))"

section \<open>Writing\<close>

definition http1_want_write :: "'s conn \<Rightarrow> bool" where
  "http1_want_write c \<longleftrightarrow> h1_rpc_message c \<noteq> None"

text \<open>What \<open>%.*s\<close> prints of the first \<open>n\<close> bytes of an array: it stops at a zero byte.\<close>

definition c_text :: "nat \<Rightarrow> byte list \<Rightarrow> byte list" where
  "c_text n s = takeWhile (\<lambda>b. b \<noteq> 0) (take n s)"

text \<open>
  append_fmt_or_fatal for an already formatted text. vsnprintf puts the text and a zero byte at offset
  \<open>written\<close>, never behind the free space.
\<close>

definition append_fmt :: "byte list \<Rightarrow> buffer \<times> nat \<Rightarrow> (buffer \<times> nat) result" where
  "append_fmt txt = (\<lambda>(b, written).
     let remaining = buf_size b - buf_filled b in
     if remaining = 0 then Inl (Fatal ''Buffer has no remaining capacity'')
     else if length txt \<ge> remaining then Inl (Fatal ''vsnprintf failed or buffer overflow'')
     else if written + Suc (length txt) > length (buf_data b) then Inl (Undefined ''vsnprintf outside the buffer'')
     else bindR (set_filled (b\<lparr>buf_data := write_at (buf_data b) written (txt @ [0])\<rparr>) (buf_filled b + length txt)) (\<lambda>b.
       Inr (b, written + length txt)))"

definition header_text :: "header_field \<Rightarrow> byte list" where
  "header_text h = c_text (hf_name_len h) (hf_name h) @ bytes '': '' @ c_text (hf_value_len h) (hf_value h) @ [13, 10]"

text \<open>The loop over the first \<open>n\<close> headers, which are read with \<open>at\<close>.\<close>

definition append_headers :: "header_field list \<Rightarrow> nat \<Rightarrow> buffer \<times> nat \<Rightarrow> (buffer \<times> nat) result" where
  "append_headers hs n = foldR (\<lambda>i s. bindR (vec_at hs i) (\<lambda>h. append_fmt (header_text h) s)) [0..<n]"

definition request_line :: "rpc_message \<Rightarrow> byte list" where
  "request_line m =
     c_text (length (m_method m)) (bytes (m_method m)) @ [32] @ c_text (length (m_path m)) (bytes (m_path m)) @
     bytes '' HTTP/1.'' @ show_int (m_minor m) @ [13, 10]"

definition status_line :: "rpc_message \<Rightarrow> byte list" where
  "status_line m =
     bytes ''HTTP/1.'' @ show_int (m_minor m) @ [32] @ show_int (m_status m) @ [32] @
     c_text (length (m_msg m)) (bytes (m_msg m)) @ [13, 10]"

definition error_text :: "rpc_message \<Rightarrow> byte list" where
  "error_text m =
     bytes ''HTTP/1.'' @ show_int (m_minor m) @ bytes '' 503 Service Unavailable'' @ [13, 10] @
     bytes ''Content-Type: text/plain'' @ [13, 10] @ bytes ''Content-Length: 0'' @ [13, 10] @ [13, 10]"

definition append_body :: "data_read \<Rightarrow> buffer \<times> nat \<Rightarrow> (buffer \<times> nat) result" where
  "append_body d = (\<lambda>(b, written).
     if dr_offset d > buf_size b - buf_filled b then Inl (Fatal ''Buffer overflow'')
     else bindR (set_filled (b\<lparr>buf_data := write_at (buf_data b) (buf_filled b) (take (dr_offset d) (dr_data d))\<rparr>)
                   (dr_offset d + buf_filled b)) (\<lambda>b. Inr (b, written + dr_offset d)))"

definition http1_write :: "config \<Rightarrow> int \<Rightarrow> buffer \<Rightarrow> 's conn \<Rightarrow> core \<Rightarrow> (buffer \<times> nat \<times> 's conn \<times> core) result" where
  "http1_write cfg now b c k =
     (case h1_rpc_message c of
        None \<Rightarrow> Inl (Fatal ''RPC message is not set'')
      | Some r \<Rightarrow>
          let m = k_heap k r; c = c\<lparr>h1_rpc_message := None\<rparr> in
          case c_dir c of
            UPSTREAM \<Rightarrow>
              bindR (append_fmt (request_line m) (b, 0)) (\<lambda>s.
              bindR (append_headers (req_headers m) (req_header_count m) s) (\<lambda>s.
              bindR (append_fmt [13, 10] s) (\<lambda>(b, written).
                if h1_idle c then Inl (Fatal ''Writing a request to non-idle connection'')
                else Inr (b, written, c, upd_msg r (\<lambda>m. m\<lparr>req_for_time := now\<rparr>) k))))
          | DOWNSTREAM \<Rightarrow>
              bindR (if m_error m then append_fmt (error_text m) (b, 0)
                     else bindR (append_fmt (status_line m) (b, 0)) (\<lambda>s.
                       bindR (append_headers (res_headers m) (res_header_count m) s) (\<lambda>s.
                       bindR (append_fmt [13, 10] s) (append_body (res_data m))))) (\<lambda>(b, written).
                if h1_idle c then Inl (Fatal ''Writing a response to idle connection'')
                else
                  bindR (report_latency (is_ingress cfg) m now (k_stats k)) (\<lambda>st.
                  bindR (remove_rpc (k_heap k) (k_mapper k) (c_type c) 0 r) (\<lambda>(h, mp).
                    Inr (b, written, c\<lparr>h1_idle := True\<rparr>, k\<lparr>k_heap := h, k_mapper := mp, k_stats := st\<rparr>)))))"

section \<open>Submitting\<close>

definition set_rpc_message :: "core \<Rightarrow> nat \<Rightarrow> 's conn \<Rightarrow> 's conn result" where
  "set_rpc_message k r c =
     bindR (http_message k r) (\<lambda>_.
       if h1_rpc_message c \<noteq> None then Inl (Fatal ''RPC message is already set'')
       else Inr (c\<lparr>h1_rpc_message := Some r\<rparr>))"

definition http1_submit_request :: "core \<Rightarrow> nat \<Rightarrow> 's conn \<Rightarrow> (int \<times> 's conn) result" where
  "http1_submit_request k r c =
     bindR (set_rpc_message k r c) (\<lambda>c.
       let i = h1_last_id c + 1 in Inr (i, c\<lparr>h1_last_id := i, h1_idle := False\<rparr>))"

definition http1_submit_response :: "core \<Rightarrow> nat \<Rightarrow> 's conn \<Rightarrow> 's conn result" where
  "http1_submit_response = set_rpc_message"

definition http1_submit_error_response :: "core \<Rightarrow> nat \<Rightarrow> 's conn \<Rightarrow> 's conn result" where
  "http1_submit_error_response = set_rpc_message"

end
