(* ===== verification/Http2.thy ===== *)
theory Http2
  imports Connection
begin

text \<open>
  HTTP2Connection and the nghttp2 callbacks (src/connection.cc). The nghttp2 library is outside the
  repository: \<open>'s\<close> is its session state and the record \<open>nghttp2\<close> its functions. Receiving bytes yields the
  callbacks it makes, in order. Sending may ask the program for payload in the middle of a call
  (data_read_callback), so the result of nghttp2_session_mem_send is a tree of such questions.
\<close>

section \<open>The library as a parameter\<close>

datatype hcat = HCAT_REQUEST | HCAT_RESPONSE | HCAT_PUSH_RESPONSE | HCAT_HEADERS

datatype frame_type = FRAME_DATA | FRAME_HEADERS | FRAME_SETTINGS | FRAME_OTHER

datatype ng_event =
    Ev_Begin_Headers hcat int
  | Ev_Header hcat int "byte list" nat "byte list" nat
  | Ev_Data_Chunk int "byte list" nat
  | Ev_Frame_Recv frame_type int bool
  | Ev_Invalid_Frame
  | Ev_Error

text \<open>The source pointer of a data provider: entry 0 or 1 of the data map of a message.\<close>

datatype data_source = Request_Data nat | Response_Data nat

record read_result =
  rr_bytes :: "byte list"
  rr_eof :: bool
  rr_no_end_stream :: bool

datatype 's send =
    Sent "byte list" 's
  | Send_Failed
  | Read_Data 's int data_source nat "'s \<Rightarrow> read_result \<Rightarrow> 's send"

type_synonym nva = "(byte list \<times> byte list) list"

record 's nghttp2 =
  ng_client_new :: "int \<times> 's"
  ng_server_new :: "int \<times> 's"
  ng_mem_recv :: "'s \<Rightarrow> byte list \<Rightarrow> ng_event list \<times> int \<times> 's"
  ng_want_write :: "'s \<Rightarrow> bool"
  ng_mem_send :: "'s \<Rightarrow> 's send"
  ng_submit_settings :: "'s \<Rightarrow> int \<times> 's"
  ng_submit_request :: "'s \<Rightarrow> nva \<Rightarrow> data_source \<Rightarrow> int \<times> 's"
  ng_submit_response :: "'s \<Rightarrow> int \<Rightarrow> nva \<Rightarrow> data_source option \<Rightarrow> int \<times> 's"
  ng_submit_trailer :: "'s \<Rightarrow> int \<Rightarrow> nva \<Rightarrow> int \<times> 's"

section \<open>Receiving\<close>

text \<open>gRPCMessage is the class of the messages of HTTP/2 requests.\<close>

definition grpc_message :: "core \<Rightarrow> nat \<Rightarrow> unit result" where
  "grpc_message k r = ensure (m_http (k_heap k r) = HTTP2) (Fatal ''Null pointer after dynamic_cast'')"

definition frame_recv_callback :: "int \<Rightarrow> frame_type \<Rightarrow> int \<Rightarrow> bool \<Rightarrow> 's conn \<Rightarrow> core \<Rightarrow> ('s conn \<times> core) result" where
  "frame_recv_callback now frame stream_id end_stream c k =
     (if end_stream then
        case frame of
          FRAME_DATA \<Rightarrow>
            let k = k\<lparr>k_rq := rq_enqueue (k_rq k) (c_type c) (c_dir c) (c_fd c) stream_id\<rparr> in
            bindR (get_ds_rpc (k_mapper k) (c_type c) stream_id (c_fd c)) (\<lambda>r.
              Inr (c, upd_msg r (\<lambda>m. m\<lparr>req_rcv_time := now\<rparr>) k))
        | FRAME_HEADERS \<Rightarrow>
            let k = k\<lparr>k_rq := rq_enqueue (k_rq k) (c_type c) (c_dir c) (c_fd c) stream_id\<rparr> in
            bindR (get_us_rpc (k_mapper k) (c_type c) stream_id (c_fd c)) (\<lambda>r.
            bindR (grpc_message k r) (\<lambda>_.
              Inr (c, upd_msg r (\<lambda>m. m\<lparr>res_rcv_time := now,
                                       m_error := (if dr_offset (res_data m) = 0 then True else m_error m)\<rparr>) k)))
        | _ \<Rightarrow> Inr (c, k)
      else if frame = FRAME_SETTINGS \<and> c_status c = DOWN then Inr (c\<lparr>c_status := UP\<rparr>, k)
      else Inr (c, k))"

text \<open>The std::out_of_range that the callback catches.\<close>

definition fatal_out_of_range :: "'a result \<Rightarrow> 'a result" where
  "fatal_out_of_range r = (case r of Inl OutOfRange \<Rightarrow> Inl (Fatal ''No RPC object found'') | _ \<Rightarrow> r)"

definition on_data_chunk_recv_callback :: "int \<Rightarrow> byte list \<Rightarrow> nat \<Rightarrow> 's conn \<Rightarrow> core \<Rightarrow> core result" where
  "on_data_chunk_recv_callback stream_id d len c k =
     fatal_out_of_range (case c_dir c of
        DOWNSTREAM \<Rightarrow>
          bindR (get_ds_rpc (k_mapper k) (c_type c) stream_id (c_fd c)) (\<lambda>r.
          bindR (add_data (k_heap k r) d len True) (\<lambda>m. Inr (k\<lparr>k_heap := (k_heap k)(r := m)\<rparr>)))
      | UPSTREAM \<Rightarrow>
          bindR (get_us_rpc (k_mapper k) (c_type c) stream_id (c_fd c)) (\<lambda>r.
          bindR (add_data (k_heap k r) d len False) (\<lambda>m. Inr (k\<lparr>k_heap := (k_heap k)(r := m)\<rparr>))))"

definition on_header_callback ::
    "config \<Rightarrow> hcat \<Rightarrow> int \<Rightarrow> byte list \<Rightarrow> nat \<Rightarrow> byte list \<Rightarrow> nat \<Rightarrow> 's conn \<Rightarrow> core \<Rightarrow> core result" where
  "on_header_callback cfg cat stream_id nm nm_len value value_len c k =
     (let add = (\<lambda>r request tailer.
            bindR (add_header_field (is_ingress cfg) (k_ctr k) (k_heap k r) nm nm_len value value_len request tailer)
              (\<lambda>(ctr, m). Inr (k\<lparr>k_ctr := ctr, k_heap := (k_heap k)(r := m)\<rparr>)))
      in case cat of
        HCAT_REQUEST \<Rightarrow>
          if c_dir c \<noteq> DOWNSTREAM then Inl (Fatal ''Invalid direction for request frame'')
          else bindR (get_ds_rpc (k_mapper k) (c_type c) stream_id (c_fd c)) (\<lambda>r. add r True False)
      | HCAT_HEADERS \<Rightarrow>
          if c_dir c \<noteq> UPSTREAM then Inl (Fatal ''Invalid direction for response frame'')
          else bindR (get_us_rpc (k_mapper k) (c_type c) stream_id (c_fd c)) (\<lambda>r. add r False True)
      | HCAT_RESPONSE \<Rightarrow>
          if c_dir c \<noteq> UPSTREAM then Inl (Fatal ''Invalid direction for response frame'')
          else bindR (get_us_rpc (k_mapper k) (c_type c) stream_id (c_fd c)) (\<lambda>r. add r False False)
      | HCAT_PUSH_RESPONSE \<Rightarrow> Inr k)"

definition on_begin_headers_callback :: "hcat \<Rightarrow> int \<Rightarrow> 's conn \<Rightarrow> core \<Rightarrow> core result" where
  "on_begin_headers_callback cat stream_id c k =
     (if cat = HCAT_REQUEST then
        if c_dir c \<noteq> DOWNSTREAM then Inl (Fatal ''Invalid direction for request frame'')
        else bindR (allocate_rpc (k_heap k) (k_mapper k) (c_type c) stream_id (c_fd c) HTTP2) (\<lambda>(_, h, mp).
               Inr (k\<lparr>k_heap := h, k_mapper := mp\<rparr>))
      else Inr k)"

text \<open>The registration of set_callbacks: which callback runs for which event.\<close>

definition run_callback :: "config \<Rightarrow> int \<Rightarrow> ng_event \<Rightarrow> 's conn \<times> core \<Rightarrow> ('s conn \<times> core) result" where
  "run_callback cfg now ev = (\<lambda>(c, k). case ev of
       Ev_Begin_Headers cat i \<Rightarrow> bindR (on_begin_headers_callback cat i c k) (\<lambda>k. Inr (c, k))
     | Ev_Header cat i nm nl v vl \<Rightarrow> bindR (on_header_callback cfg cat i nm nl v vl c k) (\<lambda>k. Inr (c, k))
     | Ev_Data_Chunk i d len \<Rightarrow> bindR (on_data_chunk_recv_callback i d len c k) (\<lambda>k. Inr (c, k))
     | Ev_Frame_Recv f i e \<Rightarrow> frame_recv_callback now f i e c k
     | Ev_Invalid_Frame \<Rightarrow> Inr (c, k)
     | Ev_Error \<Rightarrow> Inl (Fatal ''nghttp2 error''))"

definition session_of :: "'s conn \<Rightarrow> 's result" where
  "session_of c = (case h2_session c of None \<Rightarrow> Inl (Undefined ''no session'') | Some s \<Rightarrow> Inr s)"

definition http2_read :: "'s nghttp2 \<Rightarrow> config \<Rightarrow> int \<Rightarrow> buffer \<Rightarrow> 's conn \<Rightarrow> core \<Rightarrow> ('s conn \<times> core) result" where
  "http2_read ng cfg now b c k =
     bindR (session_of c) (\<lambda>s.
       let (evs, ret, s') = ng_mem_recv ng s (take (buf_filled b) (buf_data b)) in
       bindR (foldR (run_callback cfg now) evs (c, k)) (\<lambda>(c, k).
         if ret \<noteq> int (buf_filled b) then Inl (Fatal ''Failed to fully process received HTTP/2 data'')
         else Inr (c\<lparr>h2_session := Some s'\<rparr>, k)))"

section \<open>Sending\<close>

definition http2_want_write :: "'s nghttp2 \<Rightarrow> 's conn \<Rightarrow> bool" where
  "http2_want_write ng c \<longleftrightarrow> (case h2_session c of None \<Rightarrow> False | Some s \<Rightarrow> ng_want_write ng s)"

text \<open>The name/value array of the first \<open>n\<close> fields.\<close>

definition nva_of :: "header_field list \<Rightarrow> nat \<Rightarrow> nva result" where
  "nva_of hs n = foldR (\<lambda>i nv. bindR (vec_at hs i) (\<lambda>h.
     Inr (nv @ [(take (hf_name_len h) (hf_name h), take (hf_value_len h) (hf_value h))]))) [0..<n] []"

text \<open>
  What both read callbacks do with the data of a message: copy what fits, advance the read offset.
\<close>

definition read_chunk :: "nat \<Rightarrow> data_read \<Rightarrow> (byte list \<times> data_read) result" where
  "read_chunk len d =
     (if dr_offset d < dr_read_offset d then Inl (Undefined ''read offset behind the data'')
      else let n = min (dr_offset d - dr_read_offset d) len
           in Inr (take n (drop (dr_read_offset d) (dr_data d)), d\<lparr>dr_read_offset := dr_read_offset d + n\<rparr>))"

definition no_data :: read_result where
  "no_data = \<lparr>rr_bytes = [], rr_eof = True, rr_no_end_stream = False\<rparr>"

definition data_read_callback_request ::
    "int \<Rightarrow> 's conn \<Rightarrow> int \<Rightarrow> nat \<Rightarrow> nat \<Rightarrow> core \<Rightarrow> (read_result \<times> core) result" where
  "data_read_callback_request now c stream_id r len k =
     (let d = req_data (k_heap k r) in
      if dr_offset d = 0 then Inr (no_data, k)
      else bindR (read_chunk len d) (\<lambda>(bs, d').
        let k' = upd_msg r (\<lambda>m. m\<lparr>req_data := d'\<rparr>) k in
        if dr_read_offset d' = dr_offset d' then
          bindR (get_us_rpc (k_mapper k') (c_type c) stream_id (c_fd c)) (\<lambda>r'.
            Inr (\<lparr>rr_bytes = bs, rr_eof = True, rr_no_end_stream = False\<rparr>,
                 upd_msg r' (\<lambda>m. m\<lparr>req_for_time := now\<rparr>) k'))
        else Inr (\<lparr>rr_bytes = bs, rr_eof = False, rr_no_end_stream = False\<rparr>, k')))"

definition data_read_callback_response ::
    "'s nghttp2 \<Rightarrow> config \<Rightarrow> int \<Rightarrow> 's conn \<Rightarrow> int \<Rightarrow> nat \<Rightarrow> nat \<Rightarrow> 's \<Rightarrow> core \<Rightarrow> (read_result \<times> 's \<times> core) result" where
  "data_read_callback_response ng cfg now c stream_id r len s k =
     (let d = res_data (k_heap k r) in
      if dr_offset d = 0 then Inr (no_data, s, k)
      else bindR (read_chunk len d) (\<lambda>(bs, d').
        let k' = upd_msg r (\<lambda>m. m\<lparr>res_data := d'\<rparr>) k in
        if dr_read_offset d' = dr_offset d' then
          bindR (get_ds_rpc (k_mapper k') (c_type c) stream_id (c_fd c)) (\<lambda>r'.
          bindR (grpc_message k' r') (\<lambda>_.
            let m = k_heap k' r' in
            bindR (nva_of (res_trailers m) (res_trailer_count m)) (\<lambda>nv.
              let (ret, s') = ng_submit_trailer ng s (ds_stream_id m) nv in
              if ret \<noteq> 0 then Inl (Fatal ''Failed to submit HTTP/2 response trailers'')
              else
                bindR (report_latency (is_ingress cfg) m now (k_stats k')) (\<lambda>st.
                bindR (remove_rpc (k_heap k') (k_mapper k') (c_type c) 0 r') (\<lambda>(h, mp).
                  Inr (\<lparr>rr_bytes = bs, rr_eof = True, rr_no_end_stream = True\<rparr>, s',
                       k'\<lparr>k_heap := h, k_mapper := mp, k_stats := st\<rparr>))))))
        else Inr (\<lparr>rr_bytes = bs, rr_eof = False, rr_no_end_stream = False\<rparr>, s, k')))"

text \<open>One call of nghttp2_session_mem_send, with the callbacks it makes.\<close>

primrec run_send :: "'s nghttp2 \<Rightarrow> config \<Rightarrow> int \<Rightarrow> 's conn \<Rightarrow> 's send \<Rightarrow> core \<Rightarrow> (byte list \<times> 's \<times> core) result" where
  "run_send ng cfg now c (Sent bs s) k = Inr (bs, s, k)"
| "run_send ng cfg now c Send_Failed k = Inl (Fatal ''Failed to send HTTP/2 data'')"
| "run_send ng cfg now c (Read_Data s stream_id src len cont) k =
     (case src of
        Request_Data r \<Rightarrow>
          bindR (data_read_callback_request now c stream_id r len k) (\<lambda>(rr, k').
            run_send ng cfg now c (cont s rr) k')
      | Response_Data r \<Rightarrow>
          bindR (data_read_callback_response ng cfg now c stream_id r len s k) (\<lambda>(rr, s', k').
            run_send ng cfg now c (cont s' rr) k'))"

text \<open>
  http_write: \<open>Some bs\<close> in the first component is the BufferFullException with the bytes that did not fit.
\<close>

definition http2_write ::
    "'s nghttp2 \<Rightarrow> config \<Rightarrow> int \<Rightarrow> buffer \<Rightarrow> 's conn \<Rightarrow> core \<Rightarrow> (byte list option \<times> buffer \<times> 's conn \<times> core) result" where
  "http2_write ng cfg now b c k =
     bindR (session_of c) (\<lambda>s.
     bindR (run_send ng cfg now c (ng_mem_send ng s) k) (\<lambda>(bs, s', k').
       let c' = c\<lparr>h2_session := Some s'\<rparr> in
       if buf_filled b + length bs > buf_size b then Inr (Some bs, b, c', k')
       else bindR (set_filled (b\<lparr>buf_data := write_at (buf_data b) (buf_filled b) bs\<rparr>) (length bs + buf_filled b)) (\<lambda>b'.
         Inr (None, b', c', k'))))"

definition http2_submit_settings :: "'s nghttp2 \<Rightarrow> 's conn \<Rightarrow> 's conn result" where
  "http2_submit_settings ng c =
     bindR (session_of c) (\<lambda>s.
       let (ret, s') = ng_submit_settings ng s in
       if ret \<noteq> 0 then Inl (Fatal ''Failed to submit HTTP/2 settings'') else Inr (c\<lparr>h2_session := Some s'\<rparr>))"

definition http2_submit_request :: "'s nghttp2 \<Rightarrow> core \<Rightarrow> nat \<Rightarrow> 's conn \<Rightarrow> (int \<times> 's conn) result" where
  "http2_submit_request ng k r c =
     bindR (grpc_message k r) (\<lambda>_.
     bindR (nva_of (req_headers (k_heap k r)) (req_header_count (k_heap k r))) (\<lambda>nv.
     bindR (session_of c) (\<lambda>s.
       let (i, s') = ng_submit_request ng s nv (Request_Data r) in
       if i < 0 then Inl (Fatal ''Failed to submit HTTP/2 request'') else Inr (i, c\<lparr>h2_session := Some s'\<rparr>))))"

text \<open>The result of nghttp2_submit_response is ignored for a response, checked for an error response.\<close>

definition http2_submit_response :: "'s nghttp2 \<Rightarrow> core \<Rightarrow> nat \<Rightarrow> 's conn \<Rightarrow> 's conn result" where
  "http2_submit_response ng k r c =
     bindR (grpc_message k r) (\<lambda>_.
     bindR (nva_of (res_headers (k_heap k r)) (res_header_count (k_heap k r))) (\<lambda>nv.
     bindR (session_of c) (\<lambda>s.
       Inr (c\<lparr>h2_session := Some (snd (ng_submit_response ng s (ds_stream_id (k_heap k r)) nv (Some (Response_Data r))))\<rparr>))))"

definition http2_submit_error_response :: "'s nghttp2 \<Rightarrow> core \<Rightarrow> nat \<Rightarrow> 's conn \<Rightarrow> 's conn result" where
  "http2_submit_error_response ng k r c =
     bindR (grpc_message k r) (\<lambda>_.
     bindR (nva_of (res_headers (k_heap k r)) (res_header_count (k_heap k r))) (\<lambda>nv.
     bindR (session_of c) (\<lambda>s.
       let (ret, s') = ng_submit_response ng s (ds_stream_id (k_heap k r)) nv None in
       if ret \<noteq> 0 then Inl (Fatal ''Failed to submit HTTP/2 error response'') else Inr (c\<lparr>h2_session := Some s'\<rparr>))))"

text \<open>The constructors of HTTP2Connection create the session.\<close>

definition new_session :: "'s nghttp2 \<Rightarrow> conn_dir \<Rightarrow> 's result" where
  "new_session ng dir =
     (let (ret, s) = (case dir of UPSTREAM \<Rightarrow> ng_client_new ng | DOWNSTREAM \<Rightarrow> ng_server_new ng)
      in if ret \<noteq> 0 then Inl (Fatal ''nghttp2_session_new failed'') else Inr s)"

end
