(* ===== verification/World.thy ===== *)
theory World
  imports Http1 Http2 Ring Credit_Queue
begin

text \<open>
  Listeners (src/listener.cc) and the state of one sidecar thread: what class State (include/state.h) owns or
  refers to, with the connections in a store and the virtual methods of HTTPConnection as case distinctions.
  The record \<open>env\<close> holds what comes from outside during one handler: the functions of nghttp2, the build of
  the HTTP/1 parser, the bytes behind an empty header value, the time, and a bound for loops that depend on
  nghttp2.
\<close>

section \<open>Listeners\<close>

record listener =
  l_fd :: int
  l_port :: nat
  l_conns :: "(int \<times> nat) list"
  l_type :: conn_type

definition listener_add_connection ::
    "int \<Rightarrow> nat \<Rightarrow> 's conn result \<Rightarrow> listener \<Rightarrow> (nat \<times> 's conn option \<times> listener) result" where
  "listener_add_connection new_fd r conn l =
     bindR conn (\<lambda>c.
       case map_of (l_conns l) new_fd of
         Some r' \<Rightarrow> Inr (r', None, l)
       | None \<Rightarrow> Inr (r, Some c, l\<lparr>l_conns := AList.update new_fd r (l_conns l)\<rparr>))"

definition listener_get_connection :: "int \<Rightarrow> listener \<Rightarrow> nat result" where
  "listener_get_connection fd l =
     (case map_of (l_conns l) fd of None \<Rightarrow> Inl (Fatal ''Connection not found for fd'') | Some r \<Rightarrow> Inr r)"

definition listener_remove_connection :: "int \<Rightarrow> listener \<Rightarrow> listener" where
  "listener_remove_connection fd l = l\<lparr>l_conns := AList.delete fd (l_conns l)\<rparr>"

definition listener_no_connections :: "listener \<Rightarrow> bool" where
  "listener_no_connections l \<longleftrightarrow> l_conns l = []"

section \<open>The state of a thread\<close>

record 's env =
  e_ng :: "'s nghttp2"
  e_sse :: bool
  e_behind :: "byte list"
  e_now :: int
  e_fuel :: nat

record 's world =
  w_cfg :: config
  w_core :: core
  w_conns :: "nat \<Rightarrow> 's conn"
  w_next_ref :: nat
  w_ingress_pool :: conn_pool
  w_routes :: "(string \<times> conn_pool) list"
  w_ring :: ring
  w_bm :: buffer_manager
  w_sockfd :: int
  w_listeners :: "(conn_type \<times> listener) list"
  w_ppm :: ppm_queue
  w_ingress :: ingress
  w_cq :: "buffer credit_queue"
  w_in_local :: int
  w_drops :: nat
  w_last_rtt :: "int local_map"
  w_util :: utilization
  w_service :: string

definition upd_conn :: "nat \<Rightarrow> 's conn \<Rightarrow> 's world \<Rightarrow> 's world" where
  "upd_conn c x w = w\<lparr>w_conns := (w_conns w)(c := x)\<rparr>"

text \<open>A C++ exception that is caught only to abort.\<close>

definition abort_on_exception :: "string \<Rightarrow> 'a result \<Rightarrow> 'a result" where
  "abort_on_exception msg r =
     (case r of
        Inl OutOfRange \<Rightarrow> Inl (Fatal msg)
      | Inl (InvalidArgument _) \<Rightarrow> Inl (Fatal msg)
      | Inl (HTTPParse _) \<Rightarrow> Inl (Fatal msg)
      | Inl (NoConnection _) \<Rightarrow> Inl (Fatal msg)
      | Inl BadOptional \<Rightarrow> Inl (Fatal msg)
      | _ \<Rightarrow> r)"

lemma abort_on_exception_Inr [simp]: "abort_on_exception msg r = Inr x \<longleftrightarrow> r = Inr x"
  by (auto simp: abort_on_exception_def split: sum.splits error.splits)

section \<open>Handing buffers to the ring\<close>

text \<open>\<open>get_user_data\<close> for an operation of the ring, which fills the object it names.\<close>

definition with_user_data ::
    "(user_data \<Rightarrow> ring \<Rightarrow> (user_data \<times> ring) result) \<Rightarrow> 's world \<Rightarrow> 's world result" where
  "with_user_data prep w =
     bindR (get_user_data (w_bm w)) (\<lambda>(i, bm).
     bindR (prep (bm_user_data bm i) (w_ring w)) (\<lambda>(ud, rg).
       Inr (w\<lparr>w_ring := rg, w_bm := bm\<lparr>bm_user_data := (bm_user_data bm)(i := ud)\<rparr>\<rparr>)))"

definition send_stream :: "nat \<Rightarrow> buffer \<Rightarrow> 's world \<Rightarrow> 's world result" where
  "send_stream c b w = with_user_data (prepare_write (c_fd (w_conns w c)) c b) w"

definition send_datagram :: "buffer \<Rightarrow> 's world \<Rightarrow> 's world result" where
  "send_datagram b w = with_user_data (ring_prepare_sendmsg (w_sockfd w) b) w"

definition take_buffer :: "'s world \<Rightarrow> (buffer \<times> 's world) result" where
  "take_buffer w = bindR (get_buffer (w_bm w)) (\<lambda>(b, bm). Inr (b, w\<lparr>w_bm := bm\<rparr>))"

definition take_udp_buffer :: "'s world \<Rightarrow> (buffer \<times> 's world) result" where
  "take_udp_buffer w = bindR (get_udp_buffer (w_bm w)) (\<lambda>(b, bm). Inr (b, w\<lparr>w_bm := bm\<rparr>))"

definition give_back_buffer :: "buffer \<Rightarrow> 's world \<Rightarrow> 's world result" where
  "give_back_buffer b w = bindR (free_buffer (Some b) (w_bm w)) (\<lambda>bm. Inr (w\<lparr>w_bm := bm\<rparr>))"

section \<open>The virtual methods\<close>

definition want_write :: "'s env \<Rightarrow> 's conn \<Rightarrow> bool" where
  "want_write e c = (case c_http c of HTTP1 \<Rightarrow> http1_want_write c | HTTP2 \<Rightarrow> http2_want_write (e_ng e) c)"

definition http_read :: "'s env \<Rightarrow> buffer \<Rightarrow> nat \<Rightarrow> 's world \<Rightarrow> 's world result" where
  "http_read e b c w =
     (case c_http (w_conns w c) of
        HTTP1 \<Rightarrow>
          bindR (http1_read (e_sse e) (w_cfg w) (e_now e) (e_behind e) b (w_conns w c) (w_ingress w) (w_core w))
            (\<lambda>(x, ig, k). Inr ((upd_conn c x w)\<lparr>w_ingress := ig, w_core := k\<rparr>))
      | HTTP2 \<Rightarrow>
          bindR (http2_read (e_ng e) (w_cfg w) (e_now e) b (w_conns w c) (w_core w))
            (\<lambda>(x, k). Inr ((upd_conn c x w)\<lparr>w_core := k\<rparr>)))"

definition submit_settings :: "'s env \<Rightarrow> nat \<Rightarrow> 's world \<Rightarrow> 's world result" where
  "submit_settings e c w =
     (case c_http (w_conns w c) of
        HTTP1 \<Rightarrow> Inr w
      | HTTP2 \<Rightarrow> bindR (http2_submit_settings (e_ng e) (w_conns w c)) (\<lambda>x. Inr (upd_conn c x w)))"

definition submit_request :: "'s env \<Rightarrow> nat \<Rightarrow> nat \<Rightarrow> 's world \<Rightarrow> (int \<times> 's world) result" where
  "submit_request e c r w =
     bindR (case c_http (w_conns w c) of
              HTTP1 \<Rightarrow> http1_submit_request (w_core w) r (w_conns w c)
            | HTTP2 \<Rightarrow> http2_submit_request (e_ng e) (w_core w) r (w_conns w c)) (\<lambda>(i, x). Inr (i, upd_conn c x w))"

definition submit_response :: "'s env \<Rightarrow> nat \<Rightarrow> nat \<Rightarrow> 's world \<Rightarrow> 's world result" where
  "submit_response e c r w =
     bindR (case c_http (w_conns w c) of
              HTTP1 \<Rightarrow> http1_submit_response (w_core w) r (w_conns w c)
            | HTTP2 \<Rightarrow> http2_submit_response (e_ng e) (w_core w) r (w_conns w c)) (\<lambda>x. Inr (upd_conn c x w))"

definition submit_error_response :: "'s env \<Rightarrow> nat \<Rightarrow> nat \<Rightarrow> 's world \<Rightarrow> 's world result" where
  "submit_error_response e c r w =
     bindR (case c_http (w_conns w c) of
              HTTP1 \<Rightarrow> http1_submit_error_response (w_core w) r (w_conns w c)
            | HTTP2 \<Rightarrow> http2_submit_error_response (e_ng e) (w_core w) r (w_conns w c)) (\<lambda>x. Inr (upd_conn c x w))"

end
