(* ===== verification/Service_Limits.thy ===== *)
theory Service_Limits
  imports Stats Credit_Queue
begin

text \<open>
  How protocol_server sets the concurrency limits of the credit queue from measured times (State::
  cal_local_service_time, get_theo_term and update_limits in src/state.cc). The measured
  times are real numbers; a division by zero, a value outside int32_t, which make the conversion undefined, and
  the overflows of int32_t are written out.
\<close>

text \<open>MAXFLOAT\<close>

definition max_float :: real where
  "max_float = (2 - 1 / 2 ^ 23) * 2 ^ 127"

text \<open>The time spent waiting for a downstream service, queueing included.\<close>

definition downstream_time :: "stats \<Rightarrow> string \<Rightarrow> real result" where
  "downstream_time st ds =
     bindR (lm_get (ema_ds_service_time_us st) ds) (\<lambda>a.
     bindR (lm_get (ema_wait_to_tx_us st) ds) (\<lambda>b. Inr (ema_value a + ema_value b)))"

definition cal_local_service_time :: "config \<Rightarrow> stats \<Rightarrow> string \<Rightarrow> real result" where
  "cal_local_service_time cfg st us_service =
     (case map_of (mapping cfg) us_service of
        None \<Rightarrow> Inl (Fatal ''service should be in mapping'')
      | Some info \<Rightarrow>
          bindR (lm_get (ema_us_service_time_us st) us_service) (\<lambda>us.
            if value_or (mi_pfanout info) False then
              bindR (foldR (\<lambda>ds m. bindR (downstream_time st ds) (\<lambda>v. Inr (if v > m then v else m))) (mi_downstreams info) 0)
                (\<lambda>m. Inr (ema_value us - m))
            else if value_or (mi_dfanout info) False then
              bindR (foldR (\<lambda>ds m. bindR (downstream_time st ds) (\<lambda>v. Inr (if v < m then v else m))) (mi_downstreams info) max_float)
                (\<lambda>m. Inr (ema_value us - m))
            else
              bindR (foldR (\<lambda>ds s. bindR (downstream_time st ds) (\<lambda>v. Inr (s + v))) (mi_downstreams info) 0)
                (\<lambda>s. Inr (ema_value us - s))))"

definition by_index :: "'v local_map \<Rightarrow> nat \<Rightarrow> 'v" where
  "by_index m i = slot_value (lm_slots m ! i)"

definition get_theo_term :: "stats \<Rightarrow> string \<Rightarrow> bool \<Rightarrow> real result" where
  "get_theo_term st service sequential =
     bindR (lm_get (ema_us_sidecar_rtt_us st) service) (\<lambda>us.
       let rtts = ema_ds_sidecar_rtt_us st in
       if sequential
       then Inr (for_each_occupied_index (\<lambda>i t. t + ema_value (by_index rtts i)) rtts (ema_value us))
       else Inr (ema_value us + for_each_occupied_index (\<lambda>i m. let v = ema_value (by_index rtts i) in if v > m then v else m) rtts 0))"

text \<open>\<open>(int32_t)std::ceil(a / b)\<close>\<close>

definition ceil_quotient :: "real \<Rightarrow> real \<Rightarrow> int result" where
  "ceil_quotient a b = float_to_int32 (flt_ceil (flt_div (Finite a) (Finite b)))"

text \<open>
  The arithmetic of int32_t has no meaning on overflow; the number of downstream services is a size_t, so this
  sum is computed in size_t and converted back, which wraps.
\<close>

definition endpoint_limit :: "config \<Rightarrow> mapping_info \<Rightarrow> real \<Rightarrow> real \<Rightarrow> int result" where
  "endpoint_limit cfg info theo_term local_rt =
     bindR (ceil_quotient theo_term local_rt) (\<lambda>q.
     bindR (as_int32 (max q 1 + 1)) (\<lambda>factor.
     bindR (opt_value (cpu_count cfg)) (\<lambda>cpus.
     bindR (as_int32 (factor * cpus)) (\<lambda>limit.
       let limit = (if value_or (mi_dfanout info) False then limit
                    else to_int32 (limit + int (length (mi_downstreams info))))
       in as_int32 (limit + extra_limit cfg)))))"

text \<open>The global limit of a leaf service.\<close>

definition sum_and_max :: "config \<Rightarrow> 'b credit_queue \<Rightarrow> (int \<times> int) result" where
  "sum_and_max cfg cq = foldR (\<lambda>(s, _) (sum, mx). bindR (cq_get_per_endpoint_limit cq s) (\<lambda>limit.
     bindR (as_int32 (sum + limit)) (\<lambda>sum. Inr (sum, if limit > mx then limit else mx)))) (mapping cfg) (0, 0)"

definition refresh_global_limit :: "config \<Rightarrow> 'b credit_queue \<Rightarrow> 'b credit_queue result" where
  "refresh_global_limit cfg cq =
     (if length (routing cfg) = 0 then
        bindR (sum_and_max cfg cq) (\<lambda>(sum_limits, max_limit).
        bindR (as_int32 (sum_limits - max_limit)) (\<lambda>rest.
        bindR (opt_value (over_commitment cfg)) (\<lambda>oc.
        bindR (float_to_int32 (flt_mult (Finite (of_int rest)) oc)) (\<lambda>extra.
        bindR (as_int32 (max_limit + extra)) (\<lambda>limit.
          Inr (cq_update_global_limit cq limit))))))
      else Inr cq)"

definition update_limits :: "config \<Rightarrow> int \<Rightarrow> string \<Rightarrow> stats \<Rightarrow> 'b credit_queue \<Rightarrow> (stats \<times> 'b credit_queue) result" where
  "update_limits cfg rtt service st cq =
     bindR (lm_update (ema_us_sidecar_rtt_us st) service (ema_update rtt)) (\<lambda>rtts.
       let st = st\<lparr>ema_us_sidecar_rtt_us := rtts\<rparr> in
       bindR (lm_get rtts service) (\<lambda>e.
         if ema_count e mod 2000 \<noteq> 0 then Inr (st, cq)
         else
           bindR (cal_local_service_time cfg st service) (\<lambda>local_rt.
           case map_of (mapping cfg) service of
             None \<Rightarrow> Inl (Fatal ''service not found in config.mapping'')
           | Some info \<Rightarrow>
               let sequential = (\<not> value_or (mi_pfanout info) False \<and> \<not> value_or (mi_dfanout info) False) in
               bindR (get_theo_term st service sequential) (\<lambda>theo_term.
               bindR (endpoint_limit cfg info theo_term local_rt) (\<lambda>new_limit.
               bindR (cq_update_endpoint_limit cq new_limit service) (\<lambda>cq.
               bindR (refresh_global_limit cfg cq) (\<lambda>cq. Inr (st, cq))))))))"

end
