(* ===== verification/State.thy ===== *)
theory State
  imports World Service_Limits
begin

text \<open>
  The handlers of class State (src/state.cc): routing and forwarding requests and responses, and both sides
  of the credit protocol. Each definition takes the environment of the handler and the state of the thread.
\<close>

section \<open>Routes\<close>

text \<open>UpstreamRouteMapper: the key under which the pool of a service is found.\<close>

definition route_key :: "(string \<times> conn_pool) list \<Rightarrow> string \<Rightarrow> string result" where
  "route_key routes service =
     (if map_of routes service \<noteq> None then Inr service
      else if map_of routes ''*'' \<noteq> None then Inr ''*''
      else Inl (Fatal ''Service not found in routing table''))"

definition get_pool :: "(string \<times> conn_pool) list \<Rightarrow> string \<Rightarrow> conn_pool result" where
  "get_pool routes service = bindR (route_key routes service) (\<lambda>key. map_at (map_of routes) key)"

definition add_route :: "string \<Rightarrow> (string \<times> conn_pool) list \<Rightarrow> (string \<times> conn_pool) list" where
  "add_route service routes =
     (if map_of routes service = None then AList.update service (pool_new EGRESS) routes else routes)"

section \<open>Writing to connections\<close>

text \<open>The bytes of a BufferFullException go to the start of a new buffer.\<close>

definition refill_buffer :: "byte list \<Rightarrow> buffer \<Rightarrow> buffer result" where
  "refill_buffer bs b =
     (if length bs > buf_size b - buf_filled b then Inl (Fatal ''Buffer too small for a single write'')
      else set_filled (b\<lparr>buf_data := write_at (buf_data b) (buf_filled b) bs\<rparr>) (buf_filled b + length bs))"

text \<open>
  The loop for HTTP/2. The first component of the result is send_buffer, the second write_flag.
\<close>

fun write_http2_loop ::
    "'s env \<Rightarrow> nat \<Rightarrow> nat \<Rightarrow> buffer option \<Rightarrow> bool \<Rightarrow> 's world \<Rightarrow> (buffer option \<times> bool \<times> 's world) result" where
  "write_http2_loop e 0 c sb flag w = Inl (Undefined ''out of fuel'')"
| "write_http2_loop e (Suc n) c sb flag w =
     (if \<not> want_write e (w_conns w c) then Inr (sb, flag, w)
      else
        bindR (case sb of None \<Rightarrow> take_buffer w | Some b \<Rightarrow> Inr (b, w)) (\<lambda>(b, w).
        bindR (http2_write (e_ng e) (w_cfg w) (e_now e) b (w_conns w c) (w_core w)) (\<lambda>(full, b, x, k).
          let w = (upd_conn c x w)\<lparr>w_core := k\<rparr> in
          bindR (case full of
                   None \<Rightarrow> Inr (b, w)
                 | Some bs \<Rightarrow>
                     bindR (send_stream c b w) (\<lambda>w.
                     bindR (take_buffer w) (\<lambda>(b, w).
                     bindR (refill_buffer bs b) (\<lambda>b. Inr (b, w))))) (\<lambda>(b, w).
            if buf_filled b = 0 then bindR (give_back_buffer b w) (\<lambda>w. Inr (None, flag, w))
            else write_http2_loop e n c (Some b) True w))))"

definition write_http2 :: "'s env \<Rightarrow> nat \<Rightarrow> 's world \<Rightarrow> 's world result" where
  "write_http2 e c w =
     bindR (write_http2_loop e (e_fuel e) c None False w) (\<lambda>(sb, flag, w).
       if flag then
         case sb of
           None \<Rightarrow> Inl (Undefined ''write of a null buffer'')
         | Some b \<Rightarrow> send_stream c b w
       else Inr w)"

fun write_http1_loop :: "'s env \<Rightarrow> nat \<Rightarrow> nat \<Rightarrow> 's world \<Rightarrow> 's world result" where
  "write_http1_loop e 0 c w = Inl (Undefined ''out of fuel'')"
| "write_http1_loop e (Suc n) c w =
     (if \<not> want_write e (w_conns w c) then Inr w
      else
        bindR (take_buffer w) (\<lambda>(b, w).
        bindR (http1_write (w_cfg w) (e_now e) b (w_conns w c) (w_core w)) (\<lambda>(b, _, x, k).
          let w = (upd_conn c x w)\<lparr>w_core := k\<rparr> in
          if buf_filled b = 0 then give_back_buffer b w
          else bindR (send_stream c b w) (write_http1_loop e n c))))"

definition write_http :: "'s env \<Rightarrow> nat \<Rightarrow> 's world \<Rightarrow> 's world result" where
  "write_http e c w =
     (if \<not> want_write e (w_conns w c) then Inr w
      else case c_http (w_conns w c) of
        HTTP2 \<Rightarrow> write_http2 e c w
      | HTTP1 \<Rightarrow> write_http1_loop e (e_fuel e) c w)"

section \<open>Requests\<close>

text \<open>
  route_request: \<open>None\<close> is the null connection of a route that is down. An exception of the pool ends the
  program here, so what it leaves in the pool is not looked at again.
\<close>

definition choose_connection :: "conn_type \<Rightarrow> string \<Rightarrow> 's world \<Rightarrow> (nat \<times> 's world) result" where
  "choose_connection type service w =
     (let avail = (\<lambda>c. available (w_conns w c)) in
      case type of
        INGRESS \<Rightarrow> (let (res, p) = get_any_connection avail (w_ingress_pool w) in bindR res (\<lambda>c. Inr (c, w\<lparr>w_ingress_pool := p\<rparr>)))
      | EGRESS \<Rightarrow>
          bindR (route_key (w_routes w) service) (\<lambda>key.
          bindR (map_at (map_of (w_routes w)) key) (\<lambda>pool.
          let (res, p) = get_any_connection avail pool
          in bindR res (\<lambda>c. Inr (c, w\<lparr>w_routes := AList.update key p (w_routes w)\<rparr>)))))"

definition route_request :: "conn_type \<Rightarrow> int \<Rightarrow> int \<Rightarrow> 's world \<Rightarrow> (nat option \<times> 's world) result" where
  "route_request type stream_id fd w =
     bindR (get_ds_rpc (k_mapper (w_core w)) type stream_id fd) (\<lambda>r.
       let m = k_heap (w_core w) r in
       bindR (abort_on_exception ''Error in routing'' (choose_connection type (m_service m) w)) (\<lambda>(c, w).
         case c_status (w_conns w c) of
           TEARDOWN \<Rightarrow> Inl (Fatal ''No connection available for routing request'')
         | DOWN \<Rightarrow>
             Inr (None, w\<lparr>w_core := (w_core w)\<lparr>k_rq := rq_enqueue (k_rq (w_core w)) type DOWNSTREAM (ds_fd m) (ds_stream_id m)\<rparr>\<rparr>)
         | UP \<Rightarrow>
             Inr (Some c, w\<lparr>w_core := upd_msg r (\<lambda>m. m\<lparr>us_fd := c_fd (w_conns w c)\<rparr>) (w_core w)\<rparr>)))"

text \<open>The message checks of forward_request after the submission.\<close>

definition check_request_ids :: "config \<Rightarrow> rpc_message \<Rightarrow> unit result" where
  "check_request_ids cfg m =
     (if local_id m = -1 \<and> \<not> is_plain_frontend cfg then Inl (Fatal ''Request has no ID'')
      else if m_priority m = -1 \<and> \<not> is_plain_frontend cfg then Inl (Fatal ''Request has no priority'')
      else Inr ())"

definition forward_request :: "'s env \<Rightarrow> nat option \<Rightarrow> nat \<Rightarrow> 's world \<Rightarrow> 's world result" where
  "forward_request e conn r w =
     (case conn of
        None \<Rightarrow> Inl (Undefined ''null connection'')
      | Some c \<Rightarrow> abort_on_exception ''Error in forwarding request''
          (bindR (if c_type (w_conns w c) = INGRESS then
                    bindR (set_local_id_header (is_ingress (w_cfg w)) (k_ctr (w_core w)) (k_heap (w_core w) r)) (\<lambda>(ctr, m).
                      Inr (w\<lparr>w_core := (w_core w)\<lparr>k_ctr := ctr, k_heap := (k_heap (w_core w))(r := m)\<rparr>\<rparr>))
                  else Inr w) (\<lambda>w.
           bindR (submit_request e c r w) (\<lambda>(i, w).
             let w = w\<lparr>w_core := upd_msg r (\<lambda>m. m\<lparr>us_stream_id := i\<rparr>) (w_core w)\<rparr>; m = k_heap (w_core w) r in
             bindR (check_request_ids (w_cfg w) m) (\<lambda>_.
             bindR (mapper_route (k_heap (w_core w)) (k_mapper (w_core w)) (c_type (w_conns w c)) (ds_stream_id m) (ds_fd m)
                      (us_stream_id m) (c_fd (w_conns w c))) (\<lambda>mp.
               write_http e c (w\<lparr>w_core := (w_core w)\<lparr>k_mapper := mp\<rparr>\<rparr>)))))))"

text \<open>
  send_sub_request: the result of route_request is ignored; the connection is looked up by the descriptor
  that the message has.
\<close>

definition send_sub_request :: "'s env \<Rightarrow> nat \<Rightarrow> 's world \<Rightarrow> 's world result" where
  "send_sub_request e r w =
     (let m = k_heap (w_core w) r in
      bindR (route_request EGRESS (ds_stream_id m) (ds_fd m) w) (\<lambda>(_, w).
      bindR (get_pool (w_routes w) (m_service (k_heap (w_core w) r))) (\<lambda>pool.
      bindR (pool_get_connection pool (us_fd (k_heap (w_core w) r))) (\<lambda>c.
      bindR (forward_request e (Some c) r w) (\<lambda>w.
        let m = k_heap (w_core w) r; st = k_stats (w_core w); wd = to_int32 (e_now e - req_rcv_time m) in
        bindR (lm_update (ema_wait_to_tx_us st) (m_service m) (ema_update wd)) (\<lambda>waits.
        bindR (lm_update (time_mean_ds_concurrency st) (m_service m) (tw_up (e_now e))) (\<lambda>conc.
          Inr (w\<lparr>w_core := (w_core w)\<lparr>k_stats := st\<lparr>ema_wait_to_tx_us := waits, time_mean_ds_concurrency := conc\<rparr>\<rparr>\<rparr>))))))))"

section \<open>Credits of the server side\<close>

definition check_credit_transmission :: "'s env \<Rightarrow> 's world \<Rightarrow> 's world result" where
  "check_credit_transmission e w =
     bindR (cq_pop (w_cq w)) (\<lambda>(mb, cq).
       let w = w\<lparr>w_cq := cq\<rparr> in
       case mb of
         None \<Rightarrow> Inr w
       | Some b \<Rightarrow> bindR (stamp_queuing_time (e_now e) b) (\<lambda>b. send_datagram b w))"

definition update_world_limits :: "int \<Rightarrow> string \<Rightarrow> 's world \<Rightarrow> 's world result" where
  "update_world_limits rtt service w =
     bindR (update_limits (w_cfg w) rtt service (k_stats (w_core w)) (w_cq w)) (\<lambda>(st, cq).
       Inr (w\<lparr>w_core := (w_core w)\<lparr>k_stats := st\<rparr>, w_cq := cq\<rparr>))"

definition decrement_and_check :: "'s env \<Rightarrow> string \<Rightarrow> 's world \<Rightarrow> 's world result" where
  "decrement_and_check e service w =
     bindR (cq_decrement_in_flight (w_cq w) service) (\<lambda>cq. check_credit_transmission e (w\<lparr>w_cq := cq\<rparr>))"

definition protocol_server :: "'s env \<Rightarrow> buffer \<Rightarrow> 's world \<Rightarrow> 's world result" where
  "protocol_server e req w =
     (if buf_data req ! 1 = 1 then
        bindR (parse_credit_request (buf_data req)) (\<lambda>(service, _, priority, rtt).
        bindR (update_world_limits rtt service w) (\<lambda>w.
        bindR (take_udp_buffer w) (\<lambda>(resp, w).
        bindR (write_failed_dn_response req resp) (\<lambda>resp.
        bindR (cq_push (w_cq w) (resp\<lparr>enter_queue_ts := e_now e\<rparr>) service priority) (\<lambda>cq.
          check_credit_transmission e (w\<lparr>w_cq := cq\<rparr>))))))
      else if buf_data req ! 1 = 2 then
        bindR (extract_service_from_rlp_req (buf_data req)) (\<lambda>service. decrement_and_check e service w)
      else Inl (Fatal ''Unknown message type''))"

section \<open>Credits of the client side\<close>

definition w_msg :: "'s world \<Rightarrow> nat \<Rightarrow> rpc_message" where
  "w_msg w r = k_heap (w_core w) r"

definition upd_w_msg :: "nat \<Rightarrow> (rpc_message \<Rightarrow> rpc_message) \<Rightarrow> 's world \<Rightarrow> 's world" where
  "upd_w_msg r f w = w\<lparr>w_core := upd_msg r f (w_core w)\<rparr>"

definition prepare_credit_return :: "buffer \<Rightarrow> 's world \<Rightarrow> (buffer \<times> 's world) result" where
  "prepare_credit_return grant w =
     bindR (take_udp_buffer w) (\<lambda>(b, w). bindR (write_credit_return grant b) (\<lambda>b. Inr (b, w)))"

definition send_credit_request :: "'s env \<Rightarrow> sockaddr \<Rightarrow> string \<Rightarrow> int \<Rightarrow> int \<Rightarrow> int \<Rightarrow> 's world \<Rightarrow> 's world result" where
  "send_credit_request e addr service num_credits i priority w =
     bindR (take_udp_buffer w) (\<lambda>(b, w).
     bindR (lm_get (w_last_rtt w) service) (\<lambda>last_rtt.
     bindR (write_credit_request b service num_credits i priority (e_now e) last_rtt) (\<lambda>b.
       with_user_data (\<lambda>ud. prepare_sendmsg_with_serveraddr (w_sockfd w) b ud addr) w)))"

text \<open>
  Everything credit_post_process checks in a Credit Grant and the two measurements it updates; the second
  component of the C++ tuple is always true.
\<close>

definition credit_post_process :: "'s env \<Rightarrow> buffer \<Rightarrow> 's world \<Rightarrow> ((string \<times> nat \<times> int) \<times> 's world) result" where
  "credit_post_process e buf w =
     (let d = buf_data buf in
      bindR (extract_service_from_rlp_req d) (\<lambda>key.
      bindR (if is_ingress (w_cfg w) then Inr (w_service w) else ppm_check (w_ppm w) key) (\<lambda>service.
        let (i, timestamp, queueing_time, requested, granted) = parse_credit_grant d;
            total = to_int32 (e_now e - timestamp); st = k_stats (w_core w)
        in bindR (as_int32 (total - queueing_time)) (\<lambda>rtt.
           if \<not> rtt > 0 then Inl (Fatal ''Invalid RTT'')
           else
             bindR (lm_set (w_last_rtt w) service rtt) (\<lambda>last.
             bindR (lm_update (ema_ds_sidecar_rtt_us st) service (ema_update rtt)) (\<lambda>rtts.
               if requested - granted \<noteq> 0 then Inl (Fatal ''Missmatch between credits requested'')
               else if granted = 0 then Inl (Fatal ''Receiving 0 credits is not allowed.'')
               else if is_ingress (w_cfg w) \<and> w_service w \<noteq> key then Inl (Fatal ''Received credits for a wrong service in ingress'')
               else Inr ((service, size_t_of granted, i),
                         w\<lparr>w_last_rtt := last, w_core := (w_core w)\<lparr>k_stats := st\<lparr>ema_ds_sidecar_rtt_us := rtts\<rparr>\<rparr>\<rparr>)))))))"

text \<open>The queued credit returns of a request, sent in order.\<close>

definition flush_credit_returns :: "nat \<Rightarrow> 's world \<Rightarrow> 's world result" where
  "flush_credit_returns ing w =
     foldR send_datagram (credit_return_queue (w_msg w ing)) (upd_w_msg ing (\<lambda>m. m\<lparr>credit_return_queue := []\<rparr>) w)"

definition pop_and_send :: "'s env \<Rightarrow> string \<Rightarrow> int \<Rightarrow> 's world \<Rightarrow> 's world result" where
  "pop_and_send e service i w =
     bindR (ppm_pop (w_ppm w) service i) (\<lambda>(r, ppm). send_sub_request e r (w\<lparr>w_ppm := ppm\<rparr>))"

text \<open>
  fanout_req_management. The flag of the inner result tells whether the request leaves the local service
  (the early returns are False). The service behind dfanout_service is that of the message it refers to.
\<close>

definition fanout_branch ::
    "'s env \<Rightarrow> mapping_info \<Rightarrow> nat \<Rightarrow> int \<Rightarrow> string \<Rightarrow> buffer \<Rightarrow> 's world \<Rightarrow> (bool \<times> 's world) result" where
  "fanout_branch e info ing i service grant w =
     (let branches = length (mi_downstreams info) in
      if value_or (mi_pfanout info) False then
        let w = upd_w_msg ing (\<lambda>m. m\<lparr>pfanout_req := pfanout_req m + 1\<rparr>) w in
        bindR (pop_and_send e service i w) (\<lambda>w. Inr (unat (pfanout_req (w_msg w ing)) = branches, w))
      else if value_or (mi_dfanout info) False then
        let w = upd_w_msg ing (\<lambda>m. m\<lparr>pfanout_req := pfanout_req m + 1\<rparr>) w in
        case dfanout_service (w_msg w ing) of
          None \<Rightarrow> Inl (Undefined ''null dfanout_service'')
        | Some d \<Rightarrow>
            bindR (if m_service (w_msg w d) \<noteq> service then
                     bindR (prepare_credit_return grant w) (\<lambda>(b, w).
                       Inr (upd_w_msg ing (\<lambda>m. m\<lparr>credit_return_queue := credit_return_queue m @ [b]\<rparr>) w))
                   else Inr w) (\<lambda>w.
              if unat (pfanout_req (w_msg w ing)) \<noteq> branches then Inr (False, w)
              else bindR (pop_and_send e (m_service (w_msg w d)) i w) (\<lambda>w.
                   bindR (flush_credit_returns ing w) (\<lambda>w. Inr (True, w))))
      else bindR (pop_and_send e service i w) (\<lambda>w. Inr (True, w)))"

definition fanout_req_management :: "'s env \<Rightarrow> int \<Rightarrow> string \<Rightarrow> buffer \<Rightarrow> 's world \<Rightarrow> 's world result" where
  "fanout_req_management e i service grant w =
     bindR (get_ingress_rpc (k_mapper (w_core w)) i) (\<lambda>ing.
     bindR (map_at (map_of (mapping (w_cfg w))) (m_service (w_msg w ing))) (\<lambda>info.
     bindR (fanout_branch e info ing i service grant w) (\<lambda>(leaves, w).
       if leaves then decrement_and_check e (m_service (w_msg w ing)) w else Inr w)))"

definition fanout_res_credit_management :: "int \<Rightarrow> 's world \<Rightarrow> 's world result" where
  "fanout_res_credit_management i w =
     bindR (get_ingress_rpc (k_mapper (w_core w)) i) (\<lambda>ing.
     bindR (map_at (map_of (mapping (w_cfg w))) (m_service (w_msg w ing))) (\<lambda>info.
       let pfanout = value_or (mi_pfanout info) False;
           w = (if pfanout then upd_w_msg ing (\<lambda>m. m\<lparr>pfanout_res := pfanout_res m + 1\<rparr>) w else w)
       in if pfanout \<and> pfanout_res (w_msg w ing) > 1 then Inr w
          else bindR (cq_increment_in_flight (w_cq w) (m_service (w_msg w ing))) (\<lambda>cq. Inr (w\<lparr>w_cq := cq\<rparr>))))"

text \<open>One queued request asks for its credit: from its service, or from all services of a dynamic fan-out.\<close>

definition credit_request_to :: "'s env \<Rightarrow> nat \<Rightarrow> string \<Rightarrow> 's world \<Rightarrow> 's world result" where
  "credit_request_to e r service w =
     bindR (get_pool (w_routes w) service) (\<lambda>pool.
     bindR (pool_get_addr pool) (\<lambda>addr.
       send_credit_request e addr service 1 (local_id (w_msg w r)) (m_priority (w_msg w r)) w))"

definition admit_request :: "'s env \<Rightarrow> 's world \<Rightarrow> 's world result" where
  "admit_request e w =
     bindR (rq_dequeue (k_rq (w_core w)) EGRESS DOWNSTREAM) (\<lambda>((fd, stream_id), q).
       let w = w\<lparr>w_core := (w_core w)\<lparr>k_rq := q\<rparr>\<rparr> in
       bindR (get_ds_rpc (k_mapper (w_core w)) EGRESS stream_id fd) (\<lambda>r.
       bindR (ppm_push (k_heap (w_core w)) (w_ppm w) r) (\<lambda>ppm.
         let w = w\<lparr>w_ppm := ppm\<rparr> in
         if is_ingress (w_cfg w) then credit_request_to e r (m_service (w_msg w r)) w
         else
           bindR (get_ingress_rpc (k_mapper (w_core w)) (local_id (w_msg w r))) (\<lambda>ing.
           bindR (map_at (map_of (mapping (w_cfg w))) (m_service (w_msg w ing))) (\<lambda>info.
             if value_or (mi_dfanout info) False then
               foldR (credit_request_to e r) (mi_downstreams info) (upd_w_msg ing (\<lambda>m. m\<lparr>dfanout_service := Some r\<rparr>) w)
             else credit_request_to e r (m_service (w_msg w r)) w)))))"

fun repeatR :: "nat \<Rightarrow> ('a \<Rightarrow> 'e + 'a) \<Rightarrow> 'a \<Rightarrow> 'e + 'a" where
  "repeatR 0 f s = Inr s"
| "repeatR (Suc n) f s = bindR (f s) (repeatR n f)"

definition protocol_client_grant :: "'s env \<Rightarrow> buffer \<Rightarrow> 's world \<Rightarrow> 's world result" where
  "protocol_client_grant e grant w =
     bindR (credit_post_process e grant w) (\<lambda>((service, n, i), w).
       repeatR n (\<lambda>w. if \<not> is_ingress (w_cfg w) then fanout_req_management e i service grant w
                      else Inl (Fatal ''Ingress should not use protocol_client for sending requests post credit'')) w)"

definition protocol_client_requests :: "'s env \<Rightarrow> 's world \<Rightarrow> 's world result" where
  "protocol_client_requests e w = repeatR (rq_size (k_rq (w_core w)) EGRESS DOWNSTREAM) (admit_request e) w"

section \<open>Forwarding\<close>

text \<open>A request that arrived for the local service (INGRESS, DOWNSTREAM).\<close>

definition update_utilization :: "'s env \<Rightarrow> string \<Rightarrow> int \<Rightarrow> 's world \<Rightarrow> 's world result" where
  "update_utilization e service delta w =
     (let n = w_in_local w + delta in
      bindR (ut_update (nat (n mod 2 ^ 32)) service (e_now e) (w_util w)) (\<lambda>u.
        Inr (w\<lparr>w_in_local := n, w_util := u\<rparr>)))"

definition forward_one_request :: "'s env \<Rightarrow> conn_type \<Rightarrow> int \<Rightarrow> int \<Rightarrow> 's world \<Rightarrow> 's world result" where
  "forward_one_request e type fd stream_id w =
     bindR (route_request type stream_id fd w) (\<lambda>(conn, w).
     bindR (get_ds_rpc (k_mapper (w_core w)) type stream_id fd) (\<lambda>r.
     bindR (forward_request e conn r w) (\<lambda>w.
       if is_ingress (w_cfg w) then Inr w else update_utilization e (m_service (w_msg w r)) 1 w)))"

text \<open>What a response changes before it is submitted. A drop only counts.\<close>

definition response_accounting :: "'s env \<Rightarrow> conn_type \<Rightarrow> nat \<Rightarrow> 's world \<Rightarrow> 's world result" where
  "response_accounting e type r w =
     (let m = w_msg w r in
      if is_drop m then Inr (w\<lparr>w_drops := (w_drops w + 1) mod 2 ^ 32\<rparr>)
      else if local_id m = -1 \<and> \<not> is_plain_frontend (w_cfg w) then Inl (Fatal ''Response has no ID'')
      else case type of
        EGRESS \<Rightarrow>
          bindR (if is_ingress (w_cfg w) then Inr w else fanout_res_credit_management (local_id m) w) (\<lambda>w.
            let st = k_stats (w_core w) in
            bindR (lm_get (time_mean_ds_concurrency st) (m_service m)) (\<lambda>t.
            bindR (tw_down (e_now e) t) (\<lambda>t.
            bindR (lm_set (time_mean_ds_concurrency st) (m_service m) t) (\<lambda>conc.
              Inr (w\<lparr>w_core := (w_core w)\<lparr>k_stats := st\<lparr>time_mean_ds_concurrency := conc\<rparr>\<rparr>\<rparr>)))))
      | INGRESS \<Rightarrow>
          bindR (decrement_and_check e (m_service m) w) (update_utilization e (m_service m) (-1)))"

definition submit_reply :: "'s env \<Rightarrow> conn_type \<Rightarrow> nat \<Rightarrow> nat \<Rightarrow> 's world \<Rightarrow> 's world result" where
  "submit_reply e type c r w =
     (let m = w_msg w r in
      if m_error m then
        case m_http m of
          HTTP1 \<Rightarrow> submit_error_response e c r w
        | HTTP2 \<Rightarrow>
            bindR (submit_error_response e c r w) (\<lambda>w.
            bindR (remove_rpc (k_heap (w_core w)) (k_mapper (w_core w)) type 0 r) (\<lambda>(h, mp).
              Inr (w\<lparr>w_core := (w_core w)\<lparr>k_heap := h, k_mapper := mp\<rparr>\<rparr>)))
      else submit_response e c r w)"

text \<open>
  A response: \<open>None\<close> is the return of a listener without connections, after the message has left the queue.
\<close>

definition forward_one_response :: "'s env \<Rightarrow> conn_type \<Rightarrow> int \<Rightarrow> int \<Rightarrow> 's world \<Rightarrow> 's world option result" where
  "forward_one_response e type fd stream_id w =
     bindR (map_at (map_of (w_listeners w)) type) (\<lambda>l.
       if listener_no_connections l then Inr None
       else
         bindR (get_us_rpc (k_mapper (w_core w)) type stream_id fd) (\<lambda>r.
           abort_on_exception ''Error in routing response''
             (bindR (listener_get_connection (ds_fd (w_msg w r)) l) (\<lambda>c.
              bindR (response_accounting e type r w) (\<lambda>w.
              bindR (submit_reply e type c r w) (\<lambda>w.
              bindR (write_http e c w) (\<lambda>w. Inr (Some w))))))))"

fun forward_loop :: "'s env \<Rightarrow> nat \<Rightarrow> conn_type \<Rightarrow> conn_dir \<Rightarrow> 's world \<Rightarrow> 's world result" where
  "forward_loop e 0 type dir w = Inl (Undefined ''out of fuel'')"
| "forward_loop e (Suc n) type dir w =
     (if rq_empty (k_rq (w_core w)) type dir then Inr w
      else
        bindR (rq_dequeue (k_rq (w_core w)) type dir) (\<lambda>((fd, stream_id), q).
          let w = w\<lparr>w_core := (w_core w)\<lparr>k_rq := q\<rparr>\<rparr> in
          case dir of
            DOWNSTREAM \<Rightarrow> bindR (forward_one_request e type fd stream_id w) (forward_loop e n type dir)
          | UPSTREAM \<Rightarrow>
              bindR (forward_one_response e type fd stream_id w) (\<lambda>mw. case mw of
                  None \<Rightarrow> Inr w
                | Some w \<Rightarrow> forward_loop e n type dir w)))"

definition forward :: "'s env \<Rightarrow> conn_type \<Rightarrow> conn_dir \<Rightarrow> 's world \<Rightarrow> 's world result" where
  "forward e type dir w =
     (if type = EGRESS \<and> dir = DOWNSTREAM then Inr w else forward_loop e (e_fuel e) type dir w)"

section \<open>The ingress node\<close>

definition ingress_pre_credit :: "'s env \<Rightarrow> 's world \<Rightarrow> 's world result" where
  "ingress_pre_credit e w =
     (let st = k_stats (w_core w) in
      bindR (lm_get (tail_e2e_time_us st) (w_service w)) (\<lambda>q.
        let (updated, q) = qe_consume_flush_updated q in
        bindR (lm_set (tail_e2e_time_us st) (w_service w) q) (\<lambda>tails.
          let st = st\<lparr>tail_e2e_time_us := tails\<rparr> in
          bindR (if updated then update_ingress_cap (w_cfg w) (e_now e) (w_ingress w) st
                 else Inr (w_ingress w, st)) (\<lambda>(ig, st).
            let (check, ig) = send_credit_request_checker ig; w = w\<lparr>w_core := (w_core w)\<lparr>k_stats := st\<rparr>, w_ingress := ig\<rparr> in
            if \<not> check then Inr w
            else
              bindR (get_tail_id (k_heap (w_core w)) ig) (\<lambda>i.
              bindR (get_tail_priority (k_heap (w_core w)) ig) (\<lambda>priority.
              bindR (get_pool (w_routes w) (w_service w)) (\<lambda>pool.
              bindR (pool_get_addr pool) (\<lambda>addr.
                send_credit_request e addr (w_service w) 1 i priority w))))))))"

definition ingress_credit_round :: "'s env \<Rightarrow> buffer \<Rightarrow> 's world \<Rightarrow> 's world result" where
  "ingress_credit_round e buf w =
     bindR (ingress_dequeue (e_now e) (w_ingress w)) (\<lambda>(mr, ig).
       let w = w\<lparr>w_ingress := ig\<rparr> in
       case mr of
         Some r \<Rightarrow> send_sub_request e r w
       | None \<Rightarrow> bindR (prepare_credit_return buf w) (\<lambda>(b, w). send_datagram b w))"

definition ingress_post_credit :: "'s env \<Rightarrow> buffer \<Rightarrow> 's world \<Rightarrow> 's world result" where
  "ingress_post_credit e buf w =
     bindR (credit_post_process e buf w) (\<lambda>((_, n, _), w).
       if n \<noteq> 1 then Inl (Fatal ''we should only get 1 credit'')
       else
         bindR (repeatR n (ingress_credit_round e buf) w) (\<lambda>w.
         bindR (forward e EGRESS UPSTREAM w) (ingress_pre_credit e)))"

section \<open>Datagrams\<close>

definition dispatch_rlp_recv :: "'s env \<Rightarrow> buffer \<Rightarrow> 's world \<Rightarrow> 's world result" where
  "dispatch_rlp_recv e buf w =
     bindR (dispatch_rlp (is_ingress (w_cfg w)) buf) (\<lambda>action. case action of
         To_Server \<Rightarrow> protocol_server e buf w
       | To_Ingress_Credit \<Rightarrow> ingress_post_credit e buf w
       | To_Client_Credit \<Rightarrow> protocol_client_grant e buf w)"

end
