(* ===== verification/Event_Loop.thy ===== *)
theory Event_Loop
  imports State
begin

text \<open>
  The event loop of a thread (src/event_loop.cc): one handler per kind of completion, each run to its end
  before the next. A completion names the user data of its submission, a result, and the buffer the kernel
  chose. The construction of State and EventLoop is here too. Sockets and the kernel are outside the model.
\<close>

section \<open>Construction\<close>

text \<open>The outcomes of opening the connections: the attempts of the socket loop and the resolved address.\<close>

record dial =
  d_attempts :: "(int \<times> int \<times> int) list"
  d_resolved :: "sockaddr option"

definition dial_connection ::
    "'s env \<Rightarrow> (nat \<Rightarrow> dial) \<Rightarrow> string \<Rightarrow> nat \<Rightarrow> conn_type \<Rightarrow> http_version \<Rightarrow> nat \<Rightarrow> 's conn result" where
  "dial_connection e dials host port type http r =
     bindR (case http of HTTP1 \<Rightarrow> Inr None | HTTP2 \<Rightarrow> bindR (new_session (e_ng e) UPSTREAM) (\<lambda>s. Inr (Some s))) (\<lambda>s.
       upstream_connection (d_attempts (dials r)) (d_resolved (dials r)) host port type http s)"

text \<open>\<open>pool.add_connection\<close> and \<open>ring.prepare_connect\<close> of the constructor, for one more connection.\<close>

definition open_connection ::
    "'s env \<Rightarrow> (nat \<Rightarrow> dial) \<Rightarrow> ((int \<times> nat) list \<Rightarrow> (int \<times> nat) list) \<Rightarrow> string \<Rightarrow> nat \<Rightarrow> http_version \<Rightarrow>
     conn_pool \<times> 's world \<Rightarrow> (conn_pool \<times> 's world) result" where
  "open_connection e dials rehash host port http = (\<lambda>(p, w).
     let r = w_next_ref w in
     bindR (dial_connection e dials host port (cp_type p) http r) (\<lambda>c.
     bindR (pool_add_connection rehash c r p) (\<lambda>(r', p).
       let w = (upd_conn r c w)\<lparr>w_next_ref := Suc r\<rparr> in
       bindR (with_user_data (prepare_connect (c_fd (w_conns w r')) (c_addr (w_conns w r')) r') w) (\<lambda>w. Inr (p, w)))))"

definition open_route ::
    "'s env \<Rightarrow> (nat \<Rightarrow> dial) \<Rightarrow> ((int \<times> nat) list \<Rightarrow> (int \<times> nat) list) \<Rightarrow> string \<times> routing_entry \<Rightarrow> 's world \<Rightarrow> 's world result" where
  "open_route e dials rehash = (\<lambda>(route, info) w.
     let cfg = w_cfg w; w = w\<lparr>w_routes := add_route route (w_routes w)\<rparr> in
     bindR (get_pool (w_routes w) route) (\<lambda>p.
     bindR (if is_ingress cfg then opt_value (ingress_pool_connections cfg) else Inr 1) (\<lambda>n.
     bindR (repeatR (nat n) (open_connection e dials rehash (up_host (re_upstream info)) (nat (up_port (re_upstream info) mod 2 ^ 16))
              (if is_ingress cfg then HTTP1 else HTTP2)) (p, w)) (\<lambda>(p, w).
       Inr (w\<lparr>w_routes := AList.update route p (w_routes w)\<rparr>)))))"

text \<open>For an ingress node every hosted service is its own and only downstream service.\<close>

definition check_mapping :: "config \<Rightarrow> string \<times> mapping_info \<Rightarrow> unit result" where
  "check_mapping cfg = (\<lambda>(service, info).
     if \<not> is_ingress cfg \<or> mi_downstreams info = [service] then Inr ()
     else if mi_downstreams info = [] then Inl OutOfRange
     else Inl (Fatal ''hosted service and downstreams should be the same''))"

definition ingress_connections :: "config \<Rightarrow> int result" where
  "ingress_connections cfg =
     (if is_frontend cfg then opt_value (frontend_pool_connections cfg) else if is_ingress cfg then Inr 0 else Inr 1)"

text \<open>The UDP socket: results of socket, setsockopt and bind.\<close>

definition udp_socket :: "config \<Rightarrow> int \<Rightarrow> int \<Rightarrow> int \<Rightarrow> int result" where
  "udp_socket cfg fd reuse bound =
     (if fd < 0 then Inl (Fatal ''Failed to create socket'')
      else if \<not> is_ingress cfg \<and> reuse < 0 then Inl (Fatal ''Failed to set SO_REUSEPORT on RLP socket'')
      else if \<not> is_ingress cfg \<and> bound < 0 then Inl (Fatal ''Failed to bind RLP UDP socket'')
      else Inr fd)"

text \<open>\<open>w\<close> holds what the constructor receives: configuration, ring, buffers, core, ingress and shared state.\<close>

definition state_construct ::
    "'s env \<Rightarrow> (nat \<Rightarrow> dial) \<Rightarrow> ((int \<times> nat) list \<Rightarrow> (int \<times> nat) list) \<Rightarrow> int \<times> int \<times> int \<Rightarrow> 's world \<Rightarrow> 's world result" where
  "state_construct e dials rehash udp w =
     (let cfg = w_cfg w; (fd, reuse, bound) = udp in
      bindR (lm_construct 0 (get_downstream_services cfg)) (\<lambda>rtts.
      bindR (ut_construct 1000 (get_hosted_services cfg) (e_now e)) (\<lambda>u.
        if buffer_size cfg > HTTP1Connection_BUF_SIZE then Inl (Fatal ''Buffer size cannot be larger'')
        else
          let w = w\<lparr>w_ingress_pool := pool_new INGRESS, w_routes := [], w_ppm := ppm_construct (routing cfg), w_drops := 0,
                    w_last_rtt := rtts, w_util := u\<rparr> in
          bindR (foldR (open_route e dials rehash) (routing cfg) w) (\<lambda>w.
          bindR (foldR (\<lambda>x _. check_mapping cfg x) (mapping cfg) ()) (\<lambda>_.
          bindR (ingress_connections cfg) (\<lambda>n.
          bindR (repeatR (nat n) (open_connection e dials rehash (ingress_upstream_host cfg) (unat (ingress_upstream_port cfg))
                   (if is_ingress cfg \<or> is_frontend cfg then HTTP1 else HTTP2)) (w_ingress_pool w, w)) (\<lambda>(p, w).
          bindR (udp_socket cfg fd reuse bound) (\<lambda>sock.
            Inr (w\<lparr>w_ingress_pool := p, w_sockfd := sock\<rparr>)))))))))"

text \<open>The listeners that the constructor of EventLoop opens; the descriptors come from socket().\<close>

definition make_listeners :: "config \<Rightarrow> string \<Rightarrow> int \<Rightarrow> int \<Rightarrow> (conn_type \<times> listener) list result" where
  "make_listeners cfg service egress_fd ingress_fd =
     bindR (if is_ingress cfg then
              bindR (map_at (map_of (mapping cfg)) service) (\<lambda>info.
                let port = value_or (mi_listen_port info) 0 in
                if port = 0 then Inl (Fatal ''Egress port is not set for ingress service'') else Inr port)
            else Inr (egress_listener_port cfg)) (\<lambda>port.
     if egress_fd < 0 \<or> ingress_fd < 0 then Inl (Fatal ''Failed to create socket'')
     else Inr [(EGRESS, \<lparr>l_fd = egress_fd, l_port = unat port, l_conns = [], l_type = EGRESS\<rparr>),
               (INGRESS, \<lparr>l_fd = ingress_fd, l_port = unat (ingress_listener_port cfg), l_conns = [], l_type = INGRESS\<rparr>)])"

section \<open>Completions\<close>

text \<open>
  A completion names its user data, a result and the buffer the kernel chose. \<open>q_bytes\<close> is what the kernel put
  into that buffer before it completed, never more than the buffer holds.
\<close>

record cqe =
  q_user_data :: nat
  q_res :: int
  q_buffer :: "nat option"
  q_bytes :: "byte list"

definition kernel_write :: "byte list \<Rightarrow> buffer \<Rightarrow> buffer" where
  "kernel_write bs b = b\<lparr>buf_data := take (length (buf_data b)) bs @ drop (length bs) (buf_data b)\<rparr>"

text \<open>The reference of a listener in a user data object.\<close>

definition listener_ref :: "conn_type \<Rightarrow> nat" where
  "listener_ref t = (case t of INGRESS \<Rightarrow> 0 | EGRESS \<Rightarrow> 1)"

definition listener_type :: "nat \<Rightarrow> conn_type" where
  "listener_type n = (if n = 0 then INGRESS else EGRESS)"

definition upd_ud :: "nat \<Rightarrow> user_data \<Rightarrow> 's world \<Rightarrow> 's world" where
  "upd_ud i u w = w\<lparr>w_bm := (w_bm w)\<lparr>bm_user_data := (bm_user_data (w_bm w))(i := u)\<rparr>\<rparr>"

definition release_ud :: "nat \<Rightarrow> 's world \<Rightarrow> 's world result" where
  "release_ud i w = bindR (free_user_data (Some i) (w_bm w)) (\<lambda>bm. Inr (w\<lparr>w_bm := bm\<rparr>))"

definition set_status :: "nat \<Rightarrow> conn_status \<Rightarrow> 's world \<Rightarrow> 's world" where
  "set_status c s w = upd_conn c ((w_conns w c)\<lparr>c_status := s\<rparr>) w"

definition the_conn :: "user_data \<Rightarrow> nat result" where
  "the_conn u = (case ud_conn u of None \<Rightarrow> Inl (Undefined ''null connection'') | Some c \<Rightarrow> Inr c)"

definition the_listener :: "user_data \<Rightarrow> 's world \<Rightarrow> (conn_type \<times> listener) result" where
  "the_listener u w =
     (case ud_listener u of
        None \<Rightarrow> Inl (Undefined ''null listener'')
      | Some n \<Rightarrow> bindR (map_at (map_of (w_listeners w)) (listener_type n)) (\<lambda>l. Inr (listener_type n, l)))"

definition accepted_http :: "config \<Rightarrow> conn_type \<Rightarrow> http_version" where
  "accepted_http cfg type =
     (if is_frontend cfg \<and> type = INGRESS then HTTP1 else if is_ingress cfg then HTTP1 else HTTP2)"

definition on_accept :: "'s env \<Rightarrow> cqe \<Rightarrow> user_data \<Rightarrow> 's world \<Rightarrow> 's world result" where
  "on_accept e q u w =
     bindR (the_listener u w) (\<lambda>(type, l).
       if q_res q < 0 then Inl (Fatal ''Failed to accept connection'')
       else
         let http = accepted_http (w_cfg w) (l_type l) in
         bindR (case http of HTTP1 \<Rightarrow> Inr None | HTTP2 \<Rightarrow> bindR (new_session (e_ng e) DOWNSTREAM) (\<lambda>s. Inr (Some s))) (\<lambda>s.
         bindR (listener_add_connection (q_res q) (w_next_ref w) (accepted_connection (q_res q) (l_type l) http s) l) (\<lambda>(c, mc, l).
           let w = (case mc of None \<Rightarrow> w | Some x \<Rightarrow> (upd_conn c x w)\<lparr>w_next_ref := Suc (w_next_ref w)\<rparr>);
               w = w\<lparr>w_listeners := AList.update type l (w_listeners w)\<rparr> in
           bindR (submit_settings e c w) (\<lambda>w.
           bindR (with_user_data (\<lambda>ud. prepare_read (c_fd (w_conns w c)) ud (Some (listener_ref type)) c) w) (\<lambda>w.
           bindR (with_user_data (prepare_accept (l_fd l) (listener_ref type)) w) (\<lambda>w.
             release_ud (q_user_data q) w))))))"

text \<open>A connection that ends: mark it, give the buffer back, ask the kernel to close it.\<close>

definition tear_down :: "nat \<Rightarrow> buffer option \<Rightarrow> 's world \<Rightarrow> 's world result" where
  "tear_down c mb w =
     (let w = set_status c TEARDOWN w in
      bindR (case mb of None \<Rightarrow> Inr w | Some b \<Rightarrow> give_back_buffer b w) (\<lambda>w.
        with_user_data (prepare_cancel (c_fd (w_conns w c)) c) w))"

definition after_read :: "'s env \<Rightarrow> nat \<Rightarrow> buffer \<Rightarrow> 's world \<Rightarrow> 's world result" where
  "after_read e c b w =
     bindR (write_http e c w) (\<lambda>w.
     bindR (give_back_buffer b w) (\<lambda>w.
     bindR (forward e (c_type (w_conns w c)) (c_dir (w_conns w c)) w) (\<lambda>w.
     bindR (if is_ingress (w_cfg w) then ingress_pre_credit e w else Inr w) (\<lambda>w.
     bindR (abort_on_exception ''Error in Protocol Client'' (protocol_client_requests e w)) (write_http e c)))))"

text \<open>
  The user data of a read is not released here: it belongs to a multishot operation. The bytes of input that
  was refused stay in the buffer of an HTTP/1 connection; the header size and content length that the refused
  request leaves in the dying connection are not kept.
\<close>

definition keep_input :: "buffer \<Rightarrow> 's conn \<Rightarrow> 's conn" where
  "keep_input b x =
     (case c_http x of
        HTTP1 \<Rightarrow> x\<lparr>h1_prev_buf_len := length (h1_buf x), h1_buf := h1_buf x @ take (buf_filled b) (buf_data b)\<rparr>
      | HTTP2 \<Rightarrow> x)"

definition on_read :: "'s env \<Rightarrow> cqe \<Rightarrow> user_data \<Rightarrow> 's world \<Rightarrow> 's world result" where
  "on_read e q u w =
     bindR (case q_buffer q of
              Some i \<Rightarrow> bindR (get_buffer_by_index i (w_bm w)) (\<lambda>(b, bm). Inr (Some (kernel_write (q_bytes q) b), w\<lparr>w_bm := bm\<rparr>))
            | None \<Rightarrow> if q_res q > 0 then Inl (Fatal ''no buffer provided'') else Inr (None, w)) (\<lambda>(mb, w).
     bindR (if ud_conn u = None \<and> q_res q > 0 then Inl (Fatal ''orig_conn is null'') else the_conn u) (\<lambda>c.
       if q_res q < 0 then Inl (Fatal ''Failed to read'')
       else if q_res q = 0 then tear_down c mb w
       else case mb of
         None \<Rightarrow> Inl (Undefined ''null buffer'')
       | Some b \<Rightarrow>
           bindR (set_filled b (size_t_of (q_res q))) (\<lambda>b.
           case http_read e b c w of
             Inl (HTTPParse msg) \<Rightarrow> tear_down c (Some b) (upd_conn c (keep_input b (w_conns w c)) w)
           | Inl err \<Rightarrow> Inl err
           | Inr w \<Rightarrow> after_read e c b w)))"

definition on_connect :: "'s env \<Rightarrow> cqe \<Rightarrow> user_data \<Rightarrow> 's world \<Rightarrow> 's world result" where
  "on_connect e q u w =
     (if q_res q < 0 then Inl (Fatal ''Failed to connect'')
      else
        bindR (the_conn u) (\<lambda>c.
        let w = upd_ud (q_user_data q) (u\<lparr>ud_conn := None\<rparr>) w in
        bindR (submit_settings e c w) (\<lambda>w.
        bindR (case c_http (w_conns w c) of HTTP1 \<Rightarrow> Inr (set_status c UP w) | HTTP2 \<Rightarrow> write_http e c w) (\<lambda>w.
        bindR (map_at (map_of (w_listeners w)) (c_type (w_conns w c))) (\<lambda>_.
        bindR (with_user_data (\<lambda>ud. prepare_read (c_fd (w_conns w c)) ud (Some (listener_ref (c_type (w_conns w c)))) c) w) (\<lambda>w.
          release_ud (q_user_data q) w))))))"

text \<open>The completion of a write and of a datagram: the buffer leaves the user data and goes back.\<close>

definition on_write :: "cqe \<Rightarrow> user_data \<Rightarrow> 's world \<Rightarrow> 's world result" where
  "on_write q u w =
     (if q_res q < 0 then Inl (Fatal ''Failed to write'')
      else
        bindR (ud_get_buffer u) (\<lambda>(b, u).
        bindR (give_back_buffer b (upd_ud (q_user_data q) u w)) (\<lambda>w. release_ud (q_user_data q) w)))"

definition on_sendmsg :: "cqe \<Rightarrow> user_data \<Rightarrow> 's world \<Rightarrow> 's world result" where
  "on_sendmsg q u w =
     bindR (ud_get_buffer u) (\<lambda>(b, u).
       if q_res q \<le> 0 then Inl (Fatal ''Failed to send message'')
       else
         let w = upd_ud (q_user_data q) u w in
         bindR (free_udp_buffer (Some b) (w_bm w)) (\<lambda>bm. release_ud (q_user_data q) (w\<lparr>w_bm := bm\<rparr>)))"

definition on_cancel :: "cqe \<Rightarrow> user_data \<Rightarrow> 's world \<Rightarrow> 's world result" where
  "on_cancel q u w =
     bindR (the_conn u) (\<lambda>c.
       let w = upd_ud (q_user_data q) (u\<lparr>ud_conn := None\<rparr>) w; x = w_conns w c in
       case c_dir x of
         UPSTREAM \<Rightarrow> Inl (Fatal ''Removing connection for upstream is not implemented'')
       | DOWNSTREAM \<Rightarrow>
           if check_fd_exists (k_mapper (w_core w)) (c_type x) (c_fd x) False then Inl (Fatal ''RPC mapper is not empty'')
           else
             bindR (map_at (map_of (w_listeners w)) (c_type x)) (\<lambda>l.
               release_ud (q_user_data q)
                 (w\<lparr>w_listeners := AList.update (c_type x) (listener_remove_connection (c_fd x) l) (w_listeners w)\<rparr>)))"

definition on_rcvmsg :: "'s env \<Rightarrow> cqe \<Rightarrow> 's world \<Rightarrow> 's world result" where
  "on_rcvmsg e q w =
     (case q_buffer q of
        None \<Rightarrow> Inl (Fatal ''Failed to receive UDP message'')
      | Some i \<Rightarrow>
          bindR (get_udp_buffer_by_index i (w_bm w)) (\<lambda>(b, bm).
            if q_res q \<le> 0 then Inl (Fatal ''Failed to receive UDP message'')
            else
              bindR (handle_multishot_recv (kernel_write (q_bytes q) b) (q_res q)) (\<lambda>b.
              bindR (abort_on_exception ''Error in RLP dispatch'' (dispatch_rlp_recv e b (w\<lparr>w_bm := bm\<rparr>))) (\<lambda>w.
              bindR (free_udp_buffer (Some b) (w_bm w)) (\<lambda>bm. Inr (w\<lparr>w_bm := bm\<rparr>))))))"

definition handle_completion :: "'s env \<Rightarrow> cqe \<Rightarrow> 's world \<Rightarrow> 's world result" where
  "handle_completion e q w =
     bindR (ring_get_user_data (Some (bm_user_data (w_bm w) (q_user_data q)))) (\<lambda>u.
       case ud_op u of
         OP_ACCEPT \<Rightarrow> on_accept e q u w
       | OP_READ \<Rightarrow> on_read e q u w
       | OP_CONNECT \<Rightarrow> on_connect e q u w
       | OP_WRITE \<Rightarrow> on_write q u w
       | OP_CANCEL \<Rightarrow> on_cancel q u w
       | OP_RCVMSG \<Rightarrow> on_rcvmsg e q w
       | OP_SENDMSG \<Rightarrow> on_sendmsg q u w
       | OP_CLEAR \<Rightarrow> Inl (Fatal ''Received a CLEAR operation''))"

section \<open>The loop\<close>

definition start_loop :: "'s world \<Rightarrow> 's world result" where
  "start_loop w =
     bindR (foldR (\<lambda>(type, l). with_user_data (prepare_accept (l_fd l) (listener_ref type))) (w_listeners w) w) (\<lambda>w.
       with_user_data (prepare_rcvmsg (w_sockfd w)) w)"

text \<open>
  One round: submit what is prepared, then handle the completions that are there. The rounds of \<open>run\<close> are
  the arguments.
\<close>

record 's round =
  r_env :: "'s env"
  r_ret :: int
  r_cq_entries :: nat
  r_completions :: "cqe list"

definition loop_round :: "'s round \<Rightarrow> 's world \<Rightarrow> 's world result" where
  "loop_round r w =
     bindR (submit_and_wait (length (r_completions r)) (r_cq_entries r) (r_ret r) (w_ring w)) (\<lambda>rg.
       foldR (handle_completion (r_env r)) (r_completions r) (w\<lparr>w_ring := rg\<rparr>))"

definition run :: "'s round list \<Rightarrow> 's world \<Rightarrow> 's world result" where
  "run rounds w = bindR (start_loop w) (foldR loop_round rounds)"

end
