(* ===== verification/Config_Load.thy ===== *)
theory Config_Load
  imports Config "HOL-Library.AList"
begin

text \<open>
  load_config (src/config.cc) on the parsed document. yaml-cpp is outside the repository: a document is a
  tree of its node kinds, and the conversions of scalars, which throw when the text does not fit, are the
  record \<open>yaml_conv\<close>; \<open>conv_null\<close> is the string of a null node. All exceptions of the library are
  \<open>InvalidArgument\<close>: load_config catches none of these.
\<close>

datatype yaml = Null | Scalar string | Sequence "yaml list" | YMap "(string \<times> yaml) list"

record yaml_conv =
  conv_null :: string
  conv_nat :: "string \<Rightarrow> nat option"
  conv_int :: "string \<Rightarrow> int option"
  conv_u16 :: "string \<Rightarrow> 16 word option"
  conv_bool :: "string \<Rightarrow> bool option"
  conv_float :: "string \<Rightarrow> floating option"

text \<open>
  \<open>node["key"]\<close>, which is undefined (false) when there is no such key and throws for a scalar
  (\<open>subscript\<close>), and \<open>as<T>()\<close>.
\<close>

definition subscript :: "yaml \<Rightarrow> unit result" where
  "subscript n = (case n of Scalar _ \<Rightarrow> Inl (InvalidArgument ''operator[] call on a scalar'') | _ \<Rightarrow> Inr ())"

definition child :: "yaml \<Rightarrow> string \<Rightarrow> yaml option" where
  "child n key = (case n of YMap kvs \<Rightarrow> map_of kvs key | _ \<Rightarrow> None)"

definition as_node :: "(string \<Rightarrow> 'a option) \<Rightarrow> yaml option \<Rightarrow> 'a result" where
  "as_node conv n =
     (case n of
        Some (Scalar s) \<Rightarrow> (case conv s of None \<Rightarrow> Inl (InvalidArgument ''bad conversion'') | Some v \<Rightarrow> Inr v)
      | _ \<Rightarrow> Inl (InvalidArgument ''bad conversion''))"

definition as_string :: "yaml_conv \<Rightarrow> yaml option \<Rightarrow> string result" where
  "as_string y n = (if n = Some Null then Inr (conv_null y) else as_node Some n)"

text \<open>\<open>if (node["key"]) x = node["key"].as<T>(); else x = d;\<close> and the same for an optional.\<close>

definition as_or :: "(string \<Rightarrow> 'a option) \<Rightarrow> 'a \<Rightarrow> yaml option \<Rightarrow> 'a result" where
  "as_or conv d n = (if n = None then Inr d else as_node conv n)"

definition as_opt :: "(string \<Rightarrow> 'a option) \<Rightarrow> yaml option \<Rightarrow> 'a option result" where
  "as_opt conv n = (if n = None then Inr None else bindR (as_node conv n) (\<lambda>v. Inr (Some v)))"

definition load_basic :: "yaml_conv \<Rightarrow> yaml \<Rightarrow> config result" where
  "load_basic y n =
     bindR (subscript n) (\<lambda>_.
     bindR (as_node (conv_nat y) (child n ''ring_size'')) (\<lambda>rs.
     bindR (as_node (conv_nat y) (child n ''buffer_count'')) (\<lambda>bc.
     bindR (as_node (conv_nat y) (child n ''buffer_size'')) (\<lambda>bs.
     bindR (as_node (conv_int y) (child n ''num_threads'')) (\<lambda>nt.
     bindR (as_node (conv_u16 y) (child n ''egress_listener_port'')) (\<lambda>ep.
     bindR (as_node (conv_u16 y) (child n ''ingress_listener_port'')) (\<lambda>ip.
     bindR (as_string y (child n ''ingress_upstream_host'')) (\<lambda>uh.
     bindR (as_node (conv_u16 y) (child n ''ingress_upstream_port'')) (\<lambda>up.
     bindR (as_string y (child n ''name'')) (\<lambda>nm.
     bindR (as_or (conv_bool y) False (child n ''is_ingress'')) (\<lambda>ing.
     bindR (as_or (conv_bool y) False (child n ''is_plain_frontend'')) (\<lambda>pf.
       Inr (default_config\<lparr>ring_size := rs, buffer_count := bc, buffer_size := bs, num_threads := nt,
              egress_listener_port := ep, ingress_listener_port := ip, ingress_upstream_host := uh,
              ingress_upstream_port := up, cfg_name := nm, is_ingress := ing, is_plain_frontend := pf\<rparr>)))))))))))))"

definition load_limits :: "yaml_conv \<Rightarrow> yaml \<Rightarrow> config \<Rightarrow> config result" where
  "load_limits y n cfg =
     bindR (if is_ingress cfg then Inr cfg
            else if child n ''over_commitment'' = None then Inl (Fatal ''over_commitment is required for non-ingress'')
            else bindR (as_node (conv_float y) (child n ''over_commitment'')) (\<lambda>oc.
              if flt_less (Finite 1) oc \<or> flt_less oc (Finite 0) then Inl (Fatal ''over_commitment must be between 0 and 1'')
              else if child n ''cpu_count'' = None then Inl (Fatal ''cpu_count is required for non-ingress'')
              else bindR (as_node (conv_int y) (child n ''cpu_count'')) (\<lambda>cpus.
                if cpus < 1 then Inl (Fatal ''cpu_count must be at least 1'')
                else Inr (cfg\<lparr>over_commitment := Some oc, cpu_count := Some cpus\<rparr>)))) (\<lambda>cfg.
     bindR (as_or (conv_int y) 0 (child n ''extra_limit'')) (\<lambda>extra.
     bindR (as_or (conv_float y) (aimd_err_d cfg) (child n ''aimd_err_d'')) (\<lambda>ed.
     bindR (as_or (conv_float y) (aimd_err_i cfg) (child n ''aimd_err_i'')) (\<lambda>ei.
     bindR (as_or (conv_float y) (aimd_adj_d cfg) (child n ''aimd_adj_d'')) (\<lambda>ad.
     bindR (as_or (conv_float y) (aimd_adj_i cfg) (child n ''aimd_adj_i'')) (\<lambda>ai.
     bindR (as_or (conv_float y) (safe_multiply cfg) (child n ''safe_multiply'')) (\<lambda>sm.
       Inr (cfg\<lparr>extra_limit := extra, aimd_err_d := ed, aimd_err_i := ei, aimd_adj_d := ad, aimd_adj_i := ai,
                safe_multiply := sm\<rparr>))))))))"

definition load_pools :: "yaml_conv \<Rightarrow> yaml \<Rightarrow> config \<Rightarrow> config result" where
  "load_pools y n cfg =
     bindR (as_or (conv_bool y) False (child n ''is_frontend'')) (\<lambda>fe.
     bindR (as_opt (conv_int y) (child n ''ingress_pool_connections'')) (\<lambda>ip.
     if ip = None \<and> is_ingress cfg then Inl (Fatal ''ingress_pool_connections is required when is_ingress is true'')
     else
       bindR (as_opt (conv_int y) (child n ''frontend_pool_connections'')) (\<lambda>fp.
       if fp = None \<and> fe then Inl (Fatal ''frontend_pool_connections is required when is_frontend is true'')
       else Inr (cfg\<lparr>is_frontend := fe, ingress_pool_connections := ip, frontend_pool_connections := fp\<rparr>))))"

definition load_route :: "yaml_conv \<Rightarrow> string \<times> yaml \<Rightarrow> config \<Rightarrow> config result" where
  "load_route y = (\<lambda>(service, r) cfg.
     bindR (subscript r) (\<lambda>_.
     case child r ''upstream'' of
       None \<Rightarrow> Inl (Fatal ''Skipping routing entry: Missing upstream section'')
     | Some u \<Rightarrow>
         bindR (subscript u) (\<lambda>_.
         if child u ''host'' = None \<or> child u ''port'' = None
         then Inl (Fatal ''Skipping routing entry: Missing host or port'')
         else
           bindR (as_string y (child u ''host'')) (\<lambda>host.
           bindR (as_node (conv_int y) (child u ''port'')) (\<lambda>port.
           bindR (as_opt (conv_int y) (child r ''slo'')) (\<lambda>slo.
           bindR (as_opt (conv_int y) (child r ''priority'')) (\<lambda>priority.
             Inr (cfg\<lparr>routing := AList.update service
                        \<lparr>re_upstream = \<lparr>up_host = host, up_port = port\<rparr>, re_slo = slo, re_priority = priority\<rparr>
                        (routing cfg)\<rparr>))))))))"

definition load_downstreams :: "yaml_conv \<Rightarrow> yaml option \<Rightarrow> string list result" where
  "load_downstreams y n =
     (case n of
        None \<Rightarrow> Inr []
      | Some (Sequence xs) \<Rightarrow>
          bindR (foldR (\<lambda>x ds. bindR (as_string y (Some x)) (\<lambda>d. Inr (ds @ [d]))) xs []) (\<lambda>ds.
            if length ds > 255 then Inl (Fatal ''For parallel fan-out we use uint8 for counting'') else Inr ds)
      | Some _ \<Rightarrow> Inl (Fatal ''Downstreams is not a sequence''))"

definition load_mapping :: "yaml_conv \<Rightarrow> string \<times> yaml \<Rightarrow> config \<Rightarrow> config result" where
  "load_mapping y = (\<lambda>(service, m) cfg.
     bindR (subscript m) (\<lambda>_.
     bindR (load_downstreams y (child m ''downstreams'')) (\<lambda>ds.
     bindR (as_opt (conv_u16 y) (child m ''listen_port'')) (\<lambda>port.
     bindR (as_opt (conv_bool y) (child m ''pfanout'')) (\<lambda>pf.
     bindR (as_opt (conv_bool y) (child m ''dfanout'')) (\<lambda>df.
       if length ds > 10 \<and> value_or df False then Inl (Fatal ''Maximum downstream queue for dfanout is 10'')
       else if is_ingress cfg \<and> length ds \<noteq> 1 then Inl (Fatal ''1:1 mapping violation for Ingress service'')
       else if is_ingress cfg \<and> (df \<noteq> None \<or> pf \<noteq> None) then Inl (Fatal ''pfanout or dfanout is true for Ingress service'')
       else Inr (cfg\<lparr>mapping := AList.update service
              \<lparr>mi_downstreams = ds, mi_listen_port = port, mi_pfanout = pf, mi_dfanout = df\<rparr> (mapping cfg)\<rparr>)))))))"

definition load_section :: "string \<Rightarrow> (string \<times> yaml \<Rightarrow> config \<Rightarrow> config result) \<Rightarrow> yaml option \<Rightarrow> config \<Rightarrow> config result" where
  "load_section name f n cfg =
     (case n of
        None \<Rightarrow> Inr cfg
      | Some (YMap kvs) \<Rightarrow> foldR f kvs cfg
      | Some _ \<Rightarrow> Inl (Fatal name))"

text \<open>
  The last checks. The first one asks \<open>old\<close>, the global configuration before this call, whether the node is
  an ingress. \<open>doc\<close> is the document of a file that can be read and parsed. routing and mapping are unordered
  maps: \<open>hash_order\<close> gives the order in which a hash table with the given keys is iterated.
\<close>

definition reorder :: "(string list \<Rightarrow> string list) \<Rightarrow> (string \<times> 'a) list \<Rightarrow> (string \<times> 'a) list" where
  "reorder hash_order kvs =
     concat (map (\<lambda>k. case map_of kvs k of None \<Rightarrow> [] | Some v \<Rightarrow> [(k, v)]) (hash_order (map fst kvs)))"

definition load_config ::
    "(string list \<Rightarrow> string list) \<Rightarrow> config \<Rightarrow> yaml_conv \<Rightarrow> yaml option \<Rightarrow> config result" where
  "load_config hash_order old y doc =
     bindR (case doc of None \<Rightarrow> Inl (Fatal ''Error loading config file'') | Some n \<Rightarrow> Inr n) (\<lambda>n.
     bindR (load_basic y n) (\<lambda>cfg.
     bindR (load_limits y n cfg) (\<lambda>cfg.
     bindR (load_pools y n cfg) (\<lambda>cfg.
     bindR (load_section ''Routing section is not a map'' (load_route y) (child n ''routing'') cfg) (\<lambda>cfg.
     bindR (load_section ''Mapping section is not a map'' (load_mapping y) (child n ''mapping'') cfg) (\<lambda>cfg.
       if is_ingress old \<and> num_threads cfg \<noteq> int (length (mapping cfg))
       then Inl (Fatal ''Number of threads does not match the number of hosted services'')
       else if num_threads cfg > 1 \<and> \<not> is_ingress cfg then Inl (Fatal ''Cannot set number of threads for non-ingress sidecars'')
       else Inr (cfg\<lparr>routing := reorder hash_order (routing cfg), mapping := reorder hash_order (mapping cfg)\<rparr>)))))))"

text \<open>The checks of main before the threads start, and the service each thread is responsible for.\<close>

definition check_main :: "config \<Rightarrow> unit result" where
  "check_main cfg =
     (let hosted = get_hosted_services cfg; ds = get_downstream_services cfg in
      if length hosted \<noteq> size_t_of (num_threads cfg) \<and> is_ingress cfg
      then Inl (Fatal ''Number of hosted services does not match the number of threads'')
      else if length ds \<noteq> length hosted \<and> is_ingress cfg
      then Inl (Fatal ''Number of downstream services does not match the number of hosted services'')
      else Inr ())"

definition thread_service :: "config \<Rightarrow> nat \<Rightarrow> string result" where
  "thread_service cfg i =
     (if is_ingress cfg then vec_at (get_downstream_services cfg) i else Inr ''empty'')"

section \<open>Accepted configurations\<close>

definition mapping_ok :: "bool \<Rightarrow> mapping_info \<Rightarrow> bool" where
  "mapping_ok ing info \<longleftrightarrow>
     length (mi_downstreams info) \<le> 255 \<and>
     (value_or (mi_dfanout info) False \<longrightarrow> length (mi_downstreams info) \<le> 10) \<and>
     (ing \<longrightarrow> length (mi_downstreams info) = 1 \<and> mi_dfanout info = None \<and> mi_pfanout info = None)"

text \<open>What the check of the over-commitment admits: both comparisons are false for NaN.\<close>

definition share_ok :: "floating \<Rightarrow> bool" where
  "share_ok oc \<longleftrightarrow> oc = NaN \<or> (\<exists>x. oc = Finite x \<and> 0 \<le> x \<and> x \<le> 1)"

lemma share_ok_checked: "\<not> flt_less (Finite 1) oc \<Longrightarrow> \<not> flt_less oc (Finite 0) \<Longrightarrow> share_ok oc"
  by (cases oc) (auto simp: share_ok_def)

definition limits_ok :: "config \<Rightarrow> bool" where
  "limits_ok cfg \<longleftrightarrow> is_ingress cfg \<or>
     (\<exists>oc cpus. over_commitment cfg = Some oc \<and> share_ok oc \<and> cpu_count cfg = Some cpus \<and> 1 \<le> cpus)"

definition mappings_ok :: "config \<Rightarrow> bool" where
  "mappings_ok cfg \<longleftrightarrow> distinct (map fst (mapping cfg)) \<and> (\<forall>(_, info)\<in>set (mapping cfg). mapping_ok (is_ingress cfg) info)"

lemma load_downstreams_bound: "load_downstreams y n = Inr ds \<Longrightarrow> length ds \<le> 255"
  by (auto simp: load_downstreams_def split: option.splits yaml.splits if_splits)

lemma alist_update_subset: "set (AList.update k v xs) \<subseteq> insert (k, v) (set xs)"
  by (induction xs) auto

lemma three_checks:
  "(if a then Inl x else if b then Inl y else if c then Inl z else Inr w) = Inr v \<longleftrightarrow> \<not> a \<and> \<not> b \<and> \<not> c \<and> w = v"
  by simp

lemma load_mapping_ok:
  assumes "load_mapping y x cfg = Inr cfg'" "mappings_ok cfg"
  shows "mappings_ok cfg' \<and> is_ingress cfg' = is_ingress cfg \<and> over_commitment cfg' = over_commitment cfg \<and>
    cpu_count cfg' = cpu_count cfg \<and> num_threads cfg' = num_threads cfg"
proof (cases x)
  case (Pair service m)
  obtain ds port pf df where ds: "load_downstreams y (child m ''downstreams'') = Inr ds"
      and rest: "(if length ds > 10 \<and> value_or df False then Inl (Fatal ''Maximum downstream queue for dfanout is 10'')
       else if is_ingress cfg \<and> length ds \<noteq> 1 then Inl (Fatal ''1:1 mapping violation for Ingress service'')
       else if is_ingress cfg \<and> (df \<noteq> None \<or> pf \<noteq> None) then Inl (Fatal ''pfanout or dfanout is true for Ingress service'')
       else Inr (cfg\<lparr>mapping := AList.update service
              \<lparr>mi_downstreams = ds, mi_listen_port = port, mi_pfanout = pf, mi_dfanout = df\<rparr> (mapping cfg)\<rparr>)) = Inr cfg'"
    using assms(1) unfolding load_mapping_def Pair bindR_eq_Inr prod.case by (elim exE conjE)
  note checks = rest [unfolded three_checks]
  have small: "value_or df False \<Longrightarrow> length ds \<le> 10" using checks by linarith
  have ing: "is_ingress cfg \<Longrightarrow> length ds = 1 \<and> df = None \<and> pf = None" using checks by blast
  have cfg': "cfg' = cfg\<lparr>mapping := AList.update service
        \<lparr>mi_downstreams = ds, mi_listen_port = port, mi_pfanout = pf, mi_dfanout = df\<rparr> (mapping cfg)\<rparr>"
    by (rule checks [THEN conjunct2, THEN conjunct2, THEN conjunct2, symmetric])
  define info where "info = \<lparr>mi_downstreams = ds, mi_listen_port = port, mi_pfanout = pf, mi_dfanout = df\<rparr>"
  have "mapping_ok (is_ingress cfg) info"
    using load_downstreams_bound [OF ds] small ing by (simp add: mapping_ok_def info_def)
  then have "mappings_ok (cfg\<lparr>mapping := AList.update service info (mapping cfg)\<rparr>)"
    using assms(2) alist_update_subset [of service info "mapping cfg"]
    by (auto simp: mappings_ok_def distinct_update)
  then show ?thesis unfolding cfg' info_def by simp
qed

text \<open>What the other stages leave alone.\<close>

lemma load_route_frame:
  "load_route y x cfg = Inr cfg' \<Longrightarrow> distinct (map fst (routing cfg)) \<Longrightarrow>
   distinct (map fst (routing cfg')) \<and> cfg' = cfg\<lparr>routing := routing cfg'\<rparr>"
  by (cases x) (auto simp: load_route_def distinct_update split: option.splits if_splits)

lemma load_routes_frame:
  assumes "foldR (load_route y) kvs cfg = Inr cfg'" "distinct (map fst (routing cfg))"
  shows "distinct (map fst (routing cfg')) \<and> cfg' = cfg\<lparr>routing := routing cfg'\<rparr>"
  using assms
proof (induction kvs arbitrary: cfg)
  case (Cons x kvs)
  then obtain c where c: "load_route y x cfg = Inr c" "foldR (load_route y) kvs c = Inr cfg'"
    by auto
  then show ?case
    using load_route_frame [OF c(1) Cons.prems(2)] Cons.IH [OF c(2)]
    by (metis config.surjective config.update_convs(10))
qed simp

lemma load_mappings_ok:
  assumes "foldR (load_mapping y) kvs cfg = Inr cfg'" "mappings_ok cfg"
  shows "mappings_ok cfg' \<and> cfg' = cfg\<lparr>mapping := mapping cfg'\<rparr>"
  using assms
proof (induction kvs arbitrary: cfg)
  case (Cons x kvs)
  then obtain c where c: "load_mapping y x cfg = Inr c" "foldR (load_mapping y) kvs c = Inr cfg'"
    by auto
  have "c = cfg\<lparr>mapping := mapping c\<rparr>"
    using c(1) by (cases x) (auto simp: load_mapping_def split: if_splits)
  then show ?case
    using load_mapping_ok [OF c(1) Cons.prems(2)] Cons.IH [OF c(2)]
    by (metis config.surjective config.update_convs(11))
qed simp

lemma reorder_keys:
  assumes "set (f (map fst kvs)) \<subseteq> set (map fst kvs)"
  shows "map fst (reorder f kvs) = f (map fst kvs)"
proof -
  have "map fst (concat (map (\<lambda>k. case map_of kvs k of None \<Rightarrow> [] | Some v \<Rightarrow> [(k, v)]) ks)) = ks"
    if "set ks \<subseteq> set (map fst kvs)" for ks
    using that
  proof (induction ks)
    case (Cons k ks)
    then have "map_of kvs k \<noteq> None" by (auto simp: map_of_eq_None_iff)
    then show ?case using Cons by auto
  qed simp
  then show ?thesis using assms by (simp add: reorder_def)
qed

lemma reorder_subset: "set (reorder f kvs) \<subseteq> set kvs"
  by (auto simp: reorder_def split: option.splits dest: map_of_SomeD [OF sym] map_of_SomeD)

lemma load_sections_ok:
  assumes r: "load_section t (load_route y) n cfg = Inr c" "routing cfg = []"
    and m: "load_section t' (load_mapping y) n' c = Inr c'" "mapping cfg = []"
  shows "distinct (map fst (routing c'))" "mappings_ok c'" "c' = cfg\<lparr>routing := routing c', mapping := mapping c'\<rparr>"
proof -
  have R: "distinct (map fst (routing c)) \<and> c = cfg\<lparr>routing := routing c\<rparr>"
    using r load_routes_frame [of y _ cfg c] by (auto simp: load_section_def split: option.splits yaml.splits)
  then have "mapping c = []"
    using m(2) by (metis config.select_convs(11) config.surjective config.update_convs(10))
  then have M: "mappings_ok c' \<and> c' = c\<lparr>mapping := mapping c'\<rparr>"
    using m(1) load_mappings_ok [of y _ c c'] by (auto simp: load_section_def mappings_ok_def split: option.splits yaml.splits)
  show "mappings_ok c'" using M by simp
  show "distinct (map fst (routing c'))"
    using R M by (metis config.select_convs(10) config.surjective config.update_convs(11))
  show "c' = cfg\<lparr>routing := routing c', mapping := mapping c'\<rparr>"
    using R M by (metis config.surjective config.update_convs(10,11) config.select_convs(10))
qed

lemma load_basic_maps: "load_basic y n = Inr c \<Longrightarrow> routing c = [] \<and> mapping c = []"
  by (auto simp: load_basic_def default_config_def)

lemma load_limits_ok: "load_limits y n c = Inr c' \<Longrightarrow>
   limits_ok c' \<and> is_ingress c' = is_ingress c \<and> routing c' = routing c \<and> mapping c' = mapping c"
  by (auto simp: load_limits_def limits_ok_def share_ok_checked split: if_splits)

lemma nan_passes:
  assumes "\<not> is_ingress cfg" "child n ''over_commitment'' = Some (Scalar s)" "conv_float y s = Some NaN"
    and "child n ''cpu_count'' = Some (Scalar c)" "conv_int y c = Some cpus" "1 \<le> cpus"
    and "\<forall>key\<in>{''extra_limit'', ''aimd_err_d'', ''aimd_err_i'', ''aimd_adj_d'', ''aimd_adj_i'', ''safe_multiply''}. child n key = None"
  shows "\<exists>cfg'. load_limits y n cfg = Inr cfg' \<and> over_commitment cfg' = Some NaN"
  using assms by (simp add: load_limits_def as_node_def as_or_def)

definition pools_ok :: "config \<Rightarrow> bool" where
  "pools_ok c \<longleftrightarrow> (is_ingress c \<longrightarrow> ingress_pool_connections c \<noteq> None) \<and>
     (is_frontend c \<longrightarrow> frontend_pool_connections c \<noteq> None)"

lemma load_pools_ok: "load_pools y n c = Inr c' \<Longrightarrow>
   pools_ok c' \<and> limits_ok c' = limits_ok c \<and> is_ingress c' = is_ingress c \<and> routing c' = routing c \<and> mapping c' = mapping c"
  by (auto simp: load_pools_def pools_ok_def limits_ok_def split: if_splits)

lemma load_config_stages:
  assumes "load_config ho old y doc = Inr cfg"
  obtains c where "distinct (map fst (routing c))" "mappings_ok c" "limits_ok c" "pools_ok c"
    "is_ingress c \<or> num_threads c \<le> 1" "is_ingress old \<Longrightarrow> num_threads c = int (length (mapping c))"
    "cfg = c\<lparr>routing := reorder ho (routing c), mapping := reorder ho (mapping c)\<rparr>"
proof -
  obtain n c1 c2 c3 c4 c where
      1: "load_basic y n = Inr c1" and 2: "load_limits y n c1 = Inr c2" and 3: "load_pools y n c2 = Inr c3"
      and 4: "load_section ''Routing section is not a map'' (load_route y) (child n ''routing'') c3 = Inr c4"
      and 5: "load_section ''Mapping section is not a map'' (load_mapping y) (child n ''mapping'') c4 = Inr c"
      and 6: "\<not> (is_ingress old \<and> num_threads c \<noteq> int (length (mapping c)))" "\<not> (num_threads c > 1 \<and> \<not> is_ingress c)"
      and 7: "cfg = c\<lparr>routing := reorder ho (routing c), mapping := reorder ho (mapping c)\<rparr>"
    using assms by (auto simp: load_config_def split: if_splits option.splits)
  have P: "pools_ok c3 \<and> limits_ok c3 \<and> routing c3 = [] \<and> mapping c3 = []"
    using load_basic_maps [OF 1] load_limits_ok [OF 2] load_pools_ok [OF 3] by simp
  note S = load_sections_ok [OF 4 _ 5]
  have eq: "c = c3\<lparr>routing := routing c, mapping := mapping c\<rparr>" using S(3) P by simp
  have "limits_ok c" by (subst eq) (use P in \<open>simp add: limits_ok_def\<close>)
  moreover have "pools_ok c" by (subst eq) (use P in \<open>simp add: pools_ok_def\<close>)
  ultimately show ?thesis using that [of c] S P 6 7 by auto
qed

text \<open>
  C35: every configuration that load_config accepts is consistent. Keys are unique. The number of downstream
  services of a hosted service fits the 8-bit counters of the parallel fan-out and, for a dynamic fan-out, the
  queue of 10; for an ingress it is 1 and no fan-out is set. A node that is not an ingress has an
  over-commitment between 0 and 1 or one that is no number (.nan passes the check), at least one CPU and at most
  one thread; the pool sizes that the constructor of State reads are set. If main's checks pass too, every thread of an ingress finds its service.
\<close>

theorem accepted_config_consistent:
  assumes "load_config hash_order old y doc = Inr cfg"
    and "\<And>ks. distinct ks \<Longrightarrow> distinct (hash_order ks) \<and> set (hash_order ks) = set ks"
  shows "distinct (get_downstream_services cfg) \<and> distinct (get_hosted_services cfg) \<and>
    (\<forall>(_, info)\<in>set (mapping cfg). mapping_ok (is_ingress cfg) info \<and>
       unat (of_nat (length (mi_downstreams info)) :: 8 word) = length (mi_downstreams info)) \<and>
    limits_ok cfg \<and> pools_ok cfg \<and> (is_ingress cfg \<or> num_threads cfg \<le> 1) \<and>
    (check_main cfg = Inr () \<longrightarrow>
      (\<forall>i<length (mapping cfg). \<exists>s. thread_service cfg i = Inr s \<and> (is_ingress cfg \<longrightarrow> s \<in> fst ` set (routing cfg))))"
proof -
  obtain c where c: "distinct (map fst (routing c))" "mappings_ok c" "limits_ok c" "pools_ok c"
      "is_ingress c \<or> num_threads c \<le> 1"
      and cfg: "cfg = c\<lparr>routing := reorder hash_order (routing c), mapping := reorder hash_order (mapping c)\<rparr>"
    using load_config_stages [OF assms(1)] by metis
  have dm: "distinct (map fst (mapping c))" using c(2) by (simp add: mappings_ok_def)
  have keys: "get_downstream_services cfg = hash_order (map fst (routing c))"
      "get_hosted_services cfg = hash_order (map fst (mapping c))"
    using assms(2) [OF c(1)] assms(2) [OF dm]
    by (simp_all add: cfg get_downstream_services_def get_hosted_services_def reorder_keys)
  have sub: "set (mapping cfg) \<subseteq> set (mapping c)" by (simp add: cfg reorder_subset)
  have infos: "mapping_ok (is_ingress cfg) info \<and>
       unat (of_nat (length (mi_downstreams info)) :: 8 word) = length (mi_downstreams info)"
    if "(s, info) \<in> set (mapping cfg)" for s info
  proof -
    have "mapping_ok (is_ingress cfg) info" using c(2) sub that by (auto simp: cfg mappings_ok_def)
    moreover from this have "length (mi_downstreams info) < 256" by (simp add: mapping_ok_def)
    ultimately show ?thesis by (simp add: unat_of_nat)
  qed
  have thread: "\<exists>s. thread_service cfg i = Inr s \<and> (is_ingress cfg \<longrightarrow> s \<in> fst ` set (routing cfg))"
    if "check_main cfg = Inr ()" "i < length (mapping cfg)" for i
    using that by (cases "is_ingress cfg")
      (auto simp: check_main_def thread_service_def Let_def get_downstream_services_def get_hosted_services_def
        intro!: nth_mem [of i "map fst (routing cfg)", simplified] split: if_splits)
  show ?thesis
    using c keys infos thread assms(2) [OF c(1)] assms(2) [OF dm]
    by (auto simp: limits_ok_def pools_ok_def cfg)
qed

text \<open>A small document, with one-digit numbers.\<close>

definition digit_conv :: yaml_conv where
  "digit_conv =
     (let digit = (\<lambda>s. case s of [c] \<Rightarrow> Some (of_char c - 48 :: nat) | _ \<Rightarrow> None) in
      \<lparr>conv_null = ''null'', conv_nat = digit, conv_int = (\<lambda>s. map_option int (digit s)),
        conv_u16 = (\<lambda>s. map_option of_nat (digit s)),
        conv_bool = (\<lambda>s. if s = ''true'' then Some True else if s = ''false'' then Some False else None),
        conv_float = (\<lambda>s. map_option (\<lambda>d. Finite (real d)) (digit s))\<rparr>)"

definition ingress_document :: yaml where
  "ingress_document = YMap
     [(''ring_size'', Scalar ''8''), (''buffer_count'', Scalar ''8''), (''buffer_size'', Scalar ''9''),
      (''num_threads'', Scalar ''1''), (''egress_listener_port'', Scalar ''1''), (''ingress_listener_port'', Scalar ''2''),
      (''ingress_upstream_host'', Scalar ''h''), (''ingress_upstream_port'', Scalar ''3''), (''name'', Scalar ''n''),
      (''is_ingress'', Scalar ''true''), (''ingress_pool_connections'', Scalar ''4''),
      (''routing'', YMap [(''a'', YMap [(''upstream'', YMap [(''host'', Scalar ''h''), (''port'', Scalar ''5'')]), (''slo'', Scalar ''7'')])]),
      (''mapping'', YMap [(''a'', YMap [(''downstreams'', Sequence [Scalar ''a'']), (''listen_port'', Scalar ''6'')])])]"

definition ingress_config :: config where
  "ingress_config = default_config\<lparr>ring_size := 8, buffer_count := 8, buffer_size := 9, num_threads := 1,
     egress_listener_port := 1, ingress_listener_port := 2, ingress_upstream_host := ''h'', ingress_upstream_port := 3,
     cfg_name := ''n'', is_ingress := True, ingress_pool_connections := Some 4,
     routing := [(''a'', \<lparr>re_upstream = \<lparr>up_host = ''h'', up_port = 5\<rparr>, re_slo = Some 7, re_priority = None\<rparr>)],
     mapping := [(''a'', \<lparr>mi_downstreams = [''a''], mi_listen_port = Some 6, mi_pfanout = None, mi_dfanout = None\<rparr>)]\<rparr>"

lemma ingress_document_loads:
  "load_config (\<lambda>ks. ks) default_config digit_conv (Some ingress_document) = Inr ingress_config"
  by code_simp

theorem accepted_config_consistent_witness:
  "limits_ok ingress_config \<and> pools_ok ingress_config \<and> (\<exists>s. thread_service ingress_config 0 = Inr s)"
proof -
  note c = accepted_config_consistent [OF ingress_document_loads, simplified]
  have "check_main ingress_config = Inr ()" "0 < length (mapping ingress_config)"
    by (simp_all add: check_main_def ingress_config_def get_hosted_services_def get_downstream_services_def)
  then show ?thesis using c by blast
qed

end
