(* ===== verification/Tdigest.thy ===== *)
theory Tdigest
  imports Prelude "HOL-Library.Multiset"
begin

text \<open>
  The t-digest of src/tdigest.c, a sketch of a distribution in a fixed array of weighted means, and the class
  TDigest of include/stats.h around it. Values of type double are real numbers, NAN is \<open>None\<close>. The array
  \<open>nodes\<close> behind the struct is a list of \<open>cap\<close> nodes; a write behind it is undefined. The C library does not
  say how qsort orders equal elements, so the sorting function is an argument.
\<close>

section \<open>The histogram\<close>

record node =
  nd_mean :: real
  nd_count :: real

record histogram =
  td_compression :: real
  td_cap :: nat
  td_merged_nodes :: nat
  td_unmerged_nodes :: nat
  td_merged_count :: real
  td_unmerged_count :: real
  td_nodes :: "node list"

definition zero_node :: node where
  "zero_node = \<lparr>nd_mean = 0, nd_count = 0\<rparr>"

definition M_PI :: real where
  "M_PI = 314159265358979323846 / 100000000000000000000"

definition is_very_small :: "real \<Rightarrow> bool" where
  "is_very_small v \<longleftrightarrow> \<not> (v > 1 / 1000000000 \<or> v < - (1 / 1000000000))"

definition cap_from_compression :: "real \<Rightarrow> int" where
  "cap_from_compression compression = 6 * trunc compression + 10"

definition should_merge :: "histogram \<Rightarrow> bool" where
  "should_merge h \<longleftrightarrow> td_merged_nodes h + td_unmerged_nodes h = td_cap h"

definition next_node :: "histogram \<Rightarrow> nat" where
  "next_node h = td_merged_nodes h + td_unmerged_nodes h"

text \<open>The sizes of the two structs on a 64-bit platform.\<close>

definition sizeof_histogram :: nat where "sizeof_histogram = 40"
definition sizeof_node :: nat where "sizeof_node = 16"

definition td_required_buf_size :: "real \<Rightarrow> nat" where
  "td_required_buf_size compression = sizeof_histogram + nat (cap_from_compression compression) * sizeof_node"

definition td_init :: "real \<Rightarrow> nat \<Rightarrow> histogram" where
  "td_init compression buf_size =
     (let cap = (buf_size - sizeof_histogram) div sizeof_node
      in \<lparr>td_compression = compression, td_cap = cap, td_merged_nodes = 0, td_unmerged_nodes = 0,
          td_merged_count = 0, td_unmerged_count = 0, td_nodes = replicate cap zero_node\<rparr>)"

definition td_new :: "real \<Rightarrow> histogram" where
  "td_new compression = td_init compression (td_required_buf_size compression)"

definition td_reset :: "histogram \<Rightarrow> histogram" where
  "td_reset h = h\<lparr>td_nodes := replicate (td_cap h) zero_node, td_merged_nodes := 0, td_merged_count := 0,
     td_unmerged_nodes := 0, td_unmerged_count := 0\<rparr>"

definition td_total_count :: "histogram \<Rightarrow> real" where
  "td_total_count h = td_merged_count h + td_unmerged_count h"

definition td_total_sum :: "histogram \<Rightarrow> real" where
  "td_total_sum h = (\<Sum>n\<leftarrow>take (next_node h) (td_nodes h). nd_mean n * nd_count n)"

section \<open>Merging\<close>

definition compare_nodes :: "node \<Rightarrow> node \<Rightarrow> int" where
  "compare_nodes n1 n2 = (if nd_mean n1 < nd_mean n2 then -1 else if nd_mean n1 > nd_mean n2 then 1 else 0)"

text \<open>What the C standard says of qsort with this comparison.\<close>

definition sorts_nodes :: "(node list \<Rightarrow> node list) \<Rightarrow> bool" where
  "sorts_nodes qs \<longleftrightarrow> (\<forall>ns. mset (qs ns) = mset ns \<and> sorted_wrt (\<lambda>a b. compare_nodes a b \<le> 0) (qs ns))"

definition should_add :: "real \<Rightarrow> real \<Rightarrow> real \<Rightarrow> real \<Rightarrow> bool" where
  "should_add normalizer weight so_far proposed =
     (let z = proposed * normalizer; q0 = so_far / weight; q2 = (so_far + proposed) / weight
      in z \<le> q0 * (1 - q0) \<and> z \<le> q2 * (1 - q2))"

definition absorb :: "node \<Rightarrow> node \<Rightarrow> node" where
  "absorb n x =
     (let c = nd_count n + nd_count x; delta = nd_mean x - nd_mean n; weighted = (delta * nd_count x) / c
      in \<lparr>nd_mean = nd_mean n + weighted, nd_count = c\<rparr>)"

definition merge_step :: "real \<Rightarrow> real \<Rightarrow> nat \<Rightarrow> node list \<times> nat \<times> real \<Rightarrow> node list \<times> nat \<times> real" where
  "merge_step normalizer weight i = (\<lambda>(ns, cur, so_far).
     let (ns', cur', so_far') =
           (if should_add normalizer weight so_far (nd_count (ns ! cur) + nd_count (ns ! i))
            then (ns[cur := absorb (ns ! cur) (ns ! i)], cur, so_far)
            else (ns[Suc cur := ns ! i], Suc cur, so_far + nd_count (ns ! cur)))
     in (if cur' \<noteq> i then ns'[i := zero_node] else ns', cur', so_far'))"

definition merge_nodes :: "(node list \<Rightarrow> node list) \<Rightarrow> histogram \<Rightarrow> histogram" where
  "merge_nodes qs h =
     (if td_unmerged_nodes h = 0 then h
      else
        let n = td_merged_nodes h + td_unmerged_nodes h;
            ns = qs (take n (td_nodes h)) @ drop n (td_nodes h);
            weight = td_merged_count h + td_unmerged_count h;
            denom = 2 * M_PI * weight * ln weight;
            normalizer = td_compression h / denom;
            (ns', cur, _) = fold (merge_step normalizer weight) [1..<n] (ns, 0, 0)
        in h\<lparr>td_nodes := ns', td_merged_nodes := cur + 1, td_merged_count := weight, td_unmerged_nodes := 0,
             td_unmerged_count := 0\<rparr>)"

definition td_add :: "(node list \<Rightarrow> node list) \<Rightarrow> real \<Rightarrow> real \<Rightarrow> histogram \<Rightarrow> histogram result" where
  "td_add qs m c h0 =
     (let h = (if should_merge h0 then merge_nodes qs h0 else h0)
      in if next_node h < length (td_nodes h)
         then Inr (h\<lparr>td_nodes := (td_nodes h)[next_node h := \<lparr>nd_mean = m, nd_count = c\<rparr>],
                     td_unmerged_nodes := td_unmerged_nodes h + 1, td_unmerged_count := td_unmerged_count h + c\<rparr>)
         else Inl (Undefined ''write behind the nodes''))"

text \<open>The class TDigest adds every value once, to a digest of compression 200.\<close>

definition tdigest_construct :: histogram where
  "tdigest_construct = td_new 200"

definition tdigest_add :: "(node list \<Rightarrow> node list) \<Rightarrow> int \<Rightarrow> histogram \<Rightarrow> histogram result" where
  "tdigest_add qs v h = td_add qs (real_of_int v) 1 h"

text \<open>Both arguments are merged, then the nodes of the second are added to the first. They are two objects.\<close>

definition td_merge :: "(node list \<Rightarrow> node list) \<Rightarrow> histogram \<Rightarrow> histogram \<Rightarrow> (histogram \<times> histogram) result" where
  "td_merge qs into from0 =
     (let from' = merge_nodes qs from0
      in bindR (foldR (\<lambda>n h. td_add qs (nd_mean n) (nd_count n) h) (take (td_merged_nodes from') (td_nodes from'))
           (merge_nodes qs into)) (\<lambda>into'. Inr (into', from')))"

definition td_decay :: "(node list \<Rightarrow> node list) \<Rightarrow> real \<Rightarrow> histogram \<Rightarrow> histogram" where
  "td_decay qs factor h0 =
     (let h = merge_nodes qs h0; m = td_merged_nodes h
      in h\<lparr>td_unmerged_count := td_unmerged_count h * factor, td_merged_count := td_merged_count h * factor,
           td_nodes := map (\<lambda>n. n\<lparr>nd_count := nd_count n * factor\<rparr>) (take m (td_nodes h)) @ drop m (td_nodes h)\<rparr>)"

section \<open>Queries\<close>

text \<open>The loops that look for a node: its index and the weight in front of it.\<close>

fun loop_below :: "real \<Rightarrow> node list \<Rightarrow> nat \<Rightarrow> real \<Rightarrow> nat \<times> real" where
  "loop_below v [] i k = (i, k)"
| "loop_below v (n # ns) i k = (if nd_mean n \<ge> v then (i, k) else loop_below v ns (Suc i) (k + nd_count n))"

fun loop_goal :: "real \<Rightarrow> node list \<Rightarrow> nat \<Rightarrow> real \<Rightarrow> nat \<times> real" where
  "loop_goal goal [] i k = (i, k)"
| "loop_goal goal (n # ns) i k = (if k + nd_count n > goal then (i, k) else loop_goal goal ns (Suc i) (k + nd_count n))"

definition td_quantile_of :: "(node list \<Rightarrow> node list) \<Rightarrow> real \<Rightarrow> histogram \<Rightarrow> real option \<times> histogram" where
  "td_quantile_of qs v h0 =
     (let h = merge_nodes qs h0; m = td_merged_nodes h; ns = take m (td_nodes h) in
      (if m = 0 then None
       else
         let (i, k) = loop_below v ns 0 0; n = ns ! min i (m - 1) in
         if v = nd_mean n then
           Some ((k + (nd_count n + (\<Sum>x\<leftarrow>takeWhile (\<lambda>x. nd_mean x = nd_mean n) (drop (i + 1) ns). nd_count x)) / 2) / td_merged_count h)
         else if v > nd_mean n then Some 1
         else if i = 0 then Some 0
         else
           let nl = ns ! (i - 1); k' = k - nd_count nl / 2;
               slope = (nd_mean n - nd_mean nl) / (nd_count nl / 2 + nd_count n / 2); x = (v - nd_mean nl) / slope
           in Some ((k' + x) / td_merged_count h), h))"

definition td_value_at :: "(node list \<Rightarrow> node list) \<Rightarrow> real \<Rightarrow> histogram \<Rightarrow> real option \<times> histogram" where
  "td_value_at qs q h0 =
     (let h = merge_nodes qs h0; m = td_merged_nodes h; ns = take m (td_nodes h) in
      (if q < 0 \<or> q > 1 \<or> m = 0 then None
       else
         let goal = q * td_merged_count h; (i, k) = loop_goal goal ns 0 0; n = ns ! min i (m - 1);
             delta_k = goal - k - nd_count n / 2 in
         if is_very_small delta_k then Some (nd_mean n)
         else
           let right = delta_k > 0 in
           if right \<and> i + 1 = m \<or> \<not> right \<and> i = 0 then Some (nd_mean n)
           else
             let nl = (if right then n else ns ! (i - 1)); nr = (if right then ns ! (i + 1) else n);
                 k' = (if right then k + nd_count nl / 2 else k - nd_count nl / 2);
                 x = goal - k'; slope = (nd_mean nr - nd_mean nl) / (nd_count nl / 2 + nd_count nr / 2)
             in Some (slope * x + nd_mean nl), h))"

definition tdigest_get_quantile :: "(node list \<Rightarrow> node list) \<Rightarrow> real \<Rightarrow> histogram \<Rightarrow> real \<times> histogram" where
  "tdigest_get_quantile qs q h = (let (v, h') = td_value_at qs q h in (case v of None \<Rightarrow> 0 | Some x \<Rightarrow> x, h'))"

text \<open>The loop of the trimmed mean: the weight of the nodes before the one at hand, and the sum so far.\<close>

fun trimmed_loop :: "real \<Rightarrow> real \<Rightarrow> node list \<Rightarrow> real \<Rightarrow> real \<Rightarrow> real" where
  "trimmed_loop lo_count hi_count [] seen acc = acc"
| "trimmed_loop lo_count hi_count (n # ns) seen acc =
     (if nd_count n < lo_count then trimmed_loop lo_count hi_count ns (seen + nd_count n) acc
      else if seen > hi_count then acc
      else
        let left = (if seen < lo_count then lo_count else seen);
            right = (if seen + nd_count n > hi_count then hi_count else seen + nd_count n)
        in trimmed_loop lo_count hi_count ns (seen + nd_count n) (acc + nd_mean n * (right - left)))"

definition td_trimmed_mean :: "(node list \<Rightarrow> node list) \<Rightarrow> real \<Rightarrow> real \<Rightarrow> histogram \<Rightarrow> real \<times> histogram" where
  "td_trimmed_mean qs lo hi h0 =
     (let h = (if should_merge h0 then merge_nodes qs h0 else h0); weight = td_merged_count h;
          weighted = trimmed_loop (lo * weight) (hi * weight) (take (td_merged_nodes h) (td_nodes h)) 0 0
      in (weighted / (weight * (hi - lo)), h))"

end
