(* ===== verification/Tdigest_Correct.thy ===== *)
theory Tdigest_Correct
  imports Tdigest
begin

text \<open>
  The t-digest never writes behind its fixed array, loses no weight and answers inside the range of its values.
  The loop of merge works in place; it is first shown to compute a function on lists, whose result is then
  bounded: two neighbours that were not joined lie so far apart on the scale \<open>ln (q / (1 - q))\<close> that only few
  fit on it.
\<close>

section \<open>The loop as a function on lists\<close>

fun merge_list :: "real \<Rightarrow> real \<Rightarrow> real \<Rightarrow> node \<Rightarrow> node list \<Rightarrow> node list" where
  "merge_list nz w so cur [] = [cur]"
| "merge_list nz w so cur (x # xs) =
     (if should_add nz w so (nd_count cur + nd_count x) then merge_list nz w so (absorb cur x) xs
      else cur # merge_list nz w (so + nd_count cur) x xs)"

lemma fold_merge_step:
  assumes "cur < i" "i \<le> n" "n \<le> length ns"
  shows "\<exists>ns' cur' so'. fold (merge_step nz w) [i..<n] (ns, cur, so) = (ns', cur', so') \<and> length ns' = length ns \<and> cur' < n \<and>
    take (Suc cur') ns' = take cur ns @ merge_list nz w so (ns ! cur) (drop i (take n ns))"
  using assms
proof (induction "n - i" arbitrary: i ns cur so)
  case 0
  then show ?case by (simp add: take_Suc_conv_app_nth)
next
  case (Suc d)
  then have i: "i < n" "[i..<n] = i # [Suc i..<n]" "drop i (take n ns) = ns ! i # drop (Suc i) (take n ns)"
    by (auto simp: upt_conv_Cons Cons_nth_drop_Suc [symmetric])
  obtain ns1 cur1 so1 where s: "merge_step nz w i (ns, cur, so) = (ns1, cur1, so1)" by (metis prod_cases3)
  have d: "drop (Suc i) (take n ns1) = drop (Suc i) (take n ns)"
    using s Suc.prems(1) by (auto simp: merge_step_def Let_def drop_take split: if_splits)
  have k: "length ns1 = length ns" "cur1 < Suc i"
      "take cur1 ns1 @ merge_list nz w so1 (ns1 ! cur1) (drop (Suc i) (take n ns)) =
       take cur ns @ merge_list nz w so (ns ! cur) (drop i (take n ns))"
    using s i(1) Suc.prems unfolding i(3)
    by (auto simp: merge_step_def Let_def take_Suc_conv_app_nth nth_list_update split: if_splits)
  show ?case using Suc.hyps(1) [of "Suc i" cur1 ns1 so1] Suc.hyps(2) Suc.prems i k d by (simp add: s)
qed

section \<open>Weight, moment and range\<close>

definition weight_of :: "node list \<Rightarrow> real" where
  "weight_of ns = (\<Sum>n\<leftarrow>ns. nd_count n)"

definition moment_of :: "node list \<Rightarrow> real" where
  "moment_of ns = (\<Sum>n\<leftarrow>ns. nd_mean n * nd_count n)"

definition node_ok :: "real \<Rightarrow> real \<Rightarrow> node \<Rightarrow> bool" where
  "node_ok lo hi n \<longleftrightarrow> 1 \<le> nd_count n \<and> lo \<le> nd_mean n \<and> nd_mean n \<le> hi"

lemma sums_simps [simp]:
  "weight_of [] = 0" "weight_of (n # ns) = nd_count n + weight_of ns" "weight_of (ns @ ms) = weight_of ns + weight_of ms"
  "moment_of [] = 0" "moment_of (n # ns) = nd_mean n * nd_count n + moment_of ns" "moment_of (ns @ ms) = moment_of ns + moment_of ms"
  by (simp_all add: weight_of_def moment_of_def)

lemma sums_mset:
  assumes "mset ns = mset ms"
  shows "weight_of ns = weight_of ms" "moment_of ns = moment_of ms"
  using assms by (metis weight_of_def mset_map sum_mset_sum_list) (metis assms moment_of_def mset_map sum_mset_sum_list)

lemma weight_ge_length: "\<forall>n\<in>set ns. node_ok lo hi n \<Longrightarrow> real (length ns) \<le> weight_of ns"
  by (induction ns) (auto simp: node_ok_def)

text \<open>A point between two others, as the code computes it.\<close>

lemma between:
  fixes a b t :: real
  assumes "lo \<le> a" "a \<le> hi" "lo \<le> b" "b \<le> hi" "0 \<le> t" "t \<le> 1"
  shows "lo \<le> a + (b - a) * t \<and> a + (b - a) * t \<le> hi"
proof -
  have e: "a + (b - a) * t = (1 - t) * a + t * b" by (simp add: algebra_simps)
  have "(1 - t) * lo + t * lo \<le> (1 - t) * a + t * b" "(1 - t) * a + t * b \<le> (1 - t) * hi + t * hi"
    using assms by (intro add_mono mult_left_mono; simp)+
  then show ?thesis by (simp add: e algebra_simps)
qed

lemma absorb_ok:
  assumes "node_ok lo hi n" "node_ok lo hi x"
  shows "node_ok lo hi (absorb n x)" "nd_count (absorb n x) = nd_count n + nd_count x"
    "nd_mean (absorb n x) * nd_count (absorb n x) = nd_mean n * nd_count n + nd_mean x * nd_count x"
proof -
  let ?t = "nd_count x / (nd_count n + nd_count x)"
  have c: "1 \<le> nd_count n" "1 \<le> nd_count x" using assms by (auto simp: node_ok_def)
  have "0 \<le> ?t" "?t \<le> 1" using c by simp_all
  then have "lo \<le> nd_mean n + (nd_mean x - nd_mean n) * ?t \<and> nd_mean n + (nd_mean x - nd_mean n) * ?t \<le> hi"
    using assms by (intro between) (auto simp: node_ok_def)
  then show "node_ok lo hi (absorb n x)" using c by (simp add: node_ok_def absorb_def Let_def)
  show "nd_count (absorb n x) = nd_count n + nd_count x" by (simp add: absorb_def Let_def)
  show "nd_mean (absorb n x) * nd_count (absorb n x) = nd_mean n * nd_count n + nd_mean x * nd_count x"
    using c by (simp add: absorb_def Let_def field_simps)
qed

lemma merge_list_ok:
  assumes "node_ok lo hi cur" "\<forall>n\<in>set xs. node_ok lo hi n"
  shows "(\<forall>n\<in>set (merge_list nz w so cur xs). node_ok lo hi n) \<and>
    weight_of (merge_list nz w so cur xs) = nd_count cur + weight_of xs \<and>
    moment_of (merge_list nz w so cur xs) = nd_mean cur * nd_count cur + moment_of xs"
  using assms
proof (induction xs arbitrary: cur so)
  case (Cons x xs)
  then have k: "node_ok lo hi cur" "node_ok lo hi x" "\<forall>n\<in>set xs. node_ok lo hi n" by simp_all
  show ?case
  proof (cases "should_add nz w so (nd_count cur + nd_count x)")
    case True
    then show ?thesis using Cons.IH [of "absorb cur x" so, OF absorb_ok(1) [OF k(1,2)] k(3)] absorb_ok(2,3) [OF k(1,2)] by simp
  next
    case False
    then show ?thesis using Cons.IH [of x "so + nd_count cur", OF k(2,3)] k(1) by simp
  qed
qed simp

section \<open>How many nodes a merge leaves\<close>

text \<open>Each node is followed by one that did not fit: with the first part \<open>p\<close> of both it was too heavy for its place.\<close>

fun spaced :: "real \<Rightarrow> real \<Rightarrow> real \<Rightarrow> node list \<Rightarrow> bool" where
  "spaced nz w so (a # b # ns) \<longleftrightarrow>
     (\<exists>p>0. p \<le> nd_count a + nd_count b \<and> \<not> should_add nz w so p) \<and> spaced nz w (so + nd_count a) (b # ns)"
| "spaced nz w so _ \<longleftrightarrow> True"

lemma merge_list_head:
  assumes "node_ok lo hi cur" "\<forall>n\<in>set xs. node_ok lo hi n"
  shows "\<exists>n ns. merge_list nz w so cur xs = n # ns \<and> nd_count cur \<le> nd_count n"
  using assms
proof (induction xs arbitrary: cur)
  case (Cons x xs)
  have "node_ok lo hi (absorb cur x)" "nd_count cur \<le> nd_count (absorb cur x)"
    using Cons.prems absorb_ok by (auto simp: node_ok_def)
  then show ?case using Cons.IH [of "absorb cur x"] Cons.prems by (auto intro: order_trans)
qed simp

lemma merge_list_spaced:
  assumes "node_ok lo hi cur" "\<forall>n\<in>set xs. node_ok lo hi n"
  shows "spaced nz w so (merge_list nz w so cur xs)"
  using assms
proof (induction xs arbitrary: cur so)
  case (Cons x xs)
  show ?case
  proof (cases "should_add nz w so (nd_count cur + nd_count x)")
    case True
    then show ?thesis using Cons.IH [of "absorb cur x" so] Cons.prems absorb_ok(1) by simp
  next
    case False
    obtain n ns where h: "merge_list nz w (so + nd_count cur) x xs = n # ns" "nd_count x \<le> nd_count n"
      using merge_list_head Cons.prems by (metis list.set_intros)
    have "spaced nz w (so + nd_count cur) (n # ns)" using Cons.IH [of x "so + nd_count cur"] Cons.prems h(1) by simp
    moreover have "nd_count cur + nd_count x > 0" using Cons.prems by (auto simp: node_ok_def)
    ultimately show ?thesis using False h by (auto intro!: exI [of _ "nd_count cur + nd_count x"])
  qed
qed simp

text \<open>The place of a weight on the scale on which neighbours keep their distance.\<close>

definition scale :: "real \<Rightarrow> real \<Rightarrow> real" where
  "scale w a = ln (a / (w - a))"

lemma scale_mono: "0 < a \<Longrightarrow> a \<le> b \<Longrightarrow> b < w \<Longrightarrow> scale w a \<le> scale w b"
  unfolding scale_def by (intro ln_mono frac_le divide_pos_pos) auto

lemma scale_gap:
  assumes "0 < a" "0 < p" "a + p < w" "0 < K" "\<not> should_add (K / w) w a p"
  shows "scale w a + ln (1 + 1 / K) \<le> scale w (a + p)"
proof -
  let ?b = "a + p"
  have w: "0 < w" "0 < w - a" "0 < w - ?b" using assms by auto
  have "a * (w - ?b) \<le> K * (w * p)"
  proof -
    have f: "p * K / w > a / w * (1 - a / w) \<or> p * K / w > ?b / w * (1 - ?b / w)"
      using assms(5) by (auto simp: should_add_def Let_def not_le)
    then have "p * K * w > a * (w - a) \<or> p * K * w > ?b * (w - ?b)"
    proof -
      have "x / w * (1 - x / w) < p * K / w \<longleftrightarrow> x * (w - x) < p * K * w" for x
      proof -
        have "x / w * (1 - x / w) * (w * w) = x * (w - x)" "p * K / w * (w * w) = p * K * w" using w(1) by (simp_all add: field_simps)
        then show ?thesis by (metis mult_less_cancel_right_pos mult_pos_pos w(1))
      qed
      then show ?thesis using f by simp
    qed
    moreover have "a * (w - ?b) \<le> a * (w - a)" "a * (w - ?b) \<le> ?b * (w - ?b)"
      using assms(1,2) w by (auto intro: mult_left_mono mult_right_mono)
    ultimately show ?thesis by (auto simp: mult_ac)
  qed
  moreover have "D \<le> K * X \<Longrightarrow> 0 < D \<Longrightarrow> 1 / K \<le> X / D" for D X :: real using assms(4) by (simp add: field_simps)
  ultimately have "1 / K \<le> w * p / (a * (w - ?b))" using assms(1) w by simp
  moreover have "1 + w * p / (a * (w - ?b)) = (?b / (w - ?b)) / (a / (w - a))"
  proof -
    have "1 + w * p / (a * (w - ?b)) = (a * (w - ?b) + w * p) / (a * (w - ?b))" using assms(1) w by (simp add: add_divide_distrib)
    also have "a * (w - ?b) + w * p = ?b * (w - a)" by (simp add: algebra_simps)
    finally show ?thesis by (simp add: mult.commute)
  qed
  ultimately have "ln (1 + 1 / K) \<le> ln ((?b / (w - ?b)) / (a / (w - a)))"
    using assms(4) by (intro ln_mono) (auto simp: add_pos_pos)
  also have "\<dots> = scale w ?b - scale w a" using assms(1,2) w by (simp add: scale_def ln_div ln_mult)
  finally show ?thesis by simp
qed

text \<open>Every second node is a gap further on the scale.\<close>

lemma spaced_length:
  assumes "spaced (K / w) w so ns" "0 < K" "0 < so" "so + weight_of ns = w" "\<forall>n\<in>set ns. node_ok lo hi n" "ns \<noteq> []"
  shows "(real (length ns) - 2) * ln (1 + 1 / K) \<le> 2 * (scale w (w - 1) - scale w so)"
  using assms
proof (induction ns arbitrary: so rule: induct_list012)
  case (3 a b ns)
  let ?g = "ln (1 + 1 / K)"
  have ab: "1 \<le> nd_count a" "1 \<le> nd_count b" and ok: "\<forall>n\<in>set ns. node_ok lo hi n"
    using "3.prems"(5) by (auto simp: node_ok_def)
  have g: "0 \<le> ?g" using "3.prems"(2) by simp
  show ?case
  proof (cases ns)
    case Nil
    then have "so \<le> w - 1" using ab "3.prems"(4) by simp
    then show ?thesis using scale_mono [of so "w - 1" w] "3.prems"(3) Nil by simp
  next
    case (Cons c cs)
    let ?s = "so + nd_count a + nd_count b"
    obtain p where p: "0 < p" "p \<le> nd_count a + nd_count b" "\<not> should_add (K / w) w so p"
      and sp: "spaced (K / w) w ?s ns"
      using "3.prems"(1) Cons by auto
    have s: "?s + weight_of ns = w" "0 < ?s" using "3.prems"(3,4) ab by simp_all
    have lt: "?s < w" using weight_ge_length [OF ok] s(1) Cons by simp
    have "scale w so + ?g \<le> scale w (so + p)" using "3.prems"(2,3) p lt by (intro scale_gap) auto
    also have "\<dots> \<le> scale w ?s" using "3.prems"(3) p lt by (intro scale_mono) auto
    finally have "scale w so + ?g \<le> scale w ?s" .
    moreover have "(real (length ns) - 2) * ?g \<le> 2 * (scale w (w - 1) - scale w ?s)"
      using "3.IH"(1) [OF sp "3.prems"(2) s(2,1) ok] Cons by simp
    ultimately show ?thesis by (simp add: algebra_simps)
  qed
next
  case (2 a)
  then have so: "so \<le> w - 1" "0 < so" and g: "0 \<le> ln (1 + 1 / K)" by (auto simp: node_ok_def)
  have "real (length [a]) - 2 = - 1" by simp
  then show ?case using scale_mono [OF so(2,1), of w] g by simp
qed simp

lemma gap_bound:
  fixes K :: real
  assumes "0 < K"
  shows "1 / (K + 1) \<le> ln (1 + 1 / K)"
proof -
  have p: "0 < 1 + 1 / K" using assms by (simp add: add_pos_pos)
  then have "ln (1 / (1 + 1 / K)) \<le> 1 / (1 + 1 / K) - 1" by (intro ln_le_minus_one) simp
  moreover have "1 / (1 + 1 / K) = 1 - 1 / (K + 1)" using assms by (simp add: field_simps)
  moreover have "ln (1 / (1 + 1 / K)) = - ln (1 + 1 / K)" using p by (simp add: ln_div)
  ultimately show ?thesis by simp
qed

text \<open>The number of nodes after a merge of total weight \<open>w\<close>.\<close>

lemma merge_list_length:
  assumes "node_ok lo hi cur" "\<forall>n\<in>set xs. node_ok lo hi n" "nd_count cur + weight_of xs = w" "0 < \<delta>"
  shows "real (length (merge_list (\<delta> / (2 * M_PI * w * ln w)) w 0 cur xs)) \<le> 3 + 4 * ln w + \<delta>"
proof -
  let ?ns = "merge_list (\<delta> / (2 * M_PI * w * ln w)) w 0 cur xs"
  let ?K = "\<delta> / (2 * M_PI * ln w)"
  have sp: "spaced (?K / w) w 0 ?ns" using merge_list_spaced [OF assms(1,2)] by (simp add: mult_ac)
  have ok: "\<forall>n\<in>set ?ns. node_ok lo hi n" "weight_of ?ns = w"
    using merge_list_ok [OF assms(1,2)] assms(3) by auto
  obtain a ns where ns: "?ns = a # ns" using merge_list_head [OF assms(1,2)] by blast
  show ?thesis
  proof (cases "ns = []")
    case True
    have "1 \<le> w" using ok ns True by (auto simp: node_ok_def)
    then show ?thesis using ns True assms(4) by simp
  next
    case False
    let ?a = "nd_count a" and ?g = "ln (1 + 1 / ?K)"
    have a: "1 \<le> ?a" "\<forall>n\<in>set ns. node_ok lo hi n" "?a + weight_of ns = w" using ok ns by (auto simp: node_ok_def)
    have w: "2 \<le> w" "?a \<le> w - 1" using weight_ge_length [OF a(2)] a(1,3) False by (cases ns; simp)+
    then have l: "0 < ln w" by simp
    then have K: "0 < ?K" using assms(4) by (simp add: M_PI_def)
    have "spaced (?K / w) w ?a ns" using sp ns False by (cases ns) simp_all
    then have "(real (length ns) - 2) * ?g \<le> 2 * (scale w (w - 1) - scale w ?a)"
      using a by (intro spaced_length [OF _ K _ a(3,2) False]) auto
    also have "\<dots> \<le> 2 * (scale w (w - 1) - scale w 1)" using scale_mono [of 1 ?a w] a(1) w by simp
    also have "\<dots> = 4 * ln (w - 1)" using w(1) by (simp add: scale_def ln_div)
    also have "\<dots> \<le> 4 * ln w" using w(1) by simp
    finally have b: "(real (length ns) - 2) * ?g \<le> 4 * ln w" .
    have g: "1 / (?K + 1) \<le> ?g" using K by (rule gap_bound)
    have "real (length ns) - 2 \<le> 4 * ln w * (?K + 1)"
    proof (cases "real (length ns) \<le> 2")
      case False
      then have "(real (length ns) - 2) * (1 / (?K + 1)) \<le> 4 * ln w"
        using b mult_left_mono [OF g, of "real (length ns) - 2"] by linarith
      then show ?thesis using K by (simp add: pos_divide_le_eq)
    next
      case True
      have "0 \<le> 4 * ln w * (?K + 1)" using K l by (intro mult_nonneg_nonneg) linarith+
      then show ?thesis using True by linarith
    qed
    also have "\<dots> = 4 * ln w + 2 * \<delta> / M_PI" using l by (simp add: field_simps M_PI_def)
    also have "\<dots> \<le> 4 * ln w + \<delta>" using assms(4) by (simp add: M_PI_def)
    finally show ?thesis using ns by simp
  qed
qed

section \<open>Operations\<close>

definition td_ok :: "real \<Rightarrow> real \<Rightarrow> histogram \<Rightarrow> bool" where
  "td_ok lo hi h \<longleftrightarrow> 0 < td_compression h \<and> td_cap h = nat (cap_from_compression (td_compression h)) \<and>
     length (td_nodes h) = td_cap h \<and> td_merged_nodes h < td_cap h \<and> next_node h \<le> td_cap h \<and>
     (\<forall>n\<in>set (take (next_node h) (td_nodes h)). node_ok lo hi n) \<and>
     td_merged_count h = weight_of (take (td_merged_nodes h) (td_nodes h)) \<and>
     td_total_count h = weight_of (take (next_node h) (td_nodes h))"

text \<open>Up to this weight, far above what a double can count, a merge frees a place.\<close>

definition weight_fits :: "histogram \<Rightarrow> bool" where
  "weight_fits h \<longleftrightarrow> 4 * ln (td_total_count h) \<le> 5 * td_compression h"

lemma total_sum_moment: "td_total_sum h = moment_of (take (next_node h) (td_nodes h))"
  by (simp add: td_total_sum_def moment_of_def)

lemma cap_above:
  assumes "0 < c" "4 * l \<le> 5 * c"
  shows "3 + 4 * l + c < real (nat (cap_from_compression c))"
  using assms by (simp add: cap_from_compression_def trunc_def) linarith

lemma merge_nodes_ok:
  assumes "td_ok lo hi h" "weight_fits h" "sorts_nodes qs"
  shows "td_ok lo hi (merge_nodes qs h) \<and> td_unmerged_nodes (merge_nodes qs h) = 0 \<and>
    td_total_count (merge_nodes qs h) = td_total_count h \<and> td_total_sum (merge_nodes qs h) = td_total_sum h \<and>
    td_compression (merge_nodes qs h) = td_compression h"
proof (cases "td_unmerged_nodes h = 0")
  case False
  let ?n = "next_node h" and ?w = "td_total_count h"
  let ?s = "qs (take ?n (td_nodes h))"
  let ?ns = "?s @ drop ?n (td_nodes h)"
  have n: "1 \<le> ?n" "?n \<le> length (td_nodes h)" using False assms(1) by (auto simp: next_node_def td_ok_def)
  have m: "mset ?s = mset (take ?n (td_nodes h))" using assms(3) by (simp add: sorts_nodes_def)
  have len: "length ?s = ?n" using n(2) mset_eq_length [OF m] by simp
  obtain x xs where x: "?s = x # xs" using len n(1) by (cases ?s) auto
  have ok: "node_ok lo hi x" "\<forall>n\<in>set xs. node_ok lo hi n" and w: "nd_count x + weight_of xs = ?w"
    and mom: "nd_mean x * nd_count x + moment_of xs = td_total_sum h"
    using assms(1) mset_eq_setD [OF m] sums_mset [OF m] x by (auto simp: td_ok_def total_sum_moment)
  let ?nz = "td_compression h / (2 * M_PI * ?w * ln ?w)"
  let ?out = "merge_list ?nz ?w 0 x xs"
  have "take ?n ?ns = x # xs" using len x by (metis append_eq_conv_conj)
  then have e: "?ns ! 0 = x" "drop 1 (take ?n ?ns) = xs" "length ?ns = td_cap h"
    using len x n(2) assms(1) by (auto simp: td_ok_def)
  obtain ns' cur so where f: "fold (merge_step ?nz ?w) [1..<?n] (?ns, 0, 0) = (ns', cur, so)" "length ns' = td_cap h"
      "take (Suc cur) ns' = ?out"
    using fold_merge_step [of 0 1 ?n ?ns ?nz ?w 0] n e assms(1) unfolding e by (auto simp: td_ok_def)
  have h': "merge_nodes qs h = h\<lparr>td_nodes := ns', td_merged_nodes := cur + 1, td_merged_count := ?w, td_unmerged_nodes := 0,
      td_unmerged_count := 0\<rparr>"
    using False f(1) by (simp add: merge_nodes_def Let_def next_node_def td_total_count_def)
  have out: "\<forall>n\<in>set ?out. node_ok lo hi n" "weight_of ?out = ?w" "moment_of ?out = td_total_sum h"
    using merge_list_ok [OF ok] w mom by auto
  have "real (length ?out) \<le> 3 + 4 * ln ?w + td_compression h"
    using assms(1) by (intro merge_list_length [OF ok w]) (simp add: td_ok_def)
  also have "\<dots> < real (td_cap h)" using assms(1,2) cap_above by (simp add: td_ok_def weight_fits_def)
  finally have "length ?out < td_cap h" by simp
  moreover have "length ?out = min (Suc cur) (td_cap h)" using f(2,3) by (metis length_take min.commute)
  ultimately have "Suc cur < td_cap h" by simp
  then show ?thesis using assms(1) f(2,3) out
    by (simp add: h' td_ok_def next_node_def total_sum_moment td_total_count_def)
qed (use assms in \<open>simp add: merge_nodes_def\<close>)

lemma td_add_ok:
  assumes "td_ok lo hi h0" "weight_fits h0" "sorts_nodes qs" "lo \<le> m" "m \<le> hi" "1 \<le> c"
  shows "\<exists>h. td_add qs m c h0 = Inr h \<and> td_ok lo hi h \<and> td_total_count h = td_total_count h0 + c \<and>
    td_total_sum h = td_total_sum h0 + m * c \<and> td_compression h = td_compression h0"
proof -
  obtain h where h: "h = (if should_merge h0 then merge_nodes qs h0 else h0)" by simp
  have k: "td_ok lo hi h" "next_node h < td_cap h" "td_total_count h = td_total_count h0" "td_total_sum h = td_total_sum h0"
      "td_compression h = td_compression h0"
    using merge_nodes_ok [OF assms(1-3)] assms(1) h
    by (auto simp: td_ok_def should_merge_def next_node_def split: if_splits)
  let ?h = "h\<lparr>td_nodes := (td_nodes h)[next_node h := \<lparr>nd_mean = m, nd_count = c\<rparr>],
    td_unmerged_nodes := td_unmerged_nodes h + 1, td_unmerged_count := td_unmerged_count h + c\<rparr>"
  have t: "take (next_node ?h) (td_nodes ?h) = take (next_node h) (td_nodes h) @ [\<lparr>nd_mean = m, nd_count = c\<rparr>]"
    using k(1,2) by (simp add: next_node_def td_ok_def take_Suc_conv_app_nth)
  have "td_add qs m c h0 = Inr ?h" using k(1,2) by (simp add: td_add_def h [symmetric] td_ok_def)
  moreover have "td_ok lo hi ?h" using k(1,2) t assms(4-6)
    by (auto simp: td_ok_def next_node_def node_ok_def td_total_count_def)
  ultimately show ?thesis using k t by (auto simp: total_sum_moment td_total_count_def)
qed

section \<open>Queries\<close>

lemma loop_goal_found:
  assumes "loop_goal g ns i0 k0 = (i, k)"
  obtains j where "i = i0 + j" "j \<le> length ns" "k = k0 + weight_of (take j ns)"
    "j < length ns \<Longrightarrow> g < k + nd_count (ns ! j)" "0 < j \<Longrightarrow> k \<le> g"
proof -
  have "\<exists>j. i = i0 + j \<and> j \<le> length ns \<and> k = k0 + weight_of (take j ns) \<and>
      (j < length ns \<longrightarrow> g < k + nd_count (ns ! j)) \<and> (0 < j \<longrightarrow> k \<le> g)"
    using assms
  proof (induction g ns i0 k0 rule: loop_goal.induct)
    case (2 g n ns i0 k0)
    show ?case
    proof (cases "k0 + nd_count n > g")
      case False
      then obtain j where j: "i = Suc i0 + j" "j \<le> length ns" "k = k0 + nd_count n + weight_of (take j ns)"
          "j < length ns \<longrightarrow> g < k + nd_count (ns ! j)" "0 < j \<longrightarrow> k \<le> g"
        using 2 by auto
      then show ?thesis using False by (cases j) (auto intro!: exI [of _ "Suc j"])
    qed (use 2 in auto)
  qed simp
  then show ?thesis using that by blast
qed

lemma loop_below_found:
  assumes "loop_below v ns i0 k0 = (i, k)"
  obtains j where "i = i0 + j" "j \<le> length ns" "k = k0 + weight_of (take j ns)"
    "j < length ns \<Longrightarrow> v \<le> nd_mean (ns ! j)" "0 < j \<Longrightarrow> nd_mean (ns ! (j - 1)) < v"
proof -
  have "\<exists>j. i = i0 + j \<and> j \<le> length ns \<and> k = k0 + weight_of (take j ns) \<and>
      (j < length ns \<longrightarrow> v \<le> nd_mean (ns ! j)) \<and> (0 < j \<longrightarrow> nd_mean (ns ! (j - 1)) < v)"
    using assms
  proof (induction v ns i0 k0 rule: loop_below.induct)
    case (2 v n ns i0 k0)
    show ?case
    proof (cases "nd_mean n \<ge> v")
      case False
      then obtain j where j: "i = Suc i0 + j" "j \<le> length ns" "k = k0 + nd_count n + weight_of (take j ns)"
          "j < length ns \<longrightarrow> v \<le> nd_mean (ns ! j)" "0 < j \<longrightarrow> nd_mean (ns ! (j - 1)) < v"
        using 2 by auto
      then show ?thesis using False by (cases j) (auto intro!: exI [of _ "Suc j"])
    qed (use 2 in auto)
  qed simp
  then show ?thesis using that by blast
qed

text \<open>The line between two nodes stays between them when the position does.\<close>

lemma on_line:
  fixes a b c x :: real
  assumes "lo \<le> a" "a \<le> hi" "lo \<le> b" "b \<le> hi" "0 \<le> x" "x \<le> c" "0 < c"
  shows "lo \<le> (b - a) / c * x + a \<and> (b - a) / c * x + a \<le> hi"
  using between [of lo a hi b "x / c"] assms by (simp add: add.commute)

lemma td_value_in_range:
  assumes "td_ok lo hi h" "weight_fits h" "sorts_nodes qs" "td_total_count h > 0" "0 \<le> q" "q \<le> 1"
  shows "\<exists>x. fst (td_value_at qs q h) = Some x \<and> lo \<le> x \<and> x \<le> hi"
proof -
  obtain g where g: "g = merge_nodes qs h" by simp
  have ok: "td_ok lo hi g" "td_unmerged_nodes g = 0" "td_total_count g = td_total_count h"
    using merge_nodes_ok [OF assms(1-3)] g by auto
  let ?m = "td_merged_nodes g" and ?ns = "take (td_merged_nodes g) (td_nodes g)"
  have m: "length ?ns = ?m" "\<forall>n\<in>set ?ns. node_ok lo hi n" "td_merged_count g = weight_of ?ns"
    using ok(1,2) by (auto simp: td_ok_def next_node_def)
  then have nd: "node_ok lo hi (?ns ! i)" if "i < ?m" for i using that by (metis nth_mem)
  have "weight_of ?ns = td_total_count g" using ok(1,2) by (simp add: td_ok_def next_node_def)
  then have pos: "?m \<noteq> 0" using assms(4) ok(3) by (metis less_irrefl sums_simps(1) take0)
  let ?goal = "q * td_merged_count g"
  obtain i k where ik: "loop_goal ?goal ?ns 0 0 = (i, k)" by fastforce
  then have i: "i \<le> ?m" "k = weight_of (take i ?ns)" "i < ?m \<Longrightarrow> ?goal < k + nd_count (?ns ! i)" "0 < i \<Longrightarrow> k \<le> ?goal"
    by (elim loop_goal_found; use m(1) in simp)+
  let ?n = "?ns ! min i (?m - 1)"
  have n: "node_ok lo hi ?n" using pos by (intro nd) auto
  let ?d = "?goal - k - nd_count ?n / 2"
  have last: "?d \<le> 0" if "i = ?m"
  proof -
    have "k = td_merged_count g" using that i(2) m(1,3) by simp
    moreover have "?goal \<le> td_merged_count g"
      using assms(4,6) ok(3) m(3) \<open>weight_of ?ns = td_total_count g\<close> by (simp add: mult_left_le_one_le assms(5))
    ultimately show ?thesis using n by (simp add: node_ok_def)
  qed
  show ?thesis
  proof (cases "is_very_small ?d \<or> ?d > 0 \<and> i + 1 = ?m \<or> \<not> ?d > 0 \<and> i = 0")
    case True
    then show ?thesis using pos assms(5,6) n ik by (auto simp: td_value_at_def Let_def g [symmetric] node_ok_def)
  next
    case False
    let ?r = "?d > 0"
    let ?nl = "if ?r then ?n else ?ns ! (i - 1)" and ?nr = "if ?r then ?ns ! (i + 1) else ?n"
    let ?x = "?goal - (if ?r then k + nd_count ?nl / 2 else k - nd_count ?nl / 2)"
    have e: "fst (td_value_at qs q h) =
        Some ((nd_mean ?nr - nd_mean ?nl) / (nd_count ?nl / 2 + nd_count ?nr / 2) * ?x + nd_mean ?nl)"
      using False pos assms(5,6) ik by (auto simp: td_value_at_def Let_def g [symmetric])
    have lt: "i + 1 < ?m" if "?r" using that last i(1) False by fastforce
    have nl: "node_ok lo hi ?nl" using n nd [of "i - 1"] i(1) pos False by auto
    have nr: "node_ok lo hi ?nr" using n nd [of "i + 1"] lt by auto
    have x: "0 \<le> ?x \<and> ?x \<le> nd_count ?nl / 2 + nd_count ?nr / 2"
    proof (cases ?r)
      case True
      then have "?goal < k + nd_count ?n" "1 \<le> nd_count (?ns ! (i + 1))" using i(3) lt nd [of "i + 1"] by (auto simp: node_ok_def)
      then show ?thesis using True by simp
    next
      case r: False
      then have "k \<le> ?goal" "1 \<le> nd_count (?ns ! (i - 1))" using i(1,4) False pos nd [of "i - 1"] by (auto simp: node_ok_def)
      then show ?thesis using r by simp
    qed
    have "lo \<le> nd_mean ?nl" "nd_mean ?nl \<le> hi" "lo \<le> nd_mean ?nr" "nd_mean ?nr \<le> hi" "0 < nd_count ?nl / 2 + nd_count ?nr / 2"
      using nl nr unfolding node_ok_def by linarith+
    from on_line [OF this(1-4) conjunct1 [OF x] conjunct2 [OF x] this(5)] show ?thesis unfolding e by blast
  qed
qed

lemma weight_takeWhile: "\<forall>n\<in>set ns. node_ok lo hi n \<Longrightarrow> weight_of (takeWhile P ns) \<le> weight_of ns"
  using weight_ge_length by (induction ns) (fastforce simp: node_ok_def)+

lemma weight_split:
  assumes "i < length ns"
  shows "weight_of ns = weight_of (take i ns) + nd_count (ns ! i) + weight_of (drop (i + 1) ns)"
proof -
  have "weight_of ns = weight_of (take i ns @ ns ! i # drop (Suc i) ns)" using id_take_nth_drop [OF assms] by simp
  then show ?thesis by simp
qed

text \<open>A rank between two nodes is at most the distance of their middles.\<close>

lemma rank_on_line:
  fixes a b c v :: real
  assumes "a < v" "v < b" "0 < c"
  shows "0 \<le> (v - a) / ((b - a) / c)" "(v - a) / ((b - a) / c) \<le> c"
  using assms by (simp_all add: field_simps)

lemma td_quantile_in_unit:
  assumes "td_ok lo hi h" "weight_fits h" "sorts_nodes qs" "td_total_count h > 0"
  shows "\<exists>p. fst (td_quantile_of qs v h) = Some p \<and> 0 \<le> p \<and> p \<le> 1"
proof -
  obtain g where g: "g = merge_nodes qs h" by simp
  have ok: "td_ok lo hi g" "td_unmerged_nodes g = 0" "td_total_count g = td_total_count h"
    using merge_nodes_ok [OF assms(1-3)] g by auto
  let ?m = "td_merged_nodes g" and ?ns = "take (td_merged_nodes g) (td_nodes g)" and ?w = "td_merged_count g"
  have m: "length ?ns = ?m" "\<forall>n\<in>set ?ns. node_ok lo hi n" "?w = weight_of ?ns"
    using ok(1,2) by (auto simp: td_ok_def next_node_def)
  then have nd: "1 \<le> nd_count (?ns ! i)" if "i < ?m" for i using that by (metis node_ok_def nth_mem)
  have w: "?w = td_total_count g" using ok(1,2) m(3) by (simp add: td_ok_def next_node_def)
  then have pos: "?m \<noteq> 0" "0 < ?w" using assms(4) ok(3) m(3) by (metis less_irrefl sums_simps(1) take0) (simp add: assms(4) ok(3) w)
  have part: "0 \<le> weight_of ms" if "set ms \<subseteq> set ?ns" for ms
    using weight_ge_length [of ms lo hi] that m(2) by (metis of_nat_0_le_iff order_trans subsetD)
  obtain i k where ik: "loop_below v ?ns 0 0 = (i, k)" by fastforce
  then have i: "i \<le> ?m" "k = weight_of (take i ?ns)" "i < ?m \<Longrightarrow> v \<le> nd_mean (?ns ! i)" "0 < i \<Longrightarrow> nd_mean (?ns ! (i - 1)) < v"
    by (elim loop_below_found; use m(1) in simp)+
  let ?n = "?ns ! min i (?m - 1)"
  have lt: "i < ?m" if "v \<le> nd_mean ?n" using that i(1,4) pos(1) by (cases "i = ?m") auto
  have sp: "?w = k + nd_count ?n + weight_of (drop (i + 1) ?ns)" "1 \<le> nd_count ?n" "0 \<le> k" "0 \<le> weight_of (drop (i + 1) ?ns)"
    if "i < ?m"
  proof -
    have "?n = ?ns ! i" using that by (simp add: min_def)
    then show "?w = k + nd_count ?n + weight_of (drop (i + 1) ?ns)" "1 \<le> nd_count ?n"
      using weight_split [of i ?ns] nd [OF that] that i(2) m(1,3) by simp_all
    show "0 \<le> k" "0 \<le> weight_of (drop (i + 1) ?ns)" unfolding i(2) by (rule part, rule set_take_subset) (rule part, rule set_drop_subset)
  qed
  consider (eq) "v = nd_mean ?n" | (above) "v > nd_mean ?n" | (first) "v < nd_mean ?n" "i = 0" | (inner) "v < nd_mean ?n" "0 < i"
    by linarith
  then show ?thesis
  proof cases
    case eq
    let ?tw = "weight_of (takeWhile (\<lambda>x. nd_mean x = nd_mean ?n) (drop (i + 1) ?ns))"
    have "?tw \<le> weight_of (drop (i + 1) ?ns)" using m(2) by (intro weight_takeWhile) (auto dest: in_set_dropD)
    moreover have "0 \<le> ?tw" by (intro part) (auto dest!: set_takeWhileD in_set_dropD)
    ultimately have "0 \<le> k + (nd_count ?n + ?tw) / 2" "k + (nd_count ?n + ?tw) / 2 \<le> ?w" using sp lt eq by auto
    moreover have "fst (td_quantile_of qs v h) = Some ((k + (nd_count ?n + ?tw) / 2) / ?w)"
      using eq pos(1) ik by (simp add: td_quantile_of_def Let_def g [symmetric] weight_of_def)
    ultimately show ?thesis using pos(2) by simp
  next
    case inner
    let ?nl = "?ns ! (i - 1)" let ?c = "nd_count ?nl / 2 + nd_count ?n / 2"
    let ?x = "(v - nd_mean ?nl) / ((nd_mean ?n - nd_mean ?nl) / ?c)"
    have im: "i < ?m" using lt inner by simp
    have "k = weight_of (take (i - 1) ?ns) + nd_count ?nl"
      using weight_split [of "i - 1" "take i ?ns"] inner(2) im m(1) i(2) by simp
    moreover have "0 \<le> weight_of (take (i - 1) ?ns)" by (rule part, rule set_take_subset)
    ultimately have k: "nd_count ?nl \<le> k" by simp
    have c: "1 \<le> nd_count ?nl" using im by (intro nd) simp
    have "0 \<le> ?x" "?x \<le> ?c" using rank_on_line [OF i(4) [OF inner(2)] inner(1), of ?c] c sp(2) [OF im] by linarith+
    then have "0 \<le> k - nd_count ?nl / 2 + ?x" "k - nd_count ?nl / 2 + ?x \<le> ?w" using sp [OF im] k c by linarith+
    moreover have "fst (td_quantile_of qs v h) = Some ((k - nd_count ?nl / 2 + ?x) / ?w)"
      using inner pos(1) ik by (simp add: td_quantile_of_def Let_def g [symmetric])
    ultimately show ?thesis using pos(2) by simp
  qed (use pos(1) ik in \<open>auto simp: td_quantile_of_def Let_def g [symmetric]\<close>)
qed

section \<open>A digest filled from the beginning\<close>

lemma construct_ok: "td_ok lo hi tdigest_construct \<and> td_total_count tdigest_construct = 0 \<and>
    td_total_sum tdigest_construct = 0 \<and> td_compression tdigest_construct = 200"
  by (simp add: td_ok_def tdigest_construct_def td_new_def td_init_def td_required_buf_size_def sizeof_histogram_def sizeof_node_def
      cap_from_compression_def trunc_def next_node_def td_total_count_def td_total_sum_def Let_def)

lemma adds_ok:
  assumes "td_ok lo hi h0" "sorts_nodes qs" "td_compression h0 = 200" "td_total_count h0 + real (length vs) \<le> exp 250"
    "td_total_count h0 \<ge> 0" "\<forall>v\<in>set vs. lo \<le> real_of_int v \<and> real_of_int v \<le> hi"
  shows "\<exists>h. foldR (tdigest_add qs) vs h0 = Inr h \<and> td_ok lo hi h \<and> td_total_count h = td_total_count h0 + real (length vs) \<and>
    td_total_sum h = td_total_sum h0 + (\<Sum>v\<leftarrow>vs. real_of_int v) \<and> td_compression h = 200"
  using assms
proof (induction vs arbitrary: h0)
  case (Cons v vs)
  have "weight_fits h0"
  proof (cases "td_total_count h0 = 0")
    case False
    then have "ln (td_total_count h0) \<le> ln (exp 250)" using Cons.prems(4,5) by (intro ln_mono) auto
    then show ?thesis using Cons.prems(3) by (simp add: weight_fits_def)
  qed (use Cons.prems(3) in \<open>simp add: weight_fits_def\<close>)
  then obtain h where h: "tdigest_add qs v h0 = Inr h" "td_ok lo hi h" "td_total_count h = td_total_count h0 + 1"
      "td_total_sum h = td_total_sum h0 + real_of_int v" "td_compression h = 200"
    using td_add_ok [OF Cons.prems(1) _ Cons.prems(2), of "real_of_int v" 1] Cons.prems(3,6) by (auto simp: tdigest_add_def)
  show ?case using Cons.IH [OF h(2) Cons.prems(2) h(5)] Cons.prems(4-6) h by auto
qed simp

lemma sort_key_sorts: "sorts_nodes (sort_key nd_mean)"
proof -
  have "sorted_wrt (\<lambda>a b. compare_nodes a b \<le> 0) (sort_key nd_mean ns)" for ns
  proof -
    have "sorted_wrt (\<lambda>a b. nd_mean a \<le> nd_mean b) (sort_key nd_mean ns)"
      using sorted_sort_key [of nd_mean ns] by (simp only: sorted_map)
    then show ?thesis by (rule sorted_wrt_mono_rel [rotated]) (auto simp: compare_nodes_def)
  qed
  then show ?thesis by (simp add: sorts_nodes_def)
qed

lemma few_fit: "n \<le> 251 \<Longrightarrow> n \<le> exp (250 :: real)"
  using exp_ge_add_one_self [of 250] by simp

section \<open>Properties\<close>

text \<open>
  C39: the class TDigest never writes behind the 1210 nodes it allocates, whatever values are added in whatever
  order and however qsort orders equal means, for up to \<open>exp 250\<close> values: every merge of a full array frees a
  place. No value is lost: the total count is the number of the values and the total sum their sum.
\<close>

theorem digest_never_overflows:
  assumes "sorts_nodes qs" "real (length vs) \<le> exp 250"
  shows "\<exists>h. foldR (tdigest_add qs) vs tdigest_construct = Inr h \<and>
    td_merged_nodes h + td_unmerged_nodes h \<le> length (td_nodes h) \<and> length (td_nodes h) = 1210 \<and>
    td_total_count h = real (length vs) \<and> td_total_sum h = (\<Sum>v\<leftarrow>vs. real_of_int v)"
proof -
  let ?lo = "real_of_int (Min (insert 0 (set vs)))" and ?hi = "real_of_int (Max (insert 0 (set vs)))"
  have "\<forall>v\<in>set vs. ?lo \<le> real_of_int v \<and> real_of_int v \<le> ?hi" by auto
  then obtain h where "foldR (tdigest_add qs) vs tdigest_construct = Inr h" "td_ok ?lo ?hi h" "td_compression h = 200"
      "td_total_count h = real (length vs)" "td_total_sum h = (\<Sum>v\<leftarrow>vs. real_of_int v)"
    using adds_ok [of ?lo ?hi tdigest_construct qs vs] construct_ok [of ?lo ?hi] assms by auto
  then show ?thesis by (auto simp: td_ok_def next_node_def cap_from_compression_def trunc_def)
qed

theorem digest_never_overflows_witness:
  "\<exists>h. foldR (tdigest_add (sort_key nd_mean)) [7, 3, 7] tdigest_construct = Inr h \<and> td_total_count h = 3 \<and> td_total_sum h = 17"
  using digest_never_overflows [OF sort_key_sorts, of "[7, 3, 7]"] few_fit by auto

text \<open>
  C40: a filled digest answers sensibly, in the interpolated cases too: a quantile lies between bounds of the added
  values, and the quantile of any number is a probability.
\<close>

theorem digest_answers:
  assumes "sorts_nodes qs" "real (length vs) \<le> exp 250" "vs \<noteq> []" "foldR (tdigest_add qs) vs tdigest_construct = Inr h"
    and "\<forall>v\<in>set vs. lo \<le> real_of_int v \<and> real_of_int v \<le> hi" "0 \<le> q" "q \<le> 1"
  shows "lo \<le> fst (tdigest_get_quantile qs q h) \<and> fst (tdigest_get_quantile qs q h) \<le> hi \<and>
    (\<exists>p. fst (td_quantile_of qs v h) = Some p \<and> 0 \<le> p \<and> p \<le> 1)"
proof -
  have h: "td_ok lo hi h" "td_total_count h = real (length vs)" "td_compression h = 200"
    using adds_ok [of lo hi tdigest_construct qs vs] construct_ok [of lo hi] assms by auto
  have pos: "0 < td_total_count h" using assms(3) h(2) by simp
  have "ln (td_total_count h) \<le> ln (exp 250)" using assms(2) h(2) pos by (intro ln_mono) auto
  then have "weight_fits h" using h(3) by (simp add: weight_fits_def)
  from td_value_in_range [OF h(1) this assms(1) pos assms(6,7)] td_quantile_in_unit [OF h(1) this assms(1) pos] show ?thesis
    by (auto simp: tdigest_get_quantile_def split: prod.splits)
qed

theorem digest_answers_witness:
  "\<exists>h. foldR (tdigest_add (sort_key nd_mean)) [7, 3] tdigest_construct = Inr h \<and>
     3 \<le> fst (tdigest_get_quantile (sort_key nd_mean) (1 / 2) h) \<and> fst (tdigest_get_quantile (sort_key nd_mean) (1 / 2) h) \<le> 7"
proof -
  obtain h where h: "foldR (tdigest_add (sort_key nd_mean)) [7, 3] tdigest_construct = Inr h"
    using adds_ok [of 3 7 tdigest_construct "sort_key nd_mean" "[7, 3]"] construct_ok sort_key_sorts few_fit by auto
  from digest_answers [OF sort_key_sorts _ _ h, of 3 7 "1 / 2"] show ?thesis using h few_fit by auto
qed

end
