(* ===== verification/Chunked.thy ===== *)
theory Chunked
  imports Prelude
begin

text \<open>
  The decoder of chunked bodies (phr_decode_chunked in src/picohttpparser.c). The code rewrites its buffer in
  place: the decoded bytes move to the front, and the write position never passes the read position, so the
  bytes still to be read are the ones received. Here \<open>out\<close> is what stands in front of the write position and
  \<open>rest\<close> is what follows the read position. The decoder keeps its state between calls.
\<close>

datatype chunk_state = IN_CHUNK_SIZE | IN_CHUNK_EXT | IN_CHUNK_DATA | IN_CHUNK_CRLF | IN_TRAILERS_LINE_HEAD | IN_TRAILERS_LINE_MIDDLE

record chunked_decoder =
  bytes_left :: nat
  consume_trailer :: bool
  hex_count :: nat
  dec_state :: chunk_state
  total_read :: nat
  total_overhead :: nat

text \<open>The caller fills the decoder with zeros and may ask for the trailer to be consumed.\<close>

definition new_decoder :: "bool \<Rightarrow> chunked_decoder" where
  "new_decoder trailer = \<lparr>bytes_left = 0, consume_trailer = trailer, hex_count = 0, dec_state = IN_CHUNK_SIZE,
     total_read = 0, total_overhead = 0\<rparr>"

definition decode_hex :: "byte \<Rightarrow> nat option" where
  "decode_hex ch =
     (if 48 \<le> ch \<and> ch \<le> 57 then Some (unat ch - 48)
      else if 65 \<le> ch \<and> ch \<le> 70 then Some (unat ch - 65 + 10)
      else if 97 \<le> ch \<and> ch \<le> 102 then Some (unat ch - 97 + 10)
      else None)"

text \<open>The only characters that may follow a size.\<close>

definition after_size :: "byte \<Rightarrow> bool" where
  "after_size b \<longleftrightarrow> b = 32 \<or> b = 9 \<or> b = 59 \<or> b = 10 \<or> b = 13"

definition add_digit :: "nat \<Rightarrow> nat \<Rightarrow> nat" where
  "add_digit left v = (left * 16 + v) mod 2 ^ 64"

datatype verdict = Incomplete | Malformed | Complete

text \<open>The loop over the digits of a size: a verdict when the function is left, otherwise the position it goes on from.\<close>

fun chunk_size :: "chunked_decoder \<Rightarrow> byte list \<Rightarrow> verdict option \<times> chunked_decoder \<times> byte list" where
  "chunk_size d [] = (Some Incomplete, d, [])"
| "chunk_size d (b # bs) =
     (case decode_hex b of
        None \<Rightarrow>
          (if hex_count d = 0 then (Some Malformed, d, b # bs)
           else if after_size b then (None, d\<lparr>hex_count := 0, dec_state := IN_CHUNK_EXT\<rparr>, b # bs)
           else (Some Malformed, d, b # bs))
      | Some v \<Rightarrow>
          (if hex_count d = 16 then (Some Malformed, d, b # bs)
           else chunk_size (d\<lparr>bytes_left := add_digit (bytes_left d) v, hex_count := hex_count d + 1\<rparr>) bs))"

lemma chunk_size_shorter:
  "chunk_size d bs = (None, d', bs') \<Longrightarrow> length bs' \<le> length bs \<and> dec_state d' = IN_CHUNK_EXT"
  by (induction d bs rule: chunk_size.induct) (auto split: option.splits if_splits)

lemma dropWhile_shorter: "dropWhile P xs = y # ys \<Longrightarrow> length ys < length xs"
  by (metis length_Cons length_dropWhile_le less_eq_Suc_le)

text \<open>The switch in its loop. A case that falls through is a turn of its own.\<close>

definition state_rank :: "chunk_state \<Rightarrow> nat" where
  "state_rank st = (case st of IN_CHUNK_SIZE \<Rightarrow> 1 | IN_CHUNK_DATA \<Rightarrow> 1 | _ \<Rightarrow> 0)"

function decode_loop :: "chunked_decoder \<Rightarrow> byte list \<Rightarrow> byte list \<Rightarrow> chunked_decoder \<times> byte list \<times> byte list \<times> verdict" where
  "decode_loop d out rest =
     (case dec_state d of
        IN_CHUNK_SIZE \<Rightarrow>
          (case chunk_size d rest of
             (Some v, d', rest') \<Rightarrow> (d', out, rest', v)
           | (None, d', rest') \<Rightarrow> decode_loop d' out rest')
      | IN_CHUNK_EXT \<Rightarrow>
          (case dropWhile (\<lambda>b. b \<noteq> 10) rest of
             [] \<Rightarrow> (d, out, [], Incomplete)
           | _ # rest' \<Rightarrow>
               (if bytes_left d = 0 then
                  (if consume_trailer d then decode_loop (d\<lparr>dec_state := IN_TRAILERS_LINE_HEAD\<rparr>) out rest'
                   else (d, out, rest', Complete))
                else decode_loop (d\<lparr>dec_state := IN_CHUNK_DATA\<rparr>) out rest'))
      | IN_CHUNK_DATA \<Rightarrow>
          (if length rest < bytes_left d then (d\<lparr>bytes_left := bytes_left d - length rest\<rparr>, out @ rest, [], Incomplete)
           else decode_loop (d\<lparr>bytes_left := 0, dec_state := IN_CHUNK_CRLF\<rparr>) (out @ take (bytes_left d) rest) (drop (bytes_left d) rest))
      | IN_CHUNK_CRLF \<Rightarrow>
          (case dropWhile (\<lambda>b. b = 13) rest of
             [] \<Rightarrow> (d, out, [], Incomplete)
           | b # rest' \<Rightarrow>
               (if b \<noteq> 10 then (d, out, b # rest', Malformed)
                else decode_loop (d\<lparr>dec_state := IN_CHUNK_SIZE\<rparr>) out rest'))
      | IN_TRAILERS_LINE_HEAD \<Rightarrow>
          (case dropWhile (\<lambda>b. b = 13) rest of
             [] \<Rightarrow> (d, out, [], Incomplete)
           | b # rest' \<Rightarrow>
               (if b = 10 then (d, out, rest', Complete)
                else decode_loop (d\<lparr>dec_state := IN_TRAILERS_LINE_MIDDLE\<rparr>) out rest'))
      | IN_TRAILERS_LINE_MIDDLE \<Rightarrow>
          (case dropWhile (\<lambda>b. b \<noteq> 10) rest of
             [] \<Rightarrow> (d, out, [], Incomplete)
           | _ # rest' \<Rightarrow> decode_loop (d\<lparr>dec_state := IN_TRAILERS_LINE_HEAD\<rparr>) out rest'))"
  by auto

termination decode_loop
  by (relation "measures [\<lambda>(d, out, rest). length rest, \<lambda>(d, out, rest). state_rank (dec_state d)]")
    (auto simp: state_rank_def dest: chunk_size_shorter [OF sym] dropWhile_shorter)

declare decode_loop.simps [simp del]

text \<open>
  A call: the decoder afterwards, the buffer it leaves (the decoded bytes, then the unread ones), the new size and
  the result. After an incomplete call the share of the encoding in what was received is checked.
\<close>

definition phr_decode_chunked :: "chunked_decoder \<Rightarrow> byte list \<Rightarrow> chunked_decoder \<times> byte list \<times> nat \<times> int" where
  "phr_decode_chunked d buf =
     (let (d, out, rest, v) = decode_loop (d\<lparr>total_read := (total_read d + length buf) mod 2 ^ 64\<rparr>) [] buf in
      case v of
        Complete \<Rightarrow> (d, out @ rest, length out, int (length rest))
      | Malformed \<Rightarrow> (d, out @ rest, length out, -1)
      | Incomplete \<Rightarrow>
          (let d = d\<lparr>total_overhead := (total_overhead d + (length buf - length out)) mod 2 ^ 64\<rparr>;
               saved = nat ((int (total_read d) - int (total_overhead d)) mod 2 ^ 64)
           in (d, out @ rest, length out,
               if total_overhead d \<ge> 100 * 1024 \<and> saved < total_read d div 4 then -1 else -2)))"

definition phr_decode_chunked_is_in_data :: "chunked_decoder \<Rightarrow> bool" where
  "phr_decode_chunked_is_in_data d \<longleftrightarrow> dec_state d = IN_CHUNK_DATA"

end
