(* ===== verification/Chunked_Correct.thy ===== *)
theory Chunked_Correct
  imports Chunked
begin

text \<open>
  The decoder of chunked bodies undoes the encoding, however the encoded bytes are cut into the buffers of
  several calls.
\<close>

section \<open>Input that arrives in pieces\<close>

lemma chunk_size_incomplete:
  "chunk_size d xs = (Some Incomplete, d', r) \<Longrightarrow> r = [] \<and> dec_state d' = dec_state d \<and> chunk_size d (xs @ ys) = chunk_size d' ys"
  by (induction d xs rule: chunk_size.induct) (auto split: option.splits if_splits)

lemma chunk_size_decided:
  "chunk_size d xs = (v, d', r) \<Longrightarrow> v \<noteq> Some Incomplete \<Longrightarrow> chunk_size d (xs @ ys) = (v, d', r @ ys)"
  by (induction d xs rule: chunk_size.induct) (auto split: option.splits if_splits)

lemma dropWhile_pieces:
  "dropWhile P xs = [] \<Longrightarrow> dropWhile P (xs @ ys) = dropWhile P ys"
  "dropWhile P xs = z # zs \<Longrightarrow> dropWhile P (xs @ ys) = z # zs @ ys"
  by (induction xs) (auto split: if_splits)

text \<open>One equation per state.\<close>

lemma decode_size:
  "dec_state d = IN_CHUNK_SIZE \<Longrightarrow> chunk_size d rest = (v, d', rest') \<Longrightarrow>
   decode_loop d out rest = (case v of Some v \<Rightarrow> (d', out, rest', v) | None \<Rightarrow> decode_loop d' out rest')"
  by (subst decode_loop.simps) (simp split: option.splits)

lemma decode_ext:
  "dec_state d = IN_CHUNK_EXT \<Longrightarrow> dropWhile (\<lambda>b. b \<noteq> 10) rest = [] \<Longrightarrow> decode_loop d out rest = (d, out, [], Incomplete)"
  "dec_state d = IN_CHUNK_EXT \<Longrightarrow> dropWhile (\<lambda>b. b \<noteq> 10) rest = z # zs \<Longrightarrow> decode_loop d out rest =
     (if bytes_left d = 0 then if consume_trailer d then decode_loop (d\<lparr>dec_state := IN_TRAILERS_LINE_HEAD\<rparr>) out zs else (d, out, zs, Complete)
      else decode_loop (d\<lparr>dec_state := IN_CHUNK_DATA\<rparr>) out zs)"
  by (simp_all add: decode_loop.simps [of d] del: dropWhile_eq_Nil_conv)

lemma decode_data:
  "dec_state d = IN_CHUNK_DATA \<Longrightarrow> decode_loop d out rest =
     (if length rest < bytes_left d then (d\<lparr>bytes_left := bytes_left d - length rest\<rparr>, out @ rest, [], Incomplete)
      else decode_loop (d\<lparr>bytes_left := 0, dec_state := IN_CHUNK_CRLF\<rparr>) (out @ take (bytes_left d) rest) (drop (bytes_left d) rest))"
  by (subst decode_loop.simps) simp

lemma decode_crlf:
  "dec_state d = IN_CHUNK_CRLF \<Longrightarrow> dropWhile (\<lambda>b. b = 13) rest = [] \<Longrightarrow> decode_loop d out rest = (d, out, [], Incomplete)"
  "dec_state d = IN_CHUNK_CRLF \<Longrightarrow> dropWhile (\<lambda>b. b = 13) rest = z # zs \<Longrightarrow> decode_loop d out rest =
     (if z \<noteq> 10 then (d, out, z # zs, Malformed) else decode_loop (d\<lparr>dec_state := IN_CHUNK_SIZE\<rparr>) out zs)"
  by (simp_all add: decode_loop.simps [of d] del: dropWhile_eq_Nil_conv)

lemma decode_head:
  "dec_state d = IN_TRAILERS_LINE_HEAD \<Longrightarrow> dropWhile (\<lambda>b. b = 13) rest = [] \<Longrightarrow> decode_loop d out rest = (d, out, [], Incomplete)"
  "dec_state d = IN_TRAILERS_LINE_HEAD \<Longrightarrow> dropWhile (\<lambda>b. b = 13) rest = z # zs \<Longrightarrow> decode_loop d out rest =
     (if z = 10 then (d, out, zs, Complete) else decode_loop (d\<lparr>dec_state := IN_TRAILERS_LINE_MIDDLE\<rparr>) out zs)"
  by (simp_all add: decode_loop.simps [of d] del: dropWhile_eq_Nil_conv)

lemma decode_middle:
  "dec_state d = IN_TRAILERS_LINE_MIDDLE \<Longrightarrow> dropWhile (\<lambda>b. b \<noteq> 10) rest = [] \<Longrightarrow> decode_loop d out rest = (d, out, [], Incomplete)"
  "dec_state d = IN_TRAILERS_LINE_MIDDLE \<Longrightarrow> dropWhile (\<lambda>b. b \<noteq> 10) rest = z # zs \<Longrightarrow> decode_loop d out rest =
     decode_loop (d\<lparr>dec_state := IN_TRAILERS_LINE_HEAD\<rparr>) out zs"
  by (simp_all add: decode_loop.simps [of d] del: dropWhile_eq_Nil_conv)

lemmas decode_eqs = decode_ext decode_data decode_crlf decode_head decode_middle

text \<open>
  Induction over the turns of the loop: what holds of the turns that leave it, and is passed back by the others,
  holds always.
\<close>

lemma decode_induct [case_names size ext data crlf head middle]:
  assumes "\<And>d out xs. dec_state d = IN_CHUNK_SIZE \<Longrightarrow>
      (\<And>d' r. chunk_size d xs = (None, d', r) \<Longrightarrow> P d' out r) \<Longrightarrow> P d out xs"
    and "\<And>d out xs. dec_state d = IN_CHUNK_EXT \<Longrightarrow>
      (\<And>z zs st. dropWhile (\<lambda>b. b \<noteq> 10) xs = z # zs \<Longrightarrow> P (d\<lparr>dec_state := st\<rparr>) out zs) \<Longrightarrow> P d out xs"
    and "\<And>d out xs. dec_state d = IN_CHUNK_DATA \<Longrightarrow>
      (bytes_left d \<le> length xs \<Longrightarrow>
        P (d\<lparr>bytes_left := 0, dec_state := IN_CHUNK_CRLF\<rparr>) (out @ take (bytes_left d) xs) (drop (bytes_left d) xs)) \<Longrightarrow> P d out xs"
    and "\<And>d out xs. dec_state d = IN_CHUNK_CRLF \<Longrightarrow>
      (\<And>z zs st. dropWhile (\<lambda>b. b = 13) xs = z # zs \<Longrightarrow> P (d\<lparr>dec_state := st\<rparr>) out zs) \<Longrightarrow> P d out xs"
    and "\<And>d out xs. dec_state d = IN_TRAILERS_LINE_HEAD \<Longrightarrow>
      (\<And>z zs st. dropWhile (\<lambda>b. b = 13) xs = z # zs \<Longrightarrow> P (d\<lparr>dec_state := st\<rparr>) out zs) \<Longrightarrow> P d out xs"
    and "\<And>d out xs. dec_state d = IN_TRAILERS_LINE_MIDDLE \<Longrightarrow>
      (\<And>z zs st. dropWhile (\<lambda>b. b \<noteq> 10) xs = z # zs \<Longrightarrow> P (d\<lparr>dec_state := st\<rparr>) out zs) \<Longrightarrow> P d out xs"
  shows "P d out xs"
proof (induction "2 * length xs + state_rank (dec_state d)" arbitrary: d out xs rule: less_induct)
  case less
  have shorter: "P e o' ys" if "length ys < length xs" for e o' ys
    using that by (intro less) (simp add: state_rank_def split: chunk_state.splits)
  have later: "P e o' ys" if "length ys \<le> length xs" "state_rank (dec_state e) < state_rank (dec_state d)" for e o' ys
    using that by (intro less) simp
  show ?case
  proof (cases "dec_state d")
    case IN_CHUNK_SIZE
    then show ?thesis by (rule assms(1)) (rule later, auto dest!: chunk_size_shorter simp: state_rank_def IN_CHUNK_SIZE)
  next
    case IN_CHUNK_EXT
    then show ?thesis by (rule assms(2)) (rule shorter, erule dropWhile_shorter)
  next
    case IN_CHUNK_DATA
    then show ?thesis by (rule assms(3)) (rule later, auto simp: state_rank_def IN_CHUNK_DATA)
  next
    case IN_CHUNK_CRLF
    then show ?thesis by (rule assms(4)) (rule shorter, erule dropWhile_shorter)
  next
    case IN_TRAILERS_LINE_HEAD
    then show ?thesis by (rule assms(5)) (rule shorter, erule dropWhile_shorter)
  next
    case IN_TRAILERS_LINE_MIDDLE
    then show ?thesis by (rule assms(6)) (rule shorter, erule dropWhile_shorter)
  qed
qed

lemma decode_data_enough:
  assumes "dec_state d = IN_CHUNK_DATA" "bytes_left d \<le> length xs"
  shows "decode_loop d out xs = decode_loop (d\<lparr>bytes_left := 0, dec_state := IN_CHUNK_CRLF\<rparr>) (out @ take (bytes_left d) xs) (drop (bytes_left d) xs)"
    and "decode_loop d out (xs @ ys) =
      decode_loop (d\<lparr>bytes_left := 0, dec_state := IN_CHUNK_CRLF\<rparr>) (out @ take (bytes_left d) xs) (drop (bytes_left d) xs @ ys)"
proof -
  have "take (bytes_left d) (xs @ ys) = take (bytes_left d) xs" "drop (bytes_left d) (xs @ ys) = drop (bytes_left d) xs @ ys"
    using assms(2) by simp_all
  then show "decode_loop d out xs = decode_loop (d\<lparr>bytes_left := 0, dec_state := IN_CHUNK_CRLF\<rparr>) (out @ take (bytes_left d) xs) (drop (bytes_left d) xs)"
    "decode_loop d out (xs @ ys) =
      decode_loop (d\<lparr>bytes_left := 0, dec_state := IN_CHUNK_CRLF\<rparr>) (out @ take (bytes_left d) xs) (drop (bytes_left d) xs @ ys)"
    using assms(2) unfolding decode_data [OF assms(1)] by (simp_all only: length_append) (simp_all add: not_less)
qed

text \<open>A verdict is not changed by later bytes.\<close>

lemma decode_loop_decided:
  assumes "decode_loop d out xs = (d', out', r, v)" "v \<noteq> Incomplete"
  shows "decode_loop d out (xs @ ys) = (d', out', r @ ys, v)"
  using assms
proof (induction d out xs rule: decode_induct)
  case (size d out xs)
  obtain v0 d0 r0 where c: "chunk_size d xs = (v0, d0, r0)" by (metis prod_cases3)
  show ?case using size chunk_size_decided [OF c, of ys] by (cases v0) (auto simp: c decode_size [OF size(1) c] decode_size [OF size(1)])
next
  case (ext d out xs)
  then show ?case by (cases "dropWhile (\<lambda>b. b \<noteq> 10) xs")
    (auto simp: decode_ext dropWhile_pieces simp del: dropWhile_eq_Nil_conv split: if_splits)
next
  case (data d out xs)
  have "bytes_left d \<le> length xs" by (rule ccontr) (use data(1,3,4) in \<open>simp add: decode_data\<close>)
  then show ?case using data(2) data(3,4) unfolding decode_data_enough [OF data(1) \<open>bytes_left d \<le> length xs\<close>] by blast
next
  case (crlf d out xs)
  then show ?case by (cases "dropWhile (\<lambda>b. b = 13) xs")
    (auto simp: decode_crlf dropWhile_pieces simp del: dropWhile_eq_Nil_conv split: if_splits)
next
  case (head d out xs)
  then show ?case by (cases "dropWhile (\<lambda>b. b = 13) xs")
    (auto simp: decode_head dropWhile_pieces simp del: dropWhile_eq_Nil_conv split: if_splits)
next
  case (middle d out xs)
  then show ?case by (cases "dropWhile (\<lambda>b. b \<noteq> 10) xs")
    (auto simp: decode_middle dropWhile_pieces simp del: dropWhile_eq_Nil_conv split: if_splits)
qed

lemma decode_waits:
  "dec_state d = IN_CHUNK_EXT \<Longrightarrow> dropWhile (\<lambda>b. b \<noteq> 10) xs = [] \<Longrightarrow> decode_loop d out (xs @ ys) = decode_loop d out ys"
  "dec_state d = IN_CHUNK_CRLF \<Longrightarrow> dropWhile (\<lambda>b. b = 13) xs = [] \<Longrightarrow> decode_loop d out (xs @ ys) = decode_loop d out ys"
  "dec_state d = IN_TRAILERS_LINE_HEAD \<Longrightarrow> dropWhile (\<lambda>b. b = 13) xs = [] \<Longrightarrow> decode_loop d out (xs @ ys) = decode_loop d out ys"
  "dec_state d = IN_TRAILERS_LINE_MIDDLE \<Longrightarrow> dropWhile (\<lambda>b. b \<noteq> 10) xs = [] \<Longrightarrow> decode_loop d out (xs @ ys) = decode_loop d out ys"
  by (simp_all only: decode_loop.simps [of d] dropWhile_pieces(1) chunk_state.case)

text \<open>Without a verdict the decoder goes on where it stopped.\<close>

lemma decode_loop_resumes:
  assumes "decode_loop d out xs = (d', out', r, Incomplete)"
  shows "r = [] \<and> decode_loop d out (xs @ ys) = decode_loop d' out' ys"
  using assms
proof (induction d out xs rule: decode_induct)
  case (size d out xs)
  obtain v0 d0 r0 where c: "chunk_size d xs = (v0, d0, r0)" by (metis prod_cases3)
  show ?case
  proof (cases v0)
    case None
    then show ?thesis using size chunk_size_decided [OF c, of ys] by (auto simp: c decode_size [OF size(1) c] decode_size [OF size(1)])
  next
    case (Some w)
    then have w: "w = Incomplete" "d' = d0" "out' = out" "r = r0" using size(3) by (auto simp: decode_size [OF size(1) c])
    then have k: "r0 = []" "dec_state d0 = IN_CHUNK_SIZE" "chunk_size d (xs @ ys) = chunk_size d0 ys"
      using chunk_size_incomplete c Some size(1) by metis+
    obtain v1 d1 r1 where "chunk_size d0 ys = (v1, d1, r1)" by (metis prod_cases3)
    then show ?thesis using w k by (simp add: decode_size [OF size(1)] decode_size [OF k(2)])
  qed
next
  case (ext d out xs)
  then show ?case by (cases "dropWhile (\<lambda>b. b \<noteq> 10) xs")
    (auto simp: decode_ext dropWhile_pieces decode_waits simp del: dropWhile_eq_Nil_conv split: if_splits)
next
  case (data d out xs)
  show ?case
  proof (cases "length xs < bytes_left d")
    case True
    then have e: "d' = d\<lparr>bytes_left := bytes_left d - length xs\<rparr>" "out' = out @ xs" "r = []"
      using data(3) unfolding decode_data [OF data(1)] by simp_all
    have "dec_state d' = IN_CHUNK_DATA" "length (xs @ ys) < bytes_left d \<longleftrightarrow> length ys < bytes_left d'"
        "take (bytes_left d) (xs @ ys) = xs @ take (bytes_left d') ys" "drop (bytes_left d) (xs @ ys) = drop (bytes_left d') ys"
        "bytes_left d - length (xs @ ys) = bytes_left d' - length ys"
      using True data(1) e(1) by auto
    then show ?thesis using e(2,3) unfolding decode_data [OF data(1)] decode_data [of d', OF \<open>dec_state d' = IN_CHUNK_DATA\<close>]
      by (simp only: e(1)) simp
  next
    case False
    then have "bytes_left d \<le> length xs" by simp
    then show ?thesis using data(2) data(3) unfolding decode_data_enough [OF data(1) \<open>bytes_left d \<le> length xs\<close>] by blast
  qed
next
  case (crlf d out xs)
  then show ?case by (cases "dropWhile (\<lambda>b. b = 13) xs")
    (auto simp: decode_crlf dropWhile_pieces decode_waits simp del: dropWhile_eq_Nil_conv split: if_splits)
next
  case (head d out xs)
  then show ?case by (cases "dropWhile (\<lambda>b. b = 13) xs")
    (auto simp: decode_head dropWhile_pieces decode_waits simp del: dropWhile_eq_Nil_conv split: if_splits)
next
  case (middle d out xs)
  then show ?case by (cases "dropWhile (\<lambda>b. b \<noteq> 10) xs")
    (auto simp: decode_middle dropWhile_pieces decode_waits simp del: dropWhile_eq_Nil_conv split: if_splits)
qed

section \<open>Calls\<close>

text \<open>The loop neither reads its counters nor what it has already put out.\<close>

definition with_counters :: "nat \<Rightarrow> nat \<Rightarrow> chunked_decoder \<Rightarrow> chunked_decoder" where
  "with_counters a b d = d\<lparr>total_read := a, total_overhead := b\<rparr>"

lemma with_counters_simps [simp]:
  "dec_state (with_counters a b d) = dec_state d" "bytes_left (with_counters a b d) = bytes_left d"
  "hex_count (with_counters a b d) = hex_count d" "consume_trailer (with_counters a b d) = consume_trailer d"
  "total_read (with_counters a b d) = a" "total_overhead (with_counters a b d) = b"
  "(with_counters a b d)\<lparr>dec_state := st\<rparr> = with_counters a b (d\<lparr>dec_state := st\<rparr>)"
  "(with_counters a b d)\<lparr>bytes_left := n\<rparr> = with_counters a b (d\<lparr>bytes_left := n\<rparr>)"
  "(with_counters a b d)\<lparr>hex_count := n\<rparr> = with_counters a b (d\<lparr>hex_count := n\<rparr>)"
  "(with_counters a b d)\<lparr>total_read := n\<rparr> = with_counters n b d"
  "(with_counters a b d)\<lparr>total_overhead := n\<rparr> = with_counters a n d"
  "with_counters a b (with_counters a' b' d) = with_counters a b d"
  by (simp_all add: with_counters_def)

lemma with_own_counters: "with_counters (total_read d) (total_overhead d) d = d"
  by (simp add: with_counters_def)

lemma chunk_size_counters:
  "chunk_size (with_counters a b d) xs = (case chunk_size d xs of (v, d', r) \<Rightarrow> (v, with_counters a b d', r))"
proof (induction d xs rule: chunk_size.induct)
  case (2 d x xs)
  show ?case
  proof (cases "decode_hex x")
    case (Some v)
    then show ?thesis using 2 [OF Some] by (cases "hex_count d = 16") simp_all
  qed simp
qed simp

lemma decode_loop_frame:
  "decode_loop (with_counters a b d) (pre @ out) xs =
     (case decode_loop d out xs of (d', out', r, v) \<Rightarrow> (with_counters a b d', pre @ out', r, v))"
proof (induction d out xs rule: decode_induct)
  case (size d out xs)
  obtain v0 d0 r0 where c: "chunk_size d xs = (v0, d0, r0)" by (metis prod_cases3)
  have "chunk_size (with_counters a b d) xs = (v0, with_counters a b d0, r0)" by (simp add: chunk_size_counters c)
  then show ?case using size(2) [of d0 r0] c by (cases v0) (simp_all add: decode_size [OF size(1) c] decode_size size(1))
next
  case (ext d out xs)
  then show ?case by (cases "dropWhile (\<lambda>b. b \<noteq> 10) xs") (simp_all add: decode_ext del: dropWhile_eq_Nil_conv)
next
  case (data d out xs)
  show ?case
  proof (cases "bytes_left d \<le> length xs")
    case True
    have s: "dec_state (with_counters a b d) = IN_CHUNK_DATA" using data(1) by simp
    from data(2) [OF True] True show ?thesis by (simp add: decode_data_enough(1) [OF data(1) True] decode_data_enough(1) [OF s])
  next
    case False
    then show ?thesis using data(1) by (simp add: decode_data)
  qed
next
  case (crlf d out xs)
  then show ?case by (cases "dropWhile (\<lambda>b. b = 13) xs") (simp_all add: decode_crlf del: dropWhile_eq_Nil_conv)
next
  case (head d out xs)
  then show ?case by (cases "dropWhile (\<lambda>b. b = 13) xs") (simp_all add: decode_head del: dropWhile_eq_Nil_conv)
next
  case (middle d out xs)
  then show ?case by (cases "dropWhile (\<lambda>b. b \<noteq> 10) xs") (simp_all add: decode_middle del: dropWhile_eq_Nil_conv)
qed

lemma decode_loop_empty: "\<exists>d'. decode_loop d out [] = (d', out, [], Incomplete)"
proof (cases "dec_state d")
  case IN_CHUNK_SIZE
  then show ?thesis by (simp add: decode_size)
next
  case IN_CHUNK_DATA
  then show ?thesis by (cases "bytes_left d = 0") (simp_all add: decode_data decode_crlf(1))
qed (simp_all add: decode_ext(1) decode_crlf(1) decode_head(1) decode_middle(1))

text \<open>What the header of the parser asks its caller to do: call with what has arrived while the result is -2.\<close>

fun feed :: "chunked_decoder \<Rightarrow> byte list list \<Rightarrow> chunked_decoder \<times> byte list \<times> int" where
  "feed d [] = (d, [], -2)"
| "feed d (p # ps) =
     (let (d, buf, bufsz, ret) = phr_decode_chunked d p in
      if ret = -2 then (let (d, out, ret) = feed d ps in (d, take bufsz buf @ out, ret))
      else (d, take bufsz buf, ret))"

lemma feed_complete:
  assumes "decode_loop d [] (concat ps) = (d', out, [], Complete)" "total_overhead d + length (concat ps) < 100 * 1024"
  shows "\<exists>e. feed d ps = (e, out, 0)"
  using assms
proof (induction ps arbitrary: d d' out)
  case Nil
  then show ?case using decode_loop_empty [of d "[]"] by auto
next
  case (Cons p ps)
  obtain d1 o1 r1 v1 where l: "decode_loop d [] p = (d1, o1, r1, v1)" by (metis prod_cases4)
  let ?a = "(total_read d + length p) mod 2 ^ 64"
  have d: "d\<lparr>total_read := ?a\<rparr> = with_counters ?a (total_overhead d) d" by (simp add: with_counters_def)
  have l': "decode_loop (d\<lparr>total_read := ?a\<rparr>) [] p = (with_counters ?a (total_overhead d) d1, o1, r1, v1)"
    using decode_loop_frame [of ?a "total_overhead d" d "[]" "[]" p] l unfolding d by simp
  show ?case
  proof (cases "v1 = Incomplete")
    case True
    then have r: "r1 = []" "decode_loop d [] (p @ concat ps) = decode_loop d1 o1 (concat ps)"
      using decode_loop_resumes l by blast+
    let ?o = "(total_overhead d + (length p - length o1)) mod 2 ^ 64"
    have o: "?o = total_overhead d + (length p - length o1)" using Cons.prems(2) by simp
    let ?d = "with_counters ?a ?o d1"
    have call: "phr_decode_chunked d p = (?d, o1, length o1, -2)"
      using l' True r(1) o Cons.prems(2) by (simp add: phr_decode_chunked_def Let_def)
    obtain d2 o2 r2 v2 where n: "decode_loop d1 [] (concat ps) = (d2, o2, r2, v2)" by (metis prod_cases4)
    have f: "decode_loop ?d [] (concat ps) = (with_counters ?a ?o d2, o2, r2, v2)"
      using decode_loop_frame [of ?a ?o d1 "[]" "[]" "concat ps"] n by simp
    have "decode_loop d1 o1 (concat ps) =
        (with_counters (total_read d1) (total_overhead d1) d2, o1 @ o2, r2, v2)"
      using decode_loop_frame [of "total_read d1" "total_overhead d1" d1 o1 "[]" "concat ps"] n by (simp add: with_own_counters)
    then have "out = o1 @ o2" "r2 = []" "v2 = Complete" using Cons.prems(1) r(2) by simp_all
    then show ?thesis using Cons.IH [of ?d] f o Cons.prems(2) call by fastforce
  next
    case False
    then have "decode_loop d [] (concat (p # ps)) = (d1, o1, r1 @ concat ps, v1)" using decode_loop_decided l by simp
    then have "out = o1" "r1 = []" "v1 = Complete" using Cons.prems(1) by simp_all
    then show ?thesis using l' by (simp add: phr_decode_chunked_def)
  qed
qed

section \<open>Encoded bodies\<close>

definition hex_digit :: "nat \<Rightarrow> byte" where
  "hex_digit v = of_nat (if v < 10 then 48 + v else 87 + v)"

fun hex_text :: "nat \<Rightarrow> byte list" where
  "hex_text n = (if n < 16 then [hex_digit n] else hex_text (n div 16) @ [hex_digit (n mod 16)])"

declare hex_text.simps [simp del]

definition chunk_text :: "byte list \<Rightarrow> byte list" where
  "chunk_text c = hex_text (length c) @ [13, 10] @ c @ [13, 10]"

definition trailer_text :: "byte list list \<Rightarrow> byte list" where
  "trailer_text ls = concat (map (\<lambda>l. l @ [13, 10]) ls) @ [13, 10]"

definition line_ok :: "byte list \<Rightarrow> bool" where
  "line_ok l \<longleftrightarrow> l \<noteq> [] \<and> hd l \<noteq> 13 \<and> 10 \<notin> set l"

text \<open>The chunks, the last chunk of size zero, and the trailer when the decoder is told to consume it.\<close>

definition chunked_text :: "byte list list \<Rightarrow> bool \<Rightarrow> byte list list \<Rightarrow> byte list" where
  "chunked_text cs trailer ls = concat (map chunk_text cs) @ hex_text 0 @ [13, 10] @ (if trailer then trailer_text ls else [])"

lemma decode_hex_digit: "v < 16 \<Longrightarrow> decode_hex (hex_digit v) = Some v"
proof -
  have "\<forall>v\<in>set [0..<16]. decode_hex (hex_digit v) = Some v" by code_simp
  then show "v < 16 \<Longrightarrow> decode_hex (hex_digit v) = Some v" by simp
qed

lemma hex_text_length: "n < 16 ^ k \<Longrightarrow> 0 < k \<Longrightarrow> length (hex_text n) \<le> k"
proof (induction n arbitrary: k rule: hex_text.induct)
  case (1 n)
  show ?case
  proof (cases "n < 16")
    case False
    then have k: "1 < k" using "1.prems" by (cases k; cases "k - 1") auto
    then have "n div 16 < 16 ^ (k - 1)" using "1.prems"(1) by (cases k) (simp_all add: less_mult_imp_div_less mult.commute)
    then have "length (hex_text (n div 16)) \<le> k - 1" using "1.IH" [OF False] k by simp
    then show ?thesis using False k by (simp add: hex_text.simps [of n])
  qed (use "1.prems" in \<open>simp add: hex_text.simps [of n]\<close>)
qed

lemma chunk_size_hex:
  assumes "n < 16 ^ 16" "bytes_left d = 0" "hex_count d = 0"
  shows "chunk_size d (hex_text n @ ys) = chunk_size (d\<lparr>bytes_left := n, hex_count := length (hex_text n)\<rparr>) ys"
  using assms
proof (induction n arbitrary: ys rule: hex_text.induct)
  case (1 n)
  show ?case
  proof (cases "n < 16")
    case True
    then show ?thesis using "1.prems" by (simp add: hex_text.simps [of n] decode_hex_digit add_digit_def)
  next
    case False
    let ?q = "n div 16" and ?r = "n mod 16"
    have q: "?q < 16 ^ 15" using "1.prems"(1) by (simp add: less_mult_imp_div_less)
    then have "length (hex_text ?q) \<le> 15" by (rule hex_text_length) simp
    then have l: "length (hex_text ?q) \<noteq> 16" by simp
    have a: "add_digit ?q ?r = n" using "1.prems"(1) by (simp add: add_digit_def)
    have "chunk_size d (hex_text ?q @ hex_digit ?r # ys) =
        chunk_size (d\<lparr>bytes_left := ?q, hex_count := length (hex_text ?q)\<rparr>) (hex_digit ?r # ys)"
      using "1.IH" [OF False, of "hex_digit ?r # ys"] q "1.prems"(2,3) by simp
    also have "\<dots> = chunk_size (d\<lparr>bytes_left := n, hex_count := Suc (length (hex_text ?q))\<rparr>) ys"
      using l a by (simp add: decode_hex_digit)
    finally show ?thesis using False by (simp add: hex_text.simps [of n])
  qed
qed

lemma hex_text_not_empty: "0 < length (hex_text n)"
  by (simp add: hex_text.simps [of n])

lemma decode_size_line:
  assumes "n < 16 ^ 16" "bytes_left d = 0" "hex_count d = 0" "dec_state d = IN_CHUNK_SIZE"
  shows "decode_loop d out (hex_text n @ [13, 10] @ ys) =
    decode_loop (d\<lparr>bytes_left := n, dec_state := IN_CHUNK_EXT\<rparr>) out ([13, 10] @ ys)"
proof -
  have h: "decode_hex 13 = None" "after_size 13" by (simp_all add: decode_hex_def after_size_def)
  have "d\<lparr>bytes_left := n, hex_count := 0, dec_state := IN_CHUNK_EXT\<rparr> = d\<lparr>bytes_left := n, dec_state := IN_CHUNK_EXT\<rparr>"
    using assms(3) by (cases d) simp
  then have "chunk_size d (hex_text n @ [13, 10] @ ys) =
      (None, d\<lparr>bytes_left := n, dec_state := IN_CHUNK_EXT\<rparr>, [13, 10] @ ys)"
    using chunk_size_hex [OF assms(1-3)] hex_text_not_empty [of n] h by simp
  then show ?thesis by (simp add: decode_size [OF assms(4)])
qed

lemma decode_chunk:
  assumes "bytes_left d = 0" "hex_count d = 0" "dec_state d = IN_CHUNK_SIZE" "c \<noteq> []" "length c < 16 ^ 16"
  shows "decode_loop d out (chunk_text c @ ys) = decode_loop d (out @ c) ys"
proof -
  have "decode_loop d out (chunk_text c @ ys) =
      decode_loop (d\<lparr>bytes_left := length c, dec_state := IN_CHUNK_EXT\<rparr>) out (13 # 10 # c @ [13, 10] @ ys)"
    using decode_size_line [OF assms(5,1-3)] by (simp add: chunk_text_def)
  also have "\<dots> = decode_loop (d\<lparr>bytes_left := length c, dec_state := IN_CHUNK_DATA\<rparr>) out (c @ [13, 10] @ ys)"
    using assms(4) by (simp add: decode_ext(2))
  also have "\<dots> = decode_loop (d\<lparr>bytes_left := 0, dec_state := IN_CHUNK_CRLF\<rparr>) (out @ c) (13 # 10 # ys)"
    by (simp add: decode_data)
  also have "\<dots> = decode_loop (d\<lparr>bytes_left := 0, dec_state := IN_CHUNK_SIZE\<rparr>) (out @ c) ys"
    by (simp add: decode_crlf(2))
  also have "d\<lparr>bytes_left := 0, dec_state := IN_CHUNK_SIZE\<rparr> = d" using assms(1,3) by (cases d) simp
  finally show ?thesis .
qed

lemma decode_chunks:
  assumes "bytes_left d = 0" "hex_count d = 0" "dec_state d = IN_CHUNK_SIZE" "\<forall>c\<in>set cs. c \<noteq> [] \<and> length c < 16 ^ 16"
  shows "decode_loop d out (concat (map chunk_text cs) @ ys) = decode_loop d (out @ concat cs) ys"
  using assms(4) by (induction cs arbitrary: out) (simp_all add: decode_chunk [OF assms(1-3)])

lemma decode_trailer:
  assumes "dec_state d = IN_TRAILERS_LINE_HEAD" "\<forall>l\<in>set ls. line_ok l"
  shows "\<exists>d'. decode_loop d out (trailer_text ls) = (d', out, [], Complete)"
  using assms
proof (induction ls arbitrary: d)
  case Nil
  then show ?case by (simp add: trailer_text_def decode_head(2))
next
  case (Cons l ls)
  obtain x xs where l: "l = x # xs" "x \<noteq> 13" "x \<noteq> 10" "10 \<notin> set xs" using Cons.prems(2) by (cases l) (auto simp: line_ok_def)
  have "dropWhile (\<lambda>b. b \<noteq> 10) (xs @ 13 # 10 # trailer_text ls) = 10 # trailer_text ls" using l(4) by (induction xs) auto
  then have "decode_loop d out (trailer_text (l # ls)) =
      decode_loop (d\<lparr>dec_state := IN_TRAILERS_LINE_HEAD\<rparr>) out (trailer_text ls)"
    using Cons.prems(1) l by (simp add: trailer_text_def decode_head(2) decode_middle(2))
  then show ?case using Cons.IH [of "d\<lparr>dec_state := IN_TRAILERS_LINE_HEAD\<rparr>"] Cons.prems(2) by simp
qed

lemma decode_chunked_text:
  assumes "\<forall>c\<in>set cs. c \<noteq> [] \<and> length c < 16 ^ 16" "\<forall>l\<in>set ls. line_ok l"
  shows "\<exists>d. decode_loop (new_decoder trailer) [] (chunked_text cs trailer ls) = (d, concat cs, [], Complete)"
proof -
  let ?d = "(new_decoder trailer)\<lparr>bytes_left := 0, dec_state := IN_CHUNK_EXT\<rparr>"
  have d: "bytes_left (new_decoder trailer) = 0" "hex_count (new_decoder trailer) = 0" "dec_state (new_decoder trailer) = IN_CHUNK_SIZE"
    by (simp_all add: new_decoder_def)
  let ?t = "if trailer then trailer_text ls else []"
  have "decode_loop (new_decoder trailer) [] (chunked_text cs trailer ls) = decode_loop ?d (concat cs) ([13, 10] @ ?t)"
    using decode_chunks [OF d assms(1)] decode_size_line [OF _ d, of 0] by (simp add: chunked_text_def)
  also have "\<dots> = (if trailer then decode_loop (?d\<lparr>dec_state := IN_TRAILERS_LINE_HEAD\<rparr>) (concat cs) ?t else (?d, concat cs, ?t, Complete))"
    by (simp add: decode_ext(2) new_decoder_def)
  finally show ?thesis using decode_trailer [of "?d\<lparr>dec_state := IN_TRAILERS_LINE_HEAD\<rparr>" ls "concat cs"] assms(2)
    by (cases trailer) simp_all
qed

section \<open>Properties\<close>

text \<open>
  C38: a body in chunks, below 100 KiB with its encoding, is decoded to its bytes, whether it arrives in one buffer or
  is cut into any pieces, in the middle of a size or of a line end too: the calls put out the chunks one after
  the other and the last result is 0, nothing left. With the trailer asked for, its lines are consumed.
\<close>

theorem chunked_body_roundtrip:
  assumes "\<forall>c\<in>set cs. c \<noteq> []" "\<forall>l\<in>set ls. line_ok l" "concat ps = chunked_text cs trailer ls" "length (concat ps) < 100 * 1024"
  shows "\<exists>d. feed (new_decoder trailer) ps = (d, concat cs, 0)"
proof -
  have "length c < 16 ^ 16" if "c \<in> set cs" for c
  proof -
    from split_list [OF that] obtain us vs where "cs = us @ c # vs" by blast
    then have "length c \<le> length (concat ps)" using assms(3) by (simp add: chunked_text_def chunk_text_def)
    then show ?thesis using assms(4) by simp
  qed
  then obtain d where "decode_loop (new_decoder trailer) [] (concat ps) = (d, concat cs, [], Complete)"
    using decode_chunked_text [of cs ls trailer] assms(1-3) by auto
  then show ?thesis using assms(4) by (intro feed_complete) (simp_all add: new_decoder_def)
qed

theorem chunked_body_roundtrip_witness:
  "\<exists>d. feed (new_decoder True) [[51, 13], [10, 97, 98], [99, 13, 10, 48, 13, 10, 120, 13, 10, 13, 10]] = (d, [97, 98, 99], 0)"
proof -
  have "chunked_text [[97, 98, 99]] True [[120]] = [51, 13, 10, 97, 98, 99, 13, 10, 48, 13, 10, 120, 13, 10, 13, 10]"
    by (simp add: chunked_text_def chunk_text_def trailer_text_def hex_text.simps hex_digit_def)
  then show ?thesis
    using chunked_body_roundtrip [of "[[97, 98, 99]]" "[[120]]" "[[51, 13], [10, 97, 98], [99, 13, 10, 48, 13, 10, 120, 13, 10, 13, 10]]" True]
    by (simp add: line_ok_def)
qed

end
