(* ===== verification/Connection_Correct.thy ===== *)
theory Connection_Correct
  imports Connection "HOL-Library.Multiset"
begin

text \<open>
  The search of a pool for an available connection: a reference definition, the equality with the loop of
  get_any_connection, and what a caller of the pool can rely on.
\<close>

text \<open>The first available position of the rest of the pool, then of the whole pool.\<close>

definition first_available :: "bool list \<Rightarrow> nat \<Rightarrow> nat option" where
  "first_available av i = find (\<lambda>j. av ! j) ([i..<length av] @ [0..<length av])"

lemma find_append: "find P (xs @ ys) = (case find P xs of None \<Rightarrow> find P ys | Some x \<Rightarrow> Some x)"
  by (induction xs) auto

lemma any_loop_wrapped:
  "i < length av \<Longrightarrow> any_loop av True i =
     (case find (\<lambda>j. av ! j) [i..<length av] of
        Some j \<Rightarrow> (Inr j, j)
      | None \<Rightarrow> (Inl (NoConnection ''No available connections in the pool''), length av))"
proof (induction "length av - i" arbitrary: i)
  case (Suc n)
  show ?case
  proof (cases "Suc i < length av")
    case True
    then show ?thesis
      using Suc.hyps(1) [of "Suc i"] Suc.hyps(2) Suc.prems
      by (subst any_loop.simps) (simp add: upt_conv_Cons)
  next
    case False
    then show ?thesis using Suc.prems by (subst any_loop.simps) (simp add: upt_conv_Cons)
  qed
qed simp

theorem any_loop_eq:
  assumes "i < length av"
  shows "any_loop av False i =
    (case first_available av i of
       Some j \<Rightarrow> (Inr j, j)
     | None \<Rightarrow> (Inl (NoConnection ''No available connections in the pool''), length av))"
  using assms
proof (induction "length av - i" arbitrary: i)
  case (Suc n)
  have first: "first_available av i = (if av ! i then Some i else first_available av (Suc i))"
    using Suc.prems by (simp add: first_available_def upt_conv_Cons)
  show ?case
  proof (cases "Suc i < length av")
    case True
    then show ?thesis
      using Suc.hyps(1) [of "Suc i"] Suc.hyps(2) Suc.prems
      by (subst any_loop.simps) (simp add: first)
  next
    case False
    then have "first_available av (Suc i) = find (\<lambda>j. av ! j) [0..<length av]"
      by (simp add: first_available_def)
    then show ?thesis
      using False Suc.prems any_loop_wrapped [of 0 av, OF le_less_trans [OF le0 Suc.prems]]
      by (subst any_loop.simps) (auto simp: first split: option.splits)
  qed
qed simp

lemma first_available_Some:
  "i < length av \<Longrightarrow> first_available av i = Some j \<Longrightarrow> j < length av \<and> av ! j"
  by (auto simp: first_available_def find_Some_iff nth_append)

lemma first_available_None: "first_available av i = None \<longleftrightarrow> True \<notin> set av"
  by (auto simp: first_available_def find_None_iff in_set_conv_nth)

lemma first_available_stays: "j < length av \<Longrightarrow> av ! j \<Longrightarrow> first_available av j = Some j"
  by (simp add: first_available_def upt_conv_Cons)

text \<open>The iterator of a pool points at an entry or behind the last one.\<close>

definition pool_ok :: "conn_pool \<Rightarrow> bool" where
  "pool_ok p \<longleftrightarrow> distinct (map fst (cp_conns p)) \<and> cp_next p \<le> length (cp_conns p)"

lemma pool_new_ok [inv_intros]: "pool_ok (pool_new t)"
  by (simp add: pool_ok_def pool_new_def)

lemma pool_remove_ok [inv_intros]: "pool_ok p \<Longrightarrow> pool_ok (pool_remove_connection p fd)"
  by (simp add: pool_ok_def pool_remove_connection_def distinct_delete)

lemma pool_add_ok [inv_intros]:
  assumes "pool_add_connection rehash c r p = Inr (r', p')" "pool_ok p" "\<And>xs. mset (rehash xs) = mset xs"
  shows "pool_ok p'"
proof -
  define cs where "cs = (if map_of (cp_conns p) (c_fd c) = None then rehash (cp_conns p @ [(c_fd c, r)]) else cp_conns p)"
  have p': "cp_conns p' = cs" "cp_next p' = 0"
    using assms(1) by (auto simp: pool_add_connection_def cs_def Let_def)
  have "distinct (map fst cs)"
  proof (cases "map_of (cp_conns p) (c_fd c)")
    case None
    then have "distinct (map fst (cp_conns p @ [(c_fd c, r)]))"
      using assms(2) by (simp add: pool_ok_def map_of_eq_None_iff)
    moreover have "mset (map fst cs) = mset (map fst (cp_conns p @ [(c_fd c, r)]))"
      using None by (simp only: cs_def mset_map assms(3) if_True simp_thms)
    ultimately show ?thesis by (metis mset_eq_imp_distinct_iff)
  qed (use assms(2) in \<open>simp add: cs_def pool_ok_def\<close>)
  then show ?thesis using p' by (simp add: pool_ok_def)
qed

text \<open>
  C36: get_any_connection ends in every state of a pool. With the iterator at an entry it returns the first
  available connection from there on, around the end, leaves the iterator at it and the entries as they are;
  asked again it returns the same connection as long as that one is available: the pool does not balance load.
  When none is available it throws NoConnectionException and leaves the iterator behind the last entry, and the
  next search has no meaning, whatever is available by then, until an entry is added or removed: both set the
  iterator to the first entry. An empty pool throws and stays as it is.
\<close>

theorem pool_search:
  assumes "pool_ok p" and "\<And>xs. mset (rehash xs) = mset xs"
  shows "(cp_next p < length (cp_conns p) \<longrightarrow>
      (case first_available (map (\<lambda>(_, c). avail c) (cp_conns p)) (cp_next p) of
         Some j \<Rightarrow> j < length (cp_conns p) \<and> avail (snd (cp_conns p ! j)) \<and>
           get_any_connection avail p = (Inr (snd (cp_conns p ! j)), p\<lparr>cp_next := j\<rparr>) \<and>
           (avail2 (snd (cp_conns p ! j)) \<longrightarrow>
              get_any_connection avail2 (p\<lparr>cp_next := j\<rparr>) = (Inr (snd (cp_conns p ! j)), p\<lparr>cp_next := j\<rparr>))
       | None \<Rightarrow> (\<forall>(fd, c)\<in>set (cp_conns p). \<not> avail c) \<and>
           (\<exists>msg. get_any_connection avail p = (Inl (NoConnection msg), p\<lparr>cp_next := length (cp_conns p)\<rparr>)))) \<and>
    (cp_conns p \<noteq> [] \<and> cp_next p = length (cp_conns p) \<longrightarrow>
      get_any_connection avail p = (Inl (Undefined ''dereference of end()''), p)) \<and>
    (cp_conns p = [] \<longrightarrow> get_any_connection avail p = (Inl (NoConnection ''Pool is empty''), p)) \<and>
    pool_ok (snd (get_any_connection avail p)) \<and>
    pool_ok (pool_remove_connection p fd) \<and> cp_next (pool_remove_connection p fd) = 0 \<and>
    (\<forall>(c :: 's conn) r r' p'. pool_add_connection rehash c r p = Inr (r', p') \<longrightarrow>
       pool_ok p' \<and> cp_conns p' \<noteq> [] \<and> cp_next p' = 0)"
proof -
  let ?av = "\<lambda>avail. map (\<lambda>(_, c). avail c) (cp_conns p)"
  let ?first = "first_available (?av avail) (cp_next p)"
  have len: "length (?av a) = length (cp_conns p)" for a by simp
  have distinct: "distinct (map fst (cp_conns p))" using assms(1) by (simp add: pool_ok_def)
  have found: "j < length (cp_conns p) \<and> avail (snd (cp_conns p ! j)) \<and>
      get_any_connection avail p = (Inr (snd (cp_conns p ! j)), p\<lparr>cp_next := j\<rparr>) \<and>
      (avail2 (snd (cp_conns p ! j)) \<longrightarrow>
         get_any_connection avail2 (p\<lparr>cp_next := j\<rparr>) = (Inr (snd (cp_conns p ! j)), p\<lparr>cp_next := j\<rparr>))"
    if i: "cp_next p < length (cp_conns p)" and j: "?first = Some j" for j
  proof -
    have jl: "j < length (cp_conns p)" "?av avail ! j"
      using first_available_Some [OF i [folded len [of avail]] j] by simp_all
    have ne: "cp_conns p \<noteq> []" using i by auto
    have "get_any_connection avail p = (Inr (snd (cp_conns p ! j)), p\<lparr>cp_next := j\<rparr>)"
      using any_loop_eq [OF i [folded len [of avail]]] j ne by (simp add: get_any_connection_def)
    moreover have "get_any_connection avail2 (p\<lparr>cp_next := j\<rparr>) = (Inr (snd (cp_conns p ! j)), p\<lparr>cp_next := j\<rparr>)"
      if "avail2 (snd (cp_conns p ! j))"
      using any_loop_eq [of j "?av avail2"] first_available_stays [of j "?av avail2"] jl(1) ne that
      by (simp add: get_any_connection_def case_prod_beta)
    ultimately show ?thesis using jl by (simp add: case_prod_beta)
  qed
  have none: "(\<forall>(fd, c)\<in>set (cp_conns p). \<not> avail c) \<and>
      (\<exists>msg. get_any_connection avail p = (Inl (NoConnection msg), p\<lparr>cp_next := length (cp_conns p)\<rparr>))"
    if i: "cp_next p < length (cp_conns p)" and no: "?first = None"
    using any_loop_eq [OF i [folded len [of avail]]] no i first_available_None [of "?av avail" "cp_next p"]
    by (auto simp: get_any_connection_def)
  have behind: "get_any_connection avail p = (Inl (Undefined ''dereference of end()''), p)"
    if "cp_conns p \<noteq> []" "cp_next p = length (cp_conns p)"
    using that by (simp add: get_any_connection_def any_loop.simps)
  have empty: "get_any_connection avail p = (Inl (NoConnection ''Pool is empty''), p)" if "cp_conns p = []"
    using that by (simp add: get_any_connection_def)
  have after: "pool_ok (snd (get_any_connection avail p))"
  proof (cases "cp_next p < length (cp_conns p)")
    case True
    then show ?thesis using found [OF True] none [OF True] distinct
      by (cases ?first) (auto simp: pool_ok_def)
  next
    case False
    then have "get_any_connection avail p = (Inl (NoConnection ''Pool is empty''), p) \<or>
        get_any_connection avail p = (Inl (Undefined ''dereference of end()''), p)"
      using behind empty assms(1) by (auto simp: pool_ok_def)
    then show ?thesis using assms(1) by auto
  qed
  have add: "pool_ok p' \<and> cp_conns p' \<noteq> [] \<and> cp_next p' = 0"
    if a: "pool_add_connection rehash c r p = Inr (r', p')" for c :: "'s conn" and r r' p'
    using pool_add_ok [OF a assms(1)] assms(2) a by (auto simp: pool_add_connection_def Let_def)
  have inside: "case ?first of
      Some j \<Rightarrow> j < length (cp_conns p) \<and> avail (snd (cp_conns p ! j)) \<and>
        get_any_connection avail p = (Inr (snd (cp_conns p ! j)), p\<lparr>cp_next := j\<rparr>) \<and>
        (avail2 (snd (cp_conns p ! j)) \<longrightarrow>
           get_any_connection avail2 (p\<lparr>cp_next := j\<rparr>) = (Inr (snd (cp_conns p ! j)), p\<lparr>cp_next := j\<rparr>))
    | None \<Rightarrow> (\<forall>(fd, c)\<in>set (cp_conns p). \<not> avail c) \<and>
        (\<exists>msg. get_any_connection avail p = (Inl (NoConnection msg), p\<lparr>cp_next := length (cp_conns p)\<rparr>))"
    if i: "cp_next p < length (cp_conns p)"
    using found [OF i] none [OF i] by (cases ?first) simp_all
  have remove: "cp_next (pool_remove_connection p fd) = 0" by (simp add: pool_remove_connection_def)
  show ?thesis
    by (intro conjI impI allI; (elim conjE)?)
      (rule inside behind empty after pool_remove_ok [OF assms(1)] remove add [THEN conjunct1] add [THEN conjunct2, THEN conjunct1]
        add [THEN conjunct2, THEN conjunct2]; assumption)+
qed

text \<open>Three connections, the iterator at the last, only the second one available.\<close>

definition demo_pool :: conn_pool where
  "demo_pool = \<lparr>cp_conns = [(7, 0), (8, 1), (9, 2)], cp_type = EGRESS, cp_addr = None, cp_next = 2\<rparr>"

theorem pool_search_witness:
  "get_any_connection (\<lambda>c. c = 1) demo_pool = (Inr 1, demo_pool\<lparr>cp_next := 1\<rparr>) \<and>
   (\<exists>msg. get_any_connection (\<lambda>c. False) demo_pool = (Inl (NoConnection msg), demo_pool\<lparr>cp_next := 3\<rparr>)) \<and>
   get_any_connection (\<lambda>c. True) (demo_pool\<lparr>cp_next := 3\<rparr>) =
     (Inl (Undefined ''dereference of end()''), demo_pool\<lparr>cp_next := 3\<rparr>)"
proof -
  have ok: "pool_ok demo_pool" "pool_ok (demo_pool\<lparr>cp_next := 3\<rparr>)" by (simp_all add: pool_ok_def demo_pool_def)
  have f: "first_available (map (\<lambda>(_, c). c = 1) (cp_conns demo_pool)) (cp_next demo_pool) = Some 1"
    "first_available (map (\<lambda>(_, c). False) (cp_conns demo_pool)) (cp_next demo_pool) = None" by code_simp+
  have d: "length (cp_conns demo_pool) = 3" "cp_next demo_pool = 2" "snd (cp_conns demo_pool ! 1) = 1"
    by (simp_all add: demo_pool_def)
  note W = pool_search [where rehash = "\<lambda>xs. xs", THEN conjunct1, rule_format]
    pool_search [where rehash = "\<lambda>xs. xs", THEN conjunct2, THEN conjunct1, rule_format]
  have "get_any_connection (\<lambda>c. c = 1) demo_pool = (Inr 1, demo_pool\<lparr>cp_next := 1\<rparr>)"
    using W(1) [OF ok(1), where avail = "\<lambda>c. c = 1"] f(1) d by simp
  moreover have "\<exists>msg. get_any_connection (\<lambda>c. False) demo_pool = (Inl (NoConnection msg), demo_pool\<lparr>cp_next := 3\<rparr>)"
    using W(1) [OF ok(1), where avail = "\<lambda>c. False"] f(2) d by simp
  moreover have "get_any_connection (\<lambda>c. True) (demo_pool\<lparr>cp_next := 3\<rparr>) =
      (Inl (Undefined ''dereference of end()''), demo_pool\<lparr>cp_next := 3\<rparr>)"
    by (rule W(2) [OF ok(2)]) (simp_all add: demo_pool_def)
  ultimately show ?thesis by blast
qed

end
