(* ===== verification/Service_Limits_Correct.thy ===== *)
theory Service_Limits_Correct
  imports Service_Limits Config_Load
begin

text \<open>
  What update_limits does to the credit queue: only the limit of the measured service and the global limit
  change, at every 2000th measurement; the value of the former and the bounds of the latter.
\<close>

text \<open>The sum and the maximum of the limits of the hosted services.\<close>

definition hosted_limits :: "config \<Rightarrow> 'b credit_queue \<Rightarrow> int list" where
  "hosted_limits cfg cq = map (\<lambda>(s, _). val (cq_limits cq) s) (mapping cfg)"

lemma cells_get_eq: "cells eps m \<Longrightarrow> lm_get m k = Inr v \<longleftrightarrow> k \<in> eps \<and> v = val m k"
  by (auto simp: cells_def lm_get_map val_def split: option.splits)

lemma sum_and_max_loop:
  assumes "cells eps (cq_limits cq)"
    and "foldR (\<lambda>(s, _) (sum, mx). bindR (cq_get_per_endpoint_limit cq s) (\<lambda>limit.
       bindR (as_int32 (sum + limit)) (\<lambda>sum. Inr (sum, if limit > mx then limit else mx)))) kvs (s0, m0) = Inr (s, m)"
  shows "s = s0 + sum_list (map (\<lambda>(k, _). val (cq_limits cq) k) kvs) \<and>
    m = fold max (map (\<lambda>(k, _). val (cq_limits cq) k) kvs) m0"
  using assms(2)
proof (induction kvs arbitrary: s0 m0)
  case (Cons x kvs)
  define l where "l = val (cq_limits cq) (fst x)"
  have "max l m0 = (if l > m0 then l else m0)" by (simp add: max_def)
  moreover have "foldR (\<lambda>(s, _) (sum, mx). bindR (cq_get_per_endpoint_limit cq s) (\<lambda>limit.
       bindR (as_int32 (sum + limit)) (\<lambda>sum. Inr (sum, if limit > mx then limit else mx)))) kvs (s0 + l, if l > m0 then l else m0) = Inr (s, m)"
    using Cons.prems assms(1)
    by (cases x) (simp add: cq_get_per_endpoint_limit_def cells_get_eq as_int32_eq_Inr l_def split: if_splits)
  ultimately show ?case using Cons.IH [of "s0 + l" "max l m0"] by (cases x) (simp add: l_def)
qed simp

lemma fold_max_bounds:
  fixes m :: int
  shows "m \<le> fold max xs m" "x \<in> set xs \<Longrightarrow> x \<le> fold max xs m"
    "\<forall>x\<in>set xs. 0 \<le> x \<Longrightarrow> 0 \<le> m \<Longrightarrow> fold max xs m \<le> m + sum_list xs"
proof (induction xs arbitrary: m)
  case (Cons y xs)
  {
    case 1 show ?case using Cons.IH(1) [of "max y m"] by simp
  next
    case 2 then show ?case using Cons.IH(1,2) [of "max y m"] by auto
  next
    case 3 then show ?case using Cons.IH(3) [of "max y m"] by (auto simp: max_def split: if_splits)
  }
qed simp_all

lemma float_share:
  assumes "float_to_int32 (flt_mult (Finite (of_int d)) oc) = Inr x" "0 \<le> d" "share_ok oc"
  shows "0 \<le> x \<and> x \<le> d"
proof -
  obtain c where c: "oc = Finite c" "0 \<le> c" "c \<le> 1"
    using assms(1,3) by (auto simp: share_ok_def float_to_int32_def)
  have "0 \<le> of_int d * c" "of_int d * c \<le> of_int d"
    using assms(2) c(2,3) by (simp_all add: mult_left_le)
  moreover have "x = trunc (of_int d * c)" using assms(1) c(1) by (auto simp: float_to_int32_def split: if_splits)
  ultimately show ?thesis by (auto simp: trunc_def floor_le_iff intro: order_trans [OF of_int_floor_le])
qed

lemma refresh_global_limit_spec:
  assumes inv: "cq_inv eps cq" and r: "refresh_global_limit cfg cq = Inr cq'" and lim: "limits_ok cfg" "\<not> is_ingress cfg"
  shows "if routing cfg = [] then \<exists>g. cq' = cq_update_global_limit cq g \<and>
      ((\<forall>x\<in>set (hosted_limits cfg cq). 0 \<le> x) \<longrightarrow> g \<le> sum_list (hosted_limits cfg cq) \<and> (\<forall>x\<in>set (hosted_limits cfg cq). x \<le> g))
    else cq' = cq"
proof (cases "routing cfg = []")
  case True
  let ?L = "hosted_limits cfg cq"
  obtain s m oc x where sm: "sum_and_max cfg cq = Inr (s, m)" and oc: "over_commitment cfg = Some oc" "share_ok oc"
      and x: "float_to_int32 (flt_mult (Finite (of_int (s - m))) oc) = Inr x" and cq': "cq' = cq_update_global_limit cq (m + x)"
    using r lim True by (auto simp: refresh_global_limit_def limits_ok_def as_int32_eq_Inr)
  have c: "cells eps (cq_limits cq)" using inv by (simp add: cq_inv_def)
  have eq: "s = sum_list ?L" "m = fold max ?L 0"
    using sum_and_max_loop [OF c sm [unfolded sum_and_max_def]] by (simp_all add: hosted_limits_def)
  have "m + x \<le> sum_list ?L \<and> (\<forall>y\<in>set ?L. y \<le> m + x)" if "\<forall>y\<in>set ?L. 0 \<le> y"
  proof -
    have "m \<le> s" using fold_max_bounds(3) [OF that, of 0] by (simp add: eq)
    then have "0 \<le> x" "x \<le> s - m" using float_share [OF x _ oc(2)] by auto
    then show ?thesis using fold_max_bounds(2) [of _ ?L 0] by (force simp: eq)
  qed
  then show ?thesis using cq' True by auto
qed (use r in \<open>simp add: refresh_global_limit_def\<close>)

text \<open>
  The limit that a measured quotient of times gives, with the sum of the product and the number of downstream
  services wrapped as the code does.
\<close>

definition requests_in_service :: "real \<Rightarrow> real \<Rightarrow> int \<Rightarrow> int" where
  "requests_in_service theo rt cpus = (max \<lceil>theo / rt\<rceil> 1 + 1) * cpus"

definition waiting_requests :: "mapping_info \<Rightarrow> int" where
  "waiting_requests info = (if value_or (mi_dfanout info) False then 0 else int (length (mi_downstreams info)))"

lemma ceil_quotient_eq:
  "ceil_quotient a b = Inr q \<longleftrightarrow> b \<noteq> 0 \<and> q = \<lceil>a / b\<rceil> \<and> - (2 ^ 31) \<le> q \<and> q < 2 ^ 31"
  by (auto simp: ceil_quotient_def float_to_int32_def trunc_def)

lemma endpoint_limit_exact:
  assumes "endpoint_limit cfg info t rt = Inr l"
  shows "\<exists>cpus. cpu_count cfg = Some cpus \<and> rt \<noteq> 0 \<and> requests_in_service t rt cpus < 2 ^ 31 \<and>
    l = to_int32 (requests_in_service t rt cpus + waiting_requests info) + extra_limit cfg \<and> - (2 ^ 31) \<le> l \<and> l < 2 ^ 31"
proof -
  let ?q = "\<lceil>t / rt\<rceil>" and ?df = "value_or (mi_dfanout info) False" and ?n = "int (length (mi_downstreams info))"
  obtain cpus where q: "ceil_quotient t rt = Inr ?q" "rt \<noteq> 0" and cpus: "cpu_count cfg = Some cpus"
      and p: "as_int32 ((max ?q 1 + 1) * cpus) = Inr ((max ?q 1 + 1) * cpus)"
      and l: "as_int32 ((if ?df then (max ?q 1 + 1) * cpus else to_int32 ((max ?q 1 + 1) * cpus + ?n)) + extra_limit cfg) = Inr l"
    using assms by (auto simp: endpoint_limit_def Let_def ceil_quotient_eq as_int32_eq_Inr opt_value_def split: option.splits)
  have "to_int32 ((max ?q 1 + 1) * cpus) = (max ?q 1 + 1) * cpus"
    using p by (intro to_int32_in) (auto simp: as_int32_eq_Inr)
  then show ?thesis using q(2) cpus p l
    by (auto simp: requests_in_service_def waiting_requests_def as_int32_eq_Inr split: if_splits)
qed

lemma two_per_cpu: "1 \<le> cpus \<Longrightarrow> 2 * cpus \<le> requests_in_service t rt cpus"
  unfolding requests_in_service_def by (intro mult_right_mono) auto

text \<open>The steps of a measurement that updates the limits.\<close>

definition measured :: "string \<Rightarrow> stats \<Rightarrow> bool" where
  "measured service st \<longleftrightarrow> (\<exists>e. lm_get (ema_us_sidecar_rtt_us st) service = Inr e \<and> ema_count e mod 2000 = 0)"

lemma update_limits_steps:
  assumes "update_limits cfg rtt service st cq = Inr (st', cq')"
  shows "(\<exists>rtts. st' = st\<lparr>ema_us_sidecar_rtt_us := rtts\<rparr>) \<and>
    (if measured service st' then \<exists>info t rt limit cq1. map_of (mapping cfg) service = Some info \<and>
       cal_local_service_time cfg st' service = Inr rt \<and>
       get_theo_term st' service (\<not> value_or (mi_pfanout info) False \<and> \<not> value_or (mi_dfanout info) False) = Inr t \<and>
       endpoint_limit cfg info t rt = Inr limit \<and>
       cq_update_endpoint_limit cq limit service = Inr cq1 \<and> refresh_global_limit cfg cq1 = Inr cq'
     else cq' = cq)"
proof -
  obtain rtts e where u: "lm_update (ema_us_sidecar_rtt_us st) service (ema_update rtt) = Inr rtts"
      "lm_get rtts service = Inr e"
    using assms by (auto simp: update_limits_def Let_def)
  let ?st = "st\<lparr>ema_us_sidecar_rtt_us := rtts\<rparr>"
  show ?thesis
  proof (cases "ema_count e mod 2000 = 0")
    case False
    then have "st' = ?st \<and> cq' = cq" using assms u by (auto simp: update_limits_def Let_def split: if_splits)
    then show ?thesis using False u(2) by (auto simp: measured_def)
  next
    case True
    obtain rt info t limit cq1 where "map_of (mapping cfg) service = Some info" "cal_local_service_time cfg ?st service = Inr rt"
        "get_theo_term ?st service (\<not> value_or (mi_pfanout info) False \<and> \<not> value_or (mi_dfanout info) False) = Inr t"
        "endpoint_limit cfg info t rt = Inr limit"
        "cq_update_endpoint_limit cq limit service = Inr cq1" "refresh_global_limit cfg cq1 = Inr cq'" "st' = ?st"
      using assms u True by (auto simp: update_limits_def Let_def split: option.splits)
    moreover from this have "measured service st'" using True u(2) by (auto simp: measured_def)
    ultimately show ?thesis by (simp (no_asm_simp)) blast
  qed
qed

lemma update_endpoint_limit_spec:
  assumes "cq_inv eps cq" "cq_update_endpoint_limit cq l service = Inr cq'"
  shows "service \<in> eps \<and> cq_inv eps cq' \<and>
    (\<exists>m. cq' = cq\<lparr>cq_limits := m\<rparr> \<and> val m = (val (cq_limits cq))(service := l))"
proof -
  have c: "cells eps (cq_limits cq)" using assms(1) by (simp add: cq_inv_def)
  obtain m where m: "lm_set (cq_limits cq) service l = Inr m" "cq' = cq\<lparr>cq_limits := m\<rparr>"
    using assms(2) by (auto simp: cq_update_endpoint_limit_def)
  have s: "service \<in> eps"
    using m(1) c lm_set_miss [of "cq_limits cq" service l] by (cases "service \<in> eps") (auto simp: cells_def)
  obtain m' where "lm_set (cq_limits cq) service l = Inr m'" "cells eps m'" "val m' = (val (cq_limits cq))(service := l)"
    using cells_set [OF c s] .
  moreover have "m = m'" using m(1) calculation(1) by simp
  ultimately show ?thesis using m(2) s cq_limits_inv [OF assms(1)] by blast
qed

text \<open>
  C37: a successful update_limits keeps the invariant of the credit queue and neither queued grants nor active
  requests change. Unless the number of measurements is a multiple of 2000 the queue is unchanged. Otherwise
  the service is known and its limit becomes what the configuration and the measured times say, a value of
  int32_t: one more than the rounded quotient of the round trips and the local time, but at least 2, for each
  CPU, plus the number of downstream services unless these fan out dynamically, plus the extra limit. Only the
  sum with the number of downstream services can wrap; when it does not, the limit is at least twice the
  number of CPUs plus the extra limit. Every other limit stays. In a leaf service the new global limit lies
  between the largest limit of a hosted service and the sum of these limits when none is negative; elsewhere it
  stays.
\<close>

theorem limits_in_bounds:
  assumes "update_limits cfg rtt service st cq = Inr (st', cq')" and "cq_inv eps cq"
    and "limits_ok cfg" "\<not> is_ingress cfg"
  shows "cq_inv eps cq' \<and> cq_queue cq' = cq_queue cq \<and> cq_per_endpoint cq' = cq_per_endpoint cq \<and>
    cq_in_flight cq' = cq_in_flight cq \<and>
    (if measured service st' then
       service \<in> eps \<and>
       (\<exists>info cpus theo rt limit. map_of (mapping cfg) service = Some info \<and> cpu_count cfg = Some cpus \<and> 1 \<le> cpus \<and>
          cal_local_service_time cfg st' service = Inr rt \<and> rt \<noteq> 0 \<and>
          get_theo_term st' service (\<not> value_or (mi_pfanout info) False \<and> \<not> value_or (mi_dfanout info) False) = Inr theo \<and>
          limit = to_int32 (requests_in_service theo rt cpus + waiting_requests info) + extra_limit cfg \<and>
          - (2 ^ 31) \<le> limit \<and> limit < 2 ^ 31 \<and>
          (requests_in_service theo rt cpus + waiting_requests info < 2 ^ 31 \<longrightarrow>
             limit = requests_in_service theo rt cpus + waiting_requests info + extra_limit cfg \<and>
             2 * cpus + extra_limit cfg \<le> limit) \<and>
          val (cq_limits cq') = (val (cq_limits cq))(service := limit)) \<and>
       (if routing cfg = [] then
          (\<forall>x\<in>set (hosted_limits cfg cq'). 0 \<le> x) \<longrightarrow>
            cq_global_limit cq' \<le> sum_list (hosted_limits cfg cq') \<and>
            (\<forall>x\<in>set (hosted_limits cfg cq'). x \<le> cq_global_limit cq')
        else cq_global_limit cq' = cq_global_limit cq)
     else cq' = cq)"
proof (cases "measured service st'")
  case True
  then obtain info t rt limit cq1 where t: "map_of (mapping cfg) service = Some info"
        "cal_local_service_time cfg st' service = Inr rt"
        "get_theo_term st' service (\<not> value_or (mi_pfanout info) False \<and> \<not> value_or (mi_dfanout info) False) = Inr t"
      and e: "endpoint_limit cfg info t rt = Inr limit"
      and u: "cq_update_endpoint_limit cq limit service = Inr cq1" and r: "refresh_global_limit cfg cq1 = Inr cq'"
    using update_limits_steps [OF assms(1)] by auto
  note S = update_endpoint_limit_spec [OF assms(2) u]
  then obtain m where inv1: "cq_inv eps cq1" and m: "cq1 = cq\<lparr>cq_limits := m\<rparr>" "val m = (val (cq_limits cq))(service := limit)"
    by blast
  have c1: "cq_queue cq1 = cq_queue cq" "cq_per_endpoint cq1 = cq_per_endpoint cq" "cq_in_flight cq1 = cq_in_flight cq"
      "cq_global_limit cq1 = cq_global_limit cq"
    by (simp_all add: m)
  note R = refresh_global_limit_spec [OF inv1 r assms(3,4)]
  have same: "cq_inv eps cq' \<and> cq_queue cq' = cq_queue cq1 \<and> cq_per_endpoint cq' = cq_per_endpoint cq1 \<and>
      cq_in_flight cq' = cq_in_flight cq1 \<and> cq_limits cq' = cq_limits cq1"
  proof (cases "routing cfg = []")
    case True
    then obtain g where "cq' = cq_update_global_limit cq1 g" using R by auto
    then show ?thesis using cq_global_inv [OF inv1] by (simp add: cq_update_global_limit_def)
  qed (use R inv1 in simp)
  have hosted: "hosted_limits cfg cq' = hosted_limits cfg cq1" using same by (simp add: hosted_limits_def)
  have global: "if routing cfg = [] then
          (\<forall>x\<in>set (hosted_limits cfg cq'). 0 \<le> x) \<longrightarrow>
            cq_global_limit cq' \<le> sum_list (hosted_limits cfg cq') \<and>
            (\<forall>x\<in>set (hosted_limits cfg cq'). x \<le> cq_global_limit cq')
        else cq_global_limit cq' = cq_global_limit cq"
  proof (cases "routing cfg = []")
    case True
    then obtain g where "cq_global_limit cq' = g" "(\<forall>x\<in>set (hosted_limits cfg cq1). 0 \<le> x) \<longrightarrow>
        g \<le> sum_list (hosted_limits cfg cq1) \<and> (\<forall>x\<in>set (hosted_limits cfg cq1). x \<le> g)"
      using R by (auto simp: cq_update_global_limit_def)
    then show ?thesis using True hosted by simp
  qed (use R c1 in simp)
  let ?p = "\<lambda>cpus. requests_in_service t rt cpus" and ?n = "waiting_requests info"
  obtain cpus where l: "cpu_count cfg = Some cpus" "rt \<noteq> 0" "limit = to_int32 (?p cpus + ?n) + extra_limit cfg"
      "- (2 ^ 31) \<le> limit" "limit < 2 ^ 31"
    using endpoint_limit_exact [OF e] by auto
  have cpus: "1 \<le> cpus" using assms(3,4) l(1) by (auto simp: limits_ok_def)
  have n: "0 \<le> ?n" by (simp add: waiting_requests_def)
  have exact: "limit = ?p cpus + ?n + extra_limit cfg \<and> 2 * cpus + extra_limit cfg \<le> limit" if "?p cpus + ?n < 2 ^ 31"
  proof -
    have "- (2 ^ 31) \<le> ?p cpus + ?n" using two_per_cpu [OF cpus, of t rt] n cpus by simp
    from to_int32_in [OF this that] show ?thesis using two_per_cpu [OF cpus, of t rt] n l(3) by linarith
  qed
  have m': "val (cq_limits cq') = (val (cq_limits cq))(service := limit)" using m same by simp
  have limit: "\<exists>info cpus theo rt limit. map_of (mapping cfg) service = Some info \<and> cpu_count cfg = Some cpus \<and> 1 \<le> cpus \<and>
          cal_local_service_time cfg st' service = Inr rt \<and> rt \<noteq> 0 \<and>
          get_theo_term st' service (\<not> value_or (mi_pfanout info) False \<and> \<not> value_or (mi_dfanout info) False) = Inr theo \<and>
          limit = to_int32 (requests_in_service theo rt cpus + waiting_requests info) + extra_limit cfg \<and>
          - (2 ^ 31) \<le> limit \<and> limit < 2 ^ 31 \<and>
          (requests_in_service theo rt cpus + waiting_requests info < 2 ^ 31 \<longrightarrow>
             limit = requests_in_service theo rt cpus + waiting_requests info + extra_limit cfg \<and>
             2 * cpus + extra_limit cfg \<le> limit) \<and>
          val (cq_limits cq') = (val (cq_limits cq))(service := limit)"
    using t l cpus exact m' by blast
  show ?thesis using True S c1 same global limit by simp
qed (use update_limits_steps [OF assms(1)] assms(2) in auto)

text \<open>A leaf service on four CPUs at its 2000th measurement.\<close>

lemma single_cells [simp]: "cells {''a''} (one_cell v)" and single_val [simp]: "val (one_cell v) ''a'' = v"
  by (simp_all add: cells_def val_def one_cell_map one_cell_inv)

lemma one_cell_by_index [simp]: "by_index (one_cell v) 0 = v"
  by (simp add: by_index_def one_cell_def)

definition idle_queue :: "'b credit_queue" where
  "idle_queue =
     (let iq = \<lparr>iq_queue = one_cell [], iq_it = 0, iq_size = 0\<rparr>
      in \<lparr>cq_queue = [iq, iq, iq], cq_weights = [16, 4, 1], cq_it = 0, cq_rounds = 16, cq_size = 0,
          cq_in_flight = 0, cq_global_limit = 50, cq_per_endpoint = one_cell 0, cq_limits = one_cell 40\<rparr>)"

lemma idle_queue_inv: "cq_inv {''a''} (idle_queue :: 'b credit_queue)"
proof -
  have "iq_inv {''a''} \<lparr>iq_queue = one_cell ([] :: 'b list), iq_it = 0, iq_size = 0\<rparr>"
    by (simp add: iq_inv_def one_cell_inv one_cell_map iq_deque_def)
  then show ?thesis
    by (simp add: cq_inv_def idle_queue_def Let_def numeral_3_eq_3) (auto simp: less_Suc_eq)
qed

definition leaf_config :: config where
  "leaf_config = default_config\<lparr>cpu_count := Some 4, over_commitment := Some (Finite 1),
     mapping := [(''a'', \<lparr>mi_downstreams = [], mi_listen_port = None, mi_pfanout = None, mi_dfanout = None\<rparr>)]\<rparr>"

definition busy_stats :: "nat \<Rightarrow> stats" where
  "busy_stats n =
     (let cell = (\<lambda>v. one_cell \<lparr>ema_count = n, ema_value = v, ema_alpha = 1 / 100, ema_last_value = 0\<rparr>); q = one_cell qe_construct
      in \<lparr>ema_ds_service_time_us = cell 0, ema_us_service_time_us = cell 100, ema_us_sidecar_rtt_us = cell 0,
          ema_ds_sidecar_rtt_us = cell 0, tail_ds_service_time_us = q, tail_e2e_time_us = q,
          time_mean_ds_concurrency = one_cell tw_construct, ema_wait_to_tx_us = cell 0\<rparr>)"

lemma ceiling_twentieth: "\<lceil>1 / 20 :: real\<rceil> = 1"
  by (rule ceiling_unique) simp_all

lemma idle_queue_updated:
  "\<exists>st' cq'. update_limits leaf_config 500 ''a'' (busy_stats 1999) (idle_queue :: 'b credit_queue) = Inr (st', cq') \<and>
     cq_global_limit cq' = 8 \<and> measured ''a'' st' \<and>
     cal_local_service_time leaf_config st' ''a'' = Inr 100 \<and> get_theo_term st' ''a'' True = Inr 5"
  by (simp add: update_limits_def leaf_config_def busy_stats_def idle_queue_def cal_local_service_time_def get_theo_term_def
      endpoint_limit_def ceil_quotient_def default_config_def as_int32_def to_int32_def cq_update_endpoint_limit_def refresh_global_limit_def
      sum_and_max_def cq_get_per_endpoint_limit_def float_to_int32_def trunc_def cq_update_global_limit_def
      ema_update_def for_each_occupied_index_def measured_def Let_def
      ceiling_twentieth)

theorem limits_in_bounds_witness:
  "\<exists>st' (cq' :: nat credit_queue). update_limits leaf_config 500 ''a'' (busy_stats 1999) idle_queue = Inr (st', cq') \<and>
     cq_inv {''a''} cq' \<and> val (cq_limits cq') ''a'' = 8"
proof -
  obtain st' and cq' :: "nat credit_queue" where
    u: "update_limits leaf_config 500 ''a'' (busy_stats 1999) idle_queue = Inr (st', cq')" and m: "measured ''a'' st'"
      "cal_local_service_time leaf_config st' ''a'' = Inr 100" "get_theo_term st' ''a'' True = Inr 5"
    using idle_queue_updated by blast
  have c: "limits_ok leaf_config" "\<not> is_ingress leaf_config" "cpu_count leaf_config = Some 4" "extra_limit leaf_config = 0"
    by (simp_all add: limits_ok_def share_ok_def leaf_config_def default_config_def)
  have s: "map_of (mapping leaf_config) ''a'' = Some info \<longleftrightarrow>
      info = \<lparr>mi_downstreams = [], mi_listen_port = None, mi_pfanout = None, mi_dfanout = None\<rparr>" for info
    by (auto simp: leaf_config_def)
  show ?thesis using limits_in_bounds [OF u idle_queue_inv c(1,2)] u m c
    by (auto simp: s requests_in_service_def waiting_requests_def ceiling_twentieth)
qed

end
