(* ===== verification/Result_Rules.thy ===== *)
theory Result_Rules
  imports World
begin

text \<open>
  A small calculus for what holds when an operation succeeds: \<open>okR P r\<close> says that the value of \<open>r\<close>, when there
  is one, satisfies \<open>P\<close>. The rules of the collection \<open>okr\<close> follow the structure of an operation down to its
  results; every step of a bind leaves the equation of the operation it ran, from which the facts of that
  operation are drawn.
\<close>

named_theorems okr \<open>rules that follow the structure of an operation\<close>
named_theorems keeps \<open>what successful operations preserve\<close>

definition okR :: "('a \<Rightarrow> bool) \<Rightarrow> 'e + 'a \<Rightarrow> bool" where
  "okR P r \<longleftrightarrow> (\<forall>x. r = Inr x \<longrightarrow> P x)"

lemma okR_Inr [okr]: "P x \<Longrightarrow> okR P (Inr x)"
  by (simp add: okR_def)

lemma okR_Inl [okr]: "okR P (Inl e)"
  by (simp add: okR_def)

lemma okR_bind [okr]: "(\<And>a. r = Inr a \<Longrightarrow> okR P (f a)) \<Longrightarrow> okR P (bindR r f)"
  by (auto simp: okR_def)

lemma okR_if [okr]: "(b \<Longrightarrow> okR P x) \<Longrightarrow> (\<not> b \<Longrightarrow> okR P y) \<Longrightarrow> okR P (if b then x else y)"
  by simp

lemma okR_let [okr]: "(\<And>y. y = x \<Longrightarrow> okR P (f y)) \<Longrightarrow> okR P (Let x f)"
  by simp

lemma okR_prod [okr]: "(\<And>a b. x = (a, b) \<Longrightarrow> okR P (f a b)) \<Longrightarrow> okR P (case x of (a, b) \<Rightarrow> f a b)"
  by (cases x) simp

lemma okR_prod_app [okr]: "(\<And>a b. x = (a, b) \<Longrightarrow> okR P (f a b y)) \<Longrightarrow> okR P ((case x of (a, b) \<Rightarrow> f a b) y)"
  by (cases x) simp

lemma okR_option [okr]:
  "(x = None \<Longrightarrow> okR P a) \<Longrightarrow> (\<And>v. x = Some v \<Longrightarrow> okR P (f v)) \<Longrightarrow> okR P (case x of None \<Rightarrow> a | Some v \<Rightarrow> f v)"
  by (cases x) simp_all

lemma okR_sum [okr]:
  "(\<And>v. x = Inl v \<Longrightarrow> okR P (f v)) \<Longrightarrow> (\<And>v. x = Inr v \<Longrightarrow> okR P (g v)) \<Longrightarrow> okR P (case x of Inl v \<Rightarrow> f v | Inr v \<Rightarrow> g v)"
  by (cases x) simp_all

lemma okR_list [okr]:
  "(x = [] \<Longrightarrow> okR P a) \<Longrightarrow> (\<And>y ys. x = y # ys \<Longrightarrow> okR P (f y ys)) \<Longrightarrow> okR P (case x of [] \<Rightarrow> a | y # ys \<Rightarrow> f y ys)"
  by (cases x) simp_all

lemma okR_http [okr]:
  "(x = HTTP1 \<Longrightarrow> okR P a) \<Longrightarrow> (x = HTTP2 \<Longrightarrow> okR P b) \<Longrightarrow> okR P (case x of HTTP1 \<Rightarrow> a | HTTP2 \<Rightarrow> b)"
  by (cases x) simp_all

lemma okR_dir [okr]:
  "(x = UPSTREAM \<Longrightarrow> okR P a) \<Longrightarrow> (x = DOWNSTREAM \<Longrightarrow> okR P b) \<Longrightarrow>
   okR P (case x of UPSTREAM \<Rightarrow> a | DOWNSTREAM \<Rightarrow> b)"
  by (cases x) simp_all

lemma okR_type [okr]:
  "(x = INGRESS \<Longrightarrow> okR P a) \<Longrightarrow> (x = EGRESS \<Longrightarrow> okR P b) \<Longrightarrow> okR P (case x of INGRESS \<Rightarrow> a | EGRESS \<Rightarrow> b)"
  by (cases x) simp_all

lemma okR_status [okr]:
  "(x = UP \<Longrightarrow> okR P a) \<Longrightarrow> (x = DOWN \<Longrightarrow> okR P b) \<Longrightarrow> (x = TEARDOWN \<Longrightarrow> okR P c) \<Longrightarrow>
   okR P (case x of UP \<Rightarrow> a | DOWN \<Rightarrow> b | TEARDOWN \<Rightarrow> c)"
  by (cases x) simp_all

lemma okR_parse_error [okr]:
  "(x = Parse_Failed \<Longrightarrow> okR P a) \<Longrightarrow> (x = Parse_Partial \<Longrightarrow> okR P b) \<Longrightarrow> (x = Parse_Overrun \<Longrightarrow> okR P c) \<Longrightarrow>
   okR P (case x of Parse_Failed \<Rightarrow> a | Parse_Partial \<Rightarrow> b | Parse_Overrun \<Rightarrow> c)"
  by (cases x) simp_all

lemma okR_hcat [okr]:
  "(x = HCAT_REQUEST \<Longrightarrow> okR P a) \<Longrightarrow> (x = HCAT_RESPONSE \<Longrightarrow> okR P b) \<Longrightarrow> (x = HCAT_PUSH_RESPONSE \<Longrightarrow> okR P c) \<Longrightarrow>
   (x = HCAT_HEADERS \<Longrightarrow> okR P d) \<Longrightarrow>
   okR P (case x of HCAT_REQUEST \<Rightarrow> a | HCAT_RESPONSE \<Rightarrow> b | HCAT_PUSH_RESPONSE \<Rightarrow> c | HCAT_HEADERS \<Rightarrow> d)"
  by (cases x) simp_all

lemma okR_frame [okr]:
  "(x = FRAME_DATA \<Longrightarrow> okR P a) \<Longrightarrow> (x = FRAME_HEADERS \<Longrightarrow> okR P b) \<Longrightarrow> (x = FRAME_SETTINGS \<Longrightarrow> okR P c) \<Longrightarrow>
   (x = FRAME_OTHER \<Longrightarrow> okR P d) \<Longrightarrow>
   okR P (case x of FRAME_DATA \<Rightarrow> a | FRAME_HEADERS \<Rightarrow> b | FRAME_SETTINGS \<Rightarrow> c | FRAME_OTHER \<Rightarrow> d)"
  by (cases x) simp_all

lemma okR_event [okr]:
  "(\<And>u v. x = Ev_Begin_Headers u v \<Longrightarrow> okR P (a u v)) \<Longrightarrow>
   (\<And>u v n l w m. x = Ev_Header u v n l w m \<Longrightarrow> okR P (b u v n l w m)) \<Longrightarrow>
   (\<And>u v w. x = Ev_Data_Chunk u v w \<Longrightarrow> okR P (c u v w)) \<Longrightarrow>
   (\<And>u v w. x = Ev_Frame_Recv u v w \<Longrightarrow> okR P (d u v w)) \<Longrightarrow>
   (x = Ev_Invalid_Frame \<Longrightarrow> okR P e) \<Longrightarrow> (x = Ev_Error \<Longrightarrow> okR P f) \<Longrightarrow>
   okR P (case x of Ev_Begin_Headers u v \<Rightarrow> a u v | Ev_Header u v n l w m \<Rightarrow> b u v n l w m | Ev_Data_Chunk u v w \<Rightarrow> c u v w
     | Ev_Frame_Recv u v w \<Rightarrow> d u v w | Ev_Invalid_Frame \<Rightarrow> e | Ev_Error \<Rightarrow> f)"
  by (cases x) simp_all

lemma okR_source [okr]:
  "(\<And>r. x = Request_Data r \<Longrightarrow> okR P (a r)) \<Longrightarrow> (\<And>r. x = Response_Data r \<Longrightarrow> okR P (b r)) \<Longrightarrow>
   okR P (case x of Request_Data r \<Rightarrow> a r | Response_Data r \<Rightarrow> b r)"
  by (cases x) simp_all

lemma okR_abort [okr]: "okR P r \<Longrightarrow> okR P (abort_on_exception msg r)"
  by (auto simp: okR_def)

lemma okR_fatal_out_of_range [okr]: "okR P r \<Longrightarrow> okR P (fatal_out_of_range r)"
  by (auto simp: okR_def fatal_out_of_range_def split: sum.splits error.splits)

text \<open>An operation in the last place, and the two ends of a proof.\<close>

lemma okR_last: "(\<And>x. r = Inr x \<Longrightarrow> P x) \<Longrightarrow> okR P r"
  by (simp add: okR_def)

lemma okR_dest: "r = Inr y \<Longrightarrow> okR (\<lambda>x. x = y \<longrightarrow> Q) r \<Longrightarrow> Q"
  by (simp add: okR_def)

lemma okR_step: "okR Q r \<Longrightarrow> (\<And>a. Q a \<Longrightarrow> okR P (f a)) \<Longrightarrow> okR P (bindR r f)"
  by (auto simp: okR_def)

lemma okR_fold: "foldR f xs s = Inr s' \<Longrightarrow> P s \<Longrightarrow> (\<And>x s. x \<in> set xs \<Longrightarrow> P s \<Longrightarrow> okR P (f x s)) \<Longrightarrow> P s'"
  by (rule foldR_inv [of P s xs f]) (auto simp: okR_def)

text \<open>A bind whose first part is not a single operation.\<close>

lemma bind_push:
  "bindR (if b then x else y) f = (if b then bindR x f else bindR y f)"
  "bindR (Let s g) f = Let s (\<lambda>z. bindR (g z) f)"
  "bindR (case p of (a, c) \<Rightarrow> h a c) f = (case p of (a, c) \<Rightarrow> bindR (h a c) f)"
  "bindR (case m of None \<Rightarrow> x | Some v \<Rightarrow> k v) f = (case m of None \<Rightarrow> bindR x f | Some v \<Rightarrow> bindR (k v) f)"
  "bindR (case t of INGRESS \<Rightarrow> x | EGRESS \<Rightarrow> y) f = (case t of INGRESS \<Rightarrow> bindR x f | EGRESS \<Rightarrow> bindR y f)"
  "bindR (case d of UPSTREAM \<Rightarrow> x | DOWNSTREAM \<Rightarrow> y) f = (case d of UPSTREAM \<Rightarrow> bindR x f | DOWNSTREAM \<Rightarrow> bindR y f)"
  "bindR (case v of HTTP1 \<Rightarrow> x | HTTP2 \<Rightarrow> y) f = (case v of HTTP1 \<Rightarrow> bindR x f | HTTP2 \<Rightarrow> bindR y f)"
  "bindR (Inr u) f = f u" "bindR (Inl e) f = Inl e"
  by (simp_all add: Let_def split: prod.split option.split conn_type.split conn_dir.split http_version.split)

lemmas bind_flat = bind_push bindR_assoc

end
