(* ===== verification/Sidecar_Messages.thy ===== *)
theory Sidecar_Messages
  imports Result_Rules
begin

text \<open>
  The first half of the invariant of a sidecar thread: what every operation on messages, connections and the
  core keeps. Datagrams are well formed when the dispatcher of any peer accepts them and the service name can
  be read from them; a message holds only well-formed datagrams; an HTTP/2 connection has a session and the
  bytes of an HTTP/1 connection fit its array.
\<close>

section \<open>Well-formed datagrams\<close>

definition payload_ok :: "byte list \<Rightarrow> bool" where
  "payload_ok p \<longleftrightarrow> 26 \<le> unat (p ! 0) \<and> unat (p ! 0) \<le> length p \<and>
     (p ! 1 = 2 \<or> p ! 1 = 1 \<and> (p ! 2 = 0 \<or> p ! 2 = 1))"

text \<open>A buffer that fits its array, one that is ready to be sent, and one that was received.\<close>

definition sized :: "buffer \<Rightarrow> bool" where
  "sized b \<longleftrightarrow> buf_size b \<le> length (buf_data b)"

definition datagram_ok :: "buffer \<Rightarrow> bool" where
  "datagram_ok b \<longleftrightarrow> sized b \<and> (case buf_msg b of None \<Rightarrow> False | Some n \<Rightarrow> n \<le> length (buf_data b) \<and> payload_ok (take n (buf_data b)))"

definition received_ok :: "buffer \<Rightarrow> bool" where
  "received_ok b \<longleftrightarrow> buf_filled b \<le> length (buf_data b) \<and> payload_ok (take (buf_filled b) (buf_data b))"

lemma payload_dispatched:
  "payload_ok p \<Longrightarrow> \<exists>a. dispatch_rlp ing (b\<lparr>buf_data := p @ rest, buf_filled := length p\<rparr>) = Inr a"
  by (auto simp: payload_ok_def dispatch_rlp_def rlp_header_def Let_def nth_append)

lemma datagram_payload: "datagram_ok b \<Longrightarrow> payload_ok (msg_payload b)"
  by (simp add: datagram_ok_def msg_payload_def split: option.splits)

lemma payload_ok_cong:
  assumes "payload_ok p" "length q = length p" "q ! 0 = p ! 0" "q ! 1 = 2 \<or> q ! 1 = 1 \<and> (q ! 2 = 0 \<or> q ! 2 = 1)"
  shows "payload_ok q"
  using assms by (simp add: payload_ok_def)

lemma payload_long: "payload_ok p \<Longrightarrow> 26 \<le> length p"
  by (simp add: payload_ok_def)

lemma dispatched_ok:
  assumes "dispatch_rlp ing b = Inr a" "buf_filled b \<le> length (buf_data b)"
  shows "received_ok b"
  using assms by (auto simp: dispatch_rlp_def Let_def rlp_header_def received_ok_def payload_ok_def split: if_splits)

lemma write_at_longer: "length dst \<le> length (write_at dst off src)"
  by (simp add: write_at_def)

lemma sized_write_at [simp]: "sized b \<Longrightarrow> sized (b\<lparr>buf_data := write_at (buf_data b) off src\<rparr>)"
  using write_at_longer [of "buf_data b"] by (auto simp: sized_def intro: order_trans)

lemma sized_filled [simp]: "sized (b\<lparr>buf_filled := n\<rparr>) = sized b"
  by (simp add: sized_def)

lemma set_filled_keeps [keeps]: "set_filled b n = Inr b' \<Longrightarrow> sized b \<longrightarrow> sized b'"
  by (auto simp: set_filled_def split: if_splits)

lemma put_all_nth: "put_all ps d = Inr d' \<Longrightarrow> i \<notin> fst ` set ps \<Longrightarrow> d' ! i = d ! i"
  by (induction ps d rule: put_all.induct) (auto simp: put_at_def split: if_splits)

lemma set_filled_eq: "set_filled b n = Inr b' \<Longrightarrow> b' = b\<lparr>buf_filled := n\<rparr>"
  by (auto simp: set_filled_def split: if_splits)

lemma handle_multishot_filled:
  "handle_multishot_recv b res = Inr b' \<Longrightarrow> buf_filled b' \<le> length (buf_data b')"
  by (auto simp: handle_multishot_recv_def Let_def write_at_def dest!: set_filled_eq split: if_splits)

lemma credit_request_ok:
  assumes "write_credit_request b service n i pr now rtt = Inr b'" "length service \<le> 229" "sized b"
  shows "datagram_ok (prepare_sendmsg b' a)"
proof -
  let ?len = "26 + length service"
  obtain d where long: "?len \<le> length (buf_data b)"
      and put: "put_all (request_header ?len n i pr now rtt) (buf_data b) = Inr d"
      and b': "b' = b\<lparr>buf_data := write_at d 26 (bytes service), buf_filled := ?len\<rparr>"
    using assms(1) by (auto simp: write_credit_request_def Let_def rlp_header_def dest!: set_filled_eq split: if_splits)
  have len: "length d = length (buf_data b)" using put by (rule put_all_length)
  obtain d3 where d3: "put_all [(0, of_nat ?len), (1, 1), (2, 0), (3, of_int n)] (buf_data b) = Inr d3"
      and rest: "put_all (zip [5..<13] (be_bytes 8 i) @ [(13, of_int pr)] @ zip [14..<22] (be_bytes 8 now) @
        zip [22..<26] (be_bytes 4 rtt)) d3 = Inr d"
    using put unfolding request_header_def put_all_append by auto
  have "d ! k = d3 ! k" if "k < 3" for k
    by (rule put_all_nth [OF rest]) (use that in \<open>auto dest: set_zip_leftD\<close>)
  moreover have "d3 ! 0 = of_nat ?len" "d3 ! 1 = 1" "d3 ! 2 = 0"
    using d3 long by (auto simp: put_at_def split: if_splits)
  ultimately have "d ! 0 = of_nat ?len" "d ! 1 = 1" "d ! 2 = 0" by simp_all
  then show ?thesis
    using long len assms(2,3) unat_of_nat [of ?len, where 'a = 8] write_at_longer [of d 26 "bytes service"]
    by (simp add: sized_def datagram_ok_def payload_ok_def prepare_sendmsg_def b' write_at_def nth_append)
qed

lemma copy_received:
  assumes "received_ok req" "buf_filled req \<le> length d"
  shows "take (buf_filled req) (write_at d 0 (take (buf_filled req) (buf_data req))) = take (buf_filled req) (buf_data req)"
  using assms by (simp add: received_ok_def write_at_def)

lemma grant_ok:
  assumes "write_failed_dn_response req resp = Inr b" "received_ok req" "buf_data req ! 1 = 1" "sized resp"
  shows "datagram_ok b"
proof -
  let ?n = "buf_filled req"
  let ?c = "write_at (buf_data resp) 0 (take ?n (buf_data req))"
  obtain d where fits: "?n \<le> length (buf_data resp)" and put: "put_all [(2, 1), (4, 1)] ?c = Inr d"
      and b: "b = prepare_sendmsg (resp\<lparr>buf_data := d, buf_filled := ?n\<rparr>) (buf_addr req)"
    using assms(1) by (auto simp: write_failed_dn_response_def write_credit_grant_def dest!: set_filled_eq split: if_splits)
  have p: "payload_ok (take ?n (buf_data req))" "?n \<le> length (buf_data req)" "26 \<le> ?n"
    using assms(2) payload_long by (auto simp: received_ok_def dest: payload_long)
  have len: "length d = length ?c" "length ?c = length (buf_data resp)"
    using put_all_length [OF put] fits p(2) by (simp_all add: write_at_def)
  have c: "?c ! k = buf_data req ! k" if "k < ?n" for k
    using that p(2) by (simp add: write_at_def nth_append)
  have "d ! 0 = ?c ! 0" "d ! 1 = ?c ! 1" by (rule put_all_nth [OF put]; simp)+
  moreover have "d ! 2 = 1" using put len p(3) fits by (auto simp: put_at_def split: if_splits)
  ultimately have "payload_ok (take ?n d)"
    using c p(3) assms(3) len fits p(2) by (intro payload_ok_cong [OF p(1)]) simp_all
  then show ?thesis using len fits assms(4) by (simp add: b sized_def datagram_ok_def prepare_sendmsg_def)
qed

lemma stamp_ok:
  assumes "stamp_queuing_time now b = Inr b'" "datagram_ok b"
  shows "datagram_ok b'"
proof -
  obtain d n where put: "put_all (zip [22..<26] (be_bytes 4 (to_int32 (now - enter_queue_ts b)))) (buf_data b) = Inr d"
      and b': "b' = b\<lparr>buf_data := d\<rparr>" and sz: "sized b" and n: "buf_msg b = Some n" "n \<le> length (buf_data b)" "payload_ok (take n (buf_data b))"
    using assms by (auto simp: stamp_queuing_time_def datagram_ok_def split: option.splits)
  have len: "length d = length (buf_data b)" using put by (rule put_all_length)
  have eq: "d ! k = buf_data b ! k" if "k < 3" for k
    by (rule put_all_nth [OF put]) (use that in \<open>auto dest: set_zip_leftD\<close>)
  have "26 \<le> n" using payload_long [OF n(3)] n(2) by simp
  then have "payload_ok (take n d)"
    using n(3) eq len n(2) by (simp add: payload_ok_def)
  then show ?thesis using n len sz by (simp add: sized_def datagram_ok_def b')
qed

lemma return_ok:
  assumes "write_credit_return g r = Inr b" "received_ok g" "sized r"
  shows "datagram_ok b"
proof -
  let ?n = "buf_filled g"
  let ?c = "write_at (buf_data r) 0 (take ?n (buf_data g))"
  obtain d where fits: "?n \<le> buf_size r" and put: "put_at 1 2 ?c = Inr d"
      and b: "b = prepare_sendmsg (r\<lparr>buf_filled := ?n, buf_data := d\<rparr>) (buf_addr g)"
    using assms(1) by (auto simp: write_credit_return_def set_filled_def split: if_splits)
  have p: "payload_ok (take ?n (buf_data g))" "?n \<le> length (buf_data g)" "26 \<le> ?n"
    using assms(2) by (auto simp: received_ok_def dest: payload_long)
  have len: "length ?c = length (buf_data r)" using fits p(2) assms(3) by (simp add: sized_def write_at_def)
  have d: "d = ?c[1 := 2]" using put by (auto simp: put_at_def split: if_splits)
  have "?c ! 0 = buf_data g ! 0" using p(2,3) by (simp add: write_at_def nth_append)
  then have "payload_ok (take ?n d)"
    using p len fits assms(3) by (intro payload_ok_cong [OF p(1)]) (simp_all add: d sized_def)
  then show ?thesis using len fits assms(3) by (simp add: b d sized_def datagram_ok_def prepare_sendmsg_def)
qed

section \<open>Messages and the core\<close>

definition msg_ok :: "rpc_message \<Rightarrow> bool" where
  "msg_ok m \<longleftrightarrow> (\<forall>b\<in>set (credit_return_queue m). datagram_ok b)"

definition heap_ok :: "heap \<Rightarrow> bool" where
  "heap_ok h \<longleftrightarrow> (\<forall>r. msg_ok (h r))"

definition core_ok :: "core \<Rightarrow> bool" where
  "core_ok k \<longleftrightarrow> heap_ok (k_heap k)"

lemma heap_ok_upd [simp]: "heap_ok h \<Longrightarrow> heap_ok (h(r := m)) = msg_ok m"
  by (auto simp: heap_ok_def)

lemma core_ok_msg [simp]: "core_ok k \<Longrightarrow> msg_ok (k_heap k r)"
  by (simp add: core_ok_def heap_ok_def)

lemma heap_ok_msg [simp]: "heap_ok h \<Longrightarrow> msg_ok (h r)"
  by (simp add: heap_ok_def)

lemma core_ok_simps [simp]:
  "core_ok (k\<lparr>k_ctr := c\<rparr>) = core_ok k" "core_ok (k\<lparr>k_mapper := mp\<rparr>) = core_ok k"
  "core_ok (k\<lparr>k_rq := q\<rparr>) = core_ok k" "core_ok (k\<lparr>k_stats := st\<rparr>) = core_ok k"
  "core_ok (k\<lparr>k_heap := h\<rparr>) = heap_ok h"
  by (simp_all add: core_ok_def)

lemma core_ok_upd_msg [simp]: "core_ok k \<Longrightarrow> core_ok (upd_msg r f k) = msg_ok (f (k_heap k r))"
  by (auto simp: core_ok_def upd_msg_def)

lemma heap_ok_core [simp]: "heap_ok (k_heap k) = core_ok k"
  by (simp add: core_ok_def)

lemma msg_ok_simps [simp]:
  "msg_ok (m\<lparr>ds_fd := i\<rparr>) = msg_ok m" "msg_ok (m\<lparr>ds_stream_id := i\<rparr>) = msg_ok m" "msg_ok (m\<lparr>us_fd := i\<rparr>) = msg_ok m"
  "msg_ok (m\<lparr>us_stream_id := i\<rparr>) = msg_ok m" "msg_ok (m\<lparr>local_id := i\<rparr>) = msg_ok m" "msg_ok (m\<lparr>global_id := i\<rparr>) = msg_ok m"
  "msg_ok (m\<lparr>m_priority := i\<rparr>) = msg_ok m" "msg_ok (m\<lparr>m_type := t\<rparr>) = msg_ok m" "msg_ok (m\<lparr>req_rcv_time := i\<rparr>) = msg_ok m"
  "msg_ok (m\<lparr>req_for_time := i\<rparr>) = msg_ok m" "msg_ok (m\<lparr>res_rcv_time := i\<rparr>) = msg_ok m" "msg_ok (m\<lparr>pfanout_req := w\<rparr>) = msg_ok m"
  "msg_ok (m\<lparr>pfanout_res := w\<rparr>) = msg_ok m" "msg_ok (m\<lparr>dfanout_service := r\<rparr>) = msg_ok m" "msg_ok (m\<lparr>m_service := s\<rparr>) = msg_ok m"
  "msg_ok (m\<lparr>m_method := s\<rparr>) = msg_ok m" "msg_ok (m\<lparr>m_error := b\<rparr>) = msg_ok m" "msg_ok (m\<lparr>req_headers := hs\<rparr>) = msg_ok m"
  "msg_ok (m\<lparr>req_header_count := n\<rparr>) = msg_ok m" "msg_ok (m\<lparr>res_headers := hs\<rparr>) = msg_ok m"
  "msg_ok (m\<lparr>res_header_count := n\<rparr>) = msg_ok m" "msg_ok (m\<lparr>res_trailers := hs\<rparr>) = msg_ok m"
  "msg_ok (m\<lparr>res_trailer_count := n\<rparr>) = msg_ok m" "msg_ok (m\<lparr>req_data := d\<rparr>) = msg_ok m"
  "msg_ok (m\<lparr>res_data := d\<rparr>) = msg_ok m" "msg_ok (m\<lparr>m_path := s\<rparr>) = msg_ok m" "msg_ok (m\<lparr>m_minor := i\<rparr>) = msg_ok m"
  "msg_ok (m\<lparr>m_status := i\<rparr>) = msg_ok m" "msg_ok (m\<lparr>m_msg := s\<rparr>) = msg_ok m"
  by (simp_all add: msg_ok_def)

lemma read_path_keeps [keeps]: "read_path m nm v vl = Inr m' \<Longrightarrow> msg_ok m \<longrightarrow> msg_ok m'"
  by (auto simp: read_path_def split: if_splits)

lemma read_request_field_keeps [keeps]:
  "read_request_field ing c m nm v = Inr (b, c', m') \<Longrightarrow> msg_ok m \<longrightarrow> msg_ok m'"
  by (erule okR_dest, unfold read_request_field_def read_rpc_id_def read_rpc_local_id_def read_priority_def bind_flat,
      intro okr, auto)

lemma store_field_keeps [keeps]: "store_field m nm nl v vl req tail = Inr m' \<Longrightarrow> msg_ok m \<longrightarrow> msg_ok m'"
  by (auto simp: store_field_def split: if_splits)

lemma add_header_field_keeps [keeps]:
  "add_header_field ing c m nm nl v vl req tail = Inr (c', m') \<Longrightarrow> msg_ok m \<longrightarrow> msg_ok m'"
  by (erule okR_dest, unfold add_header_field_def grpc_add_header_field_def http_add_header_field_def bind_flat,
      intro okr, auto simp: okR_def dest!: keeps)

lemma set_local_id_header_keeps [keeps]:
  "set_local_id_header ing c m = Inr (c', m') \<Longrightarrow> msg_ok m \<longrightarrow> msg_ok m'"
  by (erule okR_dest, unfold set_local_id_header_def bind_flat, auto simp: okR_def dest!: keeps)

lemma set_service_keeps [keeps]:
  "set_service m s = Inr m' \<Longrightarrow> msg_ok m \<longrightarrow> msg_ok m'"
  by (erule okR_dest, unfold set_service_def bind_flat, intro okr, auto simp: okR_def dest!: keeps)

lemma add_data_keeps [keeps]:
  "add_data m d n req = Inr m' \<Longrightarrow> msg_ok m \<longrightarrow> msg_ok m'"
  by (erule okR_dest, unfold add_data_defs bind_flat, intro okr, auto simp: okR_def dest!: keeps)

lemma clear_keeps [keeps]: "clear m = Inr m' \<Longrightarrow> msg_ok m'"
  by (auto simp: clear_defs msg_ok_def split: http_version.splits if_splits)

lemma free_rpc_keeps [keeps]: "free_rpc h p n r = Inr (h', p') \<Longrightarrow> heap_ok h \<longrightarrow> heap_ok h'"
  by (auto simp: free_rpc_def dest!: keeps split: if_splits)

lemma get_rpc_keeps [keeps]: "get_rpc h p i fd http t = Inr (r, h', p') \<Longrightarrow> heap_ok h \<longrightarrow> heap_ok h'"
  by (auto simp: get_rpc_def Let_def split: list.splits)

lemma allocate_rpc_keeps [keeps]:
  "allocate_rpc h mp t i fd http = Inr (r, h', mp') \<Longrightarrow> heap_ok h \<longrightarrow> heap_ok h'"
  by (erule okR_dest, unfold allocate_rpc_def bind_flat, intro okr, auto simp: okR_def dest!: keeps)

lemma remove_rpc_keeps [keeps]:
  "remove_rpc h mp t n r = Inr (h', mp') \<Longrightarrow> heap_ok h \<longrightarrow> heap_ok h'"
  by (erule okR_dest, unfold remove_rpc_def bind_flat, intro okr, auto simp: okR_def dest!: keeps)

lemma add_rpc_id_header_keeps [keeps]:
  "add_rpc_id_header cfg r ig k = Inr (ig', k') \<Longrightarrow> core_ok k \<longrightarrow> core_ok k'"
  by (erule okR_dest, unfold add_rpc_id_header_def bind_flat, intro okr, auto simp: okR_def dest!: keeps)

lemma add_priority_header_keeps [keeps]:
  "add_priority_header cfg r ig k = Inr k' \<Longrightarrow> core_ok k \<longrightarrow> core_ok k'"
  by (erule okR_dest, unfold add_priority_header_def bind_flat, intro okr, auto simp: okR_def dest!: keeps)

lemma drop_rpc_keeps [keeps]:
  "drop_rpc r ig k = Inr (ig', k') \<Longrightarrow> core_ok k \<longrightarrow> core_ok k'"
  by (erule okR_dest, unfold drop_rpc_def bind_flat, intro okr, auto simp: okR_def dest!: keeps)

lemma ingress_enqueue_keeps [keeps]:
  "ingress_enqueue cfg now r ig k = Inr (ig', k') \<Longrightarrow> core_ok k \<longrightarrow> core_ok k'"
  by (erule okR_dest, unfold ingress_enqueue_def bind_flat, intro okr, auto simp: okR_def dest!: keeps)

end
