(* ===== verification/Sidecar_Connections.thy ===== *)
theory Sidecar_Connections
  imports Sidecar_Messages
begin

text \<open>
  The second part of the invariant of a sidecar thread: every read, write and submission keeps the connection
  it works on and the core well formed, for HTTP/1 and for HTTP/2 with any nghttp2.
\<close>

definition conn_ok :: "'s conn \<Rightarrow> bool" where
  "conn_ok c \<longleftrightarrow> (c_http c = HTTP2 \<longrightarrow> h2_session c \<noteq> None) \<and>
     length (h1_buf c) \<le> HTTP1Connection_BUF_SIZE \<and> h1_prev_buf_len c \<le> length (h1_buf c)"

lemma conn_ok_simps [simp]:
  "conn_ok (c\<lparr>c_status := s\<rparr>) = conn_ok c" "conn_ok (c\<lparr>h1_hdr_complete := b\<rparr>) = conn_ok c"
  "conn_ok (c\<lparr>h1_content_length := i\<rparr>) = conn_ok c" "conn_ok (c\<lparr>h1_hdr_size := i\<rparr>) = conn_ok c"
  "conn_ok (c\<lparr>h1_idle := b\<rparr>) = conn_ok c" "conn_ok (c\<lparr>h1_last_id := i\<rparr>) = conn_ok c"
  "conn_ok (c\<lparr>h1_rpc_message := r\<rparr>) = conn_ok c"
  by (simp_all add: conn_ok_def)

lemma conn_ok_session [simp]: "conn_ok c \<Longrightarrow> conn_ok (c\<lparr>h2_session := Some s\<rparr>)"
  by (simp add: conn_ok_def)

lemma conn_ok_reset [simp]: "conn_ok c \<Longrightarrow> conn_ok (h1_reset c)"
  by (simp add: conn_ok_def h1_reset_def)

lemma conn_ok_append:
  assumes "conn_ok c" "length bs \<le> HTTP1Connection_BUF_SIZE - length (h1_buf c)"
  shows "conn_ok (c\<lparr>h1_prev_buf_len := length (h1_buf c), h1_buf := h1_buf c @ bs\<rparr>)"
  using assms by (auto simp: conn_ok_def)

text \<open>A connection that satisfies the invariant never misses its session.\<close>

lemma conn_ok_has_session: "conn_ok c \<Longrightarrow> c_http c = HTTP2 \<Longrightarrow> \<exists>s. session_of c = Inr s"
  by (auto simp: conn_ok_def session_of_def)

section \<open>HTTP/1\<close>

lemma add_parsed_header_keeps [keeps]:
  "add_parsed_header cfg req h (c, m) = Inr (c', m') \<Longrightarrow> msg_ok m \<longrightarrow> msg_ok m'"
  by (erule okR_dest, unfold add_parsed_header_def bind_flat, intro okr, auto simp: okR_def dest!: keeps)

lemma parsed_headers_keep [keeps]:
  "foldR (add_parsed_header cfg req) hs (c, m) = Inr (c', m') \<Longrightarrow> msg_ok m \<longrightarrow> msg_ok m'"
  using okR_fold [where P = "\<lambda>(_, m). msg_ok m" and f = "add_parsed_header cfg req"]
  by (fastforce simp: okR_def dest!: keeps)

lemma new_http_request_keeps [keeps]:
  "new_http_request cfg now c q k = Inr (r, k') \<Longrightarrow> core_ok k \<longrightarrow> core_ok k'"
  by (erule okR_dest, unfold new_http_request_def bind_flat, intro okr, auto simp: okR_def dest!: keeps)

lemma http1_read_request_keeps [keeps]:
  "http1_read_request sse cfg now behind c ig k = Inr (c', ig', k') \<Longrightarrow> conn_ok c \<and> core_ok k \<longrightarrow> conn_ok c' \<and> core_ok k'"
  by (erule okR_dest, unfold http1_read_request_def bind_flat, intro okr, auto simp: okR_def dest!: keeps)

lemma http1_response_head_keeps [keeps]:
  "http1_response_head sse cfg c k = Inr (Some (c', k')) \<Longrightarrow> conn_ok c \<and> core_ok k \<longrightarrow> conn_ok c' \<and> core_ok k'"
  by (erule okR_dest, unfold http1_response_head_def bind_flat, intro okr, auto simp: okR_def dest!: keeps)

lemma http1_response_body_keeps [keeps]:
  "http1_response_body now c k = Inr (c', k') \<Longrightarrow> conn_ok c \<and> core_ok k \<longrightarrow> conn_ok c' \<and> core_ok k'"
  by (erule okR_dest, unfold http1_response_body_def bind_flat, intro okr, auto simp: okR_def dest!: keeps)

lemma http1_read_response_keeps [keeps]:
  "http1_read_response sse cfg now c k = Inr (c', k') \<Longrightarrow> conn_ok c \<and> core_ok k \<longrightarrow> conn_ok c' \<and> core_ok k'"
  by (erule okR_dest, unfold http1_read_response_def bind_flat, intro okr, auto simp: okR_def dest!: keeps)

lemma http1_read_keeps [keeps]:
  "http1_read sse cfg now behind b c ig k = Inr (c', ig', k') \<Longrightarrow> conn_ok c \<and> core_ok k \<longrightarrow> conn_ok c' \<and> core_ok k'"
  by (erule okR_dest, unfold http1_read_def bind_flat, intro okr, auto simp: okR_def conn_ok_append dest!: keeps)

lemma append_fmt_keeps [keeps]:
  "append_fmt txt (b, n) = Inr (b', n') \<Longrightarrow> sized b \<longrightarrow> sized b'"
  by (erule okR_dest, unfold append_fmt_def bind_flat, intro okr, auto simp: okR_def dest!: keeps)

lemma append_headers_keep [keeps]: "append_headers hs k (b, n) = Inr (b', n') \<Longrightarrow> sized b \<longrightarrow> sized b'"
  using okR_fold [where P = "\<lambda>(b, n). sized b" and f = "\<lambda>i s. bindR (vec_at hs i) (\<lambda>h. append_fmt (header_text h) s)"]
  by (fastforce simp: append_headers_def okR_def dest!: keeps)

lemma append_body_keeps [keeps]:
  "append_body d (b, n) = Inr (b', n') \<Longrightarrow> sized b \<longrightarrow> sized b'"
  by (erule okR_dest, unfold append_body_def bind_flat, intro okr, auto simp: okR_def dest!: keeps)

lemma http1_write_keeps [keeps]:
  "http1_write cfg now b c k = Inr (b', n, c', k') \<Longrightarrow> conn_ok c \<and> core_ok k \<and> sized b \<longrightarrow> conn_ok c' \<and> core_ok k' \<and> sized b'"
  by (erule okR_dest, unfold http1_write_def bind_flat, intro okr, auto simp: okR_def dest!: keeps)

lemma set_rpc_message_keeps [keeps]:
  "set_rpc_message k r c = Inr c' \<Longrightarrow> conn_ok c \<longrightarrow> conn_ok c'"
  by (erule okR_dest, unfold set_rpc_message_def bind_flat, intro okr, auto simp: okR_def dest!: keeps)

lemma http1_submit_request_keeps [keeps]:
  "http1_submit_request k r c = Inr (i, c') \<Longrightarrow> conn_ok c \<longrightarrow> conn_ok c'"
  by (erule okR_dest, unfold http1_submit_request_def bind_flat, intro okr, auto simp: okR_def dest!: keeps)

lemma http1_submit_replies_keep [keeps]:
  "http1_submit_response k r c = Inr c' \<Longrightarrow> conn_ok c \<longrightarrow> conn_ok c'"
  "http1_submit_error_response k r c = Inr c' \<Longrightarrow> conn_ok c \<longrightarrow> conn_ok c'"
  by (auto simp: http1_submit_response_def http1_submit_error_response_def dest!: keeps)

section \<open>HTTP/2\<close>

lemma frame_recv_callback_keeps [keeps]:
  "frame_recv_callback now f i e c k = Inr (c', k') \<Longrightarrow> conn_ok c \<and> core_ok k \<longrightarrow> conn_ok c' \<and> core_ok k'"
  by (erule okR_dest, unfold frame_recv_callback_def bind_flat, intro okr, auto simp: okR_def dest!: keeps)

lemma on_data_chunk_keeps [keeps]:
  "on_data_chunk_recv_callback i d n c k = Inr k' \<Longrightarrow> core_ok k \<longrightarrow> core_ok k'"
  by (erule okR_dest, unfold on_data_chunk_recv_callback_def bind_flat, intro okr, auto simp: okR_def dest!: keeps)

lemma on_header_keeps [keeps]:
  "on_header_callback cfg cat i nm nl v vl c k = Inr k' \<Longrightarrow> core_ok k \<longrightarrow> core_ok k'"
  by (erule okR_dest, unfold on_header_callback_def bind_flat, intro okr, auto simp: okR_def dest!: keeps)

lemma on_begin_headers_keeps [keeps]:
  "on_begin_headers_callback cat i c k = Inr k' \<Longrightarrow> core_ok k \<longrightarrow> core_ok k'"
  by (erule okR_dest, unfold on_begin_headers_callback_def bind_flat, intro okr, auto simp: okR_def dest!: keeps)

lemma run_callback_keeps [keeps]:
  "run_callback cfg now ev (c, k) = Inr (c', k') \<Longrightarrow> conn_ok c \<and> core_ok k \<longrightarrow> conn_ok c' \<and> core_ok k'"
  by (erule okR_dest, unfold run_callback_def bind_flat, intro okr, auto simp: okR_def dest!: keeps)

lemma run_callbacks_keep [keeps]:
  "foldR (run_callback cfg now) evs (c, k) = Inr (c', k') \<Longrightarrow> conn_ok c \<and> core_ok k \<longrightarrow> conn_ok c' \<and> core_ok k'"
  using okR_fold [where P = "\<lambda>(c, k). conn_ok c \<and> core_ok k" and f = "run_callback cfg now"]
  by (fastforce simp: okR_def dest!: keeps)

lemma http2_read_keeps [keeps]:
  "http2_read ng cfg now b c k = Inr (c', k') \<Longrightarrow> conn_ok c \<and> core_ok k \<longrightarrow> conn_ok c' \<and> core_ok k'"
  by (erule okR_dest, unfold http2_read_def bind_flat, intro okr, auto simp: okR_def dest!: keeps)

lemma data_read_request_keeps [keeps]:
  "data_read_callback_request now c i r n k = Inr (rr, k') \<Longrightarrow> core_ok k \<longrightarrow> core_ok k'"
  by (erule okR_dest, unfold data_read_callback_request_def bind_flat, intro okr, auto simp: okR_def dest!: keeps)

lemma data_read_response_keeps [keeps]:
  "data_read_callback_response ng cfg now c i r n s k = Inr (rr, s', k') \<Longrightarrow> core_ok k \<longrightarrow> core_ok k'"
  by (erule okR_dest, unfold data_read_callback_response_def bind_flat, intro okr, auto simp: okR_def dest!: keeps)

lemma run_send_keeps [keeps]: "run_send ng cfg now c sd k = Inr (bs, s, k') \<Longrightarrow> core_ok k \<longrightarrow> core_ok k'"
proof (induction sd arbitrary: k)
  case (Read_Data s0 i src n cont)
  then show ?case by (cases src) (fastforce dest!: keeps)+
qed auto

lemma http2_write_keeps [keeps]:
  "http2_write ng cfg now b c k = Inr (full, b', c', k') \<Longrightarrow> conn_ok c \<and> core_ok k \<and> sized b \<longrightarrow> conn_ok c' \<and> core_ok k' \<and> sized b'"
  by (erule okR_dest, unfold http2_write_def bind_flat, intro okr, auto simp: okR_def dest!: keeps)

lemma http2_submit_settings_keeps [keeps]:
  "http2_submit_settings ng c = Inr c' \<Longrightarrow> conn_ok c \<longrightarrow> conn_ok c'"
  by (erule okR_dest, unfold http2_submit_settings_def bind_flat, intro okr, auto simp: okR_def dest!: keeps)

lemma http2_submit_request_keeps [keeps]:
  "http2_submit_request ng k r c = Inr (i, c') \<Longrightarrow> conn_ok c \<longrightarrow> conn_ok c'"
  by (erule okR_dest, unfold http2_submit_request_def bind_flat, intro okr, auto simp: okR_def dest!: keeps)

lemma http2_submit_response_keeps [keeps]:
  "http2_submit_response ng k r c = Inr c' \<Longrightarrow> conn_ok c \<longrightarrow> conn_ok c'"
  by (erule okR_dest, unfold http2_submit_response_def bind_flat, intro okr, auto simp: okR_def dest!: keeps)

lemma http2_submit_error_response_keeps [keeps]:
  "http2_submit_error_response ng k r c = Inr c' \<Longrightarrow> conn_ok c \<longrightarrow> conn_ok c'"
  by (erule okR_dest, unfold http2_submit_error_response_def bind_flat, intro okr, auto simp: okR_def dest!: keeps)

end
