(* ===== verification/Sidecar_World.thy ===== *)
theory Sidecar_World
  imports Sidecar_Connections Event_Loop Service_Limits_Correct
begin

text \<open>
  The invariant of a sidecar thread, put together from its parts: buffers fit their arrays, the ring holds only
  well-formed datagrams, the credit queue only grants that are ready to be sent, the names of services fit a
  datagram. Here the parts are kept by the operations on buffers, the ring, the credit queue and connections.
\<close>

section \<open>The parts\<close>

definition pool_sized :: "buf_pool \<Rightarrow> bool" where
  "pool_sized p \<longleftrightarrow> (\<forall>b. Some b \<in> set (bp_vector p) \<longrightarrow> sized b)"

definition ud_ok :: "user_data \<Rightarrow> bool" where
  "ud_ok u \<longleftrightarrow> (case ud_buffer u of None \<Rightarrow> True | Some b \<Rightarrow> sized b)"

definition bm_ok :: "buffer_manager \<Rightarrow> bool" where
  "bm_ok bm \<longleftrightarrow> pool_sized (bm_tcp bm) \<and> pool_sized (bm_udp bm) \<and> (\<forall>i. ud_ok (bm_user_data bm i))"

definition sqe_ok :: "sqe \<Rightarrow> bool" where
  "sqe_ok e = (case e of Sqe_Sendmsg _ p _ \<Rightarrow> payload_ok p | _ \<Rightarrow> True)"

definition ring_ok :: "ring \<Rightarrow> bool" where
  "ring_ok r \<longleftrightarrow> (\<forall>e\<in>set (rg_submitted r @ rg_prepared r). sqe_ok (fst e))"

definition grants_ok :: "string set \<Rightarrow> buffer credit_queue \<Rightarrow> bool" where
  "grants_ok eps cq \<longleftrightarrow> cq_inv eps cq \<and> (\<forall>p<3. \<forall>ep\<in>eps. \<forall>b\<in>set (cq_deque cq p ep). datagram_ok b)"

definition queue_ok :: "buffer credit_queue \<Rightarrow> bool" where
  "queue_ok cq \<longleftrightarrow> (\<exists>eps. grants_ok eps cq)"

definition names_ok :: "'v local_map \<Rightarrow> bool" where
  "names_ok m \<longleftrightarrow> (\<forall>s\<in>set (lm_slots m). unat (slot_len s) \<le> 229)"

definition base_ok :: "'s world \<Rightarrow> bool" where
  "base_ok w \<longleftrightarrow> (\<forall>c. conn_ok (w_conns w c)) \<and> core_ok (w_core w) \<and> ring_ok (w_ring w) \<and> bm_ok (w_bm w) \<and>
     queue_ok (w_cq w)"

definition world_ok :: "'s world \<Rightarrow> bool" where
  "world_ok w \<longleftrightarrow> base_ok w \<and> names_ok (w_last_rtt w)"

lemma world_okD:
  assumes "world_ok w"
  shows "conn_ok (w_conns w c)" "core_ok (w_core w)" "ring_ok (w_ring w)" "bm_ok (w_bm w)" "queue_ok (w_cq w)"
    "names_ok (w_last_rtt w)"
  using assms by (simp_all add: world_ok_def base_ok_def)

lemma world_ok_simps [simp]:
  "world_ok (w\<lparr>w_routes := a\<rparr>) = world_ok w" "world_ok (w\<lparr>w_ingress_pool := b\<rparr>) = world_ok w"
  "world_ok (w\<lparr>w_listeners := c\<rparr>) = world_ok w" "world_ok (w\<lparr>w_next_ref := d\<rparr>) = world_ok w"
  "world_ok (w\<lparr>w_ppm := f\<rparr>) = world_ok w" "world_ok (w\<lparr>w_ingress := g\<rparr>) = world_ok w"
  "world_ok (w\<lparr>w_in_local := h\<rparr>) = world_ok w" "world_ok (w\<lparr>w_drops := i\<rparr>) = world_ok w"
  "world_ok (w\<lparr>w_util := j\<rparr>) = world_ok w" "world_ok (w\<lparr>w_sockfd := k\<rparr>) = world_ok w"
  by (simp_all add: world_ok_def base_ok_def)

lemma base_ok_simps [simp]:
  "base_ok (w\<lparr>w_routes := a\<rparr>) = base_ok w" "base_ok (w\<lparr>w_ingress_pool := b\<rparr>) = base_ok w"
  "base_ok (w\<lparr>w_ppm := f\<rparr>) = base_ok w" "base_ok (w\<lparr>w_drops := i\<rparr>) = base_ok w"
  "base_ok (w\<lparr>w_util := j\<rparr>) = base_ok w" "base_ok (w\<lparr>w_last_rtt := k\<rparr>) = base_ok w"
  by (simp_all add: base_ok_def)

lemma world_ok_parts [simp]:
  assumes "world_ok w"
  shows "world_ok (w\<lparr>w_core := k\<rparr>) = core_ok k" "world_ok (w\<lparr>w_ring := r\<rparr>) = ring_ok r"
    "world_ok (w\<lparr>w_bm := bm\<rparr>) = bm_ok bm" "world_ok (w\<lparr>w_cq := cq\<rparr>) = queue_ok cq"
    "world_ok (w\<lparr>w_last_rtt := m\<rparr>) = names_ok m" "world_ok (upd_conn c x w) = conn_ok x"
    "conn_ok (w_conns w c)" "core_ok (w_core w)" "ring_ok (w_ring w)" "bm_ok (w_bm w)" "queue_ok (w_cq w)"
    "names_ok (w_last_rtt w)" "world_ok (upd_w_msg i f w) = msg_ok (f (w_msg w i))" "msg_ok (w_msg w i)"
  using assms by (auto simp: world_ok_def base_ok_def upd_conn_def upd_w_msg_def w_msg_def)

lemma upd_conn_simps [simp]:
  "w_core (upd_conn c x w) = w_core w" "w_bm (upd_conn c x w) = w_bm w" "w_ring (upd_conn c x w) = w_ring w"
  "w_cq (upd_conn c x w) = w_cq w" "w_cfg (upd_conn c x w) = w_cfg w"
  by (simp_all add: upd_conn_def)

section \<open>Buffers\<close>

lemma sized_flags [simp]:
  "sized (b\<lparr>buf_is_free := x\<rparr>) = sized b" "sized (buffer_clear b) = sized b" "sized (b\<lparr>enter_queue_ts := t\<rparr>) = sized b"
  "sized (b\<lparr>buf_addr := a\<rparr>) = sized b" "sized (prepare_sendmsg b a) = sized b"
  by (simp_all add: sized_def buffer_clear_def prepare_sendmsg_def)

lemma datagram_ok_ts [simp]: "datagram_ok (b\<lparr>enter_queue_ts := t\<rparr>) = datagram_ok b"
  by (simp add: datagram_ok_def split: option.split)

lemma datagram_sized [simp]: "datagram_ok b \<Longrightarrow> sized b" "datagram_ok (prepare_sendmsg b a) \<Longrightarrow> sized b"
  by (auto simp: datagram_ok_def)

lemma pool_sized_update [simp]:
  "pool_sized p \<Longrightarrow> (case x of None \<Rightarrow> True | Some b \<Rightarrow> sized b) \<Longrightarrow> pool_sized (p\<lparr>bp_vector := (bp_vector p)[i := x]\<rparr>)"
  by (auto simp: pool_sized_def dest!: set_update_subset_insert [THEN subsetD])

lemma pool_sized_simps [simp]:
  "pool_sized (p\<lparr>bp_free := f\<rparr>) = pool_sized p" "pool_sized (add_buffer_to_ring i p) = pool_sized p"
  by (simp_all add: pool_sized_def add_buffer_to_ring_def)

lemma take_slot_keeps [keeps]: "take_slot er i p = Inr (b, p') \<Longrightarrow> pool_sized p \<longrightarrow> pool_sized p' \<and> sized b"
proof -
  assume "take_slot er i p = Inr (b, p')"
  then obtain s where s: "vec_at (bp_vector p) (i - bp_base p) = Inr (Some s)" "b = s\<lparr>buf_is_free := False\<rparr>"
      "p' = p\<lparr>bp_vector := (bp_vector p)[i - bp_base p := None]\<rparr>"
    by (auto simp: take_slot_def split: option.splits if_splits)
  then have "Some s \<in> set (bp_vector p)" by (metis vec_at_eq_Inr nth_mem)
  then show ?thesis using s(2,3) by (auto simp: pool_sized_def dest!: set_update_subset_insert [THEN subsetD])
qed

lemma pool_get_sized [keeps]: "pool_get p = Inr (b, p') \<Longrightarrow> pool_sized p \<longrightarrow> pool_sized p' \<and> sized b"
  by (auto simp: pool_get_def dest!: keeps split: list.splits)

lemma pool_get_by_index_keeps [keeps]: "pool_get_by_index i p = Inr (b, p') \<Longrightarrow> pool_sized p \<longrightarrow> pool_sized p' \<and> sized b"
  by (auto simp: pool_get_by_index_def dest!: keeps split: if_splits)

lemma pool_free_sized [keeps]: "pool_free (Some b) p = Inr p' \<Longrightarrow> pool_sized p \<and> sized b \<longrightarrow> pool_sized p'"
  by (auto simp: pool_free_def Let_def split: if_splits)

lemma bm_ok_simps [simp]:
  "bm_ok bm \<Longrightarrow> bm_ok (bm\<lparr>bm_tcp := p\<rparr>) = pool_sized p" "bm_ok bm \<Longrightarrow> bm_ok (bm\<lparr>bm_udp := p\<rparr>) = pool_sized p"
  "bm_ok bm \<Longrightarrow> pool_sized (bm_tcp bm)" "bm_ok bm \<Longrightarrow> pool_sized (bm_udp bm)" "bm_ok bm \<Longrightarrow> ud_ok (bm_user_data bm i)"
  "bm_ok bm \<Longrightarrow> bm_ok (bm\<lparr>bm_user_data := (bm_user_data bm)(i := u)\<rparr>) = ud_ok u"
  "bm_ok (bm\<lparr>bm_user_data_queue := q\<rparr>) = bm_ok bm"
  by (auto simp: bm_ok_def)

lemma get_buffer_keeps [keeps]: "get_buffer bm = Inr (b, bm') \<Longrightarrow> bm_ok bm \<longrightarrow> bm_ok bm' \<and> sized b"
  by (auto simp: get_buffer_def dest!: keeps)

lemma get_udp_buffer_keeps [keeps]: "get_udp_buffer bm = Inr (b, bm') \<Longrightarrow> bm_ok bm \<longrightarrow> bm_ok bm' \<and> sized b"
  by (auto simp: get_udp_buffer_def dest!: keeps)

lemma get_buffer_by_index_keeps [keeps]: "get_buffer_by_index i bm = Inr (b, bm') \<Longrightarrow> bm_ok bm \<longrightarrow> bm_ok bm' \<and> sized b"
  by (auto simp: get_buffer_by_index_def dest!: keeps)

lemma get_udp_buffer_by_index_keeps [keeps]:
  "get_udp_buffer_by_index i bm = Inr (b, bm') \<Longrightarrow> bm_ok bm \<longrightarrow> bm_ok bm' \<and> sized b"
  by (auto simp: get_udp_buffer_by_index_def dest!: keeps)

lemma free_buffer_keeps [keeps]: "free_buffer (Some b) bm = Inr bm' \<Longrightarrow> bm_ok bm \<and> sized b \<longrightarrow> bm_ok bm'"
  by (auto simp: free_buffer_def dest!: keeps)

lemma free_udp_buffer_keeps [keeps]: "free_udp_buffer (Some b) bm = Inr bm' \<Longrightarrow> bm_ok bm \<and> sized b \<longrightarrow> bm_ok bm'"
  by (auto simp: free_udp_buffer_def dest!: keeps)

lemma get_user_data_keeps [keeps]: "get_user_data bm = Inr (i, bm') \<Longrightarrow> bm_ok bm \<longrightarrow> bm_ok bm'"
  by (auto simp: get_user_data_def split: list.splits)

lemma ud_clear_keeps [keeps]: "ud_clear u = Inr u' \<Longrightarrow> ud_ok u'"
  by (auto simp: ud_clear_def ud_ok_def split: if_splits)

lemma ud_get_buffer_keeps [keeps]: "ud_get_buffer u = Inr (b, u') \<Longrightarrow> ud_ok u \<longrightarrow> ud_ok u' \<and> sized b"
  by (auto simp: ud_get_buffer_def ud_ok_def split: option.splits)

lemma free_user_data_keeps [keeps]: "free_user_data i bm = Inr bm' \<Longrightarrow> bm_ok bm \<longrightarrow> bm_ok bm'"
  by (auto simp: free_user_data_def dest!: keeps split: option.splits if_splits)

lemma ud_ok_simps [simp]:
  "ud_ok (u\<lparr>ud_conn := c\<rparr>) = ud_ok u" "ud_ok (u\<lparr>ud_op := p\<rparr>) = ud_ok u" "ud_ok (u\<lparr>ud_listener := l\<rparr>) = ud_ok u"
  by (simp_all add: ud_ok_def)

lemma ud_set_buffer_keeps [keeps]: "ud_set_buffer (Some b) u = Inr u' \<Longrightarrow> sized b \<longrightarrow> ud_ok u'"
  by (auto simp: ud_set_buffer_def ud_ok_def)

section \<open>The ring\<close>

lemma get_sqe_keeps [keeps]: "get_sqe r = Inr r' \<Longrightarrow> ring_ok r \<longrightarrow> ring_ok r'"
  by (auto simp: get_sqe_def Let_def io_uring_submit_def kernel_takes_def ring_ok_def split: if_splits)

lemma set_user_data_keeps [keeps]: "set_user_data e u r = Inr r' \<Longrightarrow> ring_ok r \<and> sqe_ok e \<longrightarrow> ring_ok r'"
  by (auto simp: set_user_data_def ring_ok_def split: if_splits)

lemma submit_and_wait_keeps [keeps]: "submit_and_wait n m ret r = Inr r' \<Longrightarrow> ring_ok r \<longrightarrow> ring_ok r'"
  by (auto simp: submit_and_wait_def io_uring_submit_def ring_ok_def split: if_splits)

lemma sqe_ok_simps [simp]:
  "sqe_ok (Sqe_Accept fd)" "sqe_ok (Sqe_Recv_Multishot fd g)" "sqe_ok (Sqe_Connect fd a)" "sqe_ok (Sqe_Send fd bs)"
  "sqe_ok (Sqe_Close fd)" "sqe_ok (Sqe_Recvmsg_Multishot fd g)" "sqe_ok (Sqe_Sendmsg fd p a) = payload_ok p"
  by (simp_all add: sqe_ok_def)

lemma prepare_keeps [keeps]:
  "prepare_accept fd l u r = Inr (u', r') \<Longrightarrow> ud_ok u \<and> ring_ok r \<longrightarrow> ud_ok u' \<and> ring_ok r'"
  "prepare_read fd u ml c r = Inr (u', r') \<Longrightarrow> ud_ok u \<and> ring_ok r \<longrightarrow> ud_ok u' \<and> ring_ok r'"
  "prepare_connect fd a c u r = Inr (u', r') \<Longrightarrow> ud_ok u \<and> ring_ok r \<longrightarrow> ud_ok u' \<and> ring_ok r'"
  "prepare_cancel fd c u r = Inr (u', r') \<Longrightarrow> ud_ok u \<and> ring_ok r \<longrightarrow> ud_ok u' \<and> ring_ok r'"
  "prepare_rcvmsg fd u r = Inr (u', r') \<Longrightarrow> ud_ok u \<and> ring_ok r \<longrightarrow> ud_ok u' \<and> ring_ok r'"
  "prepare_write fd c b u r = Inr (u', r') \<Longrightarrow> ring_ok r \<and> sized b \<longrightarrow> ud_ok u' \<and> ring_ok r'"
  "ring_prepare_sendmsg fd b u r = Inr (u', r') \<Longrightarrow> ring_ok r \<and> datagram_ok b \<longrightarrow> ud_ok u' \<and> ring_ok r'"
  "prepare_sendmsg_with_serveraddr fd b u a r = Inr (u', r') \<Longrightarrow>
     ring_ok r \<and> datagram_ok (prepare_sendmsg b a) \<longrightarrow> ud_ok u' \<and> ring_ok r'"
  by (auto simp: prepare_accept_def prepare_read_def ud_prepare_read_def prepare_connect_def prepare_cancel_def
      prepare_rcvmsg_def prepare_write_def ud_prepare_write_def ring_prepare_sendmsg_def
      prepare_sendmsg_with_serveraddr_def Let_def datagram_payload dest!: keeps)

lemma with_user_data_keeps:
  assumes "with_user_data prep w = Inr w'" "world_ok w"
    and "\<And>u r u' r'. prep u r = Inr (u', r') \<Longrightarrow> ud_ok u \<Longrightarrow> ring_ok r \<Longrightarrow> ud_ok u' \<and> ring_ok r'"
  shows "world_ok w'"
proof -
  obtain i bm u r where g: "get_user_data (w_bm w) = Inr (i, bm)" and p: "prep (bm_user_data bm i) (w_ring w) = Inr (u, r)"
      and w': "w' = w\<lparr>w_ring := r, w_bm := bm\<lparr>bm_user_data := (bm_user_data bm)(i := u)\<rparr>\<rparr>"
    using assms(1) by (auto simp: with_user_data_def)
  have "bm_ok bm" using g assms(2) by (auto dest!: keeps)
  moreover from this have "ud_ok u \<and> ring_ok r" using assms(3) [OF p] assms(2) by simp
  ultimately show ?thesis using assms(2) by (simp add: w')
qed

lemma submissions_keep [keeps]:
  "with_user_data (prepare_accept fd l) w = Inr w' \<Longrightarrow> world_ok w \<longrightarrow> world_ok w'"
  "with_user_data (\<lambda>u. prepare_read fd' u ml c) w = Inr w' \<Longrightarrow> world_ok w \<longrightarrow> world_ok w'"
  "with_user_data (prepare_connect fd a c) w = Inr w' \<Longrightarrow> world_ok w \<longrightarrow> world_ok w'"
  "with_user_data (prepare_cancel fd c) w = Inr w' \<Longrightarrow> world_ok w \<longrightarrow> world_ok w'"
  "with_user_data (prepare_rcvmsg fd) w = Inr w' \<Longrightarrow> world_ok w \<longrightarrow> world_ok w'"
  "with_user_data (\<lambda>u. prepare_sendmsg_with_serveraddr fd b u a) w = Inr w' \<Longrightarrow>
     world_ok w \<and> datagram_ok (prepare_sendmsg b a) \<longrightarrow> world_ok w'"
  "send_datagram b w = Inr w' \<Longrightarrow> world_ok w \<and> datagram_ok b \<longrightarrow> world_ok w'"
  "send_stream c b w = Inr w' \<Longrightarrow> world_ok w \<and> sized b \<longrightarrow> world_ok w'"
  by (auto simp: send_datagram_def send_stream_def dest!: keeps elim!: with_user_data_keeps)

lemma take_buffer_keeps [keeps]: "take_buffer w = Inr (b, w') \<Longrightarrow> world_ok w \<longrightarrow> world_ok w' \<and> sized b"
  by (auto simp: take_buffer_def dest!: keeps)

lemma take_udp_buffer_keeps [keeps]: "take_udp_buffer w = Inr (b, w') \<Longrightarrow> world_ok w \<longrightarrow> world_ok w' \<and> sized b"
  by (auto simp: take_udp_buffer_def dest!: keeps)

lemma give_back_buffer_keeps [keeps]: "give_back_buffer b w = Inr w' \<Longrightarrow> world_ok w \<and> sized b \<longrightarrow> world_ok w'"
  by (auto simp: give_back_buffer_def dest!: keeps)

section \<open>The credit queue\<close>

lemma grants_ok_cong: "grants_ok eps cq \<Longrightarrow> cq_inv eps cq' \<Longrightarrow> cq_queue cq' = cq_queue cq \<Longrightarrow> grants_ok eps cq'"
  by (simp add: grants_ok_def cq_deque_def)

lemma decrement_grants: "cq_decrement_in_flight cq s = Inr cq' \<Longrightarrow> grants_ok eps cq \<longrightarrow> grants_ok eps cq'"
proof
  assume d: "cq_decrement_in_flight cq s = Inr cq'" and q: "grants_ok eps cq"
  then have inv: "cq_inv eps cq" and c: "cells eps (cq_per_endpoint cq)" by (simp_all add: grants_ok_def cq_inv_def)
  obtain f0 where "lm_update (cq_per_endpoint cq) s (\<lambda>x. x - 1) = Inr f0" using d by (auto simp: cq_decrement_in_flight_def)
  then have "s \<in> eps" using cells_update_eq [OF c] by blast
  then obtain f where "cq_decrement_in_flight cq s = Inr (cq\<lparr>cq_per_endpoint := f, cq_in_flight := cq_in_flight cq - 1\<rparr>)"
      "cq_inv eps (cq\<lparr>cq_per_endpoint := f, cq_in_flight := cq_in_flight cq - 1\<rparr>)"
    using cq_decrement_spec [OF inv] by metis
  then show "grants_ok eps cq'" using d by (auto intro: grants_ok_cong [OF q])
qed

lemma increment_grants: "cq_increment_in_flight cq s = Inr cq' \<Longrightarrow> grants_ok eps cq \<longrightarrow> grants_ok eps cq'"
proof
  assume d: "cq_increment_in_flight cq s = Inr cq'" and q: "grants_ok eps cq"
  then have inv: "cq_inv eps cq" and c: "cells eps (cq_per_endpoint cq)" by (simp_all add: grants_ok_def cq_inv_def)
  obtain f0 where "lm_update (cq_per_endpoint cq) s (\<lambda>x. x + 1) = Inr f0" using d by (auto simp: cq_increment_in_flight_def)
  then have "s \<in> eps" using cells_update_eq [OF c] by blast
  then obtain f where "cq_increment_in_flight cq s = Inr (cq\<lparr>cq_per_endpoint := f, cq_in_flight := cq_in_flight cq + 1\<rparr>)"
      "cq_inv eps (cq\<lparr>cq_per_endpoint := f, cq_in_flight := cq_in_flight cq + 1\<rparr>)"
    using cq_increment_spec [OF inv] by metis
  then show "grants_ok eps cq'" using d by (auto intro: grants_ok_cong [OF q])
qed

lemma advance_deque [simp]: "cq_deque ((cq_advance ^^ t) cq) = cq_deque cq"
  by (induction t) simp_all

lemma cq_pop_grants:
  "cq_pop cq = Inr (mb, cq') \<Longrightarrow> grants_ok eps cq \<longrightarrow> grants_ok eps cq' \<and> (case mb of None \<Rightarrow> True | Some b \<Rightarrow> datagram_ok b)"
proof
  assume p: "cq_pop cq = Inr (mb, cq')" and q: "grants_ok eps cq"
  then have inv: "cq_inv eps cq" by (simp add: grants_ok_def)
  have r: "cq_inv eps cq'" "cq_popped eps cq mb cq'" using cq_pop_spec [OF inv] p by auto
  have it: "cq_it ((cq_advance ^^ t) cq) < 3" for t
    using cq_advance_pow_inv [OF inv, of t] by (simp add: cq_inv_def)
  show "grants_ok eps cq' \<and> (case mb of None \<Rightarrow> True | Some b \<Rightarrow> datagram_ok b)"
  proof (cases mb)
    case None
    then have "cq_deque cq' = cq_deque cq" using r(2) by (auto simp: cq_popped_def)
    then show ?thesis using None q r(1) by (simp add: grants_ok_def)
  next
    case (Some b)
    then obtain t ep where "cq_sent eps ((cq_advance ^^ t) cq) ep b cq'" using r(2) by (auto simp: cq_popped_def)
    then obtain p where p: "p < 3" "ep \<in> eps" and b: "cq_deque cq p ep = b # cq_deque cq' p ep"
        and other: "\<forall>p'<3. \<forall>e. (p', e) \<noteq> (p, ep) \<longrightarrow> cq_deque cq' p' e = cq_deque cq p' e"
      using it [of t] that [of "cq_it ((cq_advance ^^ t) cq)"] by (simp add: cq_sent_def Let_def)
    have "set (cq_deque cq' p' e) \<subseteq> set (cq_deque cq p' e)" if "p' < 3" for p' e
      using that other b by (cases "(p', e) = (p, ep)") auto
    moreover have "datagram_ok b" using q p b by (auto simp: grants_ok_def)
    ultimately show ?thesis using q r(1) Some by (fastforce simp: grants_ok_def)
  qed
qed

lemma cq_push_grants: "cq_push cq b s pr = Inr cq' \<Longrightarrow> grants_ok eps cq \<and> datagram_ok b \<longrightarrow> grants_ok eps cq'"
proof
  assume push: "cq_push cq b s pr = Inr cq'" and q: "grants_ok eps cq \<and> datagram_ok b"
  then have inv: "cq_inv eps cq" by (simp add: grants_ok_def)
  let ?p = "size_t_of pr"
  have p: "?p < 3" using push inv by (auto simp: cq_push_def vec_at_def cq_inv_def split: if_splits)
  then have "iq_inv eps (cq_queue cq ! ?p)" using inv by (simp add: cq_inv_def)
  then have c: "cells eps (iq_queue (cq_queue cq ! ?p))" by (simp add: iq_inv_def cells_def)
  obtain f where "lm_update (iq_queue (cq_queue cq ! ?p)) s (\<lambda>d. d @ [b]) = Inr f"
    using push p inv by (auto simp: cq_push_def iq_push_def cq_inv_def)
  then have s: "s \<in> eps" using cells_update_eq [OF c] by blast
  have eq: "cq_push cq b s (int ?p) = Inr cq'" using push p by (simp add: cq_push_def)
  show "grants_ok eps cq'"
  proof (rule cq_push_spec [OF inv s, of "int ?p" b])
    fix cq1
    assume "cq_push cq b s (int ?p) = Inr cq1" "cq_inv eps cq1"
      "\<And>p e. p < 3 \<Longrightarrow> cq_deque cq1 p e = cq_deque cq p e @ (if p = nat (int ?p) \<and> e = s then [b] else [])"
    then show ?thesis using q eq by (auto simp: grants_ok_def)
  qed (use p in simp_all)
qed

lemma update_limits_grants:
  "update_limits cfg rtt s st cq = Inr (st', cq') \<Longrightarrow> grants_ok eps cq \<longrightarrow> grants_ok eps cq'"
proof
  assume u: "update_limits cfg rtt s st cq = Inr (st', cq')" and q: "grants_ok eps cq"
  show "grants_ok eps cq'"
  proof (cases "measured s st'")
    case True
    then obtain limit cq1 where l: "cq_update_endpoint_limit cq limit s = Inr cq1" and r: "refresh_global_limit cfg cq1 = Inr cq'"
      using update_limits_steps [OF u] by auto
    have "cq_inv eps cq1" "cq_queue cq1 = cq_queue cq"
      using update_endpoint_limit_spec [OF _ l, of eps] q by (auto simp: grants_ok_def)
    then have "grants_ok eps cq1" by (rule grants_ok_cong [OF q])
    moreover have "cq' = cq1 \<or> (\<exists>g. cq' = cq_update_global_limit cq1 g)"
      using r by (auto simp: refresh_global_limit_def split: if_splits)
    moreover have "grants_ok eps (cq_update_global_limit cq1 g)" if "grants_ok eps cq1" for g
      by (rule grants_ok_cong [OF that]) (use that cq_global_inv in \<open>auto simp: grants_ok_def cq_update_global_limit_def\<close>)
    ultimately show ?thesis by auto
  qed (use update_limits_steps [OF u] q in simp)
qed

lemma queue_keeps [keeps]:
  "cq_decrement_in_flight cq s = Inr cq' \<Longrightarrow> queue_ok cq \<longrightarrow> queue_ok cq'"
  "cq_increment_in_flight cq s = Inr cq' \<Longrightarrow> queue_ok cq \<longrightarrow> queue_ok cq'"
  "cq_pop cq = Inr (mb, cq') \<Longrightarrow> queue_ok cq \<longrightarrow> queue_ok cq' \<and> (case mb of None \<Rightarrow> True | Some b \<Rightarrow> datagram_ok b)"
  "cq_push cq b s pr = Inr cq' \<Longrightarrow> queue_ok cq \<and> datagram_ok b \<longrightarrow> queue_ok cq'"
  "update_limits cfg rtt s st cq = Inr (st', cq') \<Longrightarrow> queue_ok cq \<longrightarrow> queue_ok cq'"
  unfolding queue_ok_def
  by (blast dest: decrement_grants, blast dest: increment_grants, blast dest: cq_pop_grants, blast dest: cq_push_grants,
      blast dest: update_limits_grants)

end
