(* ===== verification/Sidecar_Handlers.thy ===== *)
theory Sidecar_Handlers
  imports Sidecar_World
begin

text \<open>
  Every handler of class State and of the event loop keeps the invariant of the thread when it returns.
\<close>

section \<open>Writing and reading\<close>

lemma http_read_keeps [keeps]: "http_read e b c w = Inr w' \<Longrightarrow> world_ok w \<longrightarrow> world_ok w'"
  by (erule okR_dest, unfold http_read_def bind_flat, intro okr, auto simp: okR_def dest!: keeps)

lemma submit_settings_keeps [keeps]:
  "submit_settings e c w = Inr w' \<Longrightarrow> world_ok w \<longrightarrow> world_ok w'"
  by (erule okR_dest, unfold submit_settings_def bind_flat, intro okr, auto simp: okR_def dest!: keeps)

lemma submit_request_keeps [keeps]:
  "submit_request e c r w = Inr (i, w') \<Longrightarrow> world_ok w \<longrightarrow> world_ok w'"
  by (erule okR_dest, unfold submit_request_def bind_flat, intro okr, auto simp: okR_def dest!: keeps)

lemma submit_response_keeps [keeps]:
  "submit_response e c r w = Inr w' \<Longrightarrow> world_ok w \<longrightarrow> world_ok w'"
  by (erule okR_dest, unfold submit_response_def bind_flat, intro okr, auto simp: okR_def dest!: keeps)

lemma submit_error_response_keeps [keeps]:
  "submit_error_response e c r w = Inr w' \<Longrightarrow> world_ok w \<longrightarrow> world_ok w'"
  by (erule okR_dest, unfold submit_error_response_def bind_flat, intro okr, auto simp: okR_def dest!: keeps)

lemma refill_buffer_keeps [keeps]: "refill_buffer bs b = Inr b' \<Longrightarrow> sized b \<longrightarrow> sized b'"
  by (auto simp: refill_buffer_def dest!: keeps split: if_splits)

lemma write_http2_loop_keeps [keeps]:
  "write_http2_loop e n c sb flag w = Inr (sb', flag', w') \<Longrightarrow>
     world_ok w \<and> (case sb of None \<Rightarrow> True | Some b \<Rightarrow> sized b) \<longrightarrow>
     world_ok w' \<and> (case sb' of None \<Rightarrow> True | Some b \<Rightarrow> sized b)"
proof (induction n arbitrary: sb flag w)
  case (Suc n)
  show ?case
    by (rule okR_dest [OF Suc.prems], unfold write_http2_loop.simps bind_flat, intro okr, auto simp: okR_def dest!: keeps Suc.IH)
qed simp

lemma write_http2_keeps [keeps]:
  "write_http2 e c w = Inr w' \<Longrightarrow> world_ok w \<longrightarrow> world_ok w'"
  by (erule okR_dest, unfold write_http2_def bind_flat, intro okr, auto simp: okR_def dest!: keeps)

lemma write_http1_loop_keeps [keeps]: "write_http1_loop e n c w = Inr w' \<Longrightarrow> world_ok w \<longrightarrow> world_ok w'"
proof (induction n arbitrary: w)
  case (Suc n)
  show ?case
    by (rule okR_dest [OF Suc.prems], unfold write_http1_loop.simps bind_flat, intro okr, auto simp: okR_def dest!: keeps Suc.IH)
qed simp

lemma write_http_keeps [keeps]:
  "write_http e c w = Inr w' \<Longrightarrow> world_ok w \<longrightarrow> world_ok w'"
  by (erule okR_dest, unfold write_http_def bind_flat, intro okr, auto simp: okR_def dest!: keeps)

section \<open>Requests and credits\<close>

lemma choose_connection_keeps [keeps]:
  "choose_connection t s w = Inr (c, w') \<Longrightarrow> world_ok w \<longrightarrow> world_ok w'"
  by (erule okR_dest, unfold choose_connection_def Let_def bind_flat, intro okr, auto simp: okR_def dest!: keeps)

lemma route_request_keeps [keeps]:
  "route_request t i fd w = Inr (mc, w') \<Longrightarrow> world_ok w \<longrightarrow> world_ok w'"
  by (erule okR_dest, unfold route_request_def bind_flat, intro okr, auto simp: okR_def dest!: keeps)

lemma forward_request_keeps [keeps]:
  "forward_request e mc r w = Inr w' \<Longrightarrow> world_ok w \<longrightarrow> world_ok w'"
  by (erule okR_dest, unfold forward_request_def bind_flat, intro okr, auto simp: okR_def dest!: keeps)

lemma send_sub_request_keeps [keeps]:
  "send_sub_request e r w = Inr w' \<Longrightarrow> world_ok w \<longrightarrow> world_ok w'"
  by (erule okR_dest, unfold send_sub_request_def bind_flat, intro okr, auto simp: okR_def dest!: keeps)

lemma check_credit_transmission_keeps [keeps]:
  "check_credit_transmission e w = Inr w' \<Longrightarrow> world_ok w \<longrightarrow> world_ok w'"
  by (erule okR_dest, unfold check_credit_transmission_def bind_flat, intro okr, auto simp: okR_def dest!: keeps stamp_ok)

lemma update_world_limits_keeps [keeps]:
  "update_world_limits rtt s w = Inr w' \<Longrightarrow> world_ok w \<longrightarrow> world_ok w'"
  by (erule okR_dest, unfold update_world_limits_def bind_flat, intro okr, auto simp: okR_def dest!: keeps)

lemma decrement_and_check_keeps [keeps]:
  "decrement_and_check e s w = Inr w' \<Longrightarrow> world_ok w \<longrightarrow> world_ok w'"
  by (erule okR_dest, unfold decrement_and_check_def bind_flat, intro okr, auto simp: okR_def dest!: keeps)

lemma protocol_server_keeps [keeps]:
  "protocol_server e req w = Inr w' \<Longrightarrow> received_ok req \<and> world_ok w \<longrightarrow> world_ok w'"
  by (erule okR_dest, unfold protocol_server_def bind_flat, intro okr, auto simp: okR_def dest!: keeps grant_ok)

lemma prepare_credit_return_keeps [keeps]:
  "prepare_credit_return g w = Inr (b, w') \<Longrightarrow> received_ok g \<and> world_ok w \<longrightarrow> world_ok w' \<and> datagram_ok b"
  by (erule okR_dest, unfold prepare_credit_return_def bind_flat, intro okr, auto simp: okR_def dest!: keeps return_ok)

lemma last_rtt_length: "lm_get m s = Inr v \<Longrightarrow> names_ok m \<Longrightarrow> length s \<le> 229"
  by (auto simp: names_ok_def lm_get_def find_ptr_def slot_equals_def split: if_splits) (metis nth_mem)

lemma last_rtt_keeps [keeps]: "lm_set m s v = Inr m' \<Longrightarrow> names_ok m \<longrightarrow> names_ok m'"
proof
  assume u: "lm_set m s v = Inr m'" and n: "names_ok m"
  then obtain i where i: "i < length (lm_slots m)" "m' = store_at m i v"
    by (auto simp: lm_set_def find_ptr_def split: if_splits)
  then have "set (lm_slots m') \<subseteq> insert ((lm_slots m ! i)\<lparr>slot_value := v\<rparr>) (set (lm_slots m))"
    by (simp add: store_at_def set_update_subset_insert)
  then show "names_ok m'" using n i(1) by (fastforce simp: names_ok_def)
qed

lemma send_credit_request_keeps [keeps]:
  "send_credit_request e a s n i pr w = Inr w' \<Longrightarrow> world_ok w \<longrightarrow> world_ok w'"
  by (erule okR_dest, unfold send_credit_request_def bind_flat, intro okr, auto simp: okR_def dest!: keeps last_rtt_length credit_request_ok)

lemma credit_post_process_keeps [keeps]:
  "credit_post_process e b w = Inr (x, w') \<Longrightarrow> world_ok w \<longrightarrow> world_ok w'"
  by (erule okR_dest, unfold credit_post_process_def bind_flat, intro okr, auto simp: okR_def dest!: keeps)

lemma msg_ok_returns [simp]:
  "msg_ok (m\<lparr>credit_return_queue := []\<rparr>)"
  "msg_ok m \<Longrightarrow> datagram_ok b \<Longrightarrow> msg_ok (m\<lparr>credit_return_queue := credit_return_queue m @ [b]\<rparr>)"
  by (auto simp: msg_ok_def)

lemma flush_credit_returns_keeps [keeps]: "flush_credit_returns i w = Inr w' \<Longrightarrow> world_ok w \<longrightarrow> world_ok w'"
proof
  assume f: "flush_credit_returns i w = Inr w'" and w: "world_ok w"
  have "datagram_ok b" if "b \<in> set (credit_return_queue (w_msg w i))" for b
    using w that world_ok_parts(14) [of w i] by (simp add: msg_ok_def)
  then show "world_ok w'"
    using w by (intro okR_fold [OF f [unfolded flush_credit_returns_def], where P = world_ok]) (auto simp: okR_def dest!: keeps)
qed

lemma pop_and_send_keeps [keeps]:
  "pop_and_send e s i w = Inr w' \<Longrightarrow> world_ok w \<longrightarrow> world_ok w'"
  by (erule okR_dest, unfold pop_and_send_def bind_flat, intro okr, auto simp: okR_def dest!: keeps)

lemma fanout_branch_keeps [keeps]:
  "fanout_branch e info ing i s g w = Inr (b, w') \<Longrightarrow> received_ok g \<and> world_ok w \<longrightarrow> world_ok w'"
  by (erule okR_dest, unfold fanout_branch_def bind_flat, intro okr, auto simp: okR_def dest!: keeps)

lemma fanout_req_management_keeps [keeps]:
  "fanout_req_management e i s g w = Inr w' \<Longrightarrow> received_ok g \<and> world_ok w \<longrightarrow> world_ok w'"
  by (erule okR_dest, unfold fanout_req_management_def bind_flat, intro okr, auto simp: okR_def dest!: keeps)

lemma fanout_res_credit_management_keeps [keeps]:
  "fanout_res_credit_management i w = Inr w' \<Longrightarrow> world_ok w \<longrightarrow> world_ok w'"
  by (erule okR_dest, unfold fanout_res_credit_management_def bind_flat, intro okr, auto simp: okR_def dest!: keeps)

lemma credit_request_to_keeps [keeps]:
  "credit_request_to e r s w = Inr w' \<Longrightarrow> world_ok w \<longrightarrow> world_ok w'"
  by (erule okR_dest, unfold credit_request_to_def bind_flat, intro okr, auto simp: okR_def dest!: keeps)

lemma credit_requests_keep [keeps]: "foldR (credit_request_to e r) ds w = Inr w' \<Longrightarrow> world_ok w \<longrightarrow> world_ok w'"
  using okR_fold [where P = world_ok and f = "credit_request_to e r"] by (fastforce simp: okR_def dest!: keeps)

lemma admit_request_keeps [keeps]:
  "admit_request e w = Inr w' \<Longrightarrow> world_ok w \<longrightarrow> world_ok w'"
  by (erule okR_dest, unfold admit_request_def bind_flat, intro okr, auto simp: okR_def dest!: keeps)

lemma repeatR_inv: "repeatR n f s = Inr s' \<Longrightarrow> P s \<Longrightarrow> (\<And>s s'. f s = Inr s' \<Longrightarrow> P s \<Longrightarrow> P s') \<Longrightarrow> P s'"
  by (induction n arbitrary: s) auto

lemma requests_keep [keeps]: "protocol_client_requests e w = Inr w' \<Longrightarrow> world_ok w \<longrightarrow> world_ok w'"
  using repeatR_inv [where P = world_ok and f = "admit_request e"] by (fastforce simp: protocol_client_requests_def dest!: keeps)

lemma protocol_client_grant_keeps [keeps]:
  "protocol_client_grant e g w = Inr w' \<Longrightarrow> received_ok g \<and> world_ok w \<longrightarrow> world_ok w'"
proof
  assume p: "protocol_client_grant e g w = Inr w'" and ok: "received_ok g \<and> world_ok w"
  then obtain s n i w1 where c: "credit_post_process e g w = Inr ((s, n, i), w1)"
      and r: "repeatR n (\<lambda>w. if \<not> is_ingress (w_cfg w) then fanout_req_management e i s g w
        else Inl (Fatal ''Ingress should not use protocol_client for sending requests post credit'')) w1 = Inr w'"
    by (auto simp: protocol_client_grant_def)
  from r show "world_ok w'"
    by (rule repeatR_inv) (use ok c in \<open>auto dest!: keeps split: if_splits\<close>)
qed

section \<open>Forwarding\<close>

lemma update_utilization_keeps [keeps]:
  "update_utilization e s d w = Inr w' \<Longrightarrow> world_ok w \<longrightarrow> world_ok w'"
  by (erule okR_dest, unfold update_utilization_def bind_flat, intro okr, auto simp: okR_def dest!: keeps)

lemma forward_one_request_keeps [keeps]:
  "forward_one_request e t fd i w = Inr w' \<Longrightarrow> world_ok w \<longrightarrow> world_ok w'"
  by (erule okR_dest, unfold forward_one_request_def bind_flat, intro okr, auto simp: okR_def dest!: keeps)

lemma response_accounting_keeps [keeps]:
  "response_accounting e t r w = Inr w' \<Longrightarrow> world_ok w \<longrightarrow> world_ok w'"
  by (erule okR_dest, unfold response_accounting_def bind_flat, intro okr, auto simp: okR_def dest!: keeps)

lemma submit_reply_keeps [keeps]:
  "submit_reply e t c r w = Inr w' \<Longrightarrow> world_ok w \<longrightarrow> world_ok w'"
  by (erule okR_dest, unfold submit_reply_def bind_flat, intro okr, auto simp: okR_def dest!: keeps)

lemma forward_one_response_keeps [keeps]:
  "forward_one_response e t fd i w = Inr mw \<Longrightarrow> world_ok w \<longrightarrow> (case mw of None \<Rightarrow> True | Some w' \<Rightarrow> world_ok w')"
  by (erule okR_dest, unfold forward_one_response_def bind_flat, intro okr, auto simp: okR_def dest!: keeps)

lemma forward_loop_keeps [keeps]: "forward_loop e n t d w = Inr w' \<Longrightarrow> world_ok w \<longrightarrow> world_ok w'"
proof (induction n arbitrary: w d)
  case (Suc n)
  show ?case
    by (rule okR_dest [OF Suc.prems], unfold forward_loop.simps bind_flat, intro okr, auto simp: okR_def dest!: keeps Suc.IH)
qed simp

lemma forward_keeps [keeps]:
  "forward e t d w = Inr w' \<Longrightarrow> world_ok w \<longrightarrow> world_ok w'"
  by (erule okR_dest, unfold forward_def bind_flat, intro okr, auto simp: okR_def dest!: keeps)

lemma ingress_pre_credit_keeps [keeps]:
  "ingress_pre_credit e w = Inr w' \<Longrightarrow> world_ok w \<longrightarrow> world_ok w'"
  by (erule okR_dest, unfold ingress_pre_credit_def bind_flat, intro okr, auto simp: okR_def dest!: keeps)

lemma ingress_credit_round_keeps [keeps]:
  "ingress_credit_round e g w = Inr w' \<Longrightarrow> received_ok g \<and> world_ok w \<longrightarrow> world_ok w'"
  by (erule okR_dest, unfold ingress_credit_round_def bind_flat, intro okr, auto simp: okR_def dest!: keeps)

lemma ingress_post_credit_keeps [keeps]:
  "ingress_post_credit e g w = Inr w' \<Longrightarrow> received_ok g \<and> world_ok w \<longrightarrow> world_ok w'"
proof
  assume p: "ingress_post_credit e g w = Inr w'" and ok: "received_ok g \<and> world_ok w"
  then obtain x n y w1 w2 w3 where c: "credit_post_process e g w = Inr ((x, n, y), w1)"
      and r: "repeatR n (ingress_credit_round e g) w1 = Inr w2"
      and f: "forward e EGRESS UPSTREAM w2 = Inr w3" "ingress_pre_credit e w3 = Inr w'"
    by (auto simp: ingress_post_credit_def split: if_splits)
  have "world_ok w2"
    using r by (rule repeatR_inv) (use ok c in \<open>auto dest!: keeps\<close>)
  then show "world_ok w'" using f by (auto dest!: keeps)
qed

lemma dispatch_rlp_recv_keeps [keeps]:
  "dispatch_rlp_recv e b w = Inr w' \<Longrightarrow> buf_filled b \<le> length (buf_data b) \<and> world_ok w \<longrightarrow> world_ok w'"
proof
  assume d: "dispatch_rlp_recv e b w = Inr w'" and ok: "buf_filled b \<le> length (buf_data b) \<and> world_ok w"
  then obtain a where a: "dispatch_rlp (is_ingress (w_cfg w)) b = Inr a" by (auto simp: dispatch_rlp_recv_def)
  then have "received_ok b" using ok by (auto intro: dispatched_ok)
  then show "world_ok w'"
    using d ok a by (cases a) (auto simp: dispatch_rlp_recv_def dest!: keeps)
qed

section \<open>Completions and rounds\<close>

lemma multishot_keeps [keeps]:
  "handle_multishot_recv b n = Inr b' \<Longrightarrow> sized b \<longrightarrow> sized b' \<and> buf_filled b' \<le> length (buf_data b')"
proof -
  assume h: "handle_multishot_recv b n = Inr b'"
  then have "sized b \<longrightarrow> sized b'"
    by (auto simp: handle_multishot_recv_def Let_def sized_def write_at_def dest!: set_filled_eq split: if_splits)
  then show ?thesis using handle_multishot_filled [OF h] by simp
qed

lemma kernel_write_sized [simp]: "sized (kernel_write bs b) = sized b"
  by (auto simp: kernel_write_def sized_def min_def)

lemma upd_ud_ok [simp]: "world_ok w \<Longrightarrow> world_ok (upd_ud i u w) = ud_ok u"
  by (simp add: upd_ud_def)

lemma set_status_ok [simp]: "world_ok w \<Longrightarrow> world_ok (set_status c s w)"
  by (simp add: set_status_def)

lemma release_ud_keeps [keeps]:
  "release_ud i w = Inr w' \<Longrightarrow> world_ok w \<longrightarrow> world_ok w'"
  by (erule okR_dest, unfold release_ud_def bind_flat, intro okr, auto simp: okR_def dest!: keeps)

lemma listener_accepted_keeps [keeps]:
  "listener_add_connection fd r (accepted_connection fd' t h s) l = Inr (c, mc, l') \<Longrightarrow>
     (h = HTTP2 \<longrightarrow> s \<noteq> None) \<longrightarrow> (case mc of None \<Rightarrow> True | Some y \<Rightarrow> conn_ok y)"
  by (auto simp: listener_add_connection_def accepted_connection_def conn_ok_def split: option.splits if_splits)

lemma on_accept_keeps [keeps]:
  "on_accept e q u w = Inr w' \<Longrightarrow> world_ok w \<longrightarrow> world_ok w'"
  by (erule okR_dest, unfold on_accept_def bind_flat, intro okr, auto simp: okR_def dest!: keeps split: option.splits)

lemma tear_down_keeps [keeps]:
  "tear_down c mb w = Inr w' \<Longrightarrow> world_ok w \<and> (case mb of None \<Rightarrow> True | Some b \<Rightarrow> sized b) \<longrightarrow> world_ok w'"
  by (erule okR_dest, unfold tear_down_def bind_flat, intro okr, auto simp: okR_def dest!: keeps)

lemma after_read_keeps [keeps]:
  "after_read e c b w = Inr w' \<Longrightarrow> world_ok w \<and> sized b \<longrightarrow> world_ok w'"
  by (erule okR_dest, unfold after_read_def bind_flat, intro okr, auto simp: okR_def dest!: keeps)

lemma on_connect_keeps [keeps]:
  "on_connect e q u w = Inr w' \<Longrightarrow> ud_ok u \<and> world_ok w \<longrightarrow> world_ok w'"
  by (erule okR_dest, unfold on_connect_def bind_flat, intro okr, auto simp: okR_def dest!: keeps)

lemma on_write_keeps [keeps]:
  "on_write q u w = Inr w' \<Longrightarrow> ud_ok u \<and> world_ok w \<longrightarrow> world_ok w'"
  by (erule okR_dest, unfold on_write_def bind_flat, intro okr, auto simp: okR_def dest!: keeps)

lemma on_sendmsg_keeps [keeps]:
  "on_sendmsg q u w = Inr w' \<Longrightarrow> ud_ok u \<and> world_ok w \<longrightarrow> world_ok w'"
  by (erule okR_dest, unfold on_sendmsg_def bind_flat, intro okr, auto simp: okR_def dest!: keeps)

lemma on_cancel_keeps [keeps]:
  "on_cancel q u w = Inr w' \<Longrightarrow> ud_ok u \<and> world_ok w \<longrightarrow> world_ok w'"
  by (erule okR_dest, unfold on_cancel_def bind_flat, intro okr, auto simp: okR_def dest!: keeps)

lemma on_rcvmsg_keeps [keeps]:
  "on_rcvmsg e q w = Inr w' \<Longrightarrow> world_ok w \<longrightarrow> world_ok w'"
  by (erule okR_dest, unfold on_rcvmsg_def bind_flat, intro okr, auto simp: okR_def dest!: keeps)

end
