(* ===== verification/Sidecar_Example.thy ===== *)
theory Sidecar_Example
  imports Event_Loop Service_Limits_Correct
begin

text \<open>
  A concrete thread for the witnesses: a server without upstream connections, with five buffers of each class and
  one hosted service \<open>a\<close>. In one round the kernel delivers a Credit Request for it, and the thread answers with
  a grant.
\<close>

definition no_nghttp2 :: "unit nghttp2" where
  "no_nghttp2 =
     \<lparr>ng_client_new = (0, ()), ng_server_new = (0, ()), ng_mem_recv = (\<lambda>s bs. ([], int (length bs), s)),
      ng_want_write = (\<lambda>s. False), ng_mem_send = (\<lambda>s. Sent [] s), ng_submit_settings = (\<lambda>s. (0, s)),
      ng_submit_request = (\<lambda>s _ _. (1, s)), ng_submit_response = (\<lambda>s _ _ _. (0, s)), ng_submit_trailer = (\<lambda>s _ _. (0, s))\<rparr>"

definition server_env :: "unit env" where
  "server_env = \<lparr>e_ng = no_nghttp2, e_sse = False, e_behind = [], e_now = 1000, e_fuel = 2\<rparr>"

definition server_config :: config where
  "server_config = leaf_config\<lparr>is_frontend := True, frontend_pool_connections := Some 0\<rparr>"

definition closed_conn :: "'s conn" where
  "closed_conn =
     \<lparr>c_fd = -1, c_addr = no_addr, c_status = DOWN, c_host = [], c_port = 0, c_type = INGRESS, c_dir = UPSTREAM,
      c_http = HTTP1, h1_buf = [], h1_prev_buf_len = 0, h1_hdr_complete = False, h1_content_length = -1,
      h1_hdr_size = 0, h1_idle = True, h1_last_id = 0, h1_rpc_message = None, h2_session = None\<rparr>"

definition new_world :: "unit world" where
  "new_world =
     \<lparr>w_cfg = server_config,
      w_core = \<lparr>k_heap = (\<lambda>_. new_message HTTP2 0), k_ctr = 1, k_mapper = mapper_construct \<lparr>grpc_pool = [], http_pool = []\<rparr>,
                k_rq = rq_construct, k_stats = busy_stats 0\<rparr>,
      w_conns = (\<lambda>_. closed_conn), w_next_ref = 0, w_ingress_pool = pool_new INGRESS, w_routes = [],
      w_ring = \<lparr>rg_entries = 8, rg_verbosity = 0, rg_speed = 8, rg_prepared = [], rg_lag = 0, rg_submitted = []\<rparr>,
      w_bm = bm_construct 5 256, w_sockfd = -1, w_listeners = [], w_ppm = [],
      w_ingress = \<lparr>ig_cap = 10, ig_queue = [], ig_mean = tw_construct, ig_on_fly = False, ig_priority = 0, ig_drop_id = 0,
                   ig_drop_fd = 0, ig_last_rpc_id = 0, ig_service = []\<rparr>,
      w_cq = idle_queue, w_in_local = 0, w_drops = 0, w_last_rtt = lm_no_keys,
      w_util = \<lparr>ut_total = lm_no_keys, ut_last_in = lm_no_keys, ut_count = lm_no_keys, ut_period = 0,
                ut_last_update = lm_no_keys, ut_last_report = lm_no_keys\<rparr>,
      w_service = []\<rparr>"

text \<open>The kernel delivers a Credit Request for one credit of service \<open>a\<close> with priority 1.\<close>

definition request_datagram :: "byte list" where
  "request_datagram = [27, 1, 0, 1, 0, 0, 0, 0, 0, 0, 0, 0, 42, 1, 0, 0, 0, 0, 0, 0, 3, 132, 0, 0, 1, 44, 97]"

definition request_round :: "unit round" where
  "request_round =
     \<lparr>r_env = server_env, r_ret = 0, r_cq_entries = 16,
      r_completions = [\<lparr>q_user_data = 0, q_res = 59, q_buffer = Some 5,
        q_bytes = [16, 0, 0, 0, 0, 0, 0, 0, 27, 0, 0, 0, 0, 0, 0, 0] @ [2, 0, 31, 144, 127, 0, 0, 1, 0, 0, 0, 0, 0, 0, 0, 0] @ request_datagram\<rparr>]\<rparr>"

lemma construct_a: "lm_construct d [''a''] = Inr (one_cell d)"
  by (simp add: lm_construct_def try_build_def is_pow2_def slot_index_def occupied_def empty_slot_def one_cell_def lm_raw_def Let_def
      seed_search.simps(2) [of _ _ _ _ _ 99999, simplified])

lemma new_world_built:
  "state_construct server_env (\<lambda>_. undefined) (\<lambda>xs. xs) (7, 0, 0) new_world =
    Inr (new_world\<lparr>w_util := \<lparr>ut_total = one_cell 0, ut_last_in = one_cell 0, ut_count = one_cell 0, ut_period = 1000,
                ut_last_update = one_cell 1000, ut_last_report = one_cell 1000\<rparr>, w_sockfd := 7\<rparr>)"
  by (simp add: state_construct_def new_world_def server_config_def leaf_config_def default_config_def get_downstream_services_def
     get_hosted_services_def lm_construct_def [of _ "[]"] ut_construct_def construct_a HTTP1Connection_BUF_SIZE_def ingress_connections_def
     udp_socket_def Let_def pool_new_def ppm_construct_def server_env_def set_all_def check_mapping_def)

definition ready_world :: "unit world" where
  "ready_world = new_world\<lparr>w_util := \<lparr>ut_total = one_cell 0, ut_last_in = one_cell 0, ut_count = one_cell 0, ut_period = 1000,
                ut_last_update = one_cell 1000, ut_last_report = one_cell 1000\<rparr>, w_sockfd := 7\<rparr>"

definition waiting_world :: "unit world" where
  "waiting_world = ready_world\<lparr>
      w_ring := \<lparr>rg_entries = 8, rg_verbosity = 0, rg_speed = 8, rg_prepared = [(Sqe_Recvmsg_Multishot 7 1, 0)], rg_lag = 0, rg_submitted = []\<rparr>,
      w_bm := (bm_construct 5 256)\<lparr>bm_user_data := new_user_data(0 := (new_user_data 0)\<lparr>ud_op := OP_RCVMSG\<rparr>),
        bm_user_data_queue := [1, 2, 3, 4]\<rparr>\<rparr>"

lemma upt5: "[0..<5] = [0, 1, 2, 3, 4 :: nat]"
  by (simp add: upt_rec)

lemma world_waits: "start_loop ready_world = Inr waiting_world"
  by (simp add: start_loop_def ready_world_def waiting_world_def new_world_def with_user_data_def get_user_data_def bm_construct_def
      prepare_rcvmsg_def get_sqe_def ring_full_def set_user_data_def upt5 Let_def new_user_data_def)

definition received_request :: buffer where
  "received_request = (new_buffer 256 5)\<lparr>buf_is_provided := True, buf_is_free := False, buf_filled := 27,
     buf_addr := \<lparr>sin_addr = 16777343, sin_port = 36895\<rparr>,
     buf_data := request_datagram @ drop 27 ([16, 0, 0, 0, 0, 0, 0, 0, 27, 0, 0, 0, 0, 0, 0, 0] @ [2, 0, 31, 144, 127, 0, 0, 1, 0, 0, 0, 0, 0, 0, 0, 0] @ request_datagram) @
        replicate 197 0\<rparr>"

lemma init5: "init_pool b 5 256 = \<lparr>bp_base = b,
   bp_vector = [Some ((new_buffer 256 b)\<lparr>buf_is_provided := True\<rparr>), Some ((new_buffer 256 (b + 1))\<lparr>buf_is_provided := True\<rparr>),
     Some ((new_buffer 256 (b + 2))\<lparr>buf_is_provided := True\<rparr>), Some ((new_buffer 256 (b + 3))\<lparr>buf_is_provided := True\<rparr>),
     Some (new_buffer 256 (b + 4))], bp_free = [b + 4], bp_ring = [b, b + 1, b + 2, b + 3]\<rparr>"
  by (simp add: init_pool_def upt5 provided_index_def new_buffer_def)

lemma request_received:
  "handle_multishot_recv (kernel_write (q_bytes (hd (r_completions request_round))) ((new_buffer 256 5)\<lparr>buf_is_provided := True, buf_is_free := False\<rparr>)) 59 = Inr received_request"
  by (simp add: handle_multishot_recv_def kernel_write_def request_round_def request_datagram_def received_request_def set_filled_def write_at_def new_buffer_def Let_def eval_nat_numeral(3)[symmetric])

definition submitted_world :: "unit world" where
  "submitted_world = waiting_world\<lparr>w_ring := \<lparr>rg_entries = 8, rg_verbosity = 0, rg_speed = 8, rg_prepared = [], rg_lag = 0,
     rg_submitted = [(Sqe_Recvmsg_Multishot 7 1, 0)]\<rparr>\<rparr>"

lemma dispatch_request: "dispatch_rlp False received_request = Inr To_Server"
  by (simp add: dispatch_rlp_def received_request_def request_datagram_def rlp_header_def Let_def)

lemma parse_request: "parse_credit_request (buf_data received_request) = Inr (''a'', 42, 1, 300)"
proof -
  have "be_word [0, 0, 1, 44] = (300 :: 32 word)" "be_word [0, 0, 0, 0, 0, 0, 0, 42] = (42 :: 64 word)"
    by (simp_all add: be_word_val)
  moreover have "char_of (97 :: nat) = CHR ''a''" by code_simp
  ultimately show ?thesis
    by (simp add: parse_credit_request_def received_request_def request_datagram_def rlp_header_def Let_def
        extract_service_from_rlp_req_def char_at_def read_int32_def read_int64_def chars_def char_of_byte_def)
qed

definition grant_buffer :: buffer where
  "grant_buffer = (new_buffer 256 9)\<lparr>buf_is_free := False, buf_filled := 27, buf_msg := Some 27, enter_queue_ts := 1000,
     buf_addr := \<lparr>sin_addr = 16777343, sin_port = 36895\<rparr>,
     buf_data := [27, 1, 1, 1, 1, 0, 0, 0, 0, 0, 0, 0, 42, 1, 0, 0, 0, 0, 0, 0, 3, 132, 0, 0, 1, 44, 97] @ replicate 229 0\<rparr>"

lemma grant_written:
  "write_failed_dn_response received_request ((new_buffer 256 9)\<lparr>buf_is_free := False\<rparr>) = Inr (grant_buffer\<lparr>enter_queue_ts := 0\<rparr>)"
  by (simp add: write_failed_dn_response_def write_credit_grant_def received_request_def request_datagram_def set_filled_def write_at_def new_buffer_def
    prepare_sendmsg_def grant_buffer_def eval_nat_numeral(3)[symmetric])

definition stamped_grant :: buffer where
  "stamped_grant = grant_buffer\<lparr>buf_data := [27, 1, 1, 1, 1, 0, 0, 0, 0, 0, 0, 0, 42, 1, 0, 0, 0, 0, 0, 0, 3, 132, 0, 0, 0, 0, 97] @ replicate 229 0\<rparr>"

lemma grant_stamped: "stamp_queuing_time 1000 grant_buffer = Inr stamped_grant"
  by (simp add: stamp_queuing_time_def grant_buffer_def stamped_grant_def be_bytes_def upt_rec to_int32_def)


lemma one_cell_slot: "lm_slots (one_cell v) = [\<lparr>slot_key = ''a'', slot_len = 1, slot_fp = fnv1a64 ''a'' 0, slot_value = v\<rparr>]"
  by (simp add: one_cell_def)

lemma one_cell_next: "it_next (one_cell v) 0 = 0"
  by (simp add: it_next_def skip_empty_def one_cell_slot occupied_def)

lemma grant_popped:
  "\<exists>cq. bindR (cq_push idle_queue grant_buffer ''a'' 1) cq_pop = Inr (Some grant_buffer, cq)"
proof -
  let ?e = "\<lparr>iq_queue = one_cell [], iq_it = 0, iq_size = 0\<rparr>"
  let ?one = "\<lparr>iq_queue = one_cell [grant_buffer], iq_it = 0, iq_size = Suc 0\<rparr>"
  let ?cq = "idle_queue\<lparr>cq_queue := [?e, ?one, ?e], cq_size := 1\<rparr>"
  have push: "cq_push idle_queue grant_buffer ''a'' 1 = Inr ?cq"
    by (simp add: cq_push_def idle_queue_def Let_def iq_push_def)
  have none: "iq_pop ?e f m g l = Inr (None, ?e, f, m)" for f m g l by (simp add: iq_pop_def)
  have some: "iq_pop ?one 0 (one_cell 0) 50 (one_cell 40) = Inr (Some grant_buffer, ?e, 1, one_cell 1)"
    by (simp add: iq_pop_def one_cell_slot can_send_def one_cell_next)
  have "cq_pop ?cq = cq_pop_loop (Suc (Suc 1)) 0 ?cq" by (simp add: cq_pop_def idle_queue_def Let_def PriorityCount_def numeral_3_eq_3)
  also have "\<dots> = cq_pop_loop (Suc 1) 0 (?cq\<lparr>cq_it := 1, cq_rounds := 4\<rparr>)"
    by (simp add: cq_pop_loop.simps(2) none idle_queue_def Let_def PriorityCount_def)
  also have "\<exists>cq. \<dots> = Inr (Some grant_buffer, cq)"
    by (simp add: cq_pop_loop.simps(2) some idle_queue_def Let_def PriorityCount_def)
  finally show ?thesis using push by simp
qed

lemma limits_unchanged:
  "\<exists>st. update_limits server_config 300 ''a'' (busy_stats 0) (idle_queue :: buffer credit_queue) = Inr (st, idle_queue)"
  by (simp add: update_limits_def busy_stats_def ema_update_def Let_def)

definition grant_payload :: "byte list" where
  "grant_payload = [27, 1, 1, 1, 1, 0, 0, 0, 0, 0, 0, 0, 42, 1, 0, 0, 0, 0, 0, 0, 3, 132, 0, 0, 0, 0, 97]"

definition client_addr :: sockaddr where
  "client_addr = \<lparr>sin_addr = 16777343, sin_port = 36895\<rparr>"

text \<open>The server answers the request with a grant.\<close>

lemma request_answered:
  assumes w: "w = submitted_world\<lparr>w_bm := bm\<rparr>" and bm: "get_udp_buffer bm = Inr ((new_buffer 256 9)\<lparr>buf_is_free := False\<rparr>, bm2)"
    and ud: "bm_user_data_queue bm2 = i # is" "bm_user_data bm2 i = new_user_data i"
  shows "\<exists>w'. protocol_server server_env received_request w = Inr w' \<and>
    rg_prepared (w_ring w') = [(Sqe_Sendmsg 7 grant_payload client_addr, i)] \<and> bm_udp (w_bm w') = bm_udp bm2"
proof -
  obtain st where st: "update_limits server_config 300 ''a'' (busy_stats 0) (idle_queue :: buffer credit_queue) = Inr (st, idle_queue)"
    using limits_unchanged by blast
  obtain cq1 cq2 where cq: "cq_push idle_queue grant_buffer ''a'' 1 = Inr cq1" "cq_pop cq1 = Inr (Some grant_buffer, cq2)"
    using grant_popped by auto
  have "buf_data received_request ! 1 = 1" by (simp add: received_request_def request_datagram_def)
  moreover have "msg_payload stamped_grant = grant_payload" "buf_addr stamped_grant = client_addr"
    by (simp_all add: msg_payload_def stamped_grant_def grant_payload_def grant_buffer_def client_addr_def)
  moreover have "grant_buffer\<lparr>enter_queue_ts := 1000\<rparr> = grant_buffer" by (simp add: grant_buffer_def)
  ultimately show ?thesis
    using st cq bm ud
    by (simp add: w protocol_server_def parse_request update_world_limits_def submitted_world_def waiting_world_def ready_world_def new_world_def
       take_udp_buffer_def grant_written check_credit_transmission_def server_env_def grant_stamped send_datagram_def with_user_data_def
       get_user_data_def ring_prepare_sendmsg_def get_sqe_def ring_full_def ud_set_buffer_def set_user_data_def Let_def
       new_user_data_def)
qed

lemma foldR_one: "foldR f [x] s = f x s"
  by (cases "f x s") simp_all

lemma round_answers:
  "\<exists>w. run [request_round] ready_world = Inr w \<and> rg_prepared (w_ring w) = [(Sqe_Sendmsg 7 grant_payload client_addr, 1)]"
proof -
  let ?bm = "w_bm waiting_world"
  let ?vec = "bp_vector (init_pool 5 5 256)"
  let ?bm1 = "?bm\<lparr>bm_udp := (init_pool 5 5 256)\<lparr>bp_vector := ?vec[0 := None]\<rparr>\<rparr>"
  let ?bm2 = "?bm1\<lparr>bm_udp := (init_pool 5 5 256)\<lparr>bp_vector := ?vec[0 := None, 4 := None], bp_free := []\<rparr>\<rparr>"
  let ?b = "(new_buffer 256 5)\<lparr>buf_is_provided := True, buf_is_free := False\<rparr>"
  have vec: "length ?vec = 5" "?vec ! 0 = Some ((new_buffer 256 5)\<lparr>buf_is_provided := True\<rparr>)" "?vec ! 4 = Some (new_buffer 256 9)"
    by (simp_all add: init5)
  have get: "get_udp_buffer_by_index 5 ?bm = Inr (?b, ?bm1)"
    by (simp add: get_udp_buffer_by_index_def pool_get_by_index_def take_slot_def waiting_world_def bm_construct_def init5)
  have "get_udp_buffer ?bm1 = Inr ((new_buffer 256 9)\<lparr>buf_is_free := False\<rparr>, ?bm2)"
    by (simp add: get_udp_buffer_def pool_get_def take_slot_def waiting_world_def bm_construct_def init5)
  then obtain w' where w': "protocol_server server_env received_request (submitted_world\<lparr>w_bm := ?bm1\<rparr>) = Inr w'"
      "rg_prepared (w_ring w') = [(Sqe_Sendmsg 7 grant_payload client_addr, 1)]" "bm_udp (w_bm w') = bm_udp ?bm2"
    using request_answered [OF refl, of ?bm1 ?bm2 1 "[2, 3, 4]"] by (auto simp: waiting_world_def)
  have "\<exists>bm. free_udp_buffer (Some received_request) (w_bm w') = Inr bm"
    using w'(3) by (simp add: free_udp_buffer_def pool_free_def received_request_def init5 Let_def)
  then obtain bm where free: "free_udp_buffer (Some received_request) (w_bm w') = Inr bm" by blast
  let ?q = "hd (r_completions request_round)"
  have "\<not> is_ingress (w_cfg submitted_world)"
    by (simp add: submitted_world_def waiting_world_def ready_world_def new_world_def server_config_def leaf_config_def default_config_def)
  then have "on_rcvmsg server_env ?q submitted_world = Inr (w'\<lparr>w_bm := bm\<rparr>)"
    using get request_received w'(1) free
    by (simp add: on_rcvmsg_def request_round_def dispatch_rlp_recv_def dispatch_request submitted_world_def)
  moreover have "loop_round request_round waiting_world = handle_completion server_env ?q submitted_world"
    by (simp add: loop_round_def request_round_def submit_and_wait_def waiting_world_def io_uring_submit_def submitted_world_def
        foldR_one del: foldR.simps)
  moreover have "handle_completion server_env ?q submitted_world = on_rcvmsg server_env ?q submitted_world"
    by (simp add: handle_completion_def ring_get_user_data_def submitted_world_def waiting_world_def request_round_def)
  ultimately show ?thesis using w'(2) by (simp add: run_def world_waits)
qed

end
