(* ===== verification/Sidecar_Correct.thy ===== *)
theory Sidecar_Correct
  imports Sidecar_Handlers Sidecar_Example
begin

text \<open>
  The invariant of a sidecar thread from its construction through every round of the event loop, and what
  follows from it for the datagrams the thread sends and the connections it holds.
\<close>

section \<open>The event loop\<close>

lemma keep_input_ok: "http_read e b c w = Inl (HTTPParse msg) \<Longrightarrow> world_ok w \<Longrightarrow> conn_ok (keep_input b (w_conns w c))"
  by (auto simp: keep_input_def http_read_def http1_read_def conn_ok_append split: http_version.splits if_splits)

lemma on_read_keeps [keeps]: "on_read e q u w = Inr w' \<Longrightarrow> world_ok w \<longrightarrow> world_ok w'"
proof
  assume r: "on_read e q u w = Inr w'" and w: "world_ok w"
  obtain mb w1 c where b: "(case q_buffer q of
              Some i \<Rightarrow> bindR (get_buffer_by_index i (w_bm w)) (\<lambda>(b, bm). Inr (Some (kernel_write (q_bytes q) b), w\<lparr>w_bm := bm\<rparr>))
            | None \<Rightarrow> if q_res q > 0 then Inl (Fatal ''no buffer provided'') else Inr (None, w)) = Inr (mb, w1)"
      and cont: "(if q_res q < 0 then Inl (Fatal ''Failed to read'')
       else if q_res q = 0 then tear_down c mb w1
       else case mb of
         None \<Rightarrow> Inl (Undefined ''null buffer'')
       | Some b \<Rightarrow>
           bindR (set_filled b (size_t_of (q_res q))) (\<lambda>b.
           case http_read e b c w1 of
             Inl (HTTPParse msg) \<Rightarrow> tear_down c (Some b) (upd_conn c (keep_input b (w_conns w1 c)) w1)
           | Inl err \<Rightarrow> Inl err
           | Inr w \<Rightarrow> after_read e c b w)) = Inr w'"
    using r by (auto simp: on_read_def)
  have w1: "world_ok w1 \<and> (case mb of None \<Rightarrow> True | Some b \<Rightarrow> sized b)"
    using b w by (auto dest!: keeps split: option.splits if_splits)
  consider (close) "q_res q = 0" "tear_down c mb w1 = Inr w'"
    | (data) b0 b where "mb = Some b0" "set_filled b0 (size_t_of (q_res q)) = Inr b"
        "(case http_read e b c w1 of
             Inl (HTTPParse msg) \<Rightarrow> tear_down c (Some b) (upd_conn c (keep_input b (w_conns w1 c)) w1)
           | Inl err \<Rightarrow> Inl err
           | Inr w \<Rightarrow> after_read e c b w) = Inr w'"
    using cont by (auto split: if_splits option.splits)
  then show "world_ok w'"
  proof cases
    case close
    then show ?thesis using w1 by (auto dest!: keeps)
  next
    case (data b0 b)
    have b: "sized b" using data w1 by (auto dest!: keeps)
    show ?thesis
    proof (cases "http_read e b c w1")
      case (Inr w2)
      then show ?thesis using data w1 b by (auto dest!: keeps)
    next
      case (Inl err)
      then have "\<exists>msg. err = HTTPParse msg" and t: "tear_down c (Some b) (upd_conn c (keep_input b (w_conns w1 c)) w1) = Inr w'"
        using data(3) by (auto split: error.splits)
      then have "conn_ok (keep_input b (w_conns w1 c))" using keep_input_ok Inl w1 by blast
      then show ?thesis using t w1 b by (auto dest!: keeps)
    qed
  qed
qed

lemma handle_completion_keeps [keeps]: "handle_completion e q w = Inr w' \<Longrightarrow> world_ok w \<longrightarrow> world_ok w'"
proof
  assume h: "handle_completion e q w = Inr w'" and w: "world_ok w"
  then obtain u where u: "ring_get_user_data (Some (bm_user_data (w_bm w) (q_user_data q))) = Inr u"
    by (auto simp: handle_completion_def)
  then have "ud_ok u" using w by (auto simp: ring_get_user_data_def split: if_splits)
  then show "world_ok w'"
    using h u w by (cases "ud_op u") (auto simp: handle_completion_def dest!: keeps)
qed

lemma completions_keep [keeps]: "foldR (handle_completion e) qs w = Inr w' \<Longrightarrow> world_ok w \<longrightarrow> world_ok w'"
  using okR_fold [where P = world_ok and f = "handle_completion e"] by (fastforce simp: okR_def dest!: keeps)

lemma loop_round_keeps [keeps]: "loop_round r w = Inr w' \<Longrightarrow> world_ok w \<longrightarrow> world_ok w'"
  by (auto simp: loop_round_def dest!: keeps)

lemma rounds_keep [keeps]: "foldR loop_round rs w = Inr w' \<Longrightarrow> world_ok w \<longrightarrow> world_ok w'"
  using okR_fold [where P = world_ok and f = loop_round] by (fastforce simp: okR_def dest!: keeps)

lemma start_loop_keeps [keeps]: "start_loop w = Inr w' \<Longrightarrow> world_ok w \<longrightarrow> world_ok w'"
proof
  assume s: "start_loop w = Inr w'" and w: "world_ok w"
  then obtain w1 where f: "foldR (\<lambda>(type, l). with_user_data (prepare_accept (l_fd l) (listener_ref type))) (w_listeners w) w = Inr w1"
      and r: "with_user_data (prepare_rcvmsg (w_sockfd w1)) w1 = Inr w'"
    by (auto simp: start_loop_def)
  have "world_ok w1" using w by (intro okR_fold [OF f, where P = world_ok]) (auto simp: okR_def split: prod.splits dest!: keeps)
  then show "world_ok w'" using r by (auto dest!: keeps)
qed

lemma run_keeps [keeps]: "run rs w = Inr w' \<Longrightarrow> world_ok w \<longrightarrow> world_ok w'"
  by (auto simp: run_def dest!: keeps)

section \<open>Construction\<close>

lemma fill_slots_names:
  "fill_slots cap seed ks tmp = Some tmp' \<Longrightarrow> \<forall>s\<in>set tmp. unat (slot_len s) \<le> 229 \<Longrightarrow> \<forall>k\<in>set ks. length k \<le> 229 \<Longrightarrow>
   \<forall>s\<in>set tmp'. unat (slot_len s) \<le> 229"
proof (induction ks arbitrary: tmp)
  case (Cons k ks)
  let ?s = "\<lambda>i. (tmp ! i)\<lparr>slot_key := k, slot_len := of_nat (length k), slot_fp := fnv1a64 k seed\<rparr>"
  have "unat (slot_len (?s i)) \<le> 229" for i
    using Cons.prems(3) unat_of_nat [of "length k", where 'a = 32] by (simp add: order_trans [OF mod_less_eq_dividend])
  then have "\<forall>s\<in>set (tmp[i := ?s i]). unat (slot_len s) \<le> 229" for i
    using Cons.prems(2) set_update_subset_insert [of tmp i "?s i"] by blast
  then show ?case using Cons.IH Cons.prems(1,3) by (auto simp: Let_def split: if_splits)
qed simp

lemma seed_search_names:
  "seed_search d ks K cap t n m = Some m' \<Longrightarrow> \<forall>k\<in>set ks. length k \<le> 229 \<Longrightarrow> names_ok m'"
proof (induction n arbitrary: t)
  case (Suc n)
  show ?case
  proof (cases "try_build d ks K cap (of_nat t) m")
    case (Some m1)
    then obtain tmp where "fill_slots cap (of_nat t) ks (replicate cap (empty_slot d)) = Some tmp" "lm_slots m1 = tmp"
      by (auto simp: try_build_def split: option.splits)
    then have "\<forall>s\<in>set (lm_slots m1). unat (slot_len s) \<le> 229"
      using fill_slots_names Suc.prems(2) by (fastforce simp: empty_slot_def)
    then show ?thesis using Suc.prems(1) Some by (auto simp: names_ok_def)
  qed (use Suc in simp)
qed simp

lemma lm_construct_names: "lm_construct d ks = Inr m \<Longrightarrow> \<forall>k\<in>set ks. length k \<le> 229 \<Longrightarrow> names_ok m"
  by (auto simp: lm_construct_def Let_def names_ok_def lm_no_keys_def lm_raw_def split: if_splits option.splits
      dest!: seed_search_names)

lemma dial_connection_keeps [keeps]: "dial_connection e dials host port t h r = Inr c \<Longrightarrow> conn_ok c"
  by (erule okR_dest, unfold dial_connection_def upstream_connection_def bind_flat, intro okr, auto simp: conn_ok_def)

lemma open_connection_keeps [keeps]:
  "open_connection e dials rehash host port h (p, w) = Inr (p', w') \<Longrightarrow> world_ok w \<longrightarrow> world_ok w'"
  by (erule okR_dest, unfold open_connection_def bind_flat, simp, intro okr, auto simp: okR_def dest!: keeps)

lemma open_connections_keep [keeps]:
  "repeatR n (open_connection e dials rehash host port h) (p, w) = Inr (p', w') \<Longrightarrow> world_ok w \<longrightarrow> world_ok w'"
  using repeatR_inv [where P = "\<lambda>(p, w). world_ok w" and f = "open_connection e dials rehash host port h"]
  by (fastforce dest!: keeps)

lemma open_route_keeps [keeps]: "open_route e dials rehash x w = Inr w' \<Longrightarrow> world_ok w \<longrightarrow> world_ok w'"
  by (cases x, erule okR_dest, unfold open_route_def bind_flat, simp only: prod.case, intro okr, auto simp: okR_def dest!: keeps)

lemma open_routes_keep [keeps]: "foldR (open_route e dials rehash) rs w = Inr w' \<Longrightarrow> world_ok w \<longrightarrow> world_ok w'"
  using okR_fold [where P = world_ok and f = "open_route e dials rehash"] by (fastforce simp: okR_def dest!: keeps)

lemma state_construct_ok:
  assumes s: "state_construct e dials rehash udp w = Inr w'" and w: "base_ok w"
    and names: "\<forall>s\<in>set (get_downstream_services (w_cfg w)). length s \<le> 229"
  shows "world_ok w'"
proof -
  have "names_ok rtts" if "lm_construct (0::int) (get_downstream_services (w_cfg w)) = Inr rtts" for rtts
    using lm_construct_names [OF that names] .
  then have C: "world_ok (w\<lparr>w_ingress_pool := a, w_routes := b, w_ppm := c, w_drops := d, w_last_rtt := rtts\<rparr>)"
    if "lm_construct 0 (get_downstream_services (w_cfg w)) = Inr rtts" for a b c d rtts
    using w that by (simp add: world_ok_def)
  show ?thesis
    by (rule okR_dest [OF s], unfold state_construct_def bind_flat, intro okr, auto simp: okR_def C dest!: keeps)
qed

section \<open>The concrete thread satisfies the invariant\<close>

lemma new_world_ok: "base_ok new_world"
proof -
  have "sized (new_buffer n i)" for n i by (simp add: sized_def)
  then have "pool_sized (init_pool b 5 256)" for b by (auto simp: pool_sized_def init_pool_def sized_def)
  moreover have "ud_ok (new_user_data i)" for i by (simp add: ud_ok_def new_user_data_def)
  moreover have "msg_ok (new_message HTTP2 0)" by (simp add: msg_ok_def new_message_def Let_def)
  moreover have "conn_ok closed_conn" by (simp add: conn_ok_def closed_conn_def)
  moreover have "cq_deque (idle_queue :: buffer credit_queue) p ''a'' = []" if "p < 3" for p
    using that by (auto simp: cq_deque_def idle_queue_def Let_def iq_deque_def one_cell_map less_Suc_eq numeral_3_eq_3)
  then have "queue_ok idle_queue"
    unfolding queue_ok_def grants_ok_def using idle_queue_inv by (intro exI [of _ "{''a''}"]) auto
  ultimately show ?thesis
    by (simp add: base_ok_def new_world_def bm_ok_def bm_construct_def ring_ok_def core_ok_def heap_ok_def)
qed

lemma new_world_names: "\<forall>s\<in>set (get_downstream_services (w_cfg new_world)). length s \<le> 229"
  by (simp add: get_downstream_services_def new_world_def server_config_def leaf_config_def default_config_def)

lemma ready_listeners: "ready_world\<lparr>w_listeners := []\<rparr> = ready_world"
  by (simp add: ready_world_def new_world_def)

section \<open>Properties\<close>

text \<open>
  Every datagram that a thread ever hands to the kernel, from its construction through any rounds of the event
  loop with any input from peers, connections and nghttp2, is one that the receiver's dispatcher accepts: it has
  a full header, the declared length is at least the header and does not pass the end, and the type and
  direction bytes are known. The names of the downstream services must fit the length byte.
\<close>

theorem sent_datagrams_accepted:
  assumes "state_construct e dials rehash udp w0 = Inr w1" and "base_ok w0"
    and "\<forall>s\<in>set (get_downstream_services (w_cfg w0)). length s \<le> 229"
    and "run rounds (w1\<lparr>w_listeners := ls\<rparr>) = Inr w2"
    and "(Sqe_Sendmsg fd p a, i) \<in> set (rg_submitted (w_ring w2) @ rg_prepared (w_ring w2))"
  shows "payload_ok p \<and> (\<exists>action. dispatch_rlp ing (b\<lparr>buf_data := p @ rest, buf_filled := length p\<rparr>) = Inr action)"
proof -
  have "world_ok (w1\<lparr>w_listeners := ls\<rparr>)" using state_construct_ok [OF assms(1-3)] by simp
  then have "ring_ok (w_ring w2)" using assms(4) by (auto dest!: keeps)
  then have "sqe_ok (fst (Sqe_Sendmsg fd p a, i))" using assms(5) unfolding ring_ok_def by (rule bspec)
  then have "payload_ok p" by simp
  then show ?thesis using payload_dispatched by blast
qed

theorem sent_datagrams_accepted_witness:
  "\<exists>w2. run [request_round] ready_world = Inr w2 \<and>
     (\<exists>action. dispatch_rlp False ((new_buffer 256 3)\<lparr>buf_data := grant_payload @ [], buf_filled := length grant_payload\<rparr>) = Inr action)"
proof -
  obtain w2 where r: "run [request_round] ready_world = Inr w2"
      and s: "rg_prepared (w_ring w2) = [(Sqe_Sendmsg 7 grant_payload client_addr, 1)]"
    using round_answers by blast
  have "(Sqe_Sendmsg 7 grant_payload client_addr, 1) \<in> set (rg_submitted (w_ring w2) @ rg_prepared (w_ring w2))"
    using s by simp
  from sent_datagrams_accepted [OF new_world_built new_world_ok new_world_names, where rounds = "[request_round]" and ls = "[]"
      and ing = False and b = "new_buffer 256 3" and rest = "[]", unfolded ready_world_def [symmetric] ready_listeners, OF r this]
  show ?thesis using r by blast
qed

text \<open>
  C3: after any rounds every connection is of a consistent type: an HTTP/2 connection has a session, so no handler
  finds it missing, and the bytes an HTTP/1 connection keeps fit its fixed array, the last read included.
\<close>

theorem connections_stay_typed:
  assumes "state_construct e dials rehash udp w0 = Inr w1" and "base_ok w0"
    and "\<forall>s\<in>set (get_downstream_services (w_cfg w0)). length s \<le> 229"
    and "run rounds (w1\<lparr>w_listeners := ls\<rparr>) = Inr w2"
  shows "(c_http (w_conns w2 c) = HTTP2 \<longrightarrow> (\<exists>s. session_of (w_conns w2 c) = Inr s)) \<and>
    length (h1_buf (w_conns w2 c)) \<le> HTTP1Connection_BUF_SIZE \<and> h1_prev_buf_len (w_conns w2 c) \<le> length (h1_buf (w_conns w2 c))"
proof -
  have "world_ok (w1\<lparr>w_listeners := ls\<rparr>)" using state_construct_ok [OF assms(1-3)] by simp
  then have "conn_ok (w_conns w2 c)" using assms(4) by (auto dest!: keeps)
  then show ?thesis using conn_ok_has_session [of "w_conns w2 c"] by (simp add: conn_ok_def)
qed

theorem connections_stay_typed_witness:
  "\<exists>w2. run [request_round] ready_world = Inr w2 \<and> length (h1_buf (w_conns w2 0)) \<le> HTTP1Connection_BUF_SIZE"
proof -
  obtain w2 where r: "run [request_round] ready_world = Inr w2" using round_answers by blast
  from connections_stay_typed [OF new_world_built new_world_ok new_world_names, where rounds = "[request_round]" and ls = "[]", unfolded
      ready_world_def [symmetric] ready_listeners, OF r]
  show ?thesis using r by blast
qed

text \<open>
  The credit accounts survive the whole program: after any rounds of a thread, every handler and every
  interleaving of requests, grants, returns and responses included, the credit queue satisfies its
  invariant for some set of endpoints (the total in flight is the sum over the endpoints, the size counts the
  waiting grants, iterators are inside) and every waiting grant is a datagram ready to be sent.
\<close>

theorem credit_accounts_survive:
  assumes "state_construct e dials rehash udp w0 = Inr w1" and "base_ok w0"
    and "\<forall>s\<in>set (get_downstream_services (w_cfg w0)). length s \<le> 229"
    and "run rounds (w1\<lparr>w_listeners := ls\<rparr>) = Inr w2"
  shows "\<exists>eps. cq_inv eps (w_cq w2) \<and> (\<forall>p<3. \<forall>ep\<in>eps. \<forall>b\<in>set (cq_deque (w_cq w2) p ep). payload_ok (msg_payload b))"
proof -
  have "world_ok (w1\<lparr>w_listeners := ls\<rparr>)" using state_construct_ok [OF assms(1-3)] by simp
  then have "queue_ok (w_cq w2)" using assms(4) by (auto dest!: keeps)
  then show ?thesis by (auto simp: queue_ok_def grants_ok_def datagram_payload)
qed

theorem credit_accounts_survive_witness:
  "\<exists>w2 eps. run [request_round] ready_world = Inr w2 \<and> cq_inv eps (w_cq w2)"
proof -
  obtain w2 where r: "run [request_round] ready_world = Inr w2" using round_answers by blast
  from credit_accounts_survive [OF new_world_built new_world_ok new_world_names, where rounds = "[request_round]" and ls = "[]", unfolded
      ready_world_def [symmetric] ready_listeners, OF r]
  show ?thesis using r by blast
qed

end
