(* ===== verification/Process_Correct.thy ===== *)
theory Process_Correct
  imports Sidecar_Correct Credit_Queue_Correct
begin

text \<open>
  The whole process that main() starts: as many event loops as configured, each with its own state, around one
  SharedState and the counter of local ids, a global variable of src/rpc_message.cc. A step is what one thread does
  between two looks at its completion queue: it starts its loop, submits what it has prepared, or handles one
  completion. The threads interleave in any order. A handler is one step: it enters the credit queue several times
  and releases the lock in between, which is not resolved here (for the single operations it is, in
  Credit_Queue_Threads), and it increments the counter of local ids without any lock, a data race that is not
  modelled.
\<close>

section \<open>Threads around a shared state\<close>

record shared_state =
  sh_local_ids :: int
  sh_in_local :: int
  sh_queue :: "buffer credit_queue"

text \<open>
  The constructor reads the global configuration. A default constructed atomic counter is zero (C++20); the
  counter of local ids starts with 1.
\<close>

definition shared_construct :: "config \<Rightarrow> string list \<Rightarrow> shared_state result" where
  "shared_construct cfg hosted =
     bindR (cq_construct cfg hosted (value_or (cpu_count cfg) (-1))) (\<lambda>cq. Inr \<lparr>sh_local_ids = 1, sh_in_local = 0, sh_queue = cq\<rparr>)"

text \<open>A thread looks at the shared state through its reference, and at the global counter.\<close>

definition seen_by :: "shared_state \<Rightarrow> 's world \<Rightarrow> 's world" where
  "seen_by sh w =
     w\<lparr>w_cq := sh_queue sh, w_in_local := sh_in_local sh, w_core := (w_core w)\<lparr>k_ctr := sh_local_ids sh\<rparr>\<rparr>"

definition left_by :: "'s world \<Rightarrow> shared_state" where
  "left_by w = \<lparr>sh_local_ids = k_ctr (w_core w), sh_in_local = w_in_local w, sh_queue = w_cq w\<rparr>"

inductive thread_does :: "'s world \<Rightarrow> 's world \<Rightarrow> bool" where
  starts: "start_loop w = Inr w' \<Longrightarrow> thread_does w w'"
| submits: "submit_and_wait n entries ret (w_ring w) = Inr rg \<Longrightarrow> thread_does w (w\<lparr>w_ring := rg\<rparr>)"
| handles: "handle_completion e q w = Inr w' \<Longrightarrow> thread_does w w'"

inductive_cases thread_doesE: "thread_does w w'"

inductive process_runs ::
    "nat \<Rightarrow> (nat \<Rightarrow> 's world) \<Rightarrow> shared_state \<Rightarrow> (nat \<Rightarrow> 's world) \<Rightarrow> shared_state \<Rightarrow> bool" for n ws0 sh0 where
  begins: "process_runs n ws0 sh0 ws0 sh0"
| continues: "process_runs n ws0 sh0 ws sh \<Longrightarrow> t < n \<Longrightarrow> thread_does (seen_by sh (ws t)) w \<Longrightarrow>
    process_runs n ws0 sh0 (ws(t := w)) (left_by w)"

text \<open>
  A thread as the constructors of EventLoop and State leave it. The program does not check the lengths of the
  names of downstream services: that a Credit Request for each of them fits its length byte is assumed.
\<close>

definition thread_built :: "'s world \<Rightarrow> bool" where
  "thread_built w \<longleftrightarrow> (\<exists>e dials rehash udp w0 w1 ls. state_construct e dials rehash udp w0 = Inr w1 \<and> base_ok w0 \<and>
     (\<forall>s\<in>set (get_downstream_services (w_cfg w0)). length s \<le> 229) \<and> w = w1\<lparr>w_listeners := ls\<rparr>)"

section \<open>The invariant\<close>

lemma thread_built_ok: "thread_built w \<Longrightarrow> world_ok w"
  by (auto simp: thread_built_def dest!: state_construct_ok)

lemma seen_by_ok: "world_ok w \<Longrightarrow> queue_ok (sh_queue sh) \<Longrightarrow> world_ok (seen_by sh w)"
  by (simp add: seen_by_def)

lemma thread_does_ok: "thread_does w w' \<Longrightarrow> world_ok w \<Longrightarrow> world_ok w'"
  by (elim thread_doesE) (auto dest!: keeps)

lemma process_ok:
  assumes "process_runs n ws0 sh0 ws sh" "\<forall>t<n. world_ok (ws0 t)" "queue_ok (sh_queue sh0)"
  shows "(\<forall>t<n. world_ok (ws t)) \<and> queue_ok (sh_queue sh)"
  using assms
proof (induction rule: process_runs.induct)
  case (continues ws sh t w)
  then have "world_ok w" using seen_by_ok thread_does_ok by blast
  then show ?case using continues by (simp add: left_by_def)
qed simp

text \<open>The constructor of SharedState establishes the invariant, unless no collision-free seed was found.\<close>

lemma shared_construct_ok:
  assumes "shared_construct cfg hosted = Inr sh" "\<forall>k\<in>set hosted. good_key k" "length hosted < 2 ^ 32"
    and "lm_slots (cq_per_endpoint (sh_queue sh)) \<noteq> []" "lm_slots (iq_queue (cq_queue (sh_queue sh) ! 0)) \<noteq> []"
  shows "queue_ok (sh_queue sh)"
proof -
  have "cq_construct cfg hosted (value_or (cpu_count cfg) (-1)) = Inr (sh_queue sh)"
    using assms(1) by (auto simp: shared_construct_def)
  from cq_construct_inv [OF this assms(4,5,2,3)] show ?thesis
    by (auto simp: queue_ok_def grants_ok_def intro!: exI [of _ "set hosted"])
qed

lemma left_seen [simp]: "seen_by (left_by w) w = w"
  by (simp add: seen_by_def left_by_def)

text \<open>The rounds of one thread, undisturbed, are a part of a run of the process.\<close>

lemma thread_alone:
  assumes "process_runs n ws0 sh0 (ws(t := w)) (left_by w)" "t < n" "thread_does w w'"
  shows "process_runs n ws0 sh0 (ws(t := w')) (left_by w')"
  using process_runs.continues [OF assms(1,2), of w'] assms(3) by simp

lemma completions_alone:
  assumes "process_runs n ws0 sh0 (ws(t := w)) (left_by w)" "t < n" "foldR (handle_completion e) qs w = Inr w'"
  shows "process_runs n ws0 sh0 (ws(t := w')) (left_by w')"
  using assms
proof (induction qs arbitrary: w)
  case (Cons q qs)
  then obtain w1 where q: "handle_completion e q w = Inr w1" "foldR (handle_completion e) qs w1 = Inr w'" by auto
  from thread_alone [OF Cons.prems(1,2) thread_does.handles [OF q(1)]] show ?case
    by (rule Cons.IH) (use Cons.prems(2) q(2) in auto)
qed simp

lemma rounds_alone:
  assumes "process_runs n ws0 sh0 (ws(t := w)) (left_by w)" "t < n" "foldR loop_round rs w = Inr w'"
  shows "process_runs n ws0 sh0 (ws(t := w')) (left_by w')"
  using assms
proof (induction rs arbitrary: w)
  case (Cons r rs)
  obtain w1 where l: "loop_round r w = Inr w1" "foldR loop_round rs w1 = Inr w'" using Cons.prems(3) by auto
  then obtain rg where r: "submit_and_wait (length (r_completions r)) (r_cq_entries r) (r_ret r) (w_ring w) = Inr rg"
      "foldR (handle_completion (r_env r)) (r_completions r) (w\<lparr>w_ring := rg\<rparr>) = Inr w1"
    by (auto simp: loop_round_def)
  show ?case
    using completions_alone [OF thread_alone [OF Cons.prems(1,2) thread_does.submits [OF r(1)]] Cons.prems(2) r(2)]
    by (rule Cons.IH) (use Cons.prems(2) l(2) in auto)
qed simp

lemma run_alone:
  assumes "run rs (seen_by sh (ws t)) = Inr w'" "t < n"
  shows "process_runs n ws sh (ws(t := w')) (left_by w')"
proof -
  obtain w where w: "start_loop (seen_by sh (ws t)) = Inr w" "foldR loop_round rs w = Inr w'"
    using assms(1) by (auto simp: run_def)
  have "process_runs n ws sh (ws(t := w)) (left_by w)"
    by (rule process_runs.continues [OF process_runs.begins assms(2)]) (rule thread_does.starts [OF w(1)])
  then show ?thesis using assms(2) w(2) by (rule rounds_alone)
qed

section \<open>Two threads\<close>

text \<open>Two servers around one queue; the first receives a Credit Request and answers it.\<close>

definition idle_state :: shared_state where
  "idle_state = \<lparr>sh_local_ids = 1, sh_in_local = 0, sh_queue = idle_queue\<rparr>"

lemma ready_built: "thread_built ready_world"
proof -
  have "ready_world = ready_world\<lparr>w_listeners := []\<rparr>" by (simp add: ready_world_def new_world_def)
  then show ?thesis
    using new_world_built new_world_ok new_world_names unfolding thread_built_def ready_world_def by blast
qed

lemma idle_queue_ok: "queue_ok idle_queue"
proof -
  have "queue_ok (w_cq new_world)" using new_world_ok by (simp add: base_ok_def)
  then show ?thesis by (simp add: new_world_def)
qed

lemma two_threads:
  "\<exists>ws sh. process_runs 2 (\<lambda>_. ready_world) idle_state ws sh \<and>
     (Sqe_Sendmsg 7 grant_payload client_addr, 1) \<in> set (rg_prepared (w_ring (ws 0)))"
proof -
  obtain w where w: "run [request_round] ready_world = Inr w" "rg_prepared (w_ring w) = [(Sqe_Sendmsg 7 grant_payload client_addr, 1)]"
    using round_answers by blast
  moreover have "seen_by idle_state ready_world = ready_world"
    by (simp add: seen_by_def idle_state_def ready_world_def new_world_def)
  ultimately have "process_runs 2 (\<lambda>_. ready_world) idle_state ((\<lambda>_. ready_world)(0 := w)) (left_by w)"
    by (intro run_alone) simp_all
  then show ?thesis using w(2) by (intro exI [of _ "(\<lambda>_. ready_world)(0 := w)"] exI [of _ "left_by w"]) simp
qed

section \<open>Properties\<close>

text \<open>
  C1: when no configured downstream service has a name of more than 229 bytes, which the program does not check,
  every datagram that any thread of a process ever hands to the kernel, whatever the peers, connections and
  nghttp2 do and however the handlers of the threads interleave, is one that the dispatcher of the receiver
  accepts: it has a full header, the declared length is at least the header and does not pass the end, and the
  type and direction bytes are known. Handlers run to their end before another one starts.
\<close>

theorem process_datagrams_accepted:
  assumes "\<forall>t<n. thread_built (ws0 t)" "queue_ok (sh_queue sh0)" "process_runs n ws0 sh0 ws sh" "t < n"
    and "(Sqe_Sendmsg fd p a, i) \<in> set (rg_submitted (w_ring (ws t)) @ rg_prepared (w_ring (ws t)))"
  shows "payload_ok p \<and> (\<exists>action. dispatch_rlp ing (b\<lparr>buf_data := p @ rest, buf_filled := length p\<rparr>) = Inr action)"
proof -
  have "ring_ok (w_ring (ws t))"
    using process_ok [OF assms(3) _ assms(2)] assms(1,4) thread_built_ok world_okD(3) by blast
  then have "sqe_ok (fst (Sqe_Sendmsg fd p a, i))" using assms(5) unfolding ring_ok_def by (rule bspec)
  then have "payload_ok p" by simp
  then show ?thesis using payload_dispatched by blast
qed

theorem process_datagrams_accepted_witness:
  "\<exists>action. dispatch_rlp False ((new_buffer 256 3)\<lparr>buf_data := grant_payload @ [], buf_filled := length grant_payload\<rparr>) = Inr action"
proof -
  obtain ws sh where p: "process_runs 2 (\<lambda>_. ready_world) idle_state ws sh"
      "(Sqe_Sendmsg 7 grant_payload client_addr, 1) \<in> set (rg_prepared (w_ring (ws 0)))"
    using two_threads by blast
  have "\<forall>t<2. thread_built ready_world" "queue_ok (sh_queue idle_state)"
    using ready_built idle_queue_ok by (simp_all add: idle_state_def)
  from process_datagrams_accepted [OF this p(1), where t = 0 and b = "new_buffer 256 3" and rest = "[]" and ing = False]
  show ?thesis using p(2) by fastforce
qed

text \<open>
  C2: the credit accounts survive the whole program: after any interleaving of the handlers of all threads,
  requests, grants, returns and responses included, the shared credit queue satisfies its invariant for some set
  of endpoints (the total in flight is the sum over the endpoints, the size counts the waiting grants, iterators
  are inside) and every waiting grant is a datagram ready to be sent.
\<close>

theorem process_credit_accounts:
  assumes "\<forall>t<n. thread_built (ws0 t)" "queue_ok (sh_queue sh0)" "process_runs n ws0 sh0 ws sh"
  shows "\<exists>eps. cq_inv eps (sh_queue sh) \<and>
    (\<forall>p<3. \<forall>ep\<in>eps. \<forall>b\<in>set (cq_deque (sh_queue sh) p ep). payload_ok (msg_payload b))"
proof -
  have "queue_ok (sh_queue sh)" using process_ok [OF assms(3) _ assms(2)] assms(1) thread_built_ok by blast
  then show ?thesis by (auto simp: queue_ok_def grants_ok_def datagram_payload)
qed

theorem process_credit_accounts_witness:
  "\<exists>ws sh eps. process_runs 2 (\<lambda>_. ready_world) idle_state ws sh \<and>
     (Sqe_Sendmsg 7 grant_payload client_addr, 1) \<in> set (rg_prepared (w_ring (ws 0))) \<and> cq_inv eps (sh_queue sh)"
proof -
  obtain ws sh where p: "process_runs 2 (\<lambda>_. ready_world) idle_state ws sh"
      "(Sqe_Sendmsg 7 grant_payload client_addr, 1) \<in> set (rg_prepared (w_ring (ws 0)))"
    using two_threads by blast
  have "\<forall>t<2. thread_built ready_world" "queue_ok (sh_queue idle_state)"
    using ready_built idle_queue_ok by (simp_all add: idle_state_def)
  from process_credit_accounts [OF this p(1)] show ?thesis using p by blast
qed

end
