(* ===== verification/Server_Correct.thy ===== *)
theory Server_Correct
  imports Sidecar_Example Credit_Queue_Correct Rlp_Correct
begin

text \<open>
  A Credit Request on its way from the peer that writes it through the handler of the server: the wire format,
  the limits, the credit queue and the submission ring together. With no other grant waiting the server answers
  at once when both limits allow it, and otherwise keeps the grant at the place it is owed to.
\<close>

section \<open>The answer\<close>

text \<open>What the peer makes of the bytes of an answer.\<close>

definition answers :: "byte list \<Rightarrow> int \<Rightarrow> int \<Rightarrow> int \<Rightarrow> string \<Rightarrow> bool" where
  "answers p rid sent_at queued s \<longleftrightarrow>
     parse_credit_grant p = (rid, sent_at, queued, 1, 1) \<and> extract_service_from_rlp_req p = Inr s \<and>
     (\<forall>ing b rest. dispatch_rlp ing (b\<lparr>buf_data := p @ rest, buf_filled := length p\<rparr>) =
        Inr (if ing then To_Ingress_Credit else To_Client_Credit))"

lemma msg_answers:
  assumes "length s \<le> 101" "int64 rid" "int64 now" "int32 q"
  shows "answers (msg_bytes (of_nat (26 + length s)) 1 1 1 1 rid b13 now q (bytes s)) rid now q s"
proof -
  let ?p = "msg_bytes (of_nat (26 + length s)) 1 1 1 1 rid b13 now q (bytes s)"
  have "parse_credit_grant ?p = (rid, now, q, 1, 1)"
    using read_int64_msg assms(2,3) read_int32_msg [OF assms(4)] by (simp add: parse_credit_grant_def char_at_def)
  moreover have "extract_service_from_rlp_req ?p = Inr s"
    using extract_msg [of 1 "of_nat (26 + length s)" s _ _ _ _ _ _ _ "[]"] assms(1) by simp
  moreover have "dispatch_rlp ing (b\<lparr>buf_data := ?p @ rest, buf_filled := length ?p\<rparr>) =
      Inr (if ing then To_Ingress_Credit else To_Client_Credit)" for ing and b :: buffer and rest
    using assms(1) unat_byte_of_nat [of "26 + length s"]
    by (simp add: dispatch_rlp_def Let_def rlp_header_def nth_append)
  ultimately show ?thesis by (simp add: answers_def)
qed

lemma is_msg_payload:
  assumes "is_msg b b1 b2 b3 b4 rid b13 now q s" "buf_msg b = Some (26 + length s)"
  shows "msg_payload b = msg_bytes (of_nat (26 + length s)) b1 b2 b3 b4 rid b13 now q (bytes s)"
  using is_msg_take [OF assms(1)] assms by (simp add: msg_payload_def is_msg_def)

text \<open>The datagram as the server holds it: the bytes that were sent at the start of a buffer of 256.\<close>

lemma received_msg:
  assumes "buffer_ok buf" "length (buf_data buf) = 256" "length s \<le> 229"
    and "write_credit_request buf s 1 rid pr now rtt = Inr out"
    and "buf_filled req = buf_filled out" "take (buf_filled out) (buf_data req) = take (buf_filled out) (buf_data out)"
    and "length (buf_data req) = 256"
  shows "is_msg req 1 0 1 (buf_data buf ! 4) rid (of_int pr) now rtt s"
proof -
  let ?m = "msg_bytes (of_nat (26 + length s)) 1 0 1 (buf_data buf ! 4) rid (of_int pr) now rtt"
  have o: "buf_data out = ?m (bytes s @ drop (26 + length s) (buf_data buf))" "buf_filled out = 26 + length s"
    using write_credit_request_msg [OF assms(1-3), of 1 rid pr now rtt] assms(4) by auto
  have "buf_data req = take (26 + length s) (buf_data req) @ drop (26 + length s) (buf_data req)" by simp
  also have "take (26 + length s) (buf_data req) = ?m (bytes s)"
    using assms(6) unfolding o by (simp add: msg_bytes_append)
  finally have "buf_data req = ?m (bytes s @ drop (26 + length s) (buf_data req))" by (simp add: msg_bytes_append)
  then show ?thesis using o assms(3,5,7) by (auto simp: is_msg_def)
qed

lemma request_parsed:
  assumes "is_msg req 1 0 1 b4 rid (of_int pr) now rtt s" "length s \<le> 101" "int64 rid" "0 \<le> pr" "pr < 128" "0 \<le> rtt" "rtt < 2 ^ 31"
  shows "parse_credit_request (buf_data req) = Inr (s, rid, pr, rtt)" "buf_data req ! 1 = 1"
proof -
  obtain t where d: "buf_data req = msg_bytes (of_nat (26 + length s)) 1 0 1 b4 rid (of_int pr) now rtt (bytes s @ t)"
    using assms(1) by (auto simp: is_msg_def)
  have "extract_service_from_rlp_req (buf_data req) = Inr s" unfolding d using assms(2) by (intro extract_msg) auto
  moreover have "read_int64 (buf_data req) 5 = rid" unfolding d by (rule read_int64_msg(1) [OF assms(3)])
  moreover have "read_int32 (buf_data req) 22 = rtt" unfolding d using assms(6,7) by (intro read_int32_msg) (simp add: int32_def)
  moreover have "char_at (buf_data req) 2 = 0" "char_at (buf_data req) 3 = 1" "char_at (buf_data req) 13 = pr"
    using sint_byte_of_int [of pr] assms(4,5) by (simp_all add: d char_at_def)
  ultimately show "parse_credit_request (buf_data req) = Inr (s, rid, pr, rtt)" using assms(6) by (simp add: parse_credit_request_def)
  show "buf_data req ! 1 = 1" by (simp add: d)
qed

lemma grant_made:
  assumes "is_msg req 1 0 1 b4 rid b13 now rtt s" "buffer_ok g" "length (buf_data g) = 256" "buf_filled g = 0"
  obtains g' where "write_failed_dn_response req g = Inr g'" "is_msg g' 1 1 1 1 rid b13 now rtt s"
    "buf_msg g' = Some (26 + length s)" "buf_addr g' = buf_addr req"
proof -
  from write_credit_grant_msg [OF assms, of 1] obtain g' where
    g': "write_credit_grant 1 req g = Inr g'" "is_msg g' 1 1 1 1 rid b13 now rtt s" by auto
  show thesis
    by (rule that [of "prepare_sendmsg g' (buf_addr req)"])
      (use g' in \<open>auto simp: write_failed_dn_response_def prepare_sendmsg_def is_msg_def\<close>)
qed

section \<open>One grant in the queue\<close>

lemma idle_deques:
  assumes "cq_inv eps cq" "cq_size cq = 0" "p < 3" "ep \<in> eps"
  shows "cq_deque cq p ep = []"
proof -
  have "iq_size (cq_queue cq ! p) = 0" "iq_inv eps (cq_queue cq ! p)" using assms(1-3) by (simp_all add: cq_inv_def)
  then show ?thesis using cq_inv_finite [OF assms(1)] assms(4) by (auto simp: iq_inv_def cq_deque_def)
qed

text \<open>The only waiting grant is popped when the limits allow it, and stays where it is otherwise.\<close>

lemma pop_only:
  assumes inv: "cq_inv eps cq" and s: "s \<in> eps" "k < 3"
    and only: "\<And>p ep. p < 3 \<Longrightarrow> ep \<in> eps \<Longrightarrow> cq_deque cq p ep = (if p = k \<and> ep = s then [g] else [])"
  shows "\<exists>r cq'. cq_pop cq = Inr (r, cq') \<and>
    (if val (cq_per_endpoint cq) s < val (cq_limits cq) s \<and> cq_in_flight cq < cq_global_limit cq
     then r = Some g \<and> cq_deque cq' k s = [] \<and> cq_in_flight cq' = cq_in_flight cq + 1 \<and>
       val (cq_per_endpoint cq') = (val (cq_per_endpoint cq))(s := val (cq_per_endpoint cq) s + 1)
     else r = None \<and> cq_deque cq' k s = [g] \<and> cq_in_flight cq' = cq_in_flight cq)"
proof -
  from cq_pop_spec [OF inv] obtain r cq' where r: "cq_pop cq = Inr (r, cq')" "cq_popped eps cq r cq'" by blast
  have elig: "cq_eligible cq p ep \<longleftrightarrow> p = k \<and> ep = s \<and> val (cq_per_endpoint cq) s < val (cq_limits cq) s \<and>
      cq_in_flight cq < cq_global_limit cq" if "p < 3" "ep \<in> eps" for p ep
    using only [OF that] by (auto simp: cq_eligible_def)
  have same: "cq_deque ((cq_advance ^^ t) cq) = cq_deque cq" "cq_per_endpoint ((cq_advance ^^ t) cq) = cq_per_endpoint cq"
    "cq_in_flight ((cq_advance ^^ t) cq) = cq_in_flight cq" "cq_eligible ((cq_advance ^^ t) cq) = cq_eligible cq" for t
    by (induction t) simp_all
  show ?thesis
  proof (cases r)
    case None
    then have "\<not> cq_eligible cq k s" "cq' = cq \<or> cq' = (cq_advance ^^ 3) cq"
      using r(2) s by (auto simp: cq_popped_def)
    then show ?thesis using r(1) None elig [OF s(2,1)] only [OF s(2,1)] same [of 3] by auto
  next
    case (Some b)
    then obtain t ep where t: "cq_sent eps ((cq_advance ^^ t) cq) ep b cq'" using r(2) by (auto simp: cq_popped_def)
    let ?p = "cq_it ((cq_advance ^^ t) cq)"
    have "?p < 3" using cq_advance_pow_inv [OF inv, of t] by (simp add: cq_inv_def)
    with t have e: "ep \<in> eps" "cq_eligible cq ?p ep" "cq_deque cq ?p ep = b # cq_deque cq' ?p ep"
      "val (cq_per_endpoint cq') = (val (cq_per_endpoint cq))(ep := val (cq_per_endpoint cq) ep + 1)"
      "cq_in_flight cq' = cq_in_flight cq + 1"
      by (auto simp: cq_sent_def Let_def same)
    with elig [OF \<open>?p < 3\<close> e(1)] only [OF \<open>?p < 3\<close> e(1)] show ?thesis using r(1) Some by auto
  qed
qed

text \<open>A grant that enters a queue without waiting grants and is looked for right after.\<close>

lemma push_then_pop:
  assumes inv: "cq_inv eps cq" and idle: "cq_size cq = 0" and s: "s \<in> eps" and pr: "0 \<le> pr" "pr < 3"
  obtains cq1 r cq' where "cq_push cq g s pr = Inr cq1" "cq_pop cq1 = Inr (r, cq')"
    "if val (cq_per_endpoint cq) s < val (cq_limits cq) s \<and> cq_in_flight cq < cq_global_limit cq
     then r = Some g \<and> cq_deque cq' (nat pr) s = [] \<and> cq_in_flight cq' = cq_in_flight cq + 1 \<and>
       val (cq_per_endpoint cq') = (val (cq_per_endpoint cq))(s := val (cq_per_endpoint cq) s + 1)
     else r = None \<and> cq_deque cq' (nat pr) s = [g] \<and> cq_in_flight cq' = cq_in_flight cq"
proof (rule cq_push_spec [OF inv s pr, of g])
  fix cq1
  assume push: "cq_push cq g s pr = Inr cq1" and inv1: "cq_inv eps cq1"
    and d: "\<And>p ep. p < 3 \<Longrightarrow> cq_deque cq1 p ep = cq_deque cq p ep @ (if p = nat pr \<and> ep = s then [g] else [])"
  have "cq_deque cq1 p ep = (if p = nat pr \<and> ep = s then [g] else [])" if "p < 3" "ep \<in> eps" for p ep
    using d [OF that(1)] idle_deques [OF inv idle that] by simp
  moreover have "nat pr < 3" using pr by simp
  ultimately show thesis using pop_only [OF inv1 s, of "nat pr" g] cq_push_same [OF push] that [OF push] by auto
qed

section \<open>Properties\<close>

text \<open>
  C4: a Credit Request of a peer, received by a server with no other grant waiting and with a free buffer, a
  free UserData object and room in the ring, is answered at once when the service and the node are under their
  limits: exactly one datagram is prepared, addressed to the sender, which the sender dispatches to its credit
  handler and reads as one credit for the same id, time stamp and service; the counters of the service and of
  the node grow by one. Otherwise nothing is sent and the grant waits under its priority and service.
\<close>

theorem server_answers_or_holds:
  assumes client: "buffer_ok buf" "length (buf_data buf) = 256" "write_credit_request buf s 1 rid pr now rtt = Inr out"
    and net: "buf_filled req = buf_filled out" "take (buf_filled out) (buf_data req) = take (buf_filled out) (buf_data out)"
      "length (buf_data req) = 256"
    and vals: "length s \<le> 101" "int64 rid" "int64 now" "0 \<le> pr" "pr < 3" "0 \<le> rtt" "rtt < 2 ^ 31"
    and server: "update_world_limits rtt s w = Inr w1" "take_udp_buffer w1 = Inr (resp, w2)" "bm_user_data_queue (w_bm w2) = i # js"
      "\<not> ring_full (w_ring w2)" "buffer_ok resp" "length (buf_data resp) = 256" "buf_filled resp = 0"
    and queue: "cq_inv eps (w_cq w2)" "cq_size (w_cq w2) = 0" "s \<in> eps"
  shows "\<exists>w'. protocol_server e req w = Inr w' \<and>
    (if val (cq_per_endpoint (w_cq w2)) s < val (cq_limits (w_cq w2)) s \<and> cq_in_flight (w_cq w2) < cq_global_limit (w_cq w2)
     then (\<exists>p. rg_prepared (w_ring w') = rg_prepared (w_ring w2) @
               [(Sqe_Sendmsg (w_sockfd w2) p (buf_addr req), ud_index (bm_user_data (w_bm w2) i))] \<and>
             answers p rid now 0 s) \<and>
          cq_deque (w_cq w') (nat pr) s = [] \<and> cq_in_flight (w_cq w') = cq_in_flight (w_cq w2) + 1 \<and>
          val (cq_per_endpoint (w_cq w')) = (val (cq_per_endpoint (w_cq w2)))(s := val (cq_per_endpoint (w_cq w2)) s + 1)
     else w_ring w' = w_ring w2 \<and> cq_in_flight (w_cq w') = cq_in_flight (w_cq w2) \<and>
          (\<exists>g. cq_deque (w_cq w') (nat pr) s = [g] \<and> buf_addr g = buf_addr req \<and> enter_queue_ts g = e_now e))"
proof -
  have m: "is_msg req 1 0 1 (buf_data buf ! 4) rid (of_int pr) now rtt s"
    using received_msg [OF client(1,2) _ client(3) net] vals(1) by simp
  note parsed = request_parsed [OF m vals(1,2,4)]
  from grant_made [OF m server(5-7)] obtain g0 where g0: "write_failed_dn_response req resp = Inr g0"
    "is_msg g0 1 1 1 1 rid (of_int pr) now rtt s" "buf_msg g0 = Some (26 + length s)" "buf_addr g0 = buf_addr req" by metis
  let ?g = "g0\<lparr>enter_queue_ts := e_now e\<rparr>"
  have g: "is_msg ?g 1 1 1 1 rid (of_int pr) now rtt s" using g0(2) by (simp add: is_msg_def)
  from stamp_msg [OF g, of "e_now e"] obtain g2 where g2: "stamp_queuing_time (e_now e) ?g = Inr g2"
    "is_msg g2 1 1 1 1 rid (of_int pr) now 0 s" "buf_addr g2 = buf_addr req"
    using g0(4) by (auto simp: to_int32_def)
  have "buf_msg g2 = Some (26 + length s)" using g2(1) g0(3) by (auto simp: stamp_queuing_time_def)
  from is_msg_payload [OF g2(2) this] have ans: "answers (msg_payload g2) rid now 0 s"
    using msg_answers [OF vals(1-3), of 0] by (simp add: int32_def)
  let ?q = "w_cq w2"
  from push_then_pop [OF queue vals(4,5), of ?g] obtain cq1 r cq' where q: "cq_push ?q ?g s pr = Inr cq1" "cq_pop cq1 = Inr (r, cq')"
    "if val (cq_per_endpoint ?q) s < val (cq_limits ?q) s \<and> cq_in_flight ?q < cq_global_limit ?q
     then r = Some ?g \<and> cq_deque cq' (nat pr) s = [] \<and> cq_in_flight cq' = cq_in_flight ?q + 1 \<and>
       val (cq_per_endpoint cq') = (val (cq_per_endpoint ?q))(s := val (cq_per_endpoint ?q) s + 1)
     else r = None \<and> cq_deque cq' (nat pr) s = [?g] \<and> cq_in_flight cq' = cq_in_flight ?q" by metis
  have run: "protocol_server e req w = check_credit_transmission e (w2\<lparr>w_cq := cq1\<rparr>)"
    using parsed vals server(1,2) g0(1) q(1) by (simp add: protocol_server_def)
  have send: "\<exists>w'. send_datagram g2 (w2\<lparr>w_cq := cq'\<rparr>) = Inr w' \<and> w_cq w' = cq' \<and> rg_prepared (w_ring w') = rg_prepared (w_ring w2) @
      [(Sqe_Sendmsg (w_sockfd w2) (msg_payload g2) (buf_addr req), ud_index (bm_user_data (w_bm w2) i))]"
    using server(3,4) g2(3)
    by (simp add: send_datagram_def with_user_data_def get_user_data_def ring_prepare_sendmsg_def get_sqe_def ud_set_buffer_def
        set_user_data_def Let_def)
  show ?thesis
  proof (cases "val (cq_per_endpoint ?q) s < val (cq_limits ?q) s \<and> cq_in_flight ?q < cq_global_limit ?q")
    case True
    then have "protocol_server e req w = send_datagram g2 (w2\<lparr>w_cq := cq'\<rparr>)"
      using q(2,3) run g2(1) by (simp add: check_credit_transmission_def)
    then show ?thesis using send q(3) True ans by auto
  next
    case False
    then have "protocol_server e req w = Inr (w2\<lparr>w_cq := cq'\<rparr>)"
      using q(2,3) run by (auto simp: check_credit_transmission_def)
    then show ?thesis using q(3) False g0(4) by auto
  qed
qed

theorem server_answers_or_holds_witness:
  "\<exists>out w' p. write_credit_request (new_buffer 256 3) ''a'' 1 42 1 900 300 = Inr out \<and>
     protocol_server server_env out submitted_world = Inr w' \<and>
     rg_prepared (w_ring w') = [(Sqe_Sendmsg 7 p (buf_addr out), 1)] \<and> answers p 42 900 0 ''a''"
proof -
  obtain st where st: "update_limits server_config 300 ''a'' (busy_stats 0) (idle_queue :: buffer credit_queue) = Inr (st, idle_queue)"
    using limits_unchanged by blast
  define w1 where "w1 = submitted_world\<lparr>w_core := (w_core submitted_world)\<lparr>k_stats := st\<rparr>\<rparr>"
  have parts: "w_cfg submitted_world = server_config" "k_stats (w_core submitted_world) = busy_stats 0" "w_cq submitted_world = idle_queue"
    "w_bm submitted_world = w_bm waiting_world" "w_sockfd submitted_world = 7" "rg_prepared (w_ring submitted_world) = []"
    "\<not> ring_full (w_ring submitted_world)"
    by (simp_all add: submitted_world_def waiting_world_def ready_world_def new_world_def ring_full_def)
  have upd: "update_world_limits 300 ''a'' submitted_world = Inr w1"
    using st by (simp add: update_world_limits_def parts w1_def)
  have w1: "w_cq w1 = idle_queue" "w_sockfd w1 = 7" "rg_prepared (w_ring w1) = []" "\<not> ring_full (w_ring w1)"
    by (simp_all add: w1_def parts)
  have idle: "cq_size (idle_queue :: buffer credit_queue) = 0" "val (cq_per_endpoint (idle_queue :: buffer credit_queue)) ''a'' < val (cq_limits (idle_queue :: buffer credit_queue)) ''a''"
    "cq_in_flight (idle_queue :: buffer credit_queue) < cq_global_limit (idle_queue :: buffer credit_queue)"
    by (simp_all add: idle_queue_def Let_def)
  let ?vec = "bp_vector (init_pool 5 5 256)"
  let ?resp = "(new_buffer 256 9)\<lparr>buf_is_free := False\<rparr>"
  define bm where "bm = (w_bm waiting_world)\<lparr>bm_udp := (init_pool 5 5 256)\<lparr>bp_vector := ?vec[4 := None], bp_free := []\<rparr>\<rparr>"
  have "get_udp_buffer (w_bm waiting_world) = Inr (?resp, bm)"
    by (simp add: get_udp_buffer_def pool_get_def take_slot_def waiting_world_def bm_construct_def init5 bm_def)
  then have take: "take_udp_buffer w1 = Inr (?resp, w1\<lparr>w_bm := bm\<rparr>)"
    by (simp add: take_udp_buffer_def w1_def parts)
  have ud: "bm_user_data_queue bm = 1 # [2, 3, 4]" "ud_index (bm_user_data bm 1) = 1"
    by (simp_all add: bm_def waiting_world_def new_user_data_def)
  obtain out where out: "write_credit_request (new_buffer 256 3) ''a'' 1 42 1 900 300 = Inr out" "length (buf_data out) = 256"
    using write_credit_request_msg [OF new_buffer_ok, of 256 3 "''a''" 1 42 1 900 300] by (simp add: new_buffer_def)
  have "buffer_ok (new_buffer 256 3)" "buffer_ok ?resp" using new_buffer_ok [of 256] by (simp_all add: buffer_ok_def)
  from server_answers_or_holds [OF this(1) _ out(1) refl refl out(2) _ _ _ _ _ _ _ upd take _ _ this(2), of 1 "[2, 3, 4]" "{''a''}" server_env]
  show ?thesis
    using out(1) ud idle_queue_inv [where 'b = buffer] w1 idle by (auto simp: int64_def)
qed

end
