(* ===== verification/Forward_Correct.thy ===== *)
theory Forward_Correct
  imports Result_Rules Sidecar_Example
begin

text \<open>
  The loops of State end. Writing to an HTTP/1 connection is at most one write, whatever the bound; forwarding
  handles each queued message once, because no step of it puts messages into the queues, so the number of
  queued messages bounds its rounds.
\<close>

named_theorems same_rq \<open>operations that leave the RPC queue alone\<close>

section \<open>Steps that leave the RPC queue alone\<close>

lemma upd_rq [simp]: "k_rq (upd_msg r f k) = k_rq k" "w_core (upd_conn c x w) = w_core w"
    "k_rq (w_core (upd_w_msg r f w)) = k_rq (w_core w)"
  by (simp_all add: upd_msg_def upd_conn_def upd_w_msg_def)

lemma with_user_data_core: "with_user_data prep w = Inr w' \<Longrightarrow> w_core w' = w_core w \<and> w_conns w' = w_conns w"
  by (auto simp: with_user_data_def)

lemma send_rq [same_rq]:
  "send_stream c b w = Inr w' \<Longrightarrow> k_rq (w_core w') = k_rq (w_core w)"
  "send_datagram b w = Inr w' \<Longrightarrow> k_rq (w_core w') = k_rq (w_core w)"
  by (auto simp: send_stream_def send_datagram_def dest!: with_user_data_core)

lemma buffer_rq [same_rq]:
  "take_buffer w = Inr (b, w') \<Longrightarrow> k_rq (w_core w') = k_rq (w_core w)"
  "give_back_buffer b w = Inr w' \<Longrightarrow> k_rq (w_core w') = k_rq (w_core w)"
  by (auto simp: take_buffer_def give_back_buffer_def)

lemma http1_write_rq [same_rq]:
  "http1_write cfg now b c k = Inr (b', n, c', k') \<Longrightarrow> k_rq k' = k_rq k"
  by (erule okR_dest, unfold http1_write_def bind_flat, intro okr, auto simp: okR_def dest!: same_rq)

lemma data_read_request_rq [same_rq]:
  "data_read_callback_request now c i r n k = Inr (rr, k') \<Longrightarrow> k_rq k' = k_rq k"
  by (erule okR_dest, unfold data_read_callback_request_def bind_flat, intro okr, auto simp: okR_def dest!: same_rq)

lemma data_read_response_rq [same_rq]:
  "data_read_callback_response ng cfg now c i r n s k = Inr (rr, s', k') \<Longrightarrow> k_rq k' = k_rq k"
  by (erule okR_dest, unfold data_read_callback_response_def bind_flat, intro okr, auto simp: okR_def dest!: same_rq)

lemma run_send_rq [same_rq]: "run_send ng cfg now c sd k = Inr (bs, s, k') \<Longrightarrow> k_rq k' = k_rq k"
proof (induction sd arbitrary: k)
  case (Read_Data s0 i src n cont)
  then show ?case by (cases src) (fastforce dest!: same_rq)+
qed auto

lemma http2_write_rq [same_rq]:
  "http2_write ng cfg now b c k = Inr (full, b', c', k') \<Longrightarrow> k_rq k' = k_rq k"
  by (erule okR_dest, unfold http2_write_def bind_flat, intro okr, auto simp: okR_def dest!: same_rq)

lemma write_http2_loop_rq [same_rq]:
  "write_http2_loop e n c sb flag w = Inr (sb', flag', w') \<Longrightarrow> k_rq (w_core w') = k_rq (w_core w)"
proof (induction n arbitrary: sb flag w)
  case (Suc n)
  show ?case
    by (rule okR_dest [OF Suc.prems], unfold write_http2_loop.simps bind_flat, intro okr, auto simp: okR_def dest!: same_rq Suc.IH)
qed simp

lemma write_http2_rq [same_rq]:
  "write_http2 e c w = Inr w' \<Longrightarrow> k_rq (w_core w') = k_rq (w_core w)"
  by (erule okR_dest, unfold write_http2_def bind_flat, intro okr, auto simp: okR_def dest!: same_rq)

lemma write_http1_loop_rq [same_rq]: "write_http1_loop e n c w = Inr w' \<Longrightarrow> k_rq (w_core w') = k_rq (w_core w)"
proof (induction n arbitrary: w)
  case (Suc n)
  show ?case
    by (rule okR_dest [OF Suc.prems], unfold write_http1_loop.simps bind_flat, intro okr, auto simp: okR_def dest!: same_rq Suc.IH)
qed simp

lemma write_http_rq [same_rq]:
  "write_http e c w = Inr w' \<Longrightarrow> k_rq (w_core w') = k_rq (w_core w)"
  by (erule okR_dest, unfold write_http_def bind_flat, intro okr, auto simp: okR_def dest!: same_rq)

lemma choose_connection_rq [same_rq]:
  "choose_connection t s w = Inr (c, w') \<Longrightarrow> k_rq (w_core w') = k_rq (w_core w)"
  by (erule okR_dest, unfold choose_connection_def Let_def bind_flat, intro okr, auto simp: okR_def dest!: same_rq)

lemma route_request_rq [same_rq]:
  "route_request t i fd w = Inr (mc, w') \<Longrightarrow> mc \<noteq> None \<longrightarrow> k_rq (w_core w') = k_rq (w_core w)"
  by (erule okR_dest, unfold route_request_def bind_flat, intro okr, auto simp: okR_def dest!: same_rq)

lemma submit_request_rq [same_rq]:
  "submit_request e c r w = Inr (i, w') \<Longrightarrow> k_rq (w_core w') = k_rq (w_core w)"
  by (erule okR_dest, unfold submit_request_def bind_flat, intro okr, auto simp: okR_def dest!: same_rq)

lemma submit_response_rq [same_rq]:
  "submit_response e c r w = Inr w' \<Longrightarrow> k_rq (w_core w') = k_rq (w_core w)"
  by (erule okR_dest, unfold submit_response_def bind_flat, intro okr, auto simp: okR_def dest!: same_rq)

lemma submit_error_response_rq [same_rq]:
  "submit_error_response e c r w = Inr w' \<Longrightarrow> k_rq (w_core w') = k_rq (w_core w)"
  by (erule okR_dest, unfold submit_error_response_def bind_flat, intro okr, auto simp: okR_def dest!: same_rq)

lemma forward_request_rq [same_rq]:
  "forward_request e mc r w = Inr w' \<Longrightarrow> mc \<noteq> None \<and> k_rq (w_core w') = k_rq (w_core w)"
  by (erule okR_dest, unfold forward_request_def bind_flat, intro okr, auto simp: okR_def dest!: same_rq)

lemma update_utilization_rq [same_rq]:
  "update_utilization e s d w = Inr w' \<Longrightarrow> k_rq (w_core w') = k_rq (w_core w)"
  by (erule okR_dest, unfold update_utilization_def bind_flat, intro okr, auto simp: okR_def dest!: same_rq)

lemma check_credit_transmission_rq [same_rq]:
  "check_credit_transmission e w = Inr w' \<Longrightarrow> k_rq (w_core w') = k_rq (w_core w)"
  by (erule okR_dest, unfold check_credit_transmission_def bind_flat, intro okr, auto simp: okR_def dest!: same_rq)

lemma decrement_and_check_rq [same_rq]:
  "decrement_and_check e s w = Inr w' \<Longrightarrow> k_rq (w_core w') = k_rq (w_core w)"
  by (erule okR_dest, unfold decrement_and_check_def bind_flat, intro okr, auto simp: okR_def dest!: same_rq)

lemma fanout_res_credit_management_rq [same_rq]:
  "fanout_res_credit_management i w = Inr w' \<Longrightarrow> k_rq (w_core w') = k_rq (w_core w)"
  by (erule okR_dest, unfold fanout_res_credit_management_def bind_flat, intro okr, auto simp: okR_def dest!: same_rq)

lemma response_accounting_rq [same_rq]:
  "response_accounting e t r w = Inr w' \<Longrightarrow> k_rq (w_core w') = k_rq (w_core w)"
  by (erule okR_dest, unfold response_accounting_def bind_flat, intro okr, auto simp: okR_def dest!: same_rq)

lemma submit_reply_rq [same_rq]:
  "submit_reply e t c r w = Inr w' \<Longrightarrow> k_rq (w_core w') = k_rq (w_core w)"
  by (erule okR_dest, unfold submit_reply_def bind_flat, intro okr, auto simp: okR_def dest!: same_rq)

lemma forward_one_request_rq [same_rq]:
  "forward_one_request e t fd i w = Inr w' \<Longrightarrow> k_rq (w_core w') = k_rq (w_core w)"
  by (auto simp: forward_one_request_def dest!: same_rq split: if_splits)

lemma forward_one_response_rq [same_rq]:
  "forward_one_response e t fd i w = Inr (Some w') \<Longrightarrow> k_rq (w_core w') = k_rq (w_core w)"
  by (auto simp: forward_one_response_def dest!: same_rq split: if_splits)

section \<open>The loops without a bound\<close>

text \<open>forward over the messages that are queued, in order, and the single write of an HTTP/1 connection.\<close>

fun forward_each :: "'s env \<Rightarrow> conn_type \<Rightarrow> conn_dir \<Rightarrow> (int \<times> int) list \<Rightarrow> 's world \<Rightarrow> 's world result" where
  "forward_each e t d [] w = Inr w"
| "forward_each e t d ((fd, i) # xs) w =
     (let q = k_rq (w_core w); w = w\<lparr>w_core := (w_core w)\<lparr>k_rq := q(t := (q t)(d := xs))\<rparr>\<rparr> in
      case d of
        DOWNSTREAM \<Rightarrow> bindR (forward_one_request e t fd i w) (forward_each e t d xs)
      | UPSTREAM \<Rightarrow>
          bindR (forward_one_response e t fd i w) (\<lambda>mw. case mw of None \<Rightarrow> Inr w | Some w \<Rightarrow> forward_each e t d xs w))"

definition write_http1_once :: "'s env \<Rightarrow> nat \<Rightarrow> 's world \<Rightarrow> 's world result" where
  "write_http1_once e c w =
     (if h1_rpc_message (w_conns w c) = None then Inr w
      else
        bindR (take_buffer w) (\<lambda>(b, w).
        bindR (http1_write (w_cfg w) (e_now e) b (w_conns w c) (w_core w)) (\<lambda>(b, _, x, k).
          let w = (upd_conn c x w)\<lparr>w_core := k\<rparr> in
          if buf_filled b = 0 then give_back_buffer b w else send_stream c b w)))"

lemma bindR_cong: "(\<And>x. r = Inr x \<Longrightarrow> f x = g x) \<Longrightarrow> bindR r f = bindR r g"
  by (cases r) simp_all

lemma forward_loop_each:
  "length (k_rq (w_core w) t d) < n \<Longrightarrow> forward_loop e n t d w = forward_each e t d (k_rq (w_core w) t d) w"
proof (induction "k_rq (w_core w) t d" arbitrary: w n)
  case Nil
  then show ?case by (cases n) (simp_all add: rq_empty_def)
next
  case (Cons x xs)
  obtain m where n: "n = Suc m" "length xs < m" using Cons.prems Cons.hyps(2) [symmetric] by (cases n) auto
  obtain fd i where x: "x = (fd, i)" by (cases x)
  let ?q = "k_rq (w_core w)"
  define w1 where "w1 = w\<lparr>w_core := (w_core w)\<lparr>k_rq := ?q(t := (?q t)(d := xs))\<rparr>\<rparr>"
  have q: "?q t d = (fd, i) # xs" using Cons.hyps(2) [symmetric] x by simp
  have rest: "forward_loop e m t d w2 = forward_each e t d xs w2" if "k_rq (w_core w2) = k_rq (w_core w1)" for w2
    using Cons.hyps(1) [of w2 m] that n(2) by (simp add: w1_def)
  have req: "bindR (forward_one_request e t fd i w1) (forward_loop e m t d) = bindR (forward_one_request e t fd i w1) (forward_each e t d xs)"
    by (rule bindR_cong) (rule rest, erule forward_one_request_rq)
  have res: "bindR (forward_one_response e t fd i w1) (\<lambda>mw. case mw of None \<Rightarrow> Inr w1 | Some w \<Rightarrow> forward_loop e m t d w) =
      bindR (forward_one_response e t fd i w1) (\<lambda>mw. case mw of None \<Rightarrow> Inr w1 | Some w \<Rightarrow> forward_each e t d xs w)"
    by (rule bindR_cong) (auto intro!: rest dest: forward_one_response_rq split: option.split)
  have "forward_loop e n t d w = (case d of
        DOWNSTREAM \<Rightarrow> bindR (forward_one_request e t fd i w1) (forward_loop e m t d)
      | UPSTREAM \<Rightarrow> bindR (forward_one_response e t fd i w1) (\<lambda>mw. case mw of None \<Rightarrow> Inr w1 | Some w \<Rightarrow> forward_loop e m t d w))"
    using q by (cases d) (simp_all add: n(1) rq_empty_def rq_dequeue_def Let_def w1_def)
  also have "\<dots> = (case d of
        DOWNSTREAM \<Rightarrow> bindR (forward_one_request e t fd i w1) (forward_each e t d xs)
      | UPSTREAM \<Rightarrow> bindR (forward_one_response e t fd i w1) (\<lambda>mw. case mw of None \<Rightarrow> Inr w1 | Some w \<Rightarrow> forward_each e t d xs w))"
    unfolding req res ..
  also have "\<dots> = forward_each e t d ((fd, i) # xs) w"
    by (cases d) (simp_all add: Let_def w1_def)
  finally show ?case using q by simp
qed

text \<open>What forwarding does to the queues.\<close>

lemma forward_each_queues:
  "forward_each e t d xs w = Inr w' \<Longrightarrow> k_rq (w_core w) t d = xs \<Longrightarrow>
     \<exists>ys. k_rq (w_core w') = (k_rq (w_core w))(t := (k_rq (w_core w) t)(d := ys)) \<and> (\<exists>zs. xs = zs @ ys) \<and>
       (ys = [] \<or> d = UPSTREAM \<and> (\<exists>l. map_of (w_listeners w') t = Some l \<and> listener_no_connections l))"
proof (induction xs arbitrary: w)
  case Nil
  then have "k_rq (w_core w') = (k_rq (w_core w))(t := (k_rq (w_core w) t)(d := []))" by (simp add: fun_eq_iff)
  then show ?case by blast
next
  case (Cons x xs)
  obtain fd i where x: "x = (fd, i)" by (cases x)
  let ?q = "k_rq (w_core w)"
  define w1 where "w1 = w\<lparr>w_core := (w_core w)\<lparr>k_rq := ?q(t := (?q t)(d := xs))\<rparr>\<rparr>"
  have q1: "k_rq (w_core w1) = ?q(t := (?q t)(d := xs))" by (simp add: w1_def)
  have step: ?case if "forward_each e t d xs w2 = Inr w'" "k_rq (w_core w2) = k_rq (w_core w1)" for w2
  proof -
    note st = that
    have "k_rq (w_core w2) t d = xs" using st(2) q1 by simp
    then obtain ys where "k_rq (w_core w') = (k_rq (w_core w2))(t := (k_rq (w_core w2) t)(d := ys))" "\<exists>zs. xs = zs @ ys"
        "ys = [] \<or> d = UPSTREAM \<and> (\<exists>l. map_of (w_listeners w') t = Some l \<and> listener_no_connections l)"
      using Cons.IH [OF st(1)] by blast
    then show ?thesis using st(2) q1 by (intro exI [of _ ys]) (auto simp: fun_eq_iff intro: exI [of _ "x # zs" for zs])
  qed
  show ?case
  proof (cases d)
    case DOWNSTREAM
    then obtain w2 where "forward_one_request e t fd i w1 = Inr w2" "forward_each e t d xs w2 = Inr w'"
      using Cons.prems(1) x by (auto simp: w1_def Let_def)
    then show ?thesis using step forward_one_request_rq by blast
  next
    case UPSTREAM
    have "bindR (forward_one_response e t fd i w1) (\<lambda>mw. case mw of None \<Rightarrow> Inr w1 | Some w \<Rightarrow> forward_each e t d xs w) = Inr w'"
      using Cons.prems(1) unfolding w1_def UPSTREAM by (simp add: x Let_def)
    then obtain mw where m: "forward_one_response e t fd i w1 = Inr mw"
        "(case mw of None \<Rightarrow> Inr w1 | Some w2 \<Rightarrow> forward_each e t d xs w2) = Inr w'"
      by auto
    show ?thesis
    proof (cases mw)
      case None
      then have "\<exists>l. map_of (w_listeners w1) t = Some l \<and> listener_no_connections l"
        using m(1) by (auto simp: forward_one_response_def split: if_splits)
      moreover have "w' = w1" using m(2) None by simp
      moreover have "x # xs = [x] @ xs" by simp
      ultimately show ?thesis using q1 UPSTREAM by blast
    next
      case (Some w2)
      then have "forward_one_response e t fd i w1 = Inr (Some w2)" "forward_each e t d xs w2 = Inr w'" using m by simp_all
      then show ?thesis using step forward_one_response_rq by blast
    qed
  qed
qed

lemma write_http1_loop_once:
  assumes "c_http (w_conns w c) = HTTP1" "2 \<le> n"
  shows "write_http1_loop e n c w = write_http1_once e c w"
proof -
  obtain m where n: "n = Suc (Suc m)" using assms(2) by (metis Suc_le_D numeral_2_eq_2 Suc_le_mono)
  have stop: "write_http1_loop e (Suc m) c w2 = Inr w2" if "c_http (w_conns w2 c) = HTTP1" "h1_rpc_message (w_conns w2 c) = None" for w2
    using that by (simp add: want_write_def http1_want_write_def)
  have finish: "bindR (send_stream c b2 ((upd_conn c x w2)\<lparr>w_core := k\<rparr>)) (write_http1_loop e (Suc m) c) = send_stream c b2 ((upd_conn c x w2)\<lparr>w_core := k\<rparr>)"
    if "http1_write cfg now b (w_conns w2 c) k0 = Inr (b2, l, x, k)" "c_http (w_conns w2 c) = HTTP1" for cfg now b k0 b2 l x k w2
  proof -
    have "h1_rpc_message x = None \<and> c_http x = c_http (w_conns w2 c)"
      using that(1) by (auto simp: http1_write_def Let_def split: option.splits conn_dir.splits if_splits)
    moreover have "w_conns w3 c = x" if "send_stream c b2 ((upd_conn c x w2)\<lparr>w_core := k\<rparr>) = Inr w3" for w3
      using with_user_data_core [OF that [unfolded send_stream_def]] by (simp add: upd_conn_def)
    ultimately have "write_http1_loop e (Suc m) c w3 = Inr w3" if "send_stream c b2 ((upd_conn c x w2)\<lparr>w_core := k\<rparr>) = Inr w3" for w3
      using stop [of w3] that \<open>c_http (w_conns w2 c) = HTTP1\<close> by simp
    then show ?thesis by (cases "send_stream c b2 ((upd_conn c x w2)\<lparr>w_core := k\<rparr>)") simp_all
  qed
  show ?thesis
    unfolding n write_http1_loop.simps(2) [of e "Suc m"] write_http1_once_def
    using assms(1) by (auto simp: want_write_def http1_want_write_def Let_def finish take_buffer_def intro!: bindR_cong split: if_splits)
qed

section \<open>Properties\<close>

text \<open>
  C5: forwarding ends. With more rounds than queued messages the loop of \<open>forward\<close> is exactly one pass over
  the queue as it was, without any bound, since no step of it queues a message. When it returns, no other queue
  has changed and its own queue is empty, or the loop has stopped at a response for a listener without
  connections, and then what is left is the tail of the queue.
\<close>

theorem forward_ends:
  assumes "length (k_rq (w_core w) t d) < n"
  shows "forward_loop e n t d w = forward_each e t d (k_rq (w_core w) t d) w \<and>
    (\<forall>w'. forward_loop e n t d w = Inr w' \<longrightarrow>
      (\<forall>t' d'. (t', d') \<noteq> (t, d) \<longrightarrow> k_rq (w_core w') t' d' = k_rq (w_core w) t' d') \<and>
      (\<exists>zs. k_rq (w_core w) t d = zs @ k_rq (w_core w') t d) \<and>
      (k_rq (w_core w') t d = [] \<or>
       d = UPSTREAM \<and> (\<exists>l. map_of (w_listeners w') t = Some l \<and> listener_no_connections l)))"
proof (intro conjI allI impI)
  show eq: "forward_loop e n t d w = forward_each e t d (k_rq (w_core w) t d) w" by (rule forward_loop_each [OF assms])
  fix w'
  assume "forward_loop e n t d w = Inr w'"
  then obtain ys where ys: "k_rq (w_core w') = (k_rq (w_core w))(t := (k_rq (w_core w) t)(d := ys))" "\<exists>zs. k_rq (w_core w) t d = zs @ ys"
      "ys = [] \<or> d = UPSTREAM \<and> (\<exists>l. map_of (w_listeners w') t = Some l \<and> listener_no_connections l)"
    using forward_each_queues [OF _ refl] eq by fastforce
  show "k_rq (w_core w') t' d' = k_rq (w_core w) t' d'" if "(t', d') \<noteq> (t, d)" for t' d' using that ys(1) by auto
  show "\<exists>zs. k_rq (w_core w) t d = zs @ k_rq (w_core w') t d"
    "k_rq (w_core w') t d = [] \<or> d = UPSTREAM \<and> (\<exists>l. map_of (w_listeners w') t = Some l \<and> listener_no_connections l)"
    using ys by simp_all
qed

text \<open>Two responses for a listener without connections: the first one is lost, the second one waits.\<close>

definition two_responses :: "unit world" where
  "two_responses = ready_world\<lparr>
     w_listeners := [(EGRESS, \<lparr>l_fd = 3, l_port = 80, l_conns = [], l_type = EGRESS\<rparr>)],
     w_core := (w_core ready_world)\<lparr>k_rq := (\<lambda>t d. if t = EGRESS \<and> d = UPSTREAM then [(8, 1), (8, 3)] else [])\<rparr>\<rparr>"

theorem forward_ends_witness:
  "\<exists>w'. forward_loop server_env 3 EGRESS UPSTREAM two_responses = Inr w' \<and> k_rq (w_core w') EGRESS UPSTREAM = [(8, 3)]"
proof -
  have q: "k_rq (w_core two_responses) EGRESS UPSTREAM = [(8, 1), (8, 3)]" by (simp add: two_responses_def)
  then have "forward_loop server_env 3 EGRESS UPSTREAM two_responses =
      forward_each server_env EGRESS UPSTREAM [(8, 1), (8, 3)] two_responses"
    using forward_ends [of two_responses EGRESS UPSTREAM 3 server_env] by simp
  then show ?thesis
    by (simp add: Let_def two_responses_def forward_one_response_def listener_no_connections_def)
qed

text \<open>
  C8: writing to an HTTP/1 connection ends: with a bound of two or more, the loop takes at most one buffer and
  makes at most one write, whatever the bound, and a connection that was written wants no further write.
\<close>

theorem http1_write_ends:
  assumes "c_http (w_conns w c) = HTTP1" and "2 \<le> n"
  shows "write_http1_loop e n c w = write_http1_once e c w \<and>
    (\<forall>w'. write_http1_loop e n c w = Inr w' \<longrightarrow> \<not> want_write e (w_conns w' c))"
proof -
  have "\<not> want_write e (w_conns w' c)" if "write_http1_once e c w = Inr w'" for w'
  proof -
    have "c_http (w_conns w' c) = HTTP1 \<and> h1_rpc_message (w_conns w' c) = None"
      using that assms(1)
      by (auto simp: write_http1_once_def take_buffer_def give_back_buffer_def send_stream_def upd_conn_def http1_write_def Let_def
          dest!: with_user_data_core split: if_splits option.splits conn_dir.splits)
    then show ?thesis by (simp add: want_write_def http1_want_write_def)
  qed
  then show ?thesis using write_http1_loop_once [OF assms] by simp
qed

theorem http1_write_ends_witness:
  "write_http1_loop server_env 2 0 ready_world = Inr ready_world"
  using http1_write_ends [of ready_world 0 2 server_env]
  by (simp add: ready_world_def new_world_def closed_conn_def write_http1_once_def)

end
