(* ===== verification/Fanout_Correct.thy ===== *)
theory Fanout_Correct
  imports Sidecar_Example
begin

text \<open>
  The accounting of responses from downstream services (State::fanout_res_credit_management): while a request
  waits for its branches the local service is not busy with it, and it becomes busy again once, at the first
  response of a parallel fan-out.
\<close>

section \<open>One response\<close>

lemma upd_w_msg_simps [simp]:
  "w_cfg (upd_w_msg r f w) = w_cfg w" "w_cq (upd_w_msg r f w) = w_cq w" "k_mapper (w_core (upd_w_msg r f w)) = k_mapper (w_core w)"
  "w_msg (upd_w_msg r f w) q = (if q = r then f (w_msg w q) else w_msg w q)"
  by (simp_all add: upd_w_msg_def upd_msg_def w_msg_def)

text \<open>The request \<open>ing\<close> behind the id \<open>i\<close>, its entry of the mapping, and a credit queue that knows its service.\<close>

definition awaits :: "string set \<Rightarrow> int \<Rightarrow> nat \<Rightarrow> mapping_info \<Rightarrow> 's world \<Rightarrow> bool" where
  "awaits eps i ing info w \<longleftrightarrow>
     get_ingress_rpc (k_mapper (w_core w)) i = Inr ing \<and> map_of (mapping (w_cfg w)) (m_service (w_msg w ing)) = Some info \<and>
     cq_inv eps (w_cq w) \<and> m_service (w_msg w ing) \<in> eps"

text \<open>How often the active requests of a service are counted between two states.\<close>

definition counted :: "string \<Rightarrow> int \<Rightarrow> 's world \<Rightarrow> 's world \<Rightarrow> bool" where
  "counted service d w w' \<longleftrightarrow>
     cq_in_flight (w_cq w') = cq_in_flight (w_cq w) + d \<and>
     val (cq_per_endpoint (w_cq w')) = (val (cq_per_endpoint (w_cq w)))(service := val (cq_per_endpoint (w_cq w)) service + d)"

lemma counted_trans: "counted s d w w1 \<Longrightarrow> counted s d' w1 w2 \<Longrightarrow> counted s (d + d') w w2"
  by (auto simp: counted_def fun_eq_iff)

lemma response_step:
  assumes "awaits eps i ing info w"
  shows "\<exists>w'. fanout_res_credit_management i w = Inr w' \<and> awaits eps i ing info w' \<and>
    m_service (w_msg w' ing) = m_service (w_msg w ing) \<and>
    (if value_or (mi_pfanout info) False
     then pfanout_res (w_msg w' ing) = pfanout_res (w_msg w ing) + 1 \<and>
       counted (m_service (w_msg w ing)) (if pfanout_res (w_msg w ing) + 1 > 1 then 0 else 1) w w'
     else pfanout_res (w_msg w' ing) = pfanout_res (w_msg w ing) \<and> counted (m_service (w_msg w ing)) 1 w w')"
proof -
  let ?s = "m_service (w_msg w ing)"
  have a: "get_ingress_rpc (k_mapper (w_core w)) i = Inr ing" "map_of (mapping (w_cfg w)) ?s = Some info" "cq_inv eps (w_cq w)" "?s \<in> eps"
    using assms by (simp_all add: awaits_def)
  from cq_increment_spec [OF a(3,4)] obtain f where
    f: "cq_increment_in_flight (w_cq w) ?s = Inr ((w_cq w)\<lparr>cq_per_endpoint := f, cq_in_flight := cq_in_flight (w_cq w) + 1\<rparr>)"
      "cq_inv eps ((w_cq w)\<lparr>cq_per_endpoint := f, cq_in_flight := cq_in_flight (w_cq w) + 1\<rparr>)"
      "val f = (val (cq_per_endpoint (w_cq w)))(?s := val (cq_per_endpoint (w_cq w)) ?s + 1)" .
  show ?thesis
    using a f by (auto simp: fanout_res_credit_management_def Let_def awaits_def counted_def w_msg_def upd_w_msg_def upd_msg_def)
qed

section \<open>All responses\<close>

lemma parallel_responses:
  assumes "awaits eps i ing info w" "value_or (mi_pfanout info) False" "unat (pfanout_res (w_msg w ing)) + n \<le> 255"
  shows "\<exists>w'. repeatR n (fanout_res_credit_management i) w = Inr w' \<and> awaits eps i ing info w' \<and>
    unat (pfanout_res (w_msg w' ing)) = unat (pfanout_res (w_msg w ing)) + n \<and> m_service (w_msg w' ing) = m_service (w_msg w ing) \<and>
    counted (m_service (w_msg w ing)) (if pfanout_res (w_msg w ing) = 0 \<and> 0 < n then 1 else 0) w w'"
  using assms
proof (induction n arbitrary: w)
  case 0
  then show ?case by (simp add: counted_def)
next
  case (Suc n)
  let ?p = "pfanout_res (w_msg w ing)"
  have p: "unat (?p + 1) = unat ?p + 1" using unat_add_lem [of ?p 1] Suc.prems(3) by simp
  from response_step [OF Suc.prems(1)] obtain w1 where w1: "fanout_res_credit_management i w = Inr w1" "awaits eps i ing info w1"
      "m_service (w_msg w1 ing) = m_service (w_msg w ing)" "pfanout_res (w_msg w1 ing) = ?p + 1"
      "counted (m_service (w_msg w ing)) (if ?p + 1 > 1 then 0 else 1) w w1"
    using Suc.prems(2) by auto
  have first: "\<not> ?p + 1 > 1 \<longleftrightarrow> ?p = 0" and later: "?p + 1 \<noteq> 0"
    using p by (auto simp: word_less_nat_alt unat_eq_zero [symmetric])
  obtain w2 where w2: "repeatR n (fanout_res_credit_management i) w1 = Inr w2" "awaits eps i ing info w2"
      "unat (pfanout_res (w_msg w2 ing)) = unat (?p + 1) + n" "m_service (w_msg w2 ing) = m_service (w_msg w ing)" "counted (m_service (w_msg w ing)) 0 w1 w2"
    using Suc.IH [OF w1(2) Suc.prems(2)] Suc.prems(3) p w1(3,4) later by auto
  show ?case using w1(1) w2 p counted_trans [OF w1(5) w2(5)] first by (auto split: if_splits)
qed

lemma single_responses:
  assumes "awaits eps i ing info w" "\<not> value_or (mi_pfanout info) False"
  shows "\<exists>w'. repeatR n (fanout_res_credit_management i) w = Inr w' \<and> awaits eps i ing info w' \<and>
    counted (m_service (w_msg w ing)) (int n) w w'"
  using assms
proof (induction n arbitrary: w)
  case 0
  then show ?case by (simp add: counted_def)
next
  case (Suc n)
  from response_step [OF Suc.prems(1)] obtain w1 where w1: "fanout_res_credit_management i w = Inr w1" "awaits eps i ing info w1"
      "m_service (w_msg w1 ing) = m_service (w_msg w ing)" "counted (m_service (w_msg w ing)) 1 w w1"
    using Suc.prems(2) by auto
  from Suc.IH [OF w1(2) Suc.prems(2)] obtain w2 where "repeatR n (fanout_res_credit_management i) w1 = Inr w2" "awaits eps i ing info w2"
      "counted (m_service (w_msg w ing)) (int n) w1 w2" using w1(3) by auto
  then show ?case using w1(1) counted_trans [OF w1(4)] by fastforce
qed

lemma repeatR_last: "repeatR (Suc n) f s = bindR (repeatR n f s) f"
proof (induction n arbitrary: s)
  case (Suc n)
  have "repeatR (Suc (Suc n)) f s = bindR (f s) (repeatR (Suc n) f)" by simp
  also have "\<dots> = bindR (f s) (\<lambda>s. bindR (repeatR n f s) f)" using Suc.IH by (intro arg_cong [where f = "bindR (f s)"] ext)
  finally show ?case by (simp add: bindR_assoc)
qed (simp add: bindR_def split: sum.split)

section \<open>Properties\<close>

text \<open>
  C6: the responses to the branches of one request. For a parallel fan-out of up to 255 branches all responses
  together count the request as active exactly once, at the first of them, and no other service is touched;
  otherwise each response counts it. The bound is sharp: the counter of a parallel fan-out has eight bits, and
  the 256th response counts the request a second time.
\<close>

theorem responses_counted_once:
  assumes "awaits eps i ing info w" and "pfanout_res (w_msg w ing) = 0" and "0 < n" and "n \<le> 255"
  shows "(\<exists>w'. repeatR n (fanout_res_credit_management i) w = Inr w' \<and>
      counted (m_service (w_msg w ing)) (if value_or (mi_pfanout info) False then 1 else int n) w w') \<and>
    (value_or (mi_pfanout info) False \<longrightarrow>
      (\<exists>w'. repeatR 256 (fanout_res_credit_management i) w = Inr w' \<and> counted (m_service (w_msg w ing)) 2 w w'))"
proof (intro conjI impI)
  show "\<exists>w'. repeatR n (fanout_res_credit_management i) w = Inr w' \<and>
      counted (m_service (w_msg w ing)) (if value_or (mi_pfanout info) False then 1 else int n) w w'"
    using parallel_responses [OF assms(1), of n] single_responses [OF assms(1), of n] assms(2-4) by auto
  assume p: "value_or (mi_pfanout info) False"
  obtain w1 where w1: "repeatR 255 (fanout_res_credit_management i) w = Inr w1" "awaits eps i ing info w1"
      "unat (pfanout_res (w_msg w1 ing)) = 255" "counted (m_service (w_msg w ing)) 1 w w1"
      "m_service (w_msg w1 ing) = m_service (w_msg w ing)"
    using parallel_responses [OF assms(1) p, of 255] assms(2) by auto
  have "pfanout_res (w_msg w1 ing) = 255" using w1(3) by (simp add: word_unat_eq_iff)
  then have wrap: "pfanout_res (w_msg w1 ing) + 1 = 0" by simp
  from response_step [OF w1(2)] obtain w2 where "fanout_res_credit_management i w1 = Inr w2" "counted (m_service (w_msg w ing)) 1 w1 w2"
    using p wrap w1(5) by auto
  then show "\<exists>w'. repeatR 256 (fanout_res_credit_management i) w = Inr w' \<and> counted (m_service (w_msg w ing)) 2 w w'"
    using w1(1) counted_trans [OF w1(4)] repeatR_last [of 255 "fanout_res_credit_management i" w] by fastforce
qed

text \<open>A request with a parallel fan-out to two services.\<close>

definition fanout_world :: "unit world" where
  "fanout_world = ready_world\<lparr>
     w_cfg := (w_cfg ready_world)\<lparr>mapping := [(''a'', \<lparr>mi_downstreams = [''b'', ''c''], mi_listen_port = None, mi_pfanout = Some True, mi_dfanout = None\<rparr>)]\<rparr>,
     w_core := (w_core ready_world)\<lparr>k_heap := (\<lambda>_. (new_message HTTP2 0)\<lparr>m_service := ''a''\<rparr>),
       k_mapper := (k_mapper (w_core ready_world))\<lparr>id_map := (\<lambda>t. if t = INGRESS then [(1, 0)] else [])\<rparr>\<rparr>\<rparr>"

theorem responses_counted_once_witness:
  "\<exists>w'. repeatR 2 (fanout_res_credit_management (2 ^ 32)) fanout_world = Inr w' \<and> cq_in_flight (w_cq w') = 1"
proof -
  let ?info = "\<lparr>mi_downstreams = [''b'', ''c''], mi_listen_port = None, mi_pfanout = Some True, mi_dfanout = None\<rparr>"
  have "awaits {''a''} (2 ^ 32) 0 ?info fanout_world" "pfanout_res (w_msg fanout_world 0) = 0" "cq_in_flight (w_cq fanout_world) = 0"
    using idle_queue_inv
    by (simp_all add: awaits_def fanout_world_def ready_world_def new_world_def w_msg_def get_ingress_rpc_def ingress_side_id_def
        new_message_def idle_queue_def Let_def)
  with responses_counted_once [of "{''a''}" "2 ^ 32" 0 ?info fanout_world 2] show ?thesis
    by (auto simp: counted_def)
qed

end
