(* ===== verification/Http1_Correct.thy ===== *)
theory Http1_Correct
  imports Http1 Pico_Correct Rpc_Message_Correct
begin

text \<open>
  What HTTP/1 connections write. The text of a request or response stands at the start of the buffer, byte for
  byte, and the parser of the receiving side gets from a request what the message held.
\<close>

section \<open>The text in a buffer\<close>

text \<open>\<open>s\<close> holds the text \<open>out\<close>: it is what is filled, and the counter of written bytes agrees.\<close>

definition holds_text :: "byte list \<Rightarrow> buffer \<times> nat \<Rightarrow> bool" where
  "holds_text out = (\<lambda>(b, n). n = length out \<and> buf_filled b = n \<and> take n (buf_data b) = out \<and> n \<le> length (buf_data b))"

lemma holds_text_write:
  assumes "holds_text out (b, n)" "length out + length txt \<le> length (write_at (buf_data b) n (txt @ t))"
  shows "holds_text (out @ txt) (b\<lparr>buf_data := write_at (buf_data b) n (txt @ t), buf_filled := n + length txt\<rparr>, n + length txt)"
  using assms by (auto simp: holds_text_def write_at_def)

lemma append_fmt_text:
  assumes "append_fmt txt s = Inr s'" "holds_text out s"
  shows "holds_text (out @ txt) s'"
proof -
  obtain b n where s: "s = (b, n)" by (cases s)
  have n: "n = buf_filled b" using assms(2) by (auto simp: holds_text_def s)
  have room: "n + Suc (length txt) \<le> length (buf_data b)"
      and s': "s' = (b\<lparr>buf_data := write_at (buf_data b) n (txt @ [0]), buf_filled := n + length txt\<rparr>, n + length txt)"
    using assms(1) n by (auto simp: append_fmt_def s Let_def set_filled_def split: if_splits)
  show ?thesis unfolding s'
    by (rule holds_text_write [OF assms(2) [unfolded s]]) (use room assms(2) in \<open>simp add: s holds_text_def\<close>)
qed

lemma append_headers_text:
  assumes "append_headers hs n s = Inr s'" "holds_text out s"
  shows "n \<le> length hs \<and> holds_text (out @ concat (map header_text (take n hs))) s'"
  using assms
proof (induction n arbitrary: s')
  case 0
  then show ?case by (simp add: append_headers_def)
next
  case (Suc n)
  then obtain s1 where s1: "append_headers hs n s = Inr s1" and last: "n < length hs" "append_fmt (header_text (hs ! n)) s1 = Inr s'"
    by (auto simp: append_headers_def foldR_append vec_at_eq_Inr)
  from Suc.IH [OF s1 Suc.prems(2)] have "holds_text (out @ concat (map header_text (take n hs))) s1" by simp
  from append_fmt_text [OF last(2) this] show ?case using last(1) by (simp add: take_Suc_conv_app_nth)
qed

lemma append_body_text:
  assumes "append_body d s = Inr s'" "holds_text out s" "dr_offset d \<le> length (dr_data d)"
  shows "holds_text (out @ take (dr_offset d) (dr_data d)) s'"
proof -
  obtain b n where s: "s = (b, n)" by (cases s)
  let ?txt = "take (dr_offset d) (dr_data d)"
  have len: "length ?txt = dr_offset d" using assms(3) by simp
  have n: "n = buf_filled b" "n \<le> length (buf_data b)" using assms(2) by (auto simp: holds_text_def s)
  have s': "s' = (b\<lparr>buf_data := write_at (buf_data b) n (?txt @ []), buf_filled := n + length ?txt\<rparr>, n + length ?txt)"
    using assms(1) n(1) len by (auto simp: append_body_def s set_filled_def add.commute split: if_splits)
  show ?thesis unfolding s'
    by (rule holds_text_write [OF assms(2) [unfolded s]]) (use n assms(2) in \<open>auto simp: s holds_text_def write_at_def\<close>)
qed

section \<open>The texts\<close>

definition request_text :: "rpc_message \<Rightarrow> byte list" where
  "request_text m = request_line m @ concat (map header_text (take (req_header_count m) (req_headers m))) @ [13, 10]"

definition response_text :: "rpc_message \<Rightarrow> byte list" where
  "response_text m =
     (if m_error m then error_text m
      else status_line m @ concat (map header_text (take (res_header_count m) (res_headers m))) @ [13, 10] @
        take (dr_offset (res_data m)) (dr_data (res_data m)))"

lemma http1_write_text:
  assumes "http1_write cfg now b c k = Inr (b', n, c', k')" "h1_rpc_message c = Some r" "buf_filled b = 0"
    "c_dir c = DOWNSTREAM \<Longrightarrow> dr_offset (res_data (k_heap k r)) \<le> length (dr_data (res_data (k_heap k r)))"
  shows "holds_text (case c_dir c of UPSTREAM \<Rightarrow> request_text (k_heap k r) | DOWNSTREAM \<Rightarrow> response_text (k_heap k r)) (b', n)"
proof -
  let ?m = "k_heap k r"
  have empty: "holds_text [] (b, 0)" using assms(3) by (simp add: holds_text_def)
  show ?thesis
  proof (cases "c_dir c")
    case UPSTREAM
    then obtain s1 s2 where "append_fmt (request_line ?m) (b, 0) = Inr s1"
        "append_headers (req_headers ?m) (req_header_count ?m) s1 = Inr s2" "append_fmt [13, 10] s2 = Inr (b', n)"
      using assms(1,2) by (auto simp: http1_write_def Let_def split: if_splits)
    then have "holds_text (([] @ request_line ?m) @ concat (map header_text (take (req_header_count ?m) (req_headers ?m)))) s2"
      using append_fmt_text [OF _ empty] append_headers_text by blast
    from append_fmt_text [OF \<open>append_fmt [13, 10] s2 = Inr (b', n)\<close> this] show ?thesis
      using UPSTREAM by (simp add: request_text_def)
  next
    case DOWNSTREAM
    show ?thesis
    proof (cases "m_error ?m")
      case True
      then have "append_fmt (error_text ?m) (b, 0) = Inr (b', n)"
        using assms(1,2) DOWNSTREAM by (auto simp: http1_write_def Let_def split: if_splits)
      from append_fmt_text [OF this empty] show ?thesis using DOWNSTREAM True by (simp add: response_text_def)
    next
      case False
      then obtain s1 s2 s3 where "append_fmt (status_line ?m) (b, 0) = Inr s1"
          "append_headers (res_headers ?m) (res_header_count ?m) s1 = Inr s2" "append_fmt [13, 10] s2 = Inr s3"
          "append_body (res_data ?m) s3 = Inr (b', n)"
        using assms(1,2) DOWNSTREAM by (auto simp: http1_write_def Let_def split: if_splits)
      then have "holds_text (([] @ status_line ?m) @ concat (map header_text (take (res_header_count ?m) (res_headers ?m)))) s2"
        using append_fmt_text [OF _ empty] append_headers_text by blast
      from append_body_text [OF \<open>append_body (res_data ?m) s3 = Inr (b', n)\<close>
          append_fmt_text [OF \<open>append_fmt [13, 10] s2 = Inr s3\<close> this] assms(4) [OF DOWNSTREAM]]
      show ?thesis using DOWNSTREAM False by (simp add: response_text_def)
    qed
  qed
qed

section \<open>Reading back\<close>

lemma c_text_all: "list_all (\<lambda>b. b \<noteq> 0) (take n s) \<Longrightarrow> c_text n s = take n s"
  by (simp add: c_text_def takeWhile_eq_all_conv list_all_iff)

lemma token_no_zero: "token_ok t \<Longrightarrow> list_all (\<lambda>b. b \<noteq> 0) t"
  by (auto simp: token_ok_def list_all_iff token_char_map_def)

lemma target_no_zero: "target_ok t \<Longrightarrow> list_all (\<lambda>b. b \<noteq> 0) t"
  by (auto simp: target_ok_def list_all_iff)

lemma value_no_zero: "value_ok t \<Longrightarrow> list_all (\<lambda>b. b \<noteq> 0) t"
  by (auto simp: value_ok_def list_all_iff ctl_def)

lemma header_text_pair: "header_ok (header_pair h) \<Longrightarrow> header_text h = print_header (header_pair h)"
  using c_text_all [of "hf_name_len h" "hf_name h"] c_text_all [of "hf_value_len h" "hf_value h"]
  by (simp add: header_ok_def header_pair_def header_text_def print_header_def token_no_zero value_no_zero bytes_def byte_of_def)

lemma request_text_print:
  assumes "token_ok (bytes (m_method m))" "target_ok (bytes (m_path m))" "0 \<le> m_minor m" "m_minor m < 10"
    and "list_all header_ok (map header_pair (take (req_header_count m) (req_headers m)))"
  shows "request_text m = print_request (bytes (m_method m)) (bytes (m_path m)) (nat (m_minor m))
    (map header_pair (take (req_header_count m) (req_headers m)))"
proof -
  have "c_text (length (m_method m)) (bytes (m_method m)) = bytes (m_method m)" "c_text (length (m_path m)) (bytes (m_path m)) = bytes (m_path m)"
    using c_text_all [of "length (m_method m)" "bytes (m_method m)"] c_text_all [of "length (m_path m)" "bytes (m_path m)"]
      token_no_zero [OF assms(1)] target_no_zero [OF assms(2)] by simp_all
  moreover have "show_int (m_minor m) = [48 + of_nat (nat (m_minor m))]"
    using assms(3,4) by (simp add: show_int_def dec.simps)
  moreover have "concat (map header_text (take (req_header_count m) (req_headers m))) =
      concat (map print_header (map header_pair (take (req_header_count m) (req_headers m))))"
    using assms(5) header_text_pair by (intro arg_cong [where f = concat]) (simp add: list_all_iff)
  ultimately show ?thesis
    by (simp add: request_text_def request_line_def print_request_def print_version_def print_headers_def bytes_def byte_of_def)
qed

text \<open>
  What the receiving side stores of a parsed request: its headers behind those that the message has, but for the
  rpc-local-id that a connection from the service consumes.
\<close>

definition stored_pairs :: "rpc_message \<Rightarrow> (byte list \<times> byte list) list" where
  "stored_pairs m = map header_pair (take (req_header_count m) (req_headers m))"

definition kept_pair :: "conn_type \<Rightarrow> byte list \<times> byte list \<Rightarrow> bool" where
  "kept_pair t = (\<lambda>(nm, v). \<not> (t = EGRESS \<and> mem_prefix nm ''rpc-local-id''))"

lemma store_field_pairs:
  assumes "store_field m nm n vl v True False = Inr m'"
  shows "stored_pairs m' = stored_pairs m @ [(take n nm, take v vl)] \<and> m_type m' = m_type m"
proof -
  let ?c = "req_header_count m"
  obtain h where "?c < length (req_headers m)" "header_pair h = (take n nm, take v vl)"
      "m' = m\<lparr>req_headers := (req_headers m)[?c := h], req_header_count := Suc ?c\<rparr>"
    using assms by (auto simp: store_field_def set_nth_def vec_at_eq_Inr dest: hf_set_pair split: if_splits)
  then show ?thesis by (simp add: stored_pairs_def take_Suc_conv_app_nth)
qed

lemma read_request_field_pairs:
  assumes "read_request_field g ctr m nm v = Inr (consumed, ctr', m')"
  shows "stored_pairs m' = stored_pairs m \<and> m_type m' = m_type m \<and>
    consumed = (m_type m = EGRESS \<and> mem_prefix nm ''rpc-local-id'')"
proof -
  obtain c1 m1 k c2 m2 where 1: "read_rpc_id g ctr m nm v = Inr (c1, m1)"
      and 2: "read_rpc_local_id c1 m1 nm v = Inr (k, c2, m2)"
      and 3: "if k then (consumed, ctr', m') = (True, c2, m2) else \<exists>m3. read_priority m2 nm v = Inr m3 \<and> (consumed, ctr', m') = (False, c2, m3)"
    using assms unfolding read_request_field_def by (auto split: if_splits)
  have "stored_pairs m1 = stored_pairs m \<and> m_type m1 = m_type m"
    using 1
    by (cases "get_new_local_id ctr 0") (auto simp: read_rpc_id_def stored_pairs_def Let_def split: if_splits)
  moreover have "stored_pairs m2 = stored_pairs m1 \<and> m_type m2 = m_type m1 \<and>
      k = (m_type m1 = EGRESS \<and> mem_prefix nm ''rpc-local-id'')"
    using 2
    by (auto simp: read_rpc_local_id_def stored_pairs_def Let_def case_prod_beta split: if_splits conn_type.splits)
  moreover have "stored_pairs m' = stored_pairs m2 \<and> m_type m' = m_type m2 \<and> consumed = k"
    using 3 by (auto simp: read_priority_def stored_pairs_def split: if_splits)
  ultimately show ?thesis by simp
qed

lemma add_header_field_pairs:
  assumes "add_header_field g ctr m nm (length nm) vl (length vl) True False = Inr (ctr', m')"
  shows "stored_pairs m' = stored_pairs m @ (if kept_pair (m_type m) (nm, vl) then [(nm, vl)] else []) \<and> m_type m' = m_type m"
proof -
  let ?rest = "\<lambda>m0. bindR (read_request_field g ctr m0 nm vl) (\<lambda>(consumed, c, m1).
      if consumed then Inr (c, m1)
      else bindR (store_field m1 nm (length nm) vl (length vl) True False) (\<lambda>m2. Inr (c, m2))) = Inr (ctr', m')"
  have "\<exists>m0. stored_pairs m0 = stored_pairs m \<and> m_type m0 = m_type m \<and> ?rest m0"
  proof (cases "m_http m")
    case HTTP1
    then show ?thesis using assms by (intro exI [of _ m]) (simp add: add_header_field_def http_add_header_field_def)
  next
    case HTTP2
    then obtain m0 where "read_path m nm vl (length vl) = Inr m0" "?rest m0"
      using assms by (simp add: add_header_field_def grpc_add_header_field_def) blast
    moreover from this(1) have "stored_pairs m0 = stored_pairs m \<and> m_type m0 = m_type m"
      by (auto simp: read_path_def stored_pairs_def split: if_splits)
    ultimately show ?thesis by blast
  qed
  then obtain m0 where 0: "stored_pairs m0 = stored_pairs m" "m_type m0 = m_type m" and r: "?rest m0" by blast
  obtain consumed c1 m1 where 1: "read_request_field g ctr m0 nm vl = Inr (consumed, c1, m1)"
      and 2: "if consumed then m' = m1 else store_field m1 nm (length nm) vl (length vl) True False = Inr m'"
    using r by (auto split: if_splits)
  note R = read_request_field_pairs [OF 1]
  show ?thesis
  proof (cases consumed)
    case True
    then show ?thesis using 0 2 R by (simp add: kept_pair_def)
  next
    case False
    from 2 False have "store_field m1 nm (length nm) vl (length vl) True False = Inr m'" by simp
    from store_field_pairs [OF this] show ?thesis using 0 R False by (simp add: kept_pair_def)
  qed
qed

lemma add_parsed_headers:
  assumes "foldR (add_parsed_header cfg True) (map parsed_header hl) (ctr, m) = Inr (ctr', m')"
  shows "stored_pairs m' = stored_pairs m @ filter (kept_pair (m_type m)) hl \<and> m_type m' = m_type m"
  using assms
proof (induction hl arbitrary: ctr m)
  case (Cons x hl)
  obtain nm v where x: "x = (nm, v)" by (cases x)
  have "add_parsed_header cfg True (parsed_header x) (ctr, m) =
      add_header_field (is_ingress cfg) ctr m nm (length nm) v (length v) True False"
    by (simp add: x add_parsed_header_def parsed_header_def)
  then obtain c1 m1 where 1: "add_header_field (is_ingress cfg) ctr m nm (length nm) v (length v) True False = Inr (c1, m1)"
      and 2: "foldR (add_parsed_header cfg True) (map parsed_header hl) (c1, m1) = Inr (ctr', m')"
    using Cons.prems by auto
  from add_header_field_pairs [OF 1] Cons.IH [OF 2] show ?case by (simp add: x)
qed simp

lemma set_service_fields:
  "set_service m s = Inr m' \<Longrightarrow> m_method m' = m_method m \<and> stored_pairs m' = stored_pairs m \<and>
    parse_service_from_request_target s = Some (m_service m')"
  by (auto simp: set_service_def stored_pairs_def split: option.splits if_splits)

lemma allocated_message:
  assumes "allocate_rpc h mp t s fd http = Inr (r0, h', mp')" "get_ds_rpc mp' t s fd = Inr r"
  shows "h' = h(r := (h r)\<lparr>ds_fd := fd, ds_stream_id := s, m_type := t\<rparr>)"
proof -
  obtain p' where g: "get_rpc h (mpool mp) s fd http t = Inr (r0, h', p')"
      and n: "lookup (ds_map mp t) fd s = None"
      and mp': "ds_map mp' t = table_emplace (table_open (ds_map mp t) fd) fd s r0"
    using assms(1) by (auto simp: allocate_rpc_def Let_def table_at_lookup split: sum.splits option.splits)
  have "lookup (ds_map mp' t) fd s = Some r0"
    unfolding mp' by (subst lookup_emplace) (use n open_fd in auto)
  then have "r = r0" using assms(2) by (simp add: get_ds_rpc_def table_at_lookup)
  then show ?thesis using g by (auto simp: get_rpc_def Let_def split: list.splits http_version.splits)
qed

text \<open>The message \<open>r\<close> of the new heap holds the request; everything else is as before.\<close>

definition request_received :: "conn_type \<Rightarrow> phr_request \<Rightarrow> (byte list \<times> byte list) list \<Rightarrow> heap \<Rightarrow> nat \<Rightarrow> heap \<Rightarrow> bool" where
  "request_received t q hl h r h' \<longleftrightarrow>
     m_method (h' r) = chars (pq_method q) \<and> m_path (h' r) = chars (pq_path q) \<and> m_minor (h' r) = pq_minor q \<and>
     parse_service_from_request_target (m_path (h' r)) = Some (m_service (h' r)) \<and>
     stored_pairs (h' r) = stored_pairs (h r) @ filter (kept_pair t) hl \<and> (\<forall>x. x \<noteq> r \<longrightarrow> h' x = h x)"

lemma new_http_request_fields:
  assumes "new_http_request cfg now c q k = Inr (r, k')" "pq_headers q = map parsed_header hl"
  shows "get_ds_rpc (k_mapper k') (c_type c) (h1_last_id c) (c_fd c) = Inr r \<and>
    request_received (c_type c) q hl (k_heap k) r (k_heap k') \<and> k_rq k' = k_rq k"
proof -
  obtain r0 h mp ctr m m1 where a: "allocate_rpc (k_heap k) (k_mapper k) (c_type c) (h1_last_id c) (c_fd c) HTTP1 = Inr (r0, h, mp)"
      and g: "get_ds_rpc mp (c_type c) (h1_last_id c) (c_fd c) = Inr r"
      and f: "foldR (add_parsed_header cfg True) (map parsed_header hl) (k_ctr k, (h r)\<lparr>req_rcv_time := now\<rparr>) = Inr (ctr, m)"
      and s: "set_service (m\<lparr>m_method := chars (pq_method q)\<rparr>) (chars (pq_path q)) = Inr m1"
      and k': "k' = k\<lparr>k_heap := h(r := m1\<lparr>m_path := chars (pq_path q), m_minor := pq_minor q\<rparr>), k_ctr := ctr, k_mapper := mp\<rparr>"
    using assms by (auto simp: new_http_request_def)
  note h = allocated_message [OF a g]
  have "stored_pairs m = stored_pairs (k_heap k r) @ filter (kept_pair (c_type c)) hl"
    using add_parsed_headers [OF f] by (simp add: h stored_pairs_def)
  then show ?thesis using set_service_fields [OF s] g
    by (simp add: k' h request_received_def) (simp add: stored_pairs_def)
qed

lemma frontend_reads_request:
  assumes "phr_parse_request sse HTTP1Connection_MAX_HEADERS 0 (take (buf_filled b) (buf_data b)) = Inr q" "0 < buf_filled b"
    and "pq_headers q = map parsed_header hl"
    and "is_frontend cfg" "c_dir c = DOWNSTREAM" "h1_buf c = []"
    and "http1_read sse cfg now behind b c ig k = Inr (c', ig', k')"
  shows "\<exists>r. get_ds_rpc (k_mapper k') (c_type c) (h1_last_id c + 1) (c_fd c) = Inr r \<and>
    request_received (c_type c) q hl (k_heap k) r (k_heap k') \<and>
    h1_buf c' = [] \<and> k_rq k' = rq_enqueue (k_rq k) (c_type c) DOWNSTREAM (c_fd c) (h1_last_id c + 1)"
proof -
  let ?c = "c\<lparr>h1_prev_buf_len := 0, h1_buf := take (buf_filled b) (buf_data b), h1_last_id := h1_last_id c + 1\<rparr>"
  obtain r k1 where n: "new_http_request cfg now ?c q k = Inr (r, k1)"
      and k': "k' = k1\<lparr>k_rq := rq_enqueue (k_rq k1) (c_type c) DOWNSTREAM (c_fd c) (h1_last_id c + 1)\<rparr>" "h1_buf c' = []"
    using assms by (auto simp: http1_read_def http1_read_request_def Let_def h1_reset_def split: if_splits)
  show ?thesis using new_http_request_fields [OF n assms(3)] k' by auto
qed

section \<open>Properties\<close>

text \<open>
  C7: a request that one sidecar writes to an HTTP/1 connection is read back by the next. When the method is a token,
  the path has no blanks or control characters, the minor version is one digit and the headers are well
  formed, the buffer holds exactly the printed request, the number returned is its length, the parser gets
  method, path, version and all headers back, whatever follows, and every proper prefix is incomplete. A
  frontend that reads the buffer on a fresh connection and does not refuse it stores the same method, path and
  version, the service of the path, and every header, byte for byte and in order, behind those that the message
  has (one from the pool has none); only rpc-local-id is consumed on a connection from the service. The message
  is found under the new stream id and queued under it, and no other message changes.
\<close>

theorem http1_request_roundtrip:
  assumes w: "http1_write cfg now b c k = Inr (b', n, c', k')" "h1_rpc_message c = Some r" "buf_filled b = 0" "c_dir c = UPSTREAM"
    and m: "m = k_heap k r" "hl = stored_pairs m"
    and ok: "token_ok (bytes (m_method m))" "target_ok (bytes (m_path m))" "0 \<le> m_minor m" "m_minor m < 10" "list_all header_ok hl"
      "length hl \<le> HTTP1Connection_MAX_HEADERS"
  shows "take n (buf_data b') = print_request (bytes (m_method m)) (bytes (m_path m)) (nat (m_minor m)) hl \<and> buf_filled b' = n \<and>
    phr_parse_request sse HTTP1Connection_MAX_HEADERS 0 (take n (buf_data b') @ rest) =
      Inr \<lparr>pq_consumed = int n, pq_method = bytes (m_method m), pq_path = bytes (m_path m), pq_minor = m_minor m,
           pq_headers = map parsed_header hl\<rparr> \<and>
    (j < n \<longrightarrow> phr_parse_request sse HTTP1Connection_MAX_HEADERS 0 (take j (buf_data b')) = Inl Parse_Partial) \<and>
    (is_frontend cfg2 \<and> c_dir d = DOWNSTREAM \<and> h1_buf d = [] \<and> http1_read sse cfg2 now2 behind b' d ig k2 = Inr (d', ig', k2') \<longrightarrow>
      (\<exists>r2. get_ds_rpc (k_mapper k2') (c_type d) (h1_last_id d + 1) (c_fd d) = Inr r2 \<and>
         m_method (k_heap k2' r2) = m_method m \<and> m_path (k_heap k2' r2) = m_path m \<and> m_minor (k_heap k2' r2) = m_minor m \<and>
         parse_service_from_request_target (m_path m) = Some (m_service (k_heap k2' r2)) \<and>
         stored_pairs (k_heap k2' r2) = stored_pairs (k_heap k2 r2) @ filter (kept_pair (c_type d)) hl \<and>
         (\<forall>x. x \<noteq> r2 \<longrightarrow> k_heap k2' x = k_heap k2 x) \<and>
         k_rq k2' = rq_enqueue (k_rq k2) (c_type d) DOWNSTREAM (c_fd d) (h1_last_id d + 1) \<and> h1_buf d' = []))"
proof -
  let ?P = "print_request (bytes (m_method m)) (bytes (m_path m)) (nat (m_minor m)) hl"
  let ?q = "\<lparr>pq_consumed = int n, pq_method = bytes (m_method m), pq_path = bytes (m_path m), pq_minor = m_minor m,
           pq_headers = map parsed_header hl\<rparr>"
  have "holds_text (request_text m) (b', n)" using http1_write_text [OF w(1-3)] w(4) m(1) by simp
  then have t: "take n (buf_data b') = ?P" "buf_filled b' = n" "n = length ?P" "n \<le> length (buf_data b')"
    using request_text_print [OF ok(1-4)] ok(5) m(2) by (auto simp: holds_text_def stored_pairs_def)
  have d: "nat (m_minor m) < 10" "int (nat (m_minor m)) = m_minor m" using ok(3,4) by auto
  note P = request_parsed_incrementally [OF ok(1,2) d(1) ok(5,6), of _ 0]
  have n: "0 < n" using t(3) by (simp add: print_request_def)
  have full: "phr_parse_request sse HTTP1Connection_MAX_HEADERS 0 (?P @ e) = Inr ?q" for e
    using P [of 0] n t(3) d(2) by simp
  have part: "phr_parse_request sse HTTP1Connection_MAX_HEADERS 0 (take j (buf_data b')) = Inl Parse_Partial" if "j < n"
  proof -
    have "take j (buf_data b') = take j ?P" using that t(1) by (metis min.absorb1 less_imp_le take_take)
    then show ?thesis using P [of j] that t(3) by simp
  qed
  have parsed: "phr_parse_request sse HTTP1Connection_MAX_HEADERS 0 (take (buf_filled b') (buf_data b')) = Inr ?q"
    using full [of "[]"] t(1,2) by simp
  have received: "\<exists>r2. get_ds_rpc (k_mapper k2') (c_type d) (h1_last_id d + 1) (c_fd d) = Inr r2 \<and>
         request_received (c_type d) ?q hl (k_heap k2) r2 (k_heap k2') \<and> h1_buf d' = [] \<and>
         k_rq k2' = rq_enqueue (k_rq k2) (c_type d) DOWNSTREAM (c_fd d) (h1_last_id d + 1)"
    if r: "is_frontend cfg2 \<and> c_dir d = DOWNSTREAM \<and> h1_buf d = [] \<and> http1_read sse cfg2 now2 behind b' d ig k2 = Inr (d', ig', k2')"
    using frontend_reads_request [OF parsed, of hl cfg2 d now2 behind ig k2 d' ig' k2'] r n t(2) by simp
  show ?thesis using t full part received by (auto simp: request_received_def)
qed

text \<open>A request line and one header, written to a fresh connection.\<close>

definition hello_message :: rpc_message where
  "hello_message = (new_message HTTP1 0)\<lparr>m_method := ''GET'', m_path := ''/a'', m_minor := 1,
     req_headers := [\<lparr>hf_name = bytes ''Host'', hf_name_len = 4, hf_value = bytes ''x'', hf_value_len = 1\<rparr>], req_header_count := 1\<rparr>"

definition hello_core :: core where
  "hello_core = \<lparr>k_heap = (\<lambda>_. hello_message), k_ctr = 0, k_mapper = mapper_construct \<lparr>grpc_pool = [], http_pool = []\<rparr>,
     k_rq = rq_construct,
     k_stats = \<lparr>ema_ds_service_time_us = lm_no_keys, ema_us_service_time_us = lm_no_keys, ema_us_sidecar_rtt_us = lm_no_keys,
       ema_ds_sidecar_rtt_us = lm_no_keys, tail_ds_service_time_us = lm_no_keys, tail_e2e_time_us = lm_no_keys,
       time_mean_ds_concurrency = lm_no_keys, ema_wait_to_tx_us = lm_no_keys\<rparr>\<rparr>"

definition hello_conn :: "unit conn" where
  "hello_conn =
     \<lparr>c_fd = 9, c_addr = no_addr, c_status = UP, c_host = [], c_port = 0, c_type = EGRESS, c_dir = UPSTREAM,
      c_http = HTTP1, h1_buf = [], h1_prev_buf_len = 0, h1_hdr_complete = False, h1_content_length = -1,
      h1_hdr_size = 0, h1_idle = False, h1_last_id = 1, h1_rpc_message = Some 0, h2_session = None\<rparr>"

definition hello_buffer :: buffer where
  "hello_buffer = (new_buffer 64 0)\<lparr>buf_data := bytes ''GET /a HTTP/1.1'' @ [13, 10] @ bytes ''Host: x'' @ [13, 10, 13, 10, 0] @ replicate 35 0,
     buf_filled := 28\<rparr>"

lemma hello_written:
  "\<exists>c' k'. http1_write default_config 5 (new_buffer 64 0) hello_conn hello_core = Inr (hello_buffer, 28, c', k')"
proof -
  have t: "request_line hello_message = bytes ''GET /a HTTP/1.1'' @ [13, 10]"
    "header_text \<lparr>hf_name = bytes ''Host'', hf_name_len = 4, hf_value = bytes ''x'', hf_value_len = 1\<rparr> = bytes ''Host: x'' @ [13, 10]"
    by (simp_all add: request_line_def hello_message_def header_text_def c_text_def show_int_def dec.simps bytes_def byte_of_def)
  have h: "req_headers hello_message = [\<lparr>hf_name = bytes ''Host'', hf_name_len = 4, hf_value = bytes ''x'', hf_value_len = 1\<rparr>]"
    "req_header_count hello_message = 1"
    by (simp_all add: hello_message_def)
  have l: "length (bytes s) = length s" for s by (simp add: bytes_def)
  show ?thesis
    by (simp add: http1_write_def hello_conn_def hello_core_def Let_def append_fmt_def append_headers_def t [unfolded One_nat_def] h set_filled_def new_buffer_def
        write_at_def hello_buffer_def)
qed

text \<open>A frontend with one message in its pool reads it.\<close>

definition hello_reader :: "unit conn" where
  "hello_reader = hello_conn\<lparr>c_dir := DOWNSTREAM, h1_idle := True, h1_rpc_message := None\<rparr>"

definition hello_pool :: core where
  "hello_pool = hello_core\<lparr>k_heap := (\<lambda>_. new_message HTTP1 0), k_mapper := mapper_construct \<lparr>grpc_pool = [], http_pool = [0]\<rparr>\<rparr>"

definition no_ingress :: ingress where
  "no_ingress = \<lparr>ig_cap = 10, ig_queue = [], ig_mean = tw_construct, ig_on_fly = False, ig_priority = 0,
     ig_drop_id = 0, ig_drop_fd = 0, ig_last_rpc_id = 0, ig_service = []\<rparr>"

lemma hello_read:
  "\<exists>d' ig' k'. http1_read True (default_config\<lparr>is_frontend := True\<rparr>) 9 [] hello_buffer hello_reader no_ingress hello_pool =
     Inr (d', ig', k') \<and> get_ds_rpc (k_mapper k') EGRESS 2 9 = Inr 0"
proof -
  let ?m = "new_message HTTP1 0" and ?n = "bytes ''Host''" and ?v = "bytes ''x''"
  have q: "phr_parse_request True HTTP1Connection_MAX_HEADERS 0 (take 28 (buf_data hello_buffer)) =
      Inr \<lparr>pq_consumed = 28, pq_method = bytes ''GET'', pq_path = bytes ''/a'', pq_minor = 1,
           pq_headers = [\<lparr>ph_name = Some ?n, ph_value = ?v\<rparr>]\<rparr>"
    by code_simp
  have l: "length (take 28 (buf_data hello_buffer)) = 28" "buf_filled hello_buffer = 28"
    by (simp_all add: hello_buffer_def bytes_def)
  have m: "req_headers ?m = replicate 13 new_header_field" "req_header_count ?m = 0" "m_http ?m = HTTP1"
    by (simp_all add: new_message_def Let_def MAX_HEADER_FIELD_NUMBER_def)
  obtain f where f: "hf_set new_header_field ?n 4 ?v 1 = Inr f"
    using hf_set_ok [of new_header_field 4 ?n 1 ?v]
    by (auto simp: new_header_field_def MAX_HEADER_FIELD_SIZE_def bytes_def)
  have p: "\<not> mem_prefix ?n ''rpc-id''" "\<not> mem_prefix ?n ''rpc-local-id''" "\<not> mem_prefix ?n ''priority''"
    "length ?n = 4" "length ?v = 1" by code_simp+
  have c: "take 14 ?n \<noteq> bytes ''Content-Length''" "chars (bytes ''/a'') = ''/a''"
    "parse_service_from_request_target ''/a'' = Some ''a''" by code_simp+
  have s: "add_header_field g ctr (?m\<lparr>ds_fd := 9, ds_stream_id := 2, m_type := EGRESS, req_rcv_time := 9\<rparr>) ?n 4 ?v 1 True False =
      Inr (ctr, ?m\<lparr>ds_fd := 9, ds_stream_id := 2, m_type := EGRESS, req_rcv_time := 9,
        req_headers := (replicate 13 new_header_field)[0 := f], req_header_count := 1\<rparr>)" for g ctr
    using f m p by (simp add: add_header_field_defs read_rpc_id_def read_rpc_local_id_def read_priority_def store_field_def
        set_nth_def MAX_HEADER_FIELD_NUMBER_def vec_at_def)
  have a: "add_header_field g ctr (?m\<lparr>ds_fd := 9, ds_stream_id := 2, m_type := EGRESS, req_rcv_time := 9\<rparr>)
        ?n (length ?n) ?v (length ?v) True False =
      Inr (ctr, ?m\<lparr>ds_fd := 9, ds_stream_id := 2, m_type := EGRESS, req_rcv_time := 9,
        req_headers := (replicate 13 new_header_field)[0 := f], req_header_count := 1\<rparr>)" for g ctr
    unfolding p(4,5) by (rule s)
  show ?thesis
    using l q c a
    by (simp add: http1_read_def http1_read_request_def Let_def hello_reader_def hello_conn_def hello_pool_def hello_core_def
        HTTP1Connection_BUF_SIZE_def request_content_length_def name_of_def p(4) check_ingress_target_def default_config_def
        new_http_request_def allocate_rpc_def get_rpc_def mapper_construct_def table_open_def table_at_def table_emplace_def
        get_ds_rpc_def add_parsed_header_def set_service_def del: length_map)
qed

theorem http1_request_roundtrip_witness:
  "\<exists>c' k' d' ig' k2. http1_write default_config 5 (new_buffer 64 0) hello_conn hello_core = Inr (hello_buffer, 28, c', k') \<and>
     phr_parse_request True HTTP1Connection_MAX_HEADERS 0 (take 28 (buf_data hello_buffer) @ []) =
       Inr \<lparr>pq_consumed = 28, pq_method = bytes ''GET'', pq_path = bytes ''/a'', pq_minor = 1,
            pq_headers = [\<lparr>ph_name = Some (bytes ''Host''), ph_value = bytes ''x''\<rparr>]\<rparr> \<and>
     http1_read True (default_config\<lparr>is_frontend := True\<rparr>) 9 [] hello_buffer hello_reader no_ingress hello_pool = Inr (d', ig', k2) \<and>
     m_service (k_heap k2 0) = ''a'' \<and> stored_pairs (k_heap k2 0) = [(bytes ''Host'', bytes ''x'')] \<and>
     k_rq k2 EGRESS DOWNSTREAM = [(9, 2)]"
proof -
  obtain c' k' where w: "http1_write default_config 5 (new_buffer 64 0) hello_conn hello_core = Inr (hello_buffer, 28, c', k')"
    using hello_written by blast
  obtain d' ig' k2 where r: "http1_read True (default_config\<lparr>is_frontend := True\<rparr>) 9 [] hello_buffer hello_reader no_ingress hello_pool =
      Inr (d', ig', k2)" and g: "get_ds_rpc (k_mapper k2) EGRESS 2 9 = Inr 0"
    using hello_read by blast
  have m: "hello_message = k_heap hello_core 0" by (simp add: hello_core_def)
  have hl: "stored_pairs hello_message = [(bytes ''Host'', bytes ''x'')]"
    by (simp add: stored_pairs_def hello_message_def header_pair_def bytes_def)
  have ok: "token_ok (bytes ''GET'')" "target_ok (bytes ''/a'')"
    "list_all header_ok [(bytes ''Host'', bytes ''x'')]" by code_simp+
  have f: "m_method hello_message = ''GET''" "m_path hello_message = ''/a''" "m_minor hello_message = 1"
    by (simp_all add: hello_message_def)
  have old: "stored_pairs (k_heap hello_pool 0) = []"
    by (simp add: stored_pairs_def hello_pool_def new_message_def Let_def)
  have d: "c_dir hello_reader = DOWNSTREAM" "h1_buf hello_reader = []" "c_type hello_reader = EGRESS" "h1_last_id hello_reader = 1"
    "c_fd hello_reader = 9" "k_rq hello_pool = rq_construct"
    by (simp_all add: hello_reader_def hello_conn_def hello_pool_def hello_core_def)
  have keep: "filter (kept_pair EGRESS) [(bytes ''Host'', bytes ''x'')] = [(bytes ''Host'', bytes ''x'')]"
    "parse_service_from_request_target ''/a'' = Some ''a''" by code_simp+
  note R = http1_request_roundtrip [OF w _ _ _ m hl [symmetric], of True "[]" 0 "default_config\<lparr>is_frontend := True\<rparr>"
      hello_reader 9 "[]" no_ingress hello_pool d' ig' k2]
  have "phr_parse_request True HTTP1Connection_MAX_HEADERS 0 (take 28 (buf_data hello_buffer) @ []) =
       Inr \<lparr>pq_consumed = int 28, pq_method = bytes (m_method hello_message), pq_path = bytes (m_path hello_message),
            pq_minor = m_minor hello_message, pq_headers = map parsed_header [(bytes ''Host'', bytes ''x'')]\<rparr>"
    by (rule R [THEN conjunct2, THEN conjunct2, THEN conjunct1])
      (use ok f in \<open>simp_all add: hello_conn_def HTTP1Connection_MAX_HEADERS_def\<close>)
  moreover have "is_frontend (default_config\<lparr>is_frontend := True\<rparr>)" by simp
  ultimately show ?thesis
    using w r g f d R old keep ok
    by (simp add: parsed_header_def hello_conn_def HTTP1Connection_MAX_HEADERS_def rq_enqueue_def rq_construct_def)
qed

end
