(* ===== verification/Spec2Isabelle.thy ===== *)
theory Spec2Isabelle
  imports Credit_Queue_Correct Credit_Queue_Threads Fast_Map_Correct Atomic_Map Rlp_Correct Rpc_Message_Correct Rpc_Mapper_Correct Stats_Correct
    Buffer_Manager_Correct Ingress_Correct Ring_Correct Pico_Correct Event_Loop Config_Load Tdigest_Correct Chunked_Correct
    Connection_Correct Service_Limits_Correct Sidecar_Correct Process_Correct Server_Correct Forward_Correct Fanout_Correct Http1_Correct
begin

text \<open>
  \<^bold>\<open>What the program is.\<close> Roshanfer is a sidecar: one process beside every service instance of a distributed
  application. It receives the HTTP requests meant for its service, forwards them, receives the requests its
  service makes, sends these to the sidecars of other services, and brings the responses back. What it adds is
  admission by credits: before a request may be sent downstream, a Credit Request goes to the peer as a UDP
  datagram, and the request leaves when a Credit Grant comes back; the peer hands out grants by priority within
  limits on its active requests, derived from measured latencies. A sidecar with \<^verbatim>\<open>is_ingress\<close> stands at the
  edge, queues requests from outside under an AIMD cap and drops the excess with status 503.

  \<^bold>\<open>How its parts interact.\<close> \<^verbatim>\<open>main\<close> (src/main.cc) loads the configuration, builds one \<^verbatim>\<open>SharedState\<close> with the
  credit queue and starts threads. Each thread has an \<^verbatim>\<open>EventLoop\<close> (src/event_loop.cc) that owns an io_uring
  wrapper, pools of buffers, the listeners and a \<^verbatim>\<open>State\<close> (src/state.cc). A completion selects a handler: bytes of a
  connection go through the HTTP/1 parser or nghttp2 (src/connection.cc) into message objects
  (src/rpc_message.cc), which \<^verbatim>\<open>RPCMapper\<close> finds by connection and stream and \<^verbatim>\<open>RPCQueue\<close> hands to
  \<^verbatim>\<open>State::forward\<close>; a datagram goes to \<^verbatim>\<open>State::dispatch_rlp_recv\<close>, the two sides of the credit protocol.

  \<^bold>\<open>Conventions.\<close> A class is a record of its members and a method a function from the old state to the new one; an
  operation that can stop has the type \<open>error + 'a\<close> of \<^verbatim>\<open>Prelude\<close>: \<open>Fatal\<close> for LOG(FATAL), constructors for the
  exceptions, and \<open>Undefined\<close> where C++ gives the program no meaning. A \<^verbatim>\<open>shared_ptr\<close> to a message is a reference
  into the heap of the thread, a connection one into \<open>w_conns\<close>, so that aliases see each other's changes. Bytes are
  8-bit words, hashes 64-bit words; sizes are \<open>nat\<close>, with the casts of the code written out (\<open>size_t_of\<close>, \<open>to_int32\<close>,
  \<open>of_nat\<close> into a byte). Arithmetic on 32-bit values that come from the configuration, a measurement or a peer is
  checked (\<open>as_int32\<close>, an overflow is \<open>Undefined\<close>); int32 counters that move by one are \<open>int\<close>. A float that the
  configuration may set is a \<open>floating\<close>: a real number, an infinity or NaN, with the comparisons, quotients and
  conversions of C++. Measured values are real numbers. Rounding and the sign of zero are not modelled. Each handler gets one value of the clock as an argument. Unordered maps are association lists, whose
  order stands for the unspecified one. Log output is left out, but not the conditions under which it aborts.

  \<^bold>\<open>Theories and sources.\<close> Models come first, \<^verbatim>\<open>_Correct\<close> theories hold the lemmas and properties.
  \<^item> \<^verbatim>\<open>Prelude\<close>: errors, results, checked 32-bit arithmetic, floats, bytes, shared list facts. \<^verbatim>\<open>Result_Rules\<close>: the calculus \<open>okR\<close> for what holds when an
    operation succeeds, with the collections \<open>okr\<close> and \<open>keeps\<close>.
  \<^item> \<^verbatim>\<open>Fast_Map\<close> (LocalMap of include/fast_map.hpp), \<^verbatim>\<open>Fast_Map_Correct\<close>: it refines a map with fixed keys; the
    iterator visits every key once. \<^verbatim>\<open>Atomic_Map\<close> (FastMap of the same file): its accesses by several threads.
  \<^item> \<^verbatim>\<open>Config\<close>, \<^verbatim>\<open>Config_Load\<close> (include/config.h, src/config.cc and the checks of src/main.cc): what an accepted
    configuration guarantees to the rest.
  \<^item> \<^verbatim>\<open>Credit_Queue\<close> (src/credit_queue.cc), \<^verbatim>\<open>Credit_Queue_Correct\<close>: order, limits, weights and the accounts over
    any sequence of operations. \<^verbatim>\<open>Credit_Queue_Threads\<close> (include/spinlock.hpp): the same methods as atomic steps
    under a spin lock, linearizable, and what the size outside the lock does.
  \<^item> \<^verbatim>\<open>Buffer\<close>, \<^verbatim>\<open>Buffer_Manager\<close>, \<^verbatim>\<open>Buffer_Manager_Correct\<close> (src/buffer.cc, src/buffer_manager.cc,
    include/ring_helper.hpp): buffers and UserData objects have one holder at a time, and a freed buffer comes back empty.
  \<^item> \<^verbatim>\<open>Ring\<close>, \<^verbatim>\<open>Ring_Correct\<close> (src/ring_wrapper.cc): filling and submitting entries; a datagram arrives as it was sent.
  \<^item> \<^verbatim>\<open>Rlp\<close>, \<^verbatim>\<open>Rlp_Correct\<close> (the wire format inside src/state.cc): round trips of the three kinds of messages.
  \<^item> \<^verbatim>\<open>Rpc_Message\<close>, \<^verbatim>\<open>Rpc_Message_Correct\<close>, \<^verbatim>\<open>Rpc_Queue\<close>, \<^verbatim>\<open>Rpc_Mapper\<close>, \<^verbatim>\<open>Rpc_Mapper_Correct\<close> (src/rpc_message.cc,
    src/rpc_queue.cc, src/ppm_queue.cc, src/rpc_mapper.cc): requests, their queues and tables, their life cycle.
  \<^item> \<^verbatim>\<open>Stats\<close>, \<^verbatim>\<open>Stats_Correct\<close>, \<^verbatim>\<open>Tdigest\<close>, \<^verbatim>\<open>Tdigest_Correct\<close> (src/stats.cc, include/quantile_estimator.hpp, src/tdigest.c):
    averages and quantiles stay in the range of their input; the digest stays in its array.
  \<^item> \<^verbatim>\<open>Ingress\<close>, \<^verbatim>\<open>Ingress_Correct\<close> (src/ingress.cc): admission, drops, the cap, one Credit Request at a time.
  \<^item> \<^verbatim>\<open>Pico\<close>, \<^verbatim>\<open>Pico_Correct\<close>, \<^verbatim>\<open>Chunked\<close>, \<^verbatim>\<open>Chunked_Correct\<close> (src/picohttpparser.c): parsing in pieces, both builds.
  \<^item> \<^verbatim>\<open>Connection\<close>, \<^verbatim>\<open>Connection_Correct\<close>, \<^verbatim>\<open>Http1\<close>, \<^verbatim>\<open>Http1_Correct\<close>, \<^verbatim>\<open>Http2\<close> (src/connection.cc): pools, reading and
    writing HTTP/1, and the nghttp2 callbacks. nghttp2 itself is the record of parameters \<open>nghttp2\<close>.
  \<^item> \<^verbatim>\<open>World\<close> (the record of everything a thread owns), \<^verbatim>\<open>Service_Limits\<close>, \<^verbatim>\<open>State\<close> (src/state.cc, src/listener.cc),
    \<^verbatim>\<open>Event_Loop\<close> (src/event_loop.cc and the constructors).
  \<^item> \<^verbatim>\<open>Service_Limits_Correct\<close>: the value of the derived limits and their bounds. \<^verbatim>\<open>Server_Correct\<close>: a Credit Request is answered
    or kept. \<^verbatim>\<open>Forward_Correct\<close>: the loops of forwarding end. \<^verbatim>\<open>Fanout_Correct\<close>: responses of a fan-out count once.
  \<^item> \<^verbatim>\<open>Sidecar_World\<close>, \<^verbatim>\<open>Sidecar_Messages\<close>, \<^verbatim>\<open>Sidecar_Connections\<close>, \<^verbatim>\<open>Sidecar_Handlers\<close>, \<^verbatim>\<open>Sidecar_Correct\<close>: one invariant of
    a whole thread (\<open>world_ok\<close>), kept by every handler and established by the constructors; \<^verbatim>\<open>Sidecar_Example\<close> runs a
    thread on a concrete datagram. \<^verbatim>\<open>Process_Correct\<close>: the invariant for all threads of a process.

  \<^bold>\<open>Interfaces.\<close> The locales state what a client uses of another component: \<open>keyed_cells\<close> (\<^verbatim>\<open>Fast_Map\<close>) is the
  contract of the maps with fixed keys, interpreted on LocalMap and on FastMap, and carries the credit queue and the
  statistics; \<open>fifo_family\<close> (\<^verbatim>\<open>Rpc_Queue\<close>) is the contract of the queues between the handlers. Across components the
  contracts are invariants (\<open>cq_inv\<close>, \<open>bm_inv\<close>, \<open>mapper_inv\<close>, \<open>world_ok\<close>) with one preservation lemma per operation in
  the collection \<open>keeps\<close>.

  \<^bold>\<open>Loops and bounds.\<close> Most loops are structural recursion. Loops that may not end have fuel, and running out of it is
  an error value; that it does not run out is proved where it can be: the two loops of
  \<^verbatim>\<open>CreditQueue::pop\<close> run once per priority and once per endpoint (\<open>cq_pop_correct\<close> shows that this is enough);
  \<open>forward_ends\<close> and \<open>http1_write_ends\<close> show that the queue's length, and one, bound the loops of forwarding and
  writing; the loop that collects the output of nghttp2 ends when the library has nothing more, which is not in
  this repository, so its bound \<open>e_fuel\<close> stays an argument; the search for a hash seed stops after 100000 trials, as
  in the code. The decoder of chunked bodies has a termination proof by the remaining bytes.

  \<^bold>\<open>Concurrency.\<close> A thread handles one completion after the other, so within a thread only the order of
  completions matters, and all orders are covered. Between threads \<^verbatim>\<open>SharedState\<close> and the global counter of local ids are
  shared (\<open>shared_state\<close>). Two granularities are modelled: in \<^verbatim>\<open>Credit_Queue_Threads\<close> the steps are the single reads, writes and lock operations of
  one method; in \<^verbatim>\<open>Process_Correct\<close> they are whole handlers. That a handler calls several methods and another thread
  may come in between is not resolved in the second one, nor is the data race on the counter of local ids, which has
  no lock. Memory orders weaker than those of a working lock are
  not modelled.

  \<^bold>\<open>Not modelled.\<close> System calls and their libraries: io_uring (seen as free entries and completions), sockets,
  getaddrinfo, fcntl, memory mapping; nghttp2 and yaml-cpp (parameters); glog, NanoLog and HdrHistogram (output).
  Functions that only print (\<^verbatim>\<open>type_to_str\<close>, \<^verbatim>\<open>dump_entire_state\<close> and their kind), descriptions of metrics, and
  destructors that free memory or abort. src/socket.cc is empty, and include/utils.h holds two functors that select
  overloads of the standard library.
\<close>

end
